(* ===== verification/Prelude.thy ===== *)
theory Prelude
  imports Main "HOL-Library.Word"
begin

unbundle bit_operations_syntax

text \<open>
  Shared vocabulary of the development: the machine types of the target the
  Makefile builds for (x86-64 MinGW, the LLP64 model: \<open>char\<close> is a signed byte,
  \<open>int\<close> and \<open>long\<close> have 32 bits, \<open>long long\<close> and \<open>size_t\<close> have 64), the
  conversions between them, the little-endian byte stores both the Bluetooth
  protocol and the database client use, and generic lemmas on lists.
\<close>

section \<open>Machine types\<close>

type_synonym byte = "8 word"
type_synonym u32 = "32 word"
type_synonym i32 = "32 word"
type_synonym u64 = "64 word"

text \<open>An \<open>i32\<close> is read with \<open>sint\<close>, a \<open>u32\<close> or \<open>u64\<close> with \<open>unat\<close>. A \<open>char\<close>
  promoted to \<open>int\<close> is sign-extended, an \<open>unsigned char\<close> is zero-extended.\<close>

definition char_to_int :: "byte \<Rightarrow> i32" where
  "char_to_int b = scast b"

definition uchar_to_uint :: "byte \<Rightarrow> u32" where
  "uchar_to_uint b = ucast b"

text \<open>\<open>std::string\<close> and \<open>std::vector<char>\<close> hold the same bytes; text is a list of
  \<open>char\<close>, raw data is a list of \<open>byte\<close>.\<close>

definition bytes_of :: "string \<Rightarrow> byte list" where
  "bytes_of s = map (\<lambda>c. word_of_nat (of_char c)) s"

definition string_of :: "byte list \<Rightarrow> string" where
  "string_of bs = map (\<lambda>b. char_of (unat b)) bs"

named_theorems wire_simps \<open>stores and loads of integers as bytes\<close>

lemma string_of_bytes_of [simp]: "string_of (bytes_of s) = s"
proof -
  have "char_of (unat (word_of_nat (of_char c) :: byte)) = c" for c
  proof -
    have "(of_char c :: nat) < 256" by simp
    then have "unat (word_of_nat (of_char c) :: byte) = of_char c"
      by (simp add: unat_of_nat)
    then show ?thesis by simp
  qed
  then show ?thesis by (simp add: string_of_def bytes_of_def comp_def map_idI)
qed

lemma bytes_of_string_of [simp]: "bytes_of (string_of bs) = bs"
proof -
  have "(word_of_nat (of_char (char_of (unat b) :: char)) :: byte) = b" for b :: byte
  proof -
    have "unat b < 256" using unsigned_less [where w = b and ?'a = nat] by simp
    then have "(of_char (char_of (unat b) :: char) :: nat) = unat b"
      by (simp add: of_char_of)
    then show ?thesis by simp
  qed
  then show ?thesis by (simp add: string_of_def bytes_of_def comp_def map_idI)
qed

lemma length_bytes_of [simp]: "length (bytes_of s) = length s"
  by (simp add: bytes_of_def)

lemma length_string_of [simp]: "length (string_of bs) = length bs"
  by (simp add: string_of_def)

lemma bytes_of_append [simp]: "bytes_of (s @ t) = bytes_of s @ bytes_of t"
  by (simp add: bytes_of_def)

lemma bytes_of_inject [simp]: "bytes_of s = bytes_of t \<longleftrightarrow> s = t"
  by (metis string_of_bytes_of)

text \<open>A statement about all bytes is checked on the 256 of them.\<close>

lemma byte_all: "list_all (\<lambda>n. P (word_of_int n :: byte)) [0..255] \<Longrightarrow> P b"
proof -
  assume *: "list_all (\<lambda>n. P (word_of_int n)) [0..255]"
  have "uint b < 256" using unsigned_less [where w = b and ?'a = int] by simp
  then have "uint b \<in> set [0..255]" by simp
  with * have "P (word_of_int (uint b))" unfolding list_all_iff by blast
  then show ?thesis by simp
qed

section \<open>Little-endian stores\<close>

text \<open>The bytes of a little-endian integer of \<open>n\<close> bytes, and the number they denote.
  The reinterpretation \<open>((int*)p)[0]\<close> and the macros \<open>int2store\<close>, \<open>int3store\<close>,
  \<open>uint3korr\<close> of the client library are instances.\<close>

fun le_store :: "nat \<Rightarrow> nat \<Rightarrow> byte list" where
  "le_store 0 v = []"
| "le_store (Suc n) v = word_of_nat (v mod 256) # le_store n (v div 256)"

fun le_load :: "byte list \<Rightarrow> nat" where
  "le_load [] = 0"
| "le_load (b # bs) = unat b + 256 * le_load bs"

lemma length_le_store [wire_simps, simp]: "length (le_store n v) = n"
  by (induction n arbitrary: v) auto

lemma unat_byte_mod [wire_simps]: "unat (word_of_nat (v mod 256) :: byte) = v mod 256"
  by (simp add: unat_of_nat)

lemma le_load_store [wire_simps]: "le_load (le_store n v) = v mod 256 ^ n"
proof (induction n arbitrary: v)
  case 0
  then show ?case by simp
next
  case (Suc n)
  have "v mod 256 + 256 * (v div 256 mod 256 ^ n) = v mod (256 * 256 ^ n)"
    by (simp add: mod_mult2_eq)
  then show ?case using Suc by (simp add: unat_byte_mod)
qed

lemma le_load_bound: "le_load bs < 256 ^ length bs"
proof (induction bs)
  case Nil
  then show ?case by simp
next
  case (Cons b bs)
  have "unat b \<le> 255" using unsigned_less [where w = b and ?'a = nat] by simp
  then have "unat b + 256 * le_load bs < 256 * (1 + le_load bs)" by simp
  also have "\<dots> \<le> 256 * 256 ^ length bs" using Cons.IH by (intro mult_le_mono2) simp
  finally show ?case by simp
qed

lemma le_store_load [wire_simps]: "le_store (length bs) (le_load bs) = bs"
proof (induction bs)
  case Nil
  then show ?case by simp
next
  case (Cons b bs)
  have b: "unat b < 256" using unsigned_less [where w = b and ?'a = nat] by simp
  then have "(unat b + 256 * le_load bs) div 256 = le_load bs"
    and "(unat b + 256 * le_load bs) mod 256 = unat b"
    by auto
  then show ?case using Cons.IH by simp
qed

section \<open>Lists\<close>

lemma take_append_exact [simp]: "length xs = n \<Longrightarrow> take n (xs @ ys) = xs"
  by simp

lemma drop_append_exact [simp]: "length xs = n \<Longrightarrow> drop n (xs @ ys) = ys"
  by simp

text \<open>\<open>std::vector::erase(begin() + i)\<close>.\<close>

definition erase_at :: "nat \<Rightarrow> 'a list \<Rightarrow> 'a list" where
  "erase_at i xs = take i xs @ drop (Suc i) xs"

lemma length_erase_at [simp]: "i < length xs \<Longrightarrow> length (erase_at i xs) = length xs - 1"
  by (simp add: erase_at_def)

lemma set_erase_at: "set (erase_at i xs) \<subseteq> set xs"
  by (auto simp: erase_at_def dest: in_set_takeD in_set_dropD)

lemma map_erase_at: "map f (erase_at i xs) = erase_at i (map f xs)"
  by (simp add: erase_at_def take_map drop_map)

lemma nth_erase_at:
  "i < length xs \<Longrightarrow> j < length xs - 1 \<Longrightarrow> erase_at i xs ! j = (if j < i then xs ! j else xs ! Suc j)"
  by (auto simp: erase_at_def nth_append min_def)

lemma set_erase_at_distinct:
  assumes "distinct xs" and "i < length xs"
  shows "distinct (erase_at i xs) \<and> set (erase_at i xs) = set xs - {xs ! i}"
proof -
  have "xs = take i xs @ xs ! i # drop (Suc i) xs" by (rule id_take_nth_drop [OF assms(2)])
  with assms(1) have "distinct (take i xs @ xs ! i # drop (Suc i) xs)" by metis
  moreover have "set xs = set (take i xs @ xs ! i # drop (Suc i) xs)"
    using id_take_nth_drop [OF assms(2)] by metis
  ultimately show ?thesis by (auto simp: erase_at_def)
qed

section \<open>Text\<close>

text \<open>Decimal notation, as \<open>printf("%u")\<close> and \<open>std::to_string\<close> write it, and its reader
  \<open>atoi\<close>, which skips white space, takes a sign and stops at the first character that is
  not a digit.\<close>

definition digit :: "nat \<Rightarrow> char" where
  "digit d = char_of (48 + d)"

definition is_digit :: "char \<Rightarrow> bool" where
  "is_digit c \<longleftrightarrow> 48 \<le> (of_char c :: nat) \<and> (of_char c :: nat) \<le> 57"

definition digit_val :: "char \<Rightarrow> nat" where
  "digit_val c = of_char c - 48"

fun dec_of_nat :: "nat \<Rightarrow> string" where
  "dec_of_nat n = (if n < 10 then [digit n] else dec_of_nat (n div 10) @ [digit (n mod 10)])"

declare dec_of_nat.simps [simp del]

definition dec_of_int :: "int \<Rightarrow> string" where
  "dec_of_int i = (if i < 0 then CHR ''-'' # dec_of_nat (nat (- i)) else dec_of_nat (nat i))"

definition digits_val :: "string \<Rightarrow> nat" where
  "digits_val s = foldl (\<lambda>n c. 10 * n + digit_val c) 0 (takeWhile is_digit s)"

definition is_space :: "char \<Rightarrow> bool" where
  "is_space c \<longleftrightarrow> c = CHR '' '' \<or> (9 \<le> (of_char c :: nat) \<and> (of_char c :: nat) \<le> 13)"

definition atoi :: "string \<Rightarrow> int" where
  "atoi s = (case dropWhile is_space s of
       [] \<Rightarrow> 0
     | c # r \<Rightarrow> if c = CHR ''-'' then - int (digits_val r)
                else if c = CHR ''+'' then int (digits_val r)
                else int (digits_val (c # r)))"

lemma is_digit_digit [simp]: "d < 10 \<Longrightarrow> is_digit (digit d)"
  by (simp add: is_digit_def digit_def of_char_of)

lemma digit_val_digit [simp]: "d < 10 \<Longrightarrow> digit_val (digit d) = d"
  by (simp add: digit_val_def digit_def of_char_of)

lemma dec_of_nat_digits: "c \<in> set (dec_of_nat n) \<Longrightarrow> is_digit c"
  by (induction n rule: dec_of_nat.induct) (subst (asm) dec_of_nat.simps, auto split: if_splits)

lemma dec_of_nat_not_Nil [simp]: "dec_of_nat n \<noteq> []"
  by (subst dec_of_nat.simps) simp

lemma digits_val_dec [simp]: "digits_val (dec_of_nat n) = n"
proof -
  have "foldl (\<lambda>n c. 10 * n + digit_val c) 0 (dec_of_nat n) = n"
    by (induction n rule: dec_of_nat.induct) (subst dec_of_nat.simps, auto)
  moreover have "takeWhile is_digit (dec_of_nat n) = dec_of_nat n"
    by (simp add: takeWhile_eq_all_conv dec_of_nat_digits)
  ultimately show ?thesis unfolding digits_val_def by (simp only:)
qed

lemma dec_of_nat_inject [simp]: "dec_of_nat m = dec_of_nat n \<longleftrightarrow> m = n"
  by (metis digits_val_dec)

lemma digit_not_sign: "is_digit c \<Longrightarrow> c \<noteq> CHR ''-'' \<and> c \<noteq> CHR ''+'' \<and> \<not> is_space c"
  by (auto simp: is_digit_def is_space_def)

lemma atoi_dec [simp]: "atoi (dec_of_nat n) = int n"
proof -
  obtain c r where cr: "dec_of_nat n = c # r" by (cases "dec_of_nat n") auto
  then have "is_digit c" by (metis dec_of_nat_digits list.set_intros(1))
  then have "\<not> is_space c" "c \<noteq> CHR ''-''" "c \<noteq> CHR ''+''" by (auto dest: digit_not_sign)
  then have "atoi (dec_of_nat n) = int (digits_val (dec_of_nat n))"
    unfolding cr by (simp add: atoi_def)
  then show ?thesis by simp
qed

lemma atoi_dec_of_int [simp]: "atoi (dec_of_int i) = i"
  by (simp add: dec_of_int_def) (simp add: atoi_def is_space_def)

lemma dec_of_int_inject [simp]: "dec_of_int i = dec_of_int j \<longleftrightarrow> i = j"
  by (metis atoi_dec_of_int)

text \<open>\<open>strcasecmp(a, b) == 0\<close> in the C locale.\<close>

definition tolower_c :: "char \<Rightarrow> char" where
  "tolower_c c = (let n = of_char c :: nat in if 65 \<le> n \<and> n \<le> 90 then char_of (n + 32) else c)"

definition strcaseeq :: "string \<Rightarrow> string \<Rightarrow> bool" where
  "strcaseeq a b \<longleftrightarrow> map tolower_c a = map tolower_c b"

lemma strcaseeq_refl [simp]: "strcaseeq a a"
  by (simp add: strcaseeq_def)

lemma tolower_digit: "is_digit c \<Longrightarrow> tolower_c c = c"
  by (simp add: is_digit_def tolower_c_def Let_def)

lemma strcaseeq_dec: "strcaseeq (dec_of_nat m) (dec_of_nat n) \<longleftrightarrow> m = n"
proof -
  have "map tolower_c (dec_of_nat k) = dec_of_nat k" for k
    by (intro map_idI) (simp add: dec_of_nat_digits tolower_digit)
  then show ?thesis by (simp add: strcaseeq_def)
qed

end
