(* ===== verification/Bt_Socket.thy ===== *)
theory Bt_Socket
  imports Win_Error "HOL-Library.Monad_Syntax"
begin

text \<open>
  \<open>bluetooth/btTabObj.hpp\<close>: one connected tablet's socket, and the communication
  primitives on it. Winsock is the environment. What a call of \<open>recv\<close> or \<open>send\<close>
  answers, and what \<open>GetTime()\<close> reads, is a script: one \<open>poll\<close> for each \<open>recv\<close>, one
  \<open>send_ev\<close> for each \<open>send\<close>. A function whose script runs out is still waiting; its
  result is then \<open>None\<close>, otherwise \<open>Some\<close> of the value it returns, or the exception it throws
  (\<open>Inl\<close>), and the socket after it. Times are milliseconds.
\<close>

section \<open>Exceptions\<close>

datatype exn = Std_out_of_range

section \<open>The environment: a socket with its scripts\<close>

text \<open>\<open>recv\<close> answers with bytes (none of them for a graceful close) or with
  \<open>SOCKET_ERROR\<close> and the code of \<open>WSAGetLastError()\<close>. \<open>clk_upd\<close> and \<open>clk_chk\<close> are the
  readings of \<open>GetTime()\<close> in the same turn of the loop.\<close>

datatype recv_ev = RecvBytes "byte list" | RecvErr int

record poll =
  ev :: recv_ev
  clk_upd :: int
  clk_chk :: int

datatype send_ev = SendTaken nat | SendErr int

record sock =
  rx :: "poll list"
  tx :: "send_ev list"
  sent :: "byte list"

definition WSAEWOULDBLOCK :: int where "WSAEWOULDBLOCK = 10035"
definition WSAEINPROGRESS :: int where "WSAEINPROGRESS = 10036"

text \<open>A \<open>recv\<close> for at most \<open>n\<close> bytes takes what fits; the rest stays for the next call.\<close>

definition take_recv :: "nat \<Rightarrow> byte list \<Rightarrow> poll \<Rightarrow> poll list \<Rightarrow> byte list \<times> poll list" where
  "take_recv n bs p ps =
     (take n bs, if drop n bs = [] then ps else p\<lparr>ev := RecvBytes (drop n bs)\<rparr> # ps)"

fun poll_size :: "poll list \<Rightarrow> nat" where
  "poll_size [] = 0"
| "poll_size (p # ps) =
     (case ev p of RecvBytes bs \<Rightarrow> Suc (length bs) | RecvErr e \<Rightarrow> 1) + poll_size ps"

lemma take_recv_size [termination_simp]:
  "0 < n \<Longrightarrow> bs \<noteq> [] \<Longrightarrow> ev p = RecvBytes bs \<Longrightarrow>
   poll_size (snd (take_recv n bs p ps)) < poll_size (p # ps)"
  by (cases bs) (auto simp: take_recv_def)

section \<open>Constants of the protocol\<close>

definition BT_EXPECTED_DATA_INITIAL :: nat where "BT_EXPECTED_DATA_INITIAL = 1"
definition BT_EXPECTED_DATA_READSIZE :: nat where "BT_EXPECTED_DATA_READSIZE = 4"
definition BT_TAB_ACK_SIZE :: nat where "BT_TAB_ACK_SIZE = 3"
definition BT_TAB_NACK_SIZE :: nat where "BT_TAB_NACK_SIZE = 3"

text \<open>The transaction codes, an \<open>enum : char\<close>; a byte received is cast to it unchecked.\<close>

definition TRANS_SOCKET_ERROR :: byte where "TRANS_SOCKET_ERROR = -128"
definition TRANS_SEND_TAB_UNRECVD_MATCHES :: byte where "TRANS_SEND_TAB_UNRECVD_MATCHES = -3"
definition TRANS_SEND_LOCAL_DB :: byte where "TRANS_SEND_LOCAL_DB = -2"
definition TRANS_SEND_LOCAL_DB_HASH :: byte where "TRANS_SEND_LOCAL_DB_HASH = -1"
definition TRANS_CLOSE_SOCKET :: byte where "TRANS_CLOSE_SOCKET = 0"
definition TRANS_RECV_MATCH :: byte where "TRANS_RECV_MATCH = 1"
definition TRANS_RECV_TABLET_INFO :: byte where "TRANS_RECV_TABLET_INFO = 2"
definition TRANS_RECV_TAB_MATCH_LIST :: byte where "TRANS_RECV_TAB_MATCH_LIST = 3"

lemmas trans_codes =
  TRANS_SOCKET_ERROR_def TRANS_SEND_TAB_UNRECVD_MATCHES_def TRANS_SEND_LOCAL_DB_def
  TRANS_SEND_LOCAL_DB_HASH_def TRANS_CLOSE_SOCKET_def TRANS_RECV_MATCH_def
  TRANS_RECV_TABLET_INFO_def TRANS_RECV_TAB_MATCH_LIST_def

section \<open>Reading and writing the socket\<close>

text \<open>\<open>invertEndianness\<close>: copies the buffer (the copy may fail), then writes it back
  from the far end.\<close>

definition invertEndianness :: "(nat \<Rightarrow> bool) \<Rightarrow> byte list \<Rightarrow> bool \<times> byte list" where
  "invertEndianness malloc ptr =
     (if \<not> malloc (length ptr) then (False, ptr)
      else (True, map (\<lambda>i. ptr ! (length ptr - i - 1)) [0..<length ptr]))"

text \<open>A read that brings no data fails (the buffer is freed, NULL is returned), or throws
  \<open>std::out_of_range\<close>: the message about an error that ends the read looks its name up.\<close>

datatype read_end = Failed | Threw

text \<open>The loop of \<open>readAllSocketData\<close>; \<open>acc\<close> is the filled part of the buffer, \<open>Inr\<close> the filled
  buffer.\<close>

function read_loop :: "nat \<Rightarrow> byte list \<Rightarrow> int \<Rightarrow> poll list
    \<Rightarrow> ((read_end + byte list) \<times> poll list) option" where
  "read_loop n acc timeoutTime ps =
     (if length acc \<ge> n then Some (Inr acc, ps)
      else case ps of
        [] \<Rightarrow> None
      | p # ps' \<Rightarrow>
          (case ev p of
             RecvBytes bs \<Rightarrow>
               (let (got, rest) = take_recv (n - length acc) bs p ps';
                    deadline = (if got \<noteq> [] then clk_upd p + 15000 else timeoutTime)
                in if clk_chk p > deadline then Some (Inl Failed, rest)
                   else if got = [] then Some (Inl Failed, rest)
                   else read_loop n (acc @ got) deadline rest)
           | RecvErr currError \<Rightarrow>
               (if clk_chk p > timeoutTime then Some (Inl Failed, ps')
                else if currError = WSAEWOULDBLOCK \<or> currError = WSAEINPROGRESS
                then read_loop n acc timeoutTime ps'
                else if \<not> error_known currError then Some (Inl Threw, ps')
                else Some (Inl Failed, ps'))))"
  by pat_completeness auto
termination
proof (relation "measure (\<lambda>(n, acc, t, ps). poll_size ps)", goal_cases)
  case 1
  then show ?case by simp
next
  case (2 n acc t ps p ps' bs x got rest deadline)
  then have "rest = snd (take_recv (n - length acc) bs p ps')" and "bs \<noteq> []"
    by (auto simp: take_recv_def)
  with 2 show ?case
    using take_recv_size [of "n - length acc" bs p ps'] by simp
next
  case (3 n acc t ps p ps' e)
  then show ?case by simp
qed

declare read_loop.simps [simp del]

text \<open>\<open>start\<close> is the clock when the call begins. No bytes wanted: success with a null
  buffer. The \<open>size_t\<close> may be too large for \<open>malloc\<close>.\<close>

definition readAllSocketData :: "(nat \<Rightarrow> bool) \<Rightarrow> nat \<Rightarrow> int \<Rightarrow> sock
    \<Rightarrow> ((read_end + byte list) \<times> sock) option" where
  "readAllSocketData malloc sizeExpected start s =
     (if sizeExpected < 1 then Some (Inr [], s)
      else if \<not> malloc sizeExpected then Some (Inl Failed, s)
      else do {
        (r, ps) \<leftarrow> read_loop sizeExpected [] (start + 15000) (rx s);
        Some (r, s\<lparr>rx := ps\<rparr>)
      })"

fun send_loop :: "byte list \<Rightarrow> send_ev list \<Rightarrow> byte list
    \<Rightarrow> (bool \<times> send_ev list \<times> byte list) option" where
  "send_loop [] es out = Some (True, es, out)"
| "send_loop d [] out = None"
| "send_loop d (SendTaken k # es) out = send_loop (drop k d) es (out @ take k d)"
| "send_loop d (SendErr e # es) out =
     (if e = WSAEWOULDBLOCK then send_loop d es out else Some (False, es, out))"

definition sendToSocket :: "byte list \<Rightarrow> sock \<Rightarrow> (bool \<times> sock) option" where
  "sendToSocket data s =
     (if length data < 1 then Some (True, s)
      else do {
        (ok, es, out) \<leftarrow> send_loop data (tx s) (sent s);
        Some (ok, s\<lparr>tx := es, sent := out\<rparr>)
      })"

section \<open>Acknowledgements\<close>

definition ack_data :: "byte list" where "ack_data = bytes_of ''ACK''"
definition nack_data :: "byte list" where "nack_data = bytes_of ''NCK''"

definition sendAck :: "(nat \<Rightarrow> bool) \<Rightarrow> sock \<Rightarrow> (bool \<times> sock) option" where
  "sendAck malloc s =
     (if \<not> malloc BT_TAB_ACK_SIZE then Some (False, s) else sendToSocket ack_data s)"

definition sendNack :: "(nat \<Rightarrow> bool) \<Rightarrow> sock \<Rightarrow> (bool \<times> sock) option" where
  "sendNack malloc s =
     (if \<not> malloc BT_TAB_NACK_SIZE then Some (False, s) else sendToSocket nack_data s)"

text \<open>\<open>strncmp\<close> against a constant without a null character is equality.\<close>

definition readAck :: "(nat \<Rightarrow> bool) \<Rightarrow> int \<Rightarrow> sock \<Rightarrow> ((exn + bool) \<times> sock) option" where
  "readAck malloc start s =
     (if \<not> malloc BT_TAB_ACK_SIZE then Some (Inr False, s)
      else do {
        (r, s1) \<leftarrow> readAllSocketData malloc BT_TAB_ACK_SIZE start s;
        (case r of
           Inl Threw \<Rightarrow> Some (Inl Std_out_of_range, s1)
         | Inl Failed \<Rightarrow> Some (Inr False, s1)
         | Inr d \<Rightarrow> Some (Inr (d = ack_data), s1))
      })"

section \<open>Socket state\<close>

text \<open>The answer of \<open>select\<close> with a zero timeout: \<open>SOCKET_ERROR\<close>, 0 for not ready, or a
  count.\<close>

definition SOCKET_ERROR :: int where "SOCKET_ERROR = -1"

definition readyToRead :: "int \<Rightarrow> bool" where
  "readyToRead sockState = (if sockState = SOCKET_ERROR then False else sockState \<noteq> 0)"

definition readyToWrite :: "int \<Rightarrow> bool" where
  "readyToWrite sockState = (if sockState = SOCKET_ERROR then False else sockState \<noteq> 0)"

section \<open>The communication protocol\<close>

definition getTransactionType :: "(nat \<Rightarrow> bool) \<Rightarrow> int \<Rightarrow> sock \<Rightarrow> ((exn + byte) \<times> sock) option" where
  "getTransactionType malloc start s =
     do {
       (r, s1) \<leftarrow> readAllSocketData malloc BT_EXPECTED_DATA_INITIAL start s;
       (case r of
          Inl Threw \<Rightarrow> Some (Inl Std_out_of_range, s1)
        | Inl Failed \<Rightarrow> Some (Inr TRANS_SOCKET_ERROR, s1)
        | Inr d \<Rightarrow> Some (Inr (d ! 0), s1))
     }"

text \<open>\<open>((int*)numOfByteDataPtr)[0]\<close>, and the \<open>int\<close> passed on as a \<open>size_t\<close>.\<close>

definition load_int :: "byte list \<Rightarrow> i32" where
  "load_int bs = word_of_nat (le_load bs)"

definition int_to_size_t :: "i32 \<Rightarrow> nat" where
  "int_to_size_t n = unat (scast n :: u64)"

text \<open>The result is the payload (none on failure) and the \<open>success\<close> flag. \<open>t1\<close> and \<open>t2\<close>
  are the clocks at the start of the two reads. An exception of a read is not caught; the flag is
  true then, as it was set at the start.\<close>

definition internalRead :: "(nat \<Rightarrow> bool) \<Rightarrow> int \<Rightarrow> int \<Rightarrow> sock
    \<Rightarrow> ((exn + (byte list option \<times> bool)) \<times> sock) option" where
  "internalRead malloc t1 t2 s =
     do {
       (ok1, s1) \<leftarrow> sendAck malloc s;
       if \<not> ok1 then Some (Inr (None, False), s1)
       else do {
         (r2, s2) \<leftarrow> readAllSocketData malloc BT_EXPECTED_DATA_READSIZE t1 s1;
         (case r2 of
            Inl Threw \<Rightarrow> Some (Inl Std_out_of_range, s2)
          | Inl Failed \<Rightarrow> do { (_, s3) \<leftarrow> sendNack malloc s2; Some (Inr (None, False), s3) }
          | Inr hdr \<Rightarrow>
              (let bytesExpected = load_int hdr in
               do {
                 (ok3, s3) \<leftarrow> sendAck malloc s2;
                 if \<not> ok3 then Some (Inr (None, False), s3)
                 else do {
                   (r4, s4) \<leftarrow> readAllSocketData malloc (int_to_size_t bytesExpected) t2 s3;
                   (case r4 of
                      Inl Threw \<Rightarrow> Some (Inl Std_out_of_range, s4)
                    | Inl Failed \<Rightarrow> do { (_, s5) \<leftarrow> sendNack malloc s4; Some (Inr (None, False), s5) }
                    | Inr message \<Rightarrow>
                        Some (Inr (Some (take (nat (sint bytesExpected)) message), True), s4))
                 }
               }))
       }
     }"

text \<open>\<open>dataSize\<close> is the \<open>int\<close> of the size; its four bytes go out first.\<close>

definition size_header :: "byte list \<Rightarrow> byte list" where
  "size_header data = le_store BT_EXPECTED_DATA_READSIZE (unat (word_of_nat (length data) :: i32))"

definition internalWrite :: "(nat \<Rightarrow> bool) \<Rightarrow> int \<Rightarrow> int \<Rightarrow> byte list \<Rightarrow> sock
    \<Rightarrow> ((exn + (byte list option \<times> bool)) \<times> sock) option" where
  "internalWrite malloc t1 t2 data s =
     do {
       (ok1, s1) \<leftarrow> sendToSocket (size_header data) s;
       (r2, s2) \<leftarrow> (if ok1 then readAck malloc t1 s1 else Some (Inr False, s1));
       (case r2 of
          Inl e \<Rightarrow> Some (Inl e, s2)
        | Inr ok2 \<Rightarrow>
            if \<not> ok2 then Some (Inr (None, False), s2)
            else do {
              (ok3, s3) \<leftarrow> sendToSocket data s2;
              (r4, s4) \<leftarrow> (if ok3 then readAck malloc t2 s3 else Some (Inr False, s3));
              Some (case r4 of Inl e \<Rightarrow> Inl e | Inr ok4 \<Rightarrow> Inr (None, ok4), s4)
            })
     }"

section \<open>Lemmas\<close>

text \<open>The bytes a script of \<open>recv\<close> answers carries, whatever the chunks.\<close>

fun stream :: "poll list \<Rightarrow> byte list" where
  "stream [] = []"
| "stream (p # ps) = (case ev p of RecvBytes bs \<Rightarrow> bs | RecvErr e \<Rightarrow> []) @ stream ps"

lemma take_recv_stream:
  assumes "take_recv n bs p ps = (got, rest)" and "ev p = RecvBytes bs"
  shows "got @ stream rest = bs @ stream ps"
  using assms by (auto simp: take_recv_def split: if_splits)

lemma take_recv_props:
  assumes "take_recv n bs p ps = (got, rest)"
  shows "got = take n bs" and "length got \<le> n"
  using assms by (auto simp: take_recv_def)

text \<open>The loop, one turn at a time.\<close>

lemma read_loop_done: "n \<le> length acc \<Longrightarrow> read_loop n acc dl ps = Some (Inr acc, ps)"
  by (simp add: read_loop.simps [of n acc dl ps])

lemma read_loop_nil: "length acc < n \<Longrightarrow> read_loop n acc dl [] = None"
  by (simp add: read_loop.simps [of n acc dl "[]"])

lemma read_loop_data:
  "length acc < n \<Longrightarrow> ev p = RecvBytes bs \<Longrightarrow> take_recv (n - length acc) bs p ps = (got, rest) \<Longrightarrow>
   read_loop n acc dl (p # ps) =
     (let deadline = (if got \<noteq> [] then clk_upd p + 15000 else dl)
      in if clk_chk p > deadline \<or> got = [] then Some (Inl Failed, rest)
         else read_loop n (acc @ got) deadline rest)"
  by (simp add: read_loop.simps [of n acc dl "p # ps"] Let_def)

lemma read_loop_err:
  "length acc < n \<Longrightarrow> ev p = RecvErr e \<Longrightarrow>
   read_loop n acc dl (p # ps) =
     (if clk_chk p \<le> dl \<and> (e = WSAEWOULDBLOCK \<or> e = WSAEINPROGRESS)
      then read_loop n acc dl ps
      else Some (Inl (if dl < clk_chk p \<or> error_known e then Failed else Threw), ps))"
  by (auto simp: read_loop.simps [of n acc dl "p # ps"])

lemmas read_loop_turn = read_loop_done read_loop_nil read_loop_data read_loop_err

lemma read_loop_sound:
  "read_loop n acc dl ps = Some (Inr d, ps') \<Longrightarrow> length acc \<le> n \<Longrightarrow>
   length d = n \<and> d @ stream ps' = acc @ stream ps"
proof (induction n acc dl ps arbitrary: d ps' rule: read_loop.induct)
  case (1 n acc dl ps)
  show ?case
  proof (cases "n \<le> length acc")
    case True
    with "1.prems" show ?thesis by (simp add: read_loop_done)
  next
    case False
    then obtain p qs where ps: "ps = p # qs"
      using "1.prems" by (cases ps) (auto simp: read_loop_nil)
    show ?thesis
    proof (cases "ev p")
      case (RecvBytes bs)
      obtain got rest where tr: "take_recv (n - length acc) bs p qs = (got, rest)"
        by fastforce
      have ret: "read_loop n (acc @ got) (clk_upd p + 15000) rest = Some (Inr d, ps')"
        and chk: "clk_chk p \<le> clk_upd p + 15000" and ne: "got \<noteq> []"
        using "1.prems" False RecvBytes
        by (auto simp: ps read_loop_data [OF _ RecvBytes tr] Let_def split: if_splits)
      have "length (acc @ got) \<le> n" using take_recv_props [OF tr] False by simp
      then have "length d = n \<and> d @ stream ps' = (acc @ got) @ stream rest"
        using "1.IH"(1) [OF False ps RecvBytes tr [symmetric] refl refl] ret chk ne by simp
      then show ?thesis using take_recv_stream [OF tr RecvBytes] RecvBytes by (simp add: ps)
    next
      case (RecvErr e)
      then show ?thesis
        using "1.prems" False "1.IH"(2) [OF False ps RecvErr]
        by (auto simp: ps read_loop_err split: if_splits)
    qed
  qed
qed

text \<open>A script in which nothing goes wrong: every answer is data or a retry, retries come
  before \<open>T + 15 s\<close>, and the clock never reads less than \<open>T\<close>.\<close>

definition prompt_poll :: "int \<Rightarrow> poll \<Rightarrow> bool" where
  "prompt_poll T p \<longleftrightarrow> T \<le> clk_upd p \<and>
     (case ev p of
        RecvBytes bs \<Rightarrow> bs \<noteq> [] \<and> clk_chk p \<le> clk_upd p + 15000
      | RecvErr e \<Rightarrow> (e = WSAEWOULDBLOCK \<or> e = WSAEINPROGRESS) \<and> clk_chk p \<le> T + 15000)"

lemma prompt_take_recv:
  assumes "take_recv n bs p ps = (got, rest)" and "ev p = RecvBytes bs"
    and "list_all (prompt_poll T) (p # ps)"
  shows "list_all (prompt_poll T) rest"
  using assms by (auto simp: take_recv_def prompt_poll_def split: if_splits)

lemma read_loop_complete:
  "list_all (prompt_poll T) ps \<Longrightarrow> T + 15000 \<le> dl \<Longrightarrow> n \<le> length acc + length (stream ps) \<Longrightarrow>
   length acc \<le> n \<Longrightarrow>
   \<exists>d ps'. read_loop n acc dl ps = Some (Inr d, ps') \<and> list_all (prompt_poll T) ps'"
proof (induction n acc dl ps rule: read_loop.induct)
  case (1 n acc dl ps)
  show ?case
  proof (cases "n \<le> length acc")
    case True
    with "1.prems" show ?thesis by (simp add: read_loop_done)
  next
    case False
    then obtain p qs where ps: "ps = p # qs"
      using "1.prems" by (cases ps) auto
    show ?thesis
    proof (cases "ev p")
      case (RecvBytes bs)
      obtain got rest where tr: "take_recv (n - length acc) bs p qs = (got, rest)"
        by fastforce
      have p: "bs \<noteq> []" "clk_chk p \<le> clk_upd p + 15000" "T \<le> clk_upd p"
        using "1.prems"(1) RecvBytes by (auto simp: ps prompt_poll_def)
      have ne: "got \<noteq> []" using p False take_recv_props(1) [OF tr] by simp
      have len: "length (acc @ got) \<le> n" using take_recv_props [OF tr] False by simp
      have "length got + length (stream rest) = length bs + length (stream qs)"
        using take_recv_stream [OF tr RecvBytes] by (metis length_append)
      then have "n \<le> length (acc @ got) + length (stream rest)"
        using "1.prems"(3) RecvBytes by (simp add: ps)
      then have "\<exists>d ps'. read_loop n (acc @ got) (clk_upd p + 15000) rest = Some (Inr d, ps')
          \<and> list_all (prompt_poll T) ps'"
        using "1.IH"(1) [OF False ps RecvBytes tr [symmetric] refl refl]
          prompt_take_recv [OF tr RecvBytes] "1.prems"(1) p ne len by (simp add: ps)
      then show ?thesis
        using False ne p by (simp add: ps read_loop_data [OF _ RecvBytes tr])
    next
      case (RecvErr e)
      then show ?thesis
        using "1.prems" False "1.IH"(2) [OF False ps RecvErr]
        by (auto simp: ps read_loop_err prompt_poll_def)
    qed
  qed
qed

text \<open>A silent tablet: only errors, and at some poll the clock is past the deadline. What the read
  ends with depends on the first poll that is not a retry in time.\<close>

fun silent_end :: "int \<Rightarrow> poll list \<Rightarrow> read_end" where
  "silent_end dl [] = Failed"
| "silent_end dl (p # ps) =
     (if dl < clk_chk p then Failed
      else case ev p of
        RecvErr e \<Rightarrow>
          (if e = WSAEWOULDBLOCK \<or> e = WSAEINPROGRESS then silent_end dl ps
           else if e \<in> set known_codes then Failed else Threw)
      | RecvBytes bs \<Rightarrow> Failed)"

lemma read_loop_silent:
  "length acc < n \<Longrightarrow> list_all (\<lambda>p. \<exists>e. ev p = RecvErr e) ps \<Longrightarrow> \<exists>p\<in>set ps. dl < clk_chk p \<Longrightarrow>
   \<exists>ps'. read_loop n acc dl ps = Some (Inl (silent_end dl ps), ps')"
proof (induction ps)
  case Nil
  then show ?case by simp
next
  case (Cons p ps)
  then obtain e where "ev p = RecvErr e" by auto
  with Cons show ?case by (auto simp: read_loop_err error_known_codes)
qed

lemma silent_end_known:
  "list_all (\<lambda>p. \<exists>e. ev p = RecvErr e \<and> e \<in> set known_codes) ps \<Longrightarrow> silent_end dl ps = Failed"
  by (induction ps) (auto split: recv_ev.splits)

text \<open>Sending: what is out is a prefix of the data, all of it exactly when the call succeeds.\<close>

lemma send_loop_sound:
  "send_loop d es out = Some (ok, es', out') \<Longrightarrow>
   \<exists>k. out' = out @ take k d \<and> (if ok then length d \<le> k else k < length d)"
proof (induction d es out rule: send_loop.induct)
  case (3 v va k es out)
  then obtain j where j: "out' = (out @ take k (v # va)) @ take j (drop k (v # va))"
    and ok: "if ok then length (drop k (v # va)) \<le> j else j < length (drop k (v # va))"
    by auto
  have "out' = out @ take (k + j) (v # va)"
    using j by (simp add: take_add)
  moreover have "if ok then length (v # va) \<le> k + j else k + j < length (v # va)"
    using ok by (auto split: if_splits)
  ultimately show ?case by blast
next
  case (1 es out)
  then show ?case by auto
next
  case (4 v va e es out)
  show ?case
  proof (cases "e = WSAEWOULDBLOCK")
    case True
    with 4 show ?thesis by simp
  next
    case False
    with 4 show ?thesis by (auto intro: exI [of _ 0])
  qed
qed simp

text \<open>A send script that takes at least one byte at every answer that is not a retry.\<close>

fun send_budget :: "send_ev list \<Rightarrow> nat" where
  "send_budget [] = 0"
| "send_budget (SendTaken k # es) = Suc (send_budget es)"
| "send_budget (SendErr e # es) = send_budget es"

fun fair_send :: "send_ev \<Rightarrow> bool" where
  "fair_send (SendTaken k) \<longleftrightarrow> 0 < k"
| "fair_send (SendErr e) \<longleftrightarrow> e = WSAEWOULDBLOCK"

lemma send_loop_complete:
  "list_all fair_send es \<Longrightarrow> length d \<le> send_budget es \<Longrightarrow>
   \<exists>es'. send_loop d es out = Some (True, es', out @ d) \<and> list_all fair_send es' \<and>
         send_budget es \<le> send_budget es' + length d"
proof (induction d es out rule: send_loop.induct)
  case (3 v va k es out)
  have "0 < k" and fair: "list_all fair_send es" using "3.prems" by auto
  then have "length (drop k (v # va)) \<le> send_budget es"
    using "3.prems" by (cases k) auto
  then obtain es' where es': "send_loop (drop k (v # va)) es (out @ take k (v # va))
      = Some (True, es', (out @ take k (v # va)) @ drop k (v # va))"
    and "list_all fair_send es'"
    and "send_budget es \<le> send_budget es' + length (drop k (v # va))"
    using "3.IH" fair by blast
  moreover have "(out @ take k (v # va)) @ drop k (v # va) = out @ v # va"
    by (metis append.assoc append_take_drop_id)
  ultimately show ?case using \<open>0 < k\<close> by (intro exI [of _ es']) (auto simp: Suc_diff_le)
qed auto

end
