(* ===== verification/Bt_Link.thy ===== *)
theory Bt_Link
  imports Bt_Socket
begin

text \<open>
  What the exchanges of \<open>btTabObj.hpp\<close> achieve. The interface is a byte channel: reading
  consumes the incoming stream, writing extends the outgoing one. The socket model provides
  it while nothing goes wrong on the link; the protocol functions \<open>internalRead\<close> and
  \<open>internalWrite\<close> are its clients.
\<close>

section \<open>The channel interface\<close>

text \<open>\<open>ok k s\<close>: the channel works and at least \<open>k\<close> more bytes can be written.\<close>

locale channel =
  fixes ok :: "nat \<Rightarrow> 's \<Rightarrow> bool"
    and incoming :: "'s \<Rightarrow> byte list"
    and outgoing :: "'s \<Rightarrow> byte list"
    and fits :: "nat \<Rightarrow> bool"
    and late :: "int \<Rightarrow> bool"
    and rd :: "nat \<Rightarrow> int \<Rightarrow> 's \<Rightarrow> ((read_end + byte list) \<times> 's) option"
    and wr :: "byte list \<Rightarrow> 's \<Rightarrow> (bool \<times> 's) option"
  assumes rd_ok: "ok k s \<Longrightarrow> late t \<Longrightarrow> fits n \<Longrightarrow> n \<le> length (incoming s) \<Longrightarrow>
      \<exists>s'. rd n t s = Some (Inr (take n (incoming s)), s') \<and> ok k s' \<and>
        incoming s' = drop n (incoming s) \<and> outgoing s' = outgoing s"
    and wr_ok: "ok (k + length d) s \<Longrightarrow>
      \<exists>s'. wr d s = Some (True, s') \<and> ok k s' \<and>
        incoming s' = incoming s \<and> outgoing s' = outgoing s @ d"
begin

text \<open>One half of each exchange: say something, then read the answer.\<close>

lemma say_then_read:
  assumes "ok (k + length d) s" and "late t" and "fits n" and "n \<le> length (incoming s)"
  obtains s1 s2 where "wr d s = Some (True, s1)"
    and "rd n t s1 = Some (Inr (take n (incoming s)), s2)"
    and "ok k s2" and "incoming s2 = drop n (incoming s)" and "outgoing s2 = outgoing s @ d"
proof -
  obtain s1 where s1: "wr d s = Some (True, s1)" "ok k s1" "incoming s1 = incoming s"
      "outgoing s1 = outgoing s @ d"
    using wr_ok [OF assms(1)] by auto
  moreover obtain s2 where "rd n t s1 = Some (Inr (take n (incoming s1)), s2)" "ok k s2"
      "incoming s2 = drop n (incoming s1)" "outgoing s2 = outgoing s1"
    using rd_ok [OF s1(2) assms(2,3)] assms(4) s1(3) by auto
  ultimately show thesis using that by simp
qed

end

section \<open>The socket provides it\<close>

definition link_ok :: "int \<Rightarrow> nat \<Rightarrow> sock \<Rightarrow> bool" where
  "link_ok T k s \<longleftrightarrow>
     list_all (prompt_poll T) (rx s) \<and> list_all fair_send (tx s) \<and> k \<le> send_budget (tx s)"

lemma readAllSocketData_sound:
  assumes "readAllSocketData malloc n t s = Some (Inr d, s')"
  shows "length d = n \<and> d @ stream (rx s') = stream (rx s) \<and> sent s' = sent s \<and> tx s' = tx s"
  using assms
  by (auto simp: readAllSocketData_def Option.bind_eq_Some_conv split: if_splits
      dest: read_loop_sound)

lemma readAllSocketData_complete:
  assumes "list_all (prompt_poll T) (rx s)" and "T \<le> t" and "malloc n" and "n \<le> length (stream (rx s))"
  shows "\<exists>s'. readAllSocketData malloc n t s = Some (Inr (take n (stream (rx s))), s') \<and>
    list_all (prompt_poll T) (rx s') \<and> stream (rx s') = drop n (stream (rx s)) \<and>
    sent s' = sent s \<and> tx s' = tx s"
proof (cases "n < 1")
  case True
  with assms show ?thesis by (simp add: readAllSocketData_def)
next
  case False
  obtain d ps where r: "read_loop n [] (t + 15000) (rx s) = Some (Inr d, ps)"
    and p: "list_all (prompt_poll T) ps"
    using read_loop_complete [OF assms(1), of "t + 15000" n "[]"] assms by auto
  have "length d = n" and "d @ stream ps = stream (rx s)"
    using read_loop_sound [OF r] by auto
  then have "d = take n (stream (rx s))" and "stream ps = drop n (stream (rx s))"
    by (metis append_eq_conv_conj)+
  with r p False assms(3) show ?thesis by (simp add: readAllSocketData_def)
qed

lemma sendToSocket_complete:
  fixes d :: "byte list"
  assumes "list_all fair_send (tx s)" and "k + length d \<le> send_budget (tx s)"
  shows "\<exists>s'. sendToSocket d s = Some (True, s') \<and> list_all fair_send (tx s') \<and>
    k \<le> send_budget (tx s') \<and> rx s' = rx s \<and> sent s' = sent s @ d"
proof (cases d)
  case Nil
  with assms show ?thesis by (simp add: sendToSocket_def)
next
  case (Cons v va)
  have "length d \<le> send_budget (tx s)" using assms by simp
  from send_loop_complete [OF assms(1) this, of "sent s"] obtain es'
    where "send_loop d (tx s) (sent s) = Some (True, es', sent s @ d)"
      and "list_all fair_send es'" and "send_budget (tx s) \<le> send_budget es' + length d"
    by auto
  with Cons assms show ?thesis by (simp add: sendToSocket_def)
qed

interpretation tab: channel "link_ok T" "\<lambda>s. stream (rx s)" sent malloc "\<lambda>t. T \<le> t"
    "readAllSocketData malloc" sendToSocket for malloc T
proof
  fix k s t n
  assume "link_ok T k s" "T \<le> t" "malloc n" "n \<le> length (stream (rx s))"
  then show "\<exists>s'. readAllSocketData malloc n t s = Some (Inr (take n (stream (rx s))), s') \<and>
      link_ok T k s' \<and> stream (rx s') = drop n (stream (rx s)) \<and> sent s' = sent s"
    using readAllSocketData_complete [of T s t malloc n] by (auto simp: link_ok_def)
next
  fix k s and d :: "byte list"
  assume "link_ok T (k + length d) s"
  then show "\<exists>s'. sendToSocket d s = Some (True, s') \<and> link_ok T k s' \<and>
      stream (rx s') = stream (rx s) \<and> sent s' = sent s @ d"
    using sendToSocket_complete [of s k d] by (auto simp: link_ok_def)
qed

section \<open>The protocol over the channel\<close>

lemma size_header_length [simp]: "length (size_header d) = 4"
  by (simp add: size_header_def BT_EXPECTED_DATA_READSIZE_def)

lemma load_int_header:
  assumes "length d < 2 ^ 31"
  shows "sint (load_int (size_header d)) = int (length d)"
    and "int_to_size_t (load_int (size_header d)) = length d"
proof -
  have "load_int (size_header d) = word_of_nat (length d)"
    using assms by (simp add: load_int_def size_header_def BT_EXPECTED_DATA_READSIZE_def
        le_load_store unat_of_nat)
  then show s: "sint (load_int (size_header d)) = int (length d)"
    using assms by (simp add: signed_of_nat signed_take_bit_int_eq_self)
  have "(scast (load_int (size_header d)) :: u64) = word_of_int (sint (load_int (size_header d)))"
    by simp
  then show "int_to_size_t (load_int (size_header d)) = length d"
    using assms unfolding int_to_size_t_def s by (simp add: unat_of_nat)
qed

lemma sendAck_eq: "malloc 3 \<Longrightarrow> sendAck malloc s = sendToSocket ack_data s"
  by (simp add: sendAck_def BT_TAB_ACK_SIZE_def)

lemma sendNack_eq: "malloc 3 \<Longrightarrow> sendNack malloc s = sendToSocket nack_data s"
  by (simp add: sendNack_def BT_TAB_NACK_SIZE_def)

lemma length_ack [simp]: "length ack_data = 3" "length nack_data = 3"
  by (simp_all add: ack_data_def nack_data_def)

lemma internalRead_good:
  fixes d :: "byte list"
  assumes link: "link_ok T (6 + k) s" and "T \<le> t1" and "T \<le> t2"
    and m: "malloc 3" "malloc 4" "malloc (length d)"
    and d: "length d < 2 ^ 31" and str: "stream (rx s) = size_header d @ d @ rest"
  shows "\<exists>s'. internalRead malloc t1 t2 s = Some (Inr (Some d, True), s') \<and> link_ok T k s' \<and>
    stream (rx s') = rest \<and> sent s' = sent s @ ack_data @ ack_data"
proof -
  have "link_ok T ((k + 3) + length ack_data) s" using link by (simp add: add.commute)
  then obtain s1 s2 where s1: "sendToSocket ack_data s = Some (True, s1)"
    and s2: "readAllSocketData malloc 4 t1 s1 = Some (Inr (size_header d), s2)"
    and l2: "link_ok T (k + 3) s2" "stream (rx s2) = d @ rest" "sent s2 = sent s @ ack_data"
    using tab.say_then_read [of T "k + 3" ack_data s t1 malloc 4] assms(2) m str by auto
  then have "link_ok T (k + length ack_data) s2" by simp
  then obtain s3 s4 where s3: "sendToSocket ack_data s2 = Some (True, s3)"
    and s4: "readAllSocketData malloc (length d) t2 s3 = Some (Inr d, s4)"
    and l4: "link_ok T k s4" "stream (rx s4) = rest" "sent s4 = sent s2 @ ack_data"
    using tab.say_then_read [of T k ack_data s2 t2 malloc "length d"] assms(3) m l2 by auto
  then show ?thesis
    using s1 s2 l2 m load_int_header [OF d]
    by (simp add: internalRead_def sendAck_eq BT_EXPECTED_DATA_READSIZE_def)
qed

lemma sendToSocket_sound:
  assumes "sendToSocket d s = Some (r, s')"
  shows "rx s' = rx s \<and> (\<exists>k. sent s' = sent s @ take k d \<and> (r \<longleftrightarrow> length d \<le> k))"
  using assms
  by (fastforce simp: sendToSocket_def Option.bind_eq_Some_conv split: if_splits
      dest: send_loop_sound)

lemma sendToSocket_True:
  assumes "sendToSocket d s = Some (True, s')"
  shows "rx s' = rx s" and "sent s' = sent s @ d"
  using sendToSocket_sound [OF assms] by auto

lemma readAck_True:
  assumes "readAck malloc t s = Some (Inr True, s')"
  shows "stream (rx s) = ack_data @ stream (rx s')" and "sent s' = sent s"
proof -
  obtain r s1 where r: "readAllSocketData malloc BT_TAB_ACK_SIZE t s = Some (r, s1)"
    and k: "(case r of Inl Threw \<Rightarrow> Some (Inl Std_out_of_range, s1) | Inl Failed \<Rightarrow> Some (Inr False, s1)
      | Inr d \<Rightarrow> Some (Inr (d = ack_data), s1)) = Some (Inr True, s')"
    using assms by (auto simp: readAck_def Option.bind_eq_Some_conv split: if_splits)
  have "r = Inr ack_data \<and> s1 = s'"
  proof (cases r)
    case (Inl f)
    with k show ?thesis by (cases f) simp_all
  qed (use k in simp)
  with r show "stream (rx s) = ack_data @ stream (rx s')" and "sent s' = sent s"
    using readAllSocketData_sound [of malloc BT_TAB_ACK_SIZE t s ack_data s'] by auto
qed

text \<open>Everything the tablet must have said, and everything it was told, when a write succeeds.\<close>

lemma internalWrite_True:
  assumes "internalWrite malloc t1 t2 d s = Some (Inr (r, True), s')"
  shows "sent s' = sent s @ size_header d @ d"
    and "stream (rx s) = ack_data @ ack_data @ stream (rx s')" and "r = None"
proof -
  obtain ok1 s1 r2 s2 where a0: "sendToSocket (size_header d) s = Some (ok1, s1)"
    and b0: "(if ok1 then readAck malloc t1 s1 else Some (Inr False, s1)) = Some (r2, s2)"
    and c0: "(case r2 of Inl e \<Rightarrow> Some (Inl e, s2)
        | Inr ok2 \<Rightarrow>
            if \<not> ok2 then Some (Inr (None, False), s2)
            else Option.bind (sendToSocket d s2) (\<lambda>(ok3, s3).
              Option.bind (if ok3 then readAck malloc t2 s3 else Some (Inr False, s3)) (\<lambda>(r4, s4).
              Some (case r4 of Inl e \<Rightarrow> Inl e | Inr ok4 \<Rightarrow> Inr (None, ok4), s4)))) = Some (Inr (r, True), s')"
    using assms unfolding internalWrite_def by (fastforce simp: Option.bind_eq_Some_conv)
  from c0 have r2: "r2 = Inr True" by (auto split: sum.split_asm if_split_asm)
  then obtain ok3 s3 r4 where c1: "sendToSocket d s2 = Some (ok3, s3)"
    and e1: "(if ok3 then readAck malloc t2 s3 else Some (Inr False, s3)) = Some (r4, s')"
    and r4: "(case r4 of Inl e \<Rightarrow> Inl e | Inr ok4 \<Rightarrow> Inr (None, ok4)) = (Inr (r, True) :: exn + _)"
    using c0 by (auto simp: Option.bind_eq_Some_conv)
  from r4 have r4: "r4 = Inr True" "r = None" by (auto split: sum.split_asm)
  have a: "sendToSocket (size_header d) s = Some (True, s1)" and b: "readAck malloc t1 s1 = Some (Inr True, s2)"
    using a0 b0 r2 by (auto split: if_split_asm)
  have c: "sendToSocket d s2 = Some (True, s3)" and e: "readAck malloc t2 s3 = Some (Inr True, s')"
    using c1 e1 r4 by (auto split: if_split_asm)
  show "sent s' = sent s @ size_header d @ d"
    using sendToSocket_True [OF a] readAck_True [OF b] sendToSocket_True [OF c] readAck_True [OF e]
    by simp
  show "stream (rx s) = ack_data @ ack_data @ stream (rx s')"
    using sendToSocket_True [OF a] readAck_True [OF b] sendToSocket_True [OF c] readAck_True [OF e]
    by simp
  show "r = None" by (rule r4(2))
qed

lemma internalWrite_good:
  assumes link: "link_ok T (4 + length d) s" and "T \<le> t1" and "T \<le> t2" and m: "malloc 3"
    and str: "stream (rx s) = ack_data @ ack_data @ rest"
  shows "\<exists>s'. internalWrite malloc t1 t2 d s = Some (Inr (None, True), s') \<and>
    stream (rx s') = rest \<and> sent s' = sent s @ size_header d @ d"
proof -
  have ack: "readAck malloc t u = Some (Inr True, u')"
    if "readAllSocketData malloc 3 t u = Some (Inr ack_data, u')" for t u u'
    using that m by (simp add: readAck_def BT_TAB_ACK_SIZE_def)
  have "link_ok T (length d + length (size_header d)) s" using link by (simp add: add.commute)
  then obtain s1 s2 where s1: "sendToSocket (size_header d) s = Some (True, s1)"
    and s2: "readAllSocketData malloc 3 t1 s1 = Some (Inr ack_data, s2)"
    and l2: "link_ok T (length d) s2" "stream (rx s2) = ack_data @ rest"
      "sent s2 = sent s @ size_header d"
    using tab.say_then_read [of T "length d" "size_header d" s t1 malloc 3] assms(2) m str by auto
  then have "link_ok T (0 + length d) s2" by simp
  then obtain s3 s4 where s3: "sendToSocket d s2 = Some (True, s3)"
    and s4: "readAllSocketData malloc 3 t2 s3 = Some (Inr ack_data, s4)"
    and l4: "link_ok T 0 s4" "stream (rx s4) = rest" "sent s4 = sent s2 @ d"
    using tab.say_then_read [of T 0 d s2 t2 malloc 3] assms(3) m l2 by auto
  then show ?thesis using s1 l2 ack [OF s2] ack [OF s4] by (simp add: internalWrite_def)
qed

text \<open>A negative size becomes a \<open>size_t\<close> of at least \<open>2^63\<close>.\<close>

lemma int_to_size_t_negative:
  assumes "sint n < 0"
  shows "2 ^ 63 \<le> int_to_size_t n"
proof -
  have "bit n 31" using assms bit_last_iff [of n] by simp
  then have "bit (scast n :: u64) 63" by (simp add: bit_simps)
  then have b: "bit (unat (scast n :: u64)) 63" by (simp add: bit_unsigned_iff)
  show ?thesis
  proof (rule ccontr)
    assume "\<not> 2 ^ 63 \<le> int_to_size_t n"
    then have "take_bit 63 (unat (scast n :: u64)) = unat (scast n :: u64)"
      by (simp add: int_to_size_t_def take_bit_nat_eq_self)
    with b have "bit (take_bit 63 (unat (scast n :: u64))) 63" by simp
    then show False by (simp add: bit_take_bit_iff)
  qed
qed

section \<open>Properties\<close>

text \<open>A successful \<open>readAllSocketData\<close> returns exactly the number of bytes asked for,
  they are the next bytes of the incoming stream in order, nothing after them is consumed, and
  nothing is sent.\<close>

theorem readAllSocketData_exact:
  assumes "readAllSocketData malloc n t s = Some (Inr d, s')"
  shows "length d = n \<and> stream (rx s) = d @ stream (rx s') \<and> sent s' = sent s"
  using readAllSocketData_sound [OF assms] by auto

theorem readAllSocketData_exact_witness:
  "readAllSocketData (\<lambda>_. True) 2 0
     \<lparr>rx = [\<lparr>ev = RecvBytes [1], clk_upd = 5, clk_chk = 6\<rparr>,
            \<lparr>ev = RecvBytes [2, 3], clk_upd = 7, clk_chk = 8\<rparr>], tx = [], sent = []\<rparr>
   = Some (Inr [1, 2], \<lparr>rx = [\<lparr>ev = RecvBytes [3], clk_upd = 7, clk_chk = 8\<rparr>], tx = [], sent = []\<rparr>)
   \<and> length [1, 2 :: byte] = 2"
proof -
  have run: "readAllSocketData (\<lambda>_. True) 2 0
     \<lparr>rx = [\<lparr>ev = RecvBytes [1], clk_upd = 5, clk_chk = 6\<rparr>,
            \<lparr>ev = RecvBytes [2, 3], clk_upd = 7, clk_chk = 8\<rparr>], tx = [], sent = []\<rparr>
   = Some (Inr [1, 2], \<lparr>rx = [\<lparr>ev = RecvBytes [3], clk_upd = 7, clk_chk = 8\<rparr>], tx = [], sent = []\<rparr>)"
    by code_simp
  show ?thesis using run readAllSocketData_exact [OF run] by simp
qed

text \<open>C2. how the bytes arrive does not matter. However the stream is cut into \<open>recv\<close>
  answers, and however many retries come between them, on a link where nothing goes wrong the
  call returns the first \<open>n\<close> bytes of the stream and leaves the rest.\<close>

theorem readAllSocketData_any_chunking:
  assumes "list_all (prompt_poll T) (rx s)" and "T \<le> start" and "malloc n"
    and "n \<le> length (stream (rx s))"
  shows "\<exists>s'. readAllSocketData malloc n start s = Some (Inr (take n (stream (rx s))), s') \<and>
    stream (rx s') = drop n (stream (rx s))"
  using readAllSocketData_complete [of T s start malloc n] assms by blast

theorem readAllSocketData_any_chunking_witness:
  "\<exists>s'. readAllSocketData (\<lambda>_. True) 2 0
     \<lparr>rx = [\<lparr>ev = RecvBytes [1], clk_upd = 5, clk_chk = 6\<rparr>,
            \<lparr>ev = RecvErr 10035, clk_upd = 9, clk_chk = 9\<rparr>,
            \<lparr>ev = RecvBytes [2, 3], clk_upd = 10, clk_chk = 10\<rparr>], tx = [], sent = []\<rparr>
   = Some (Inr [1, 2], s')"
  using readAllSocketData_any_chunking [of 0
     "\<lparr>rx = [\<lparr>ev = RecvBytes [1], clk_upd = 5, clk_chk = 6\<rparr>,
            \<lparr>ev = RecvErr 10035, clk_upd = 9, clk_chk = 9\<rparr>,
            \<lparr>ev = RecvBytes [2, 3], clk_upd = 10, clk_chk = 10\<rparr>], tx = [], sent = []\<rparr>" 0
     "\<lambda>_. True" 2]
  by (simp add: prompt_poll_def WSAEWOULDBLOCK_def) blast

text \<open>C21. A tablet that goes silent cannot hang the read: if \<open>recv\<close> only ever reports errors and
  the clock passes the 15 seconds, the call has ended. It has returned with a failure if it timed out
  or the error that ended it is in the table of error texts; it has thrown \<open>std::out_of_range\<close> if an
  error in time, which is not one to retry after, is not in that table. So if every code is in the
  table it has returned with a failure.\<close>

theorem readAllSocketData_times_out:
  assumes "0 < n" and "list_all (\<lambda>p. \<exists>e. ev p = RecvErr e) (rx s)"
    and "\<exists>p\<in>set (rx s). start + 15000 < clk_chk p"
  shows "\<exists>r s'. readAllSocketData malloc n start s = Some (Inl r, s') \<and>
    r = (if malloc n then silent_end (start + 15000) (rx s) else Failed) \<and>
    (list_all (\<lambda>p. \<exists>e. ev p = RecvErr e \<and> e \<in> set known_codes) (rx s) \<longrightarrow> r = Failed)"
  using read_loop_silent [of "[]" n "rx s" "start + 15000"] silent_end_known [of "rx s"] assms
  by (auto simp: readAllSocketData_def)

theorem readAllSocketData_times_out_witness:
  "(\<exists>s'. readAllSocketData (\<lambda>_. True) 4 0
     \<lparr>rx = [\<lparr>ev = RecvErr 10035, clk_upd = 9, clk_chk = 9\<rparr>,
            \<lparr>ev = RecvErr 10035, clk_upd = 15001, clk_chk = 15001\<rparr>], tx = [], sent = []\<rparr>
     = Some (Inl Failed, s')) \<and>
   (\<exists>s'. readAllSocketData (\<lambda>_. True) 4 0
     \<lparr>rx = [\<lparr>ev = RecvErr 5, clk_upd = 9, clk_chk = 9\<rparr>,
            \<lparr>ev = RecvErr 10035, clk_upd = 15001, clk_chk = 15001\<rparr>], tx = [], sent = []\<rparr>
     = Some (Inl Threw, s'))"
proof -
  have "(5 :: int) \<notin> set known_codes" by (simp add: known_codes_eq)
  then show ?thesis
    using readAllSocketData_times_out [of 4 "\<lparr>rx = [\<lparr>ev = RecvErr 10035, clk_upd = 9, clk_chk = 9\<rparr>,
        \<lparr>ev = RecvErr 10035, clk_upd = 15001, clk_chk = 15001\<rparr>], tx = [], sent = []\<rparr>" 0 "\<lambda>_. True"]
      readAllSocketData_times_out [of 4 "\<lparr>rx = [\<lparr>ev = RecvErr 5, clk_upd = 9, clk_chk = 9\<rparr>,
        \<lparr>ev = RecvErr 10035, clk_upd = 15001, clk_chk = 15001\<rparr>], tx = [], sent = []\<rparr>" 0 "\<lambda>_. True"]
    by (simp add: WSAEWOULDBLOCK_def WSAEINPROGRESS_def)
qed

text \<open>\<open>sendToSocket\<close> reports success exactly when every byte of the buffer was handed
  to Winsock, in order; on failure a proper prefix was.\<close>

theorem sendToSocket_prefix:
  assumes "sendToSocket d s = Some (r, s')"
  shows "\<exists>k. sent s' = sent s @ take k d \<and> (r \<longleftrightarrow> length d \<le> k)"
  using sendToSocket_sound [OF assms] by blast

theorem sendToSocket_prefix_witness:
  "\<exists>k. [1, 2 :: byte] = [] @ take k [1, 2, 3] \<and> (False \<longleftrightarrow> length [1, 2, 3 :: byte] \<le> k)"
proof -
  have "sendToSocket [1, 2, 3] \<lparr>rx = [], tx = [SendTaken 2, SendErr 10054], sent = []\<rparr>
      = Some (False, \<lparr>rx = [], tx = [], sent = [1, 2]\<rparr>)"
    by (simp add: sendToSocket_def WSAEWOULDBLOCK_def)
  from sendToSocket_prefix [OF this] show ?thesis by simp
qed

text \<open>C7. round trip. What \<open>internalWrite\<close> puts on the wire (the size header, then the
  data) is exactly what \<open>internalRead\<close> decodes back into the data, acknowledging twice and
  leaving what follows, for data below 2 GiB on a link where nothing goes wrong.\<close>

theorem internalRead_of_internalWrite:
  assumes "internalWrite malloc' u1 u2 d w = Some (Inr (r, True), w')" and "sent w = []"
    and "link_ok T 6 s" and "T \<le> t1" and "T \<le> t2"
    and "malloc 3" and "malloc 4" and "malloc (length d)" and "length d < 2 ^ 31"
    and "stream (rx s) = sent w' @ rest"
  shows "\<exists>s'. internalRead malloc t1 t2 s = Some (Inr (Some d, True), s') \<and>
    stream (rx s') = rest \<and> sent s' = sent s @ ack_data @ ack_data"
  using internalRead_good [of T 0 s t1 t2 malloc d rest] internalWrite_True(1) [OF assms(1)] assms
  by auto

theorem internalRead_of_internalWrite_witness:
  "\<exists>s'. internalRead (\<lambda>_. True) 0 0
     \<lparr>rx = [\<lparr>ev = RecvBytes [2, 0, 0, 0, 65, 66], clk_upd = 1, clk_chk = 1\<rparr>],
      tx = replicate 6 (SendTaken 1), sent = []\<rparr>
   = Some (Inr (Some [65, 66], True), s')"
proof -
  let ?w = "\<lparr>rx = [\<lparr>ev = RecvBytes ack_data, clk_upd = 1, clk_chk = 1\<rparr>,
                  \<lparr>ev = RecvBytes ack_data, clk_upd = 2, clk_chk = 2\<rparr>],
      tx = [SendTaken 4, SendTaken 2], sent = []\<rparr>"
  let ?s = "\<lparr>rx = [\<lparr>ev = RecvBytes [2, 0, 0, 0, 65, 66], clk_upd = 1, clk_chk = 1\<rparr>],
      tx = replicate 6 (SendTaken 1), sent = []\<rparr>"
  have run: "internalWrite (\<lambda>_. True) 0 0 [65, 66] ?w
      = Some (Inr (None, True), \<lparr>rx = [], tx = [], sent = [2, 0, 0, 0, 65, 66]\<rparr>)"
    by code_simp
  have "link_ok 0 6 ?s" by code_simp
  from internalRead_of_internalWrite [OF run _ this, of 0 0 "\<lambda>_. True" "[]"]
  show ?thesis by auto
qed

text \<open>C17. a write that reports success was complete and acknowledged: the header and all of
  the data were sent, and the tablet answered ACK to each, with nothing else in between.\<close>

theorem internalWrite_success_acknowledged:
  assumes "internalWrite malloc t1 t2 d s = Some (Inr (r, True), s')"
  shows "sent s' = sent s @ size_header d @ d \<and>
    stream (rx s) = ack_data @ ack_data @ stream (rx s')"
  using internalWrite_True [OF assms] by auto

theorem internalWrite_success_acknowledged_witness:
  "\<exists>s'. internalWrite (\<lambda>_. True) 0 0 [65]
     \<lparr>rx = [\<lparr>ev = RecvBytes ack_data, clk_upd = 1, clk_chk = 1\<rparr>,
            \<lparr>ev = RecvBytes ack_data, clk_upd = 2, clk_chk = 2\<rparr>],
      tx = [SendTaken 4, SendTaken 1], sent = []\<rparr> = Some (Inr (None, True), s') \<and>
     sent s' = size_header [65] @ [65]"
proof -
  let ?w = "\<lparr>rx = [\<lparr>ev = RecvBytes ack_data, clk_upd = 1, clk_chk = 1\<rparr>,
                  \<lparr>ev = RecvBytes ack_data, clk_upd = 2, clk_chk = 2\<rparr>],
      tx = [SendTaken 4, SendTaken 1], sent = []\<rparr>"
  have run: "internalWrite (\<lambda>_. True) 0 0 [65] ?w
      = Some (Inr (None, True), \<lparr>rx = [], tx = [], sent = [1, 0, 0, 0, 65]\<rparr>)"
    by code_simp
  from internalWrite_success_acknowledged [OF this] run show ?thesis by simp
qed

text \<open>A tablet that announces a negative number of bytes is refused. The \<open>int\<close> becomes a
  \<open>size_t\<close> of at least \<open>2^63\<close>, which no allocation satisfies, so the read fails, no payload is
  taken from the stream, and a NACK follows the two ACKs already sent.\<close>

theorem internalRead_negative_size:
  assumes "link_ok T 9 s" and "T \<le> t1" and "malloc 3" and "malloc 4"
    and no_huge: "\<And>n. malloc n \<Longrightarrow> n < 2 ^ 63"
    and str: "stream (rx s) = hdr @ rest" and "length hdr = 4" and neg: "sint (load_int hdr) < 0"
  shows "\<exists>s'. internalRead malloc t1 t2 s = Some (Inr (None, False), s') \<and>
    stream (rx s') = rest \<and> sent s' = sent s @ ack_data @ ack_data @ nack_data"
proof -
  have "link_ok T (6 + length ack_data) s" using assms(1) by simp
  then obtain s1 s2 where s1: "sendToSocket ack_data s = Some (True, s1)"
    and s2: "readAllSocketData malloc 4 t1 s1 = Some (Inr hdr, s2)"
    and l2: "link_ok T 6 s2" "stream (rx s2) = rest" "sent s2 = sent s @ ack_data"
    using tab.say_then_read [of T 6 ack_data s t1 malloc 4] assms(2,4,7) str by auto
  then have "link_ok T (3 + length ack_data) s2" by simp
  then obtain s3 where s3: "sendToSocket ack_data s2 = Some (True, s3)" "link_ok T 3 s3"
      "stream (rx s3) = rest" "sent s3 = sent s2 @ ack_data"
    using tab.wr_ok [of T 3 ack_data s2] l2 by auto
  then have "link_ok T (0 + length nack_data) s3" by simp
  then obtain s4 where s4: "sendToSocket nack_data s3 = Some (True, s4)"
      "stream (rx s4) = rest" "sent s4 = sent s3 @ nack_data"
    using tab.wr_ok [of T 0 nack_data s3] s3 by auto
  have "\<not> malloc (int_to_size_t (load_int hdr))" and "0 < int_to_size_t (load_int hdr)"
    using int_to_size_t_negative [OF neg] no_huge [of "int_to_size_t (load_int hdr)"] by auto
  then have "readAllSocketData malloc (int_to_size_t (load_int hdr)) t2 s3 = Some (Inl Failed, s3)"
    by (simp add: readAllSocketData_def)
  then show ?thesis
    using s1 s2 s3 s4 l2 assms(3)
    by (simp add: internalRead_def sendAck_eq sendNack_eq BT_EXPECTED_DATA_READSIZE_def)
qed

theorem internalRead_negative_size_witness:
  "\<exists>s'. internalRead (\<lambda>n. n < 2 ^ 63) 0 0
     \<lparr>rx = [\<lparr>ev = RecvBytes [255, 255, 255, 255], clk_upd = 1, clk_chk = 1\<rparr>],
      tx = replicate 9 (SendTaken 1), sent = []\<rparr>
   = Some (Inr (None, False), s')"
proof -
  let ?s = "\<lparr>rx = [\<lparr>ev = RecvBytes [255, 255, 255, 255 :: byte], clk_upd = 1, clk_chk = 1\<rparr>],
      tx = replicate 9 (SendTaken 1), sent = []\<rparr>"
  have "link_ok 0 9 ?s" by code_simp
  moreover have "sint (load_int [255, 255, 255, 255]) < 0" by (simp add: load_int_def)
  ultimately show ?thesis
    using internalRead_negative_size [of 0 ?s 0 "\<lambda>n. n < 2 ^ 63" "[255, 255, 255, 255]" "[]" 0]
    by auto
qed

end
