(* ===== verification/Ma_Charset.thy ===== *)
theory Ma_Charset
  imports Prelude
begin

text \<open>
  \<open>libmariadb/ma_charset.c\<close>, the character functions: for each multi-byte character set a
  function that measures the character at the start of a buffer (\<open>check_mb_...\<close>, 0 when it is
  not a multi-byte character) and one that measures a character from its first byte
  (\<open>mysql_mbcharlen_...\<close>). The buffer from \<open>start\<close> to \<open>end\<close> is a list; the byte at the end
  is the terminating null of the C strings the program passes, which one of the functions reads.
  What lies behind it is not specified: nothing can be shown of a function that reads it.
  \<open>char\<close> is signed: a byte above 127 becomes a huge \<open>unsigned int\<close> unless it is first cast to
  \<open>uchar\<close>.
\<close>

section \<open>Buffers\<close>

definition at :: "byte list \<Rightarrow> nat \<Rightarrow> byte" where
  "at s i = (s @ [0]) ! i"

text \<open>The two readings of \<open>*p\<close>.\<close>

definition uc :: "byte list \<Rightarrow> nat \<Rightarrow> byte" where
  "uc s i = at s i"

definition sc :: "byte list \<Rightarrow> nat \<Rightarrow> u32" where
  "sc s i = char_to_int (at s i)"

text \<open>A multi-byte tail byte of UTF-8, \<open>10xxxxxx\<close>.\<close>

definition utf8_tail :: "byte \<Rightarrow> bool" where
  "utf8_tail b \<longleftrightarrow> b XOR 0x80 < 0x40"

section \<open>UTF-8\<close>

definition check_mb_utf8mb3_sequence :: "byte list \<Rightarrow> nat" where
  "check_mb_utf8mb3_sequence s =
     (if length s = 0 then 0
      else let c = uc s 0 in
        if c < 0x80 then 1
        else if c < 0xC2 then 0
        else if c < 0xE0 then
          (if 2 > length s then 0
           else if \<not> utf8_tail (uc s 1) then 0 else 2)
        else if c < 0xF0 then
          (if 3 > length s then 0
           else if \<not> (utf8_tail (uc s 1) \<and> utf8_tail (uc s 2) \<and> (c \<ge> 0xE1 \<or> uc s 1 \<ge> 0xA0))
           then 0 else 3)
        else 0)"

definition check_mb_utf8_sequence :: "byte list \<Rightarrow> nat" where
  "check_mb_utf8_sequence s =
     (if length s = 0 then 0
      else let c = uc s 0 in
        if c < 0x80 then 1
        else if c < 0xC2 then 0
        else if c < 0xE0 then
          (if 2 > length s then 0
           else if \<not> utf8_tail (uc s 1) then 0 else 2)
        else if c < 0xF0 then
          (if 3 > length s then 0
           else if \<not> (utf8_tail (uc s 1) \<and> utf8_tail (uc s 2) \<and> (c \<ge> 0xE1 \<or> uc s 1 \<ge> 0xA0))
           then 0 else 3)
        else if c < 0xF5 then
          (if 4 > length s then 0
           else if \<not> (utf8_tail (uc s 1) \<and> utf8_tail (uc s 2) \<and> utf8_tail (uc s 3)
                       \<and> (c \<ge> 0xF1 \<or> uc s 1 \<ge> 0x90) \<and> (c \<le> 0xF3 \<or> uc s 1 \<le> 0x8F))
           then 0 else 4)
        else 0)"

definition check_mb_utf8mb3_valid :: "byte list \<Rightarrow> nat" where
  "check_mb_utf8mb3_valid s = (let len = check_mb_utf8mb3_sequence s in if len > 1 then len else 0)"

definition check_mb_utf8_valid :: "byte list \<Rightarrow> nat" where
  "check_mb_utf8_valid s = (let len = check_mb_utf8_sequence s in if len > 1 then len else 0)"

definition mysql_mbcharlen_utf8mb3 :: "u32 \<Rightarrow> nat" where
  "mysql_mbcharlen_utf8mb3 utf8 =
     (if utf8 < 0x80 then 1
      else if utf8 < 0xC2 then 0
      else if utf8 < 0xE0 then 2
      else if utf8 < 0xF0 then 3
      else 0)"

definition mysql_mbcharlen_utf8 :: "u32 \<Rightarrow> nat" where
  "mysql_mbcharlen_utf8 utf8 =
     (if utf8 < 0x80 then 1
      else if utf8 < 0xC2 then 0
      else if utf8 < 0xE0 then 2
      else if utf8 < 0xF0 then 3
      else if utf8 < 0xF8 then 4
      else 0)"

section \<open>The East Asian double-byte sets\<close>

text \<open>\<open>valid_big5head\<close> and \<open>valid_big5tail\<close> convert a signed \<open>char\<close> straight to
  \<open>unsigned int\<close>.\<close>

definition valid_big5head :: "u32 \<Rightarrow> bool" where
  "valid_big5head c \<longleftrightarrow> 0xA1 \<le> c \<and> c \<le> 0xF9"

definition valid_big5tail :: "u32 \<Rightarrow> bool" where
  "valid_big5tail c \<longleftrightarrow> (0x40 \<le> c \<and> c \<le> 0x7E) \<or> (0xA1 \<le> c \<and> c \<le> 0xFE)"

definition check_mb_big5 :: "byte list \<Rightarrow> nat" where
  "check_mb_big5 s =
     (if valid_big5head (sc s 0) \<and> length s > 1 \<and> valid_big5tail (sc s 1) then 2 else 0)"

definition mysql_mbcharlen_big5 :: "u32 \<Rightarrow> nat" where
  "mysql_mbcharlen_big5 big5 = (if valid_big5head big5 then 2 else 1)"

definition valid_cp932head :: "byte \<Rightarrow> bool" where
  "valid_cp932head c \<longleftrightarrow> (0x81 \<le> c \<and> c \<le> 0x9F) \<or> (0xE0 \<le> c \<and> c \<le> 0xFC)"

definition valid_cp932tail :: "byte \<Rightarrow> bool" where
  "valid_cp932tail c \<longleftrightarrow> (0x40 \<le> c \<and> c \<le> 0x7E) \<or> (0x80 \<le> c \<and> c \<le> 0xFC)"

definition check_mb_cp932 :: "byte list \<Rightarrow> nat" where
  "check_mb_cp932 s =
     (if valid_cp932head (uc s 0) \<and> length s > 1 \<and> valid_cp932tail (uc s 1) then 2 else 0)"

definition mysql_mbcharlen_cp932 :: "u32 \<Rightarrow> nat" where
  "mysql_mbcharlen_cp932 cp932 = (if valid_cp932head (ucast cp932) then 2 else 1)"

definition valid_euckr :: "byte \<Rightarrow> bool" where
  "valid_euckr c \<longleftrightarrow> 0xA1 \<le> c \<and> c \<le> 0xFE"

definition check_mb_euckr :: "byte list \<Rightarrow> nat" where
  "check_mb_euckr s =
     (if length s \<le> 1 then 0
      else if uc s 0 < 0x80 then 0
      else if valid_euckr (uc s 1) then 2
      else 0)"

definition mysql_mbcharlen_euckr :: "u32 \<Rightarrow> nat" where
  "mysql_mbcharlen_euckr kr = (if valid_euckr (ucast kr) then 2 else 1)"

definition valid_eucjpms :: "u32 \<Rightarrow> bool" where
  "valid_eucjpms c \<longleftrightarrow> c AND 0xFF \<ge> 0xA1 \<and> c AND 0xFF \<le> 0xFE"

definition valid_eucjpms_kata :: "u32 \<Rightarrow> bool" where
  "valid_eucjpms_kata c \<longleftrightarrow> c AND 0xFF \<ge> 0xA1 \<and> c AND 0xFF \<le> 0xDF"

definition valid_eucjpms_ss2 :: "u32 \<Rightarrow> bool" where
  "valid_eucjpms_ss2 c \<longleftrightarrow> c AND 0xFF = 0x8E"

definition valid_eucjpms_ss3 :: "u32 \<Rightarrow> bool" where
  "valid_eucjpms_ss3 c \<longleftrightarrow> c AND 0xFF = 0x8F"

definition check_mb_eucjpms :: "byte list \<Rightarrow> nat" where
  "check_mb_eucjpms s =
     (if uc s 0 < 0x80 then 0
      else if valid_eucjpms (sc s 0) \<and> length s > 1 \<and> valid_eucjpms (sc s 1) then 2
      else if valid_eucjpms_ss2 (sc s 0) \<and> length s > 1 \<and> valid_eucjpms_kata (sc s 1) then 2
      else if valid_eucjpms_ss3 (sc s 0) \<and> length s > 2 \<and> valid_eucjpms (sc s 1)
              \<and> valid_eucjpms (sc s 2) then 2
      else 0)"

definition mysql_mbcharlen_eucjpms :: "u32 \<Rightarrow> nat" where
  "mysql_mbcharlen_eucjpms jpms =
     (if valid_eucjpms jpms \<or> valid_eucjpms_ss2 jpms then 2
      else if valid_eucjpms_ss3 jpms then 3
      else 1)"

definition valid_gb2312_head :: "byte \<Rightarrow> bool" where
  "valid_gb2312_head c \<longleftrightarrow> 0xA1 \<le> c \<and> c \<le> 0xF7"

definition valid_gb2312_tail :: "byte \<Rightarrow> bool" where
  "valid_gb2312_tail c \<longleftrightarrow> 0xA1 \<le> c \<and> c \<le> 0xFE"

definition check_mb_gb2312 :: "byte list \<Rightarrow> nat" where
  "check_mb_gb2312 s =
     (if valid_gb2312_head (uc s 0) \<and> length s > 1 \<and> valid_gb2312_tail (uc s 1) then 2 else 0)"

definition mysql_mbcharlen_gb2312 :: "u32 \<Rightarrow> nat" where
  "mysql_mbcharlen_gb2312 gb = (if valid_gb2312_head (ucast gb) then 2 else 1)"

definition valid_gbk_head :: "byte \<Rightarrow> bool" where
  "valid_gbk_head c \<longleftrightarrow> 0x81 \<le> c \<and> c \<le> 0xFE"

definition valid_gbk_tail :: "byte \<Rightarrow> bool" where
  "valid_gbk_tail c \<longleftrightarrow> (0x40 \<le> c \<and> c \<le> 0x7E) \<or> (0x80 \<le> c \<and> c \<le> 0xFE)"

definition check_mb_gbk :: "byte list \<Rightarrow> nat" where
  "check_mb_gbk s =
     (if valid_gbk_head (uc s 0) \<and> length s > 1 \<and> valid_gbk_tail (uc s 1) then 2 else 0)"

definition mysql_mbcharlen_gbk :: "u32 \<Rightarrow> nat" where
  "mysql_mbcharlen_gbk gbk = (if valid_gbk_head (ucast gbk) then 2 else 1)"

definition valid_sjis_head :: "byte \<Rightarrow> bool" where
  "valid_sjis_head c \<longleftrightarrow> (0x81 \<le> c \<and> c \<le> 0x9F) \<or> (0xE0 \<le> c \<and> c \<le> 0xFC)"

definition valid_sjis_tail :: "byte \<Rightarrow> bool" where
  "valid_sjis_tail c \<longleftrightarrow> (0x40 \<le> c \<and> c \<le> 0x7E) \<or> (0x80 \<le> c \<and> c \<le> 0xFC)"

definition check_mb_sjis :: "byte list \<Rightarrow> nat" where
  "check_mb_sjis s =
     (if valid_sjis_head (uc s 0) \<and> length s > 1 \<and> valid_sjis_tail (uc s 1) then 2 else 0)"

definition mysql_mbcharlen_sjis :: "u32 \<Rightarrow> nat" where
  "mysql_mbcharlen_sjis sjis = (if valid_sjis_head (ucast sjis) then 2 else 1)"

section \<open>UCS-2, EUC-JP, UTF-16, UTF-32\<close>

definition check_mb_ucs2 :: "byte list \<Rightarrow> nat" where
  "check_mb_ucs2 s = 2"

definition mysql_mbcharlen_ucs2 :: "u32 \<Rightarrow> nat" where
  "mysql_mbcharlen_ucs2 ucs2 = 2"

definition valid_ujis :: "u32 \<Rightarrow> bool" where
  "valid_ujis c \<longleftrightarrow> 0xA1 \<le> c AND 0xFF \<and> c AND 0xFF \<le> 0xFE"

definition valid_ujis_kata :: "u32 \<Rightarrow> bool" where
  "valid_ujis_kata c \<longleftrightarrow> 0xA1 \<le> c AND 0xFF \<and> c AND 0xFF \<le> 0xDF"

definition valid_ujis_ss2 :: "u32 \<Rightarrow> bool" where
  "valid_ujis_ss2 c \<longleftrightarrow> c AND 0xFF = 0x8E"

definition valid_ujis_ss3 :: "u32 \<Rightarrow> bool" where
  "valid_ujis_ss3 c \<longleftrightarrow> c AND 0xFF = 0x8F"

text \<open>The two-byte cases do not look at \<open>end\<close>: after a head byte that ends the text they read the
  null behind it.\<close>

definition check_mb_ujis :: "byte list \<Rightarrow> nat" where
  "check_mb_ujis s =
     (if uc s 0 < 0x80 then 0
      else if valid_ujis (sc s 0) \<and> valid_ujis (sc s 1) then 2
      else if valid_ujis_ss2 (sc s 0) \<and> valid_ujis_kata (sc s 1) then 2
      else if valid_ujis_ss3 (sc s 0) \<and> length s > 2 \<and> valid_ujis (sc s 1) \<and> valid_ujis (sc s 2)
      then 3
      else 0)"

definition mysql_mbcharlen_ujis :: "u32 \<Rightarrow> nat" where
  "mysql_mbcharlen_ujis ujis =
     (if valid_ujis ujis then 2 else if valid_ujis_ss2 ujis then 2
      else if valid_ujis_ss3 ujis then 3 else 1)"

definition UTF16_HIGH_HEAD :: "byte \<Rightarrow> bool" where
  "UTF16_HIGH_HEAD x \<longleftrightarrow> x AND 0xFC = 0xD8"

definition UTF16_LOW_HEAD :: "byte \<Rightarrow> bool" where
  "UTF16_LOW_HEAD x \<longleftrightarrow> x AND 0xFC = 0xDC"

definition check_mb_utf16 :: "byte list \<Rightarrow> nat" where
  "check_mb_utf16 s =
     (if 2 > length s then 0
      else if UTF16_HIGH_HEAD (uc s 0)
      then (if 4 \<le> length s \<and> UTF16_LOW_HEAD (uc s 2) then 4 else 0)
      else if UTF16_LOW_HEAD (uc s 0) then 0
      else 2)"

definition mysql_mbcharlen_utf16 :: "u32 \<Rightarrow> nat" where
  "mysql_mbcharlen_utf16 utf16 = (if UTF16_HIGH_HEAD (ucast utf16) then 4 else 2)"

definition check_mb_utf32 :: "byte list \<Rightarrow> nat" where
  "check_mb_utf32 s = 4"

definition mysql_mbcharlen_utf32 :: "u32 \<Rightarrow> nat" where
  "mysql_mbcharlen_utf32 utf32 = 4"

lemmas check_mb_defs =
  check_mb_utf8mb3_sequence_def check_mb_utf8_sequence_def check_mb_utf8mb3_valid_def
  check_mb_utf8_valid_def check_mb_big5_def check_mb_cp932_def check_mb_euckr_def
  check_mb_eucjpms_def check_mb_gb2312_def check_mb_gbk_def check_mb_sjis_def
  check_mb_ujis_def check_mb_utf16_def

section \<open>A character set\<close>

record MARIADB_CHARSET_INFO =
  nr :: int
  state :: int
  csname :: string
  name :: string
  dir :: string
  codepage :: int
  encoding :: string
  char_minlen :: int
  char_maxlen :: int
  mb_charlen :: "(u32 \<Rightarrow> nat) option"
  mb_valid :: "(byte list \<Rightarrow> nat) option"

section \<open>Which measures stay inside the buffer\<close>

text \<open>A measuring function is safe if it never claims more bytes than there are.\<close>

definition mb_safe :: "(byte list \<Rightarrow> nat) \<Rightarrow> bool" where
  "mb_safe f \<longleftrightarrow> (\<forall>s. f s \<le> length s)"

named_theorems mb_safe_rules \<open>measuring functions that stay inside the buffer\<close>

lemma uc_end [simp]: "length s = i \<Longrightarrow> uc s i = 0"
  by (auto simp: uc_def at_def)

lemma sc_end [simp]: "length s = i \<Longrightarrow> sc s i = 0"
  by (auto simp: sc_def at_def char_to_int_def)

lemma mb_safe_utf8mb3 [mb_safe_rules]: "mb_safe check_mb_utf8mb3_valid"
  by (auto simp: mb_safe_def check_mb_defs Let_def)

lemma mb_safe_utf8 [mb_safe_rules]: "mb_safe check_mb_utf8_valid"
  by (auto simp: mb_safe_def check_mb_defs Let_def)

lemma mb_safe_big5 [mb_safe_rules]: "mb_safe check_mb_big5"
  by (auto simp: mb_safe_def check_mb_defs)

lemma mb_safe_cp932 [mb_safe_rules]: "mb_safe check_mb_cp932"
  by (auto simp: mb_safe_def check_mb_defs)

lemma mb_safe_euckr [mb_safe_rules]: "mb_safe check_mb_euckr"
  by (auto simp: mb_safe_def check_mb_defs)

lemma mb_safe_eucjpms [mb_safe_rules]: "mb_safe check_mb_eucjpms"
  by (auto simp: mb_safe_def check_mb_defs)

lemma mb_safe_gb2312 [mb_safe_rules]: "mb_safe check_mb_gb2312"
  by (auto simp: mb_safe_def check_mb_defs)

lemma mb_safe_gbk [mb_safe_rules]: "mb_safe check_mb_gbk"
  by (auto simp: mb_safe_def check_mb_defs)

lemma mb_safe_sjis [mb_safe_rules]: "mb_safe check_mb_sjis"
  by (auto simp: mb_safe_def check_mb_defs)

lemma mb_safe_utf16 [mb_safe_rules]: "mb_safe check_mb_utf16"
  by (auto simp: mb_safe_def check_mb_defs)

lemma mb_safe_ujis [mb_safe_rules]: "mb_safe check_mb_ujis"
proof -
  have "check_mb_ujis s \<le> length s" for s
  proof (cases "2 \<le> length s")
    case True
    then show ?thesis by (auto simp: check_mb_ujis_def)
  next
    case False
    then consider "s = []" | "length s = 1" by (cases s; cases "tl s") simp_all
    then show ?thesis
    proof cases
      case 1
      then show ?thesis by (simp add: check_mb_ujis_def)
    next
      case 2
      then have "uc s 1 = 0" "sc s 1 = 0" by simp_all
      with 2 show ?thesis by (auto simp: check_mb_ujis_def valid_ujis_def valid_ujis_kata_def)
    qed
  qed
  then show ?thesis by (simp add: mb_safe_def)
qed

text \<open>Two are not: they answer without looking.\<close>

lemma not_mb_safe_ucs2: "\<not> mb_safe check_mb_ucs2"
  by (auto simp: mb_safe_def check_mb_ucs2_def intro: exI [of _ "[]"])

lemma not_mb_safe_utf32: "\<not> mb_safe check_mb_utf32"
  by (auto simp: mb_safe_def check_mb_utf32_def intro: exI [of _ "[]"])

text \<open>The tail bytes of a UTF-8 character are above 127, as is its head.\<close>

lemma bit_7_iff: "bit (b :: byte) 7 \<longleftrightarrow> 0x80 \<le> b"
proof -
  have lt: "unat b < 256" using unsigned_less [where w = b and ?'a = nat] by simp
  have "bit b 7 \<longleftrightarrow> bit (unat b) 7" by (simp add: bit_unsigned_iff)
  also have "\<dots> \<longleftrightarrow> odd (unat b div 128)" by (simp add: bit_iff_odd)
  also have "\<dots> \<longleftrightarrow> 128 \<le> unat b"
  proof
    assume "128 \<le> unat b"
    with lt have "unat b div 128 = 1" by simp
    then show "odd (unat b div 128)" by simp
  next
    assume "odd (unat b div 128)"
    then have "unat b div 128 \<noteq> 0" by (metis even_zero)
    then show "128 \<le> unat b" by (simp add: div_eq_0_iff)
  qed
  also have "\<dots> \<longleftrightarrow> 0x80 \<le> b" by (simp add: word_le_nat_alt)
  finally show ?thesis .
qed

lemma utf8_tail_high: "utf8_tail b \<Longrightarrow> b \<ge> 0x80"
proof -
  assume "utf8_tail b"
  then have "\<not> 0x80 \<le> b XOR 0x80"
    by (simp add: utf8_tail_def word_le_nat_alt word_less_nat_alt)
  then have "\<not> bit (b XOR 0x80) 7" by (simp add: bit_7_iff)
  moreover have "bit (0x80 :: byte) 7" by (simp add: bit_7_iff)
  ultimately have "bit b 7" by (auto simp: bit_xor_iff)
  then show ?thesis by (simp add: bit_7_iff)
qed

end
