(* ===== verification/Ma_Escape.thy ===== *)
theory Ma_Escape
  imports Ma_Charset
begin

text \<open>
  \<open>mysql_cset_escape_quotes\<close> and \<open>mysql_cset_escape_slashes\<close> of \<open>libmariadb/ma_charset.c\<close>,
  \<open>mysql_real_escape_string\<close> of \<open>mariadb_lib.c\<close>, and what they are for: a text escaped and put
  between single quotes reads back as itself. The caller's buffer holds \<open>2 * length + 1\<close> bytes.
\<close>

section \<open>The two loops\<close>

text \<open>\<open>cset->char_maxlen > 1 && (len = cset->mb_valid(escapestr, end))\<close>: the bytes of the
  multi-byte character at the front, 0 if there is none; \<open>None\<close> is a call through a null
  pointer.\<close>

definition mb_len :: "MARIADB_CHARSET_INFO \<Rightarrow> byte list \<Rightarrow> nat option" where
  "mb_len cset s =
     (if char_maxlen cset > 1 then case mb_valid cset of None \<Rightarrow> None | Some f \<Rightarrow> Some (f s)
      else Some 0)"

text \<open>A multi-byte character is copied byte by byte. A length that runs past the end reads the
  terminating null and, beyond it, memory that is not the string's (\<open>None\<close>). The result is the
  overflow flag and what was written.\<close>

function escape_quotes_loop ::
    "MARIADB_CHARSET_INFO \<Rightarrow> nat \<Rightarrow> byte list \<Rightarrow> byte list \<Rightarrow> (bool \<times> byte list) option" where
  "escape_quotes_loop cset cap [] newstr = Some (False, newstr)"
| "escape_quotes_loop cset cap (b # s) newstr =
     (case mb_len cset (b # s) of
        None \<Rightarrow> None
      | Some len \<Rightarrow>
          if len > 0 then
            if length newstr + len > cap then Some (True, newstr)
            else if len > Suc (length (b # s)) then None
            else escape_quotes_loop cset cap (drop len (b # s)) (newstr @ take len (b # s @ [0]))
          else if b = 0x27 then
            if length newstr + 2 > cap then Some (True, newstr)
            else escape_quotes_loop cset cap s (newstr @ [0x27, 0x27])
          else
            if length newstr + 1 > cap then Some (True, newstr)
            else escape_quotes_loop cset cap s (newstr @ [b]))"
  by pat_completeness auto
termination
  by (relation "measure (\<lambda>(_, _, s, _). length s)") auto

text \<open>The \<open>switch\<close>: null, newline, carriage return, backslash, the quotes, and 26.\<close>

definition slash_esc :: "byte \<Rightarrow> byte" where
  "slash_esc b =
     (if b = 0 then 0x30
      else if b = 10 then 0x6E
      else if b = 13 then 0x72
      else if b = 0x5C \<or> b = 0x27 \<or> b = 0x22 then b
      else if b = 26 then 0x5A
      else 0)"

definition mb_head :: "MARIADB_CHARSET_INFO \<Rightarrow> byte \<Rightarrow> bool option" where
  "mb_head cset b =
     (if char_maxlen cset > 1 then
        case mb_charlen cset of None \<Rightarrow> None | Some f \<Rightarrow> Some (f (char_to_int b) > 1)
      else Some False)"

function escape_slashes_loop ::
    "MARIADB_CHARSET_INFO \<Rightarrow> nat \<Rightarrow> byte list \<Rightarrow> byte list \<Rightarrow> (bool \<times> byte list) option" where
  "escape_slashes_loop cset cap [] newstr = Some (False, newstr)"
| "escape_slashes_loop cset cap (b # s) newstr =
     (case mb_len cset (b # s) of
        None \<Rightarrow> None
      | Some len \<Rightarrow>
          if len > 0 then
            if length newstr + len > cap then Some (True, newstr)
            else if len > Suc (length (b # s)) then None
            else escape_slashes_loop cset cap (drop len (b # s)) (newstr @ take len (b # s @ [0]))
          else
            case mb_head cset b of
              None \<Rightarrow> None
            | Some multi \<Rightarrow>
                let esc = (if multi then b else slash_esc b) in
                if esc \<noteq> 0 then
                  if length newstr + 2 > cap then Some (True, newstr)
                  else escape_slashes_loop cset cap s (newstr @ [0x5C, esc])
                else
                  if length newstr + 1 > cap then Some (True, newstr)
                  else escape_slashes_loop cset cap s (newstr @ [b]))"
  by pat_completeness auto
termination
  by (relation "measure (\<lambda>(_, _, s, _). length s)") auto

declare escape_quotes_loop.simps(2) [simp del] escape_slashes_loop.simps(2) [simp del]

text \<open>The returned \<open>size_t\<close> and the buffer with its terminating null.\<close>

definition escape_result :: "(bool \<times> byte list) option \<Rightarrow> (u64 \<times> byte list) option" where
  "escape_result r =
     map_option (\<lambda>(over, out). (if over then - 1 else word_of_nat (length out), out @ [0])) r"

definition mysql_cset_escape_quotes ::
    "MARIADB_CHARSET_INFO \<Rightarrow> byte list \<Rightarrow> (u64 \<times> byte list) option" where
  "mysql_cset_escape_quotes cset escapestr =
     escape_result (escape_quotes_loop cset (2 * length escapestr) escapestr [])"

definition mysql_cset_escape_slashes ::
    "MARIADB_CHARSET_INFO \<Rightarrow> byte list \<Rightarrow> (u64 \<times> byte list) option" where
  "mysql_cset_escape_slashes cset escapestr =
     escape_result (escape_slashes_loop cset (2 * length escapestr) escapestr [])"

text \<open>\<open>mysql_real_escape_string\<close>: \<open>no_backslash\<close> is the bit
  \<open>SERVER_STATUS_NO_BACKSLASH_ESCAPES\<close> of \<open>mysql->server_status\<close>; the \<open>size_t\<close> is cut to the
  32 bits of \<open>ulong\<close>.\<close>

definition mysql_real_escape_string ::
    "MARIADB_CHARSET_INFO \<Rightarrow> bool \<Rightarrow> byte list \<Rightarrow> (u32 \<times> byte list) option" where
  "mysql_real_escape_string cset no_backslash from_str =
     map_option (\<lambda>(n, out). (ucast n, out))
       (if no_backslash then mysql_cset_escape_quotes cset from_str
        else mysql_cset_escape_slashes cset from_str)"

section \<open>Reading a literal\<close>

text \<open>
  The specification: how a quoted literal reads, as the SQL manual of the server states it. In
  the character set measured by \<open>f\<close> a multi-byte character stands for itself; a quote closes the
  literal unless it is doubled; a backslash, unless the mode disables it, begins an escape
  sequence. The argument is the text after the opening quote; the result is the value and the
  text after the closing quote.
\<close>

definition unescape :: "byte \<Rightarrow> byte list" where
  "unescape c =
     (if c = 0x30 then [0]
      else if c = 0x62 then [8]
      else if c = 0x6E then [10]
      else if c = 0x72 then [13]
      else if c = 0x74 then [9]
      else if c = 0x5A then [26]
      else if c = 0x25 \<or> c = 0x5F then [0x5C, c]
      else [c])"

definition cons_value :: "byte list \<Rightarrow> (byte list \<times> byte list) option \<Rightarrow> (byte list \<times> byte list) option" where
  "cons_value d r = map_option (\<lambda>(v, rest). (d @ v, rest)) r"

lemma cons_value_Some [simp]: "cons_value d (Some (v, r)) = Some (d @ v, r)"
  by (simp add: cons_value_def)

function scan_literal :: "(byte list \<Rightarrow> nat) \<Rightarrow> bool \<Rightarrow> byte list \<Rightarrow> (byte list \<times> byte list) option" where
  "scan_literal f nbs [] = None"
| "scan_literal f nbs (b # s) =
     (let n = f (b # s) in
      if n > 0 then cons_value (take n (b # s)) (scan_literal f nbs (drop n (b # s)))
      else if b = 0x27 then
        case s of
          c # s' \<Rightarrow> if c = 0x27 then cons_value [0x27] (scan_literal f nbs s') else Some ([], s)
        | [] \<Rightarrow> Some ([], [])
      else if b = 0x5C \<and> \<not> nbs then
        case s of c # s' \<Rightarrow> cons_value (unescape c) (scan_literal f nbs s') | [] \<Rightarrow> None
      else cons_value [b] (scan_literal f nbs s))"
  by pat_completeness auto
termination
  by (relation "measure (\<lambda>(_, _, s). length s)") auto

declare scan_literal.simps(2) [simp del]

section \<open>What the loops write\<close>

text \<open>The text both loops produce when every multi-byte character is measured by \<open>f\<close> and no
  lone byte is taken for the head of one.\<close>

definition esc1 :: "bool \<Rightarrow> byte \<Rightarrow> byte list" where
  "esc1 nbs b =
     (if nbs then (if b = 0x27 then [0x27, 0x27] else [b])
      else if slash_esc b \<noteq> 0 then [0x5C, slash_esc b] else [b])"

function esc_text :: "(byte list \<Rightarrow> nat) \<Rightarrow> bool \<Rightarrow> byte list \<Rightarrow> byte list" where
  "esc_text f nbs [] = []"
| "esc_text f nbs (b # s) =
     (if f (b # s) > 0 then take (f (b # s)) (b # s) @ esc_text f nbs (drop (f (b # s)) (b # s))
      else esc1 nbs b @ esc_text f nbs s)"
  by pat_completeness auto
termination
  by (relation "measure (\<lambda>(_, _, s). length s)") auto

declare esc_text.simps(2) [simp del]

lemma length_esc1: "length (esc1 nbs b) \<le> 2"
  by (simp add: esc1_def)

lemma unescape_slash_esc: "slash_esc b \<noteq> 0 \<Longrightarrow> unescape (slash_esc b) = [b]"
  by (auto simp: slash_esc_def unescape_def split: if_splits)

lemma slash_esc_0: "slash_esc b = 0 \<Longrightarrow> b \<noteq> 0x27 \<and> b \<noteq> 0x5C"
  by (auto simp: slash_esc_def split: if_splits)

lemma slash_esc_high: "0x80 \<le> b \<Longrightarrow> slash_esc b = 0 \<and> b \<noteq> 0x27"
  by (auto simp: slash_esc_def word_le_nat_alt)

lemma take_to_end [simp]: "n \<le> Suc (length s) \<Longrightarrow> take n (b # s @ [c]) = take n (b # s)"
  by (cases n) auto

text \<open>With a measure that stays inside the text, both loops run through the whole text and
  never overflow the buffer.\<close>

lemma escape_slashes_loop_fits:
  assumes "\<And>s. \<exists>n. mb_len cset s = Some n \<and> n \<le> length s" and "\<And>b. mb_head cset b \<noteq> None"
    and "length newstr + 2 * length s \<le> cap"
  shows "\<exists>out. escape_slashes_loop cset cap s newstr = Some (False, newstr @ out) \<and>
    length out \<le> 2 * length s"
  using assms(3)
proof (induction s arbitrary: newstr rule: length_induct)
  case (1 s)
  show ?case
  proof (cases s)
    case Nil
    then show ?thesis by simp
  next
    case (Cons b s')
    from assms(1) [of s] obtain n where n: "mb_len cset (b # s') = Some n" "n \<le> Suc (length s')"
      using Cons by auto
    from assms(2) [of b] obtain h where h: "mb_head cset b = Some h" by auto
    have step: "\<exists>out. escape_slashes_loop cset cap (drop k s) (newstr @ d) =
        Some (False, newstr @ d @ out) \<and> length (d @ out) \<le> 2 * length s"
      if "0 < k" "k \<le> length s" "length d \<le> 2 * k" for k d
    proof -
      have "length (drop k s) < length s" using that by simp
      moreover have "length (newstr @ d) + 2 * length (drop k s) \<le> cap" using that 1(2) by simp
      ultimately obtain out where "escape_slashes_loop cset cap (drop k s) (newstr @ d) =
          Some (False, (newstr @ d) @ out)" "length out \<le> 2 * length (drop k s)"
        using 1(1) by blast
      then show ?thesis using that by auto
    qed
    have cap: "length newstr + 2 + 2 * length s' \<le> cap" using 1(2) Cons by simp
    show ?thesis
    proof (cases "0 < n")
      case True
      then obtain out where "escape_slashes_loop cset cap (drop n s) (newstr @ take n s) =
          Some (False, newstr @ take n s @ out)" "length (take n s @ out) \<le> 2 * length s"
        using step [of n "take n s"] n(2) Cons by auto
      moreover have "take n (s @ [0]) = take n s" using n(2) Cons by simp
      moreover have "escape_slashes_loop cset cap s newstr =
          escape_slashes_loop cset cap (drop n s) (newstr @ take n (s @ [0]))"
        using n True cap Cons by (simp add: escape_slashes_loop.simps(2))
      ultimately show ?thesis by auto
    next
      case False
      let ?e = "if h then b else slash_esc b"
      from step [of 1 "[0x5C, ?e]"] step [of 1 "[b]"] n h cap Cons False show ?thesis
        by (cases "?e = 0") (auto simp: escape_slashes_loop.simps(2) Let_def)
    qed
  qed
qed

lemma escape_slashes_loop_text:
  assumes "\<And>s. mb_len cset s = Some (f s)" and "\<And>s. f s \<le> length s"
    and "\<And>b. mb_head cset b = Some False"
    and "length newstr + 2 * length s \<le> cap"
  shows "escape_slashes_loop cset cap s newstr = Some (False, newstr @ esc_text f False s)"
  using assms
proof (induction f False s arbitrary: newstr rule: esc_text.induct)
  case (1 f)
  then show ?case by simp
next
  case (2 f b s)
  have "f (b # s) \<le> Suc (length s)" using 2(4) [of "b # s"] by simp
  with 2 show ?case
    by (cases "f (b # s) = 0")
      (auto simp: escape_slashes_loop.simps(2) esc_text.simps(2) esc1_def Let_def)
qed

lemma escape_quotes_loop_text:
  assumes "\<And>s. mb_len cset s = Some (f s)" and "\<And>s. f s \<le> length s"
    and "length newstr + 2 * length s \<le> cap"
  shows "escape_quotes_loop cset cap s newstr = Some (False, newstr @ esc_text f True s)"
  using assms
proof (induction f True s arbitrary: newstr rule: esc_text.induct)
  case (1 f)
  then show ?case by simp
next
  case (2 f b s)
  have "f (b # s) \<le> Suc (length s)" using 2(4) [of "b # s"] by simp
  with 2 show ?case
    by (cases "f (b # s) = 0")
      (auto simp: escape_quotes_loop.simps(2) esc_text.simps(2) esc1_def Let_def)
qed

lemma length_esc_text:
  assumes "\<And>s. f s \<le> length s"
  shows "length (esc_text f nbs s) \<le> 2 * length s"
  using assms
proof (induction f nbs s rule: esc_text.induct)
  case (1 f nbs)
  then show ?case by simp
next
  case (2 f nbs b s)
  have "f (b # s) \<le> Suc (length s)" using 2(3) [of "b # s"] by simp
  with 2 show ?case using length_esc1 [of nbs b]
    by (cases "f (b # s) = 0") (auto simp: esc_text.simps(2))
qed

section \<open>Character sets that are safe to escape\<close>

text \<open>
  What escaping needs of a measuring function \<open>f\<close>: a multi-byte character is a head and tail
  bytes, tail bytes are never special and never heads, and the measure depends on the tail bytes
  that follow only.
\<close>

locale mb_charset =
  fixes f :: "byte list \<Rightarrow> nat" and tl_byte :: "byte \<Rightarrow> bool"
  assumes inside: "f s \<le> length s"
    and tails: "0 < f (b # s) \<Longrightarrow> x \<in> set (take (f (b # s) - 1) s) \<Longrightarrow> tl_byte x"
    and head: "b < 0x80 \<or> tl_byte b \<Longrightarrow> f (b # s) = 0"
    and high: "tl_byte b \<Longrightarrow> 0x80 \<le> b"
    and depends: "takeWhile tl_byte s = takeWhile tl_byte t \<Longrightarrow> f (b # s) = f (b # t)"
begin

lemma measure_Nil: "f [] = 0"
  using inside [of "[]"] by simp

lemma special: "f (0x27 # s) = 0" "f (0x5C # s) = 0"
  by (rule head, simp add: word_less_nat_alt)+

lemma not_tail: "\<not> tl_byte 0x27" "\<not> tl_byte 0x5C"
  using high [of "0x27"] high [of "0x5C"] by (auto simp: word_le_nat_alt)

lemma takeWhile_esc_text:
  "takeWhile tl_byte (esc_text f nbs s @ 0x27 # rest) = takeWhile tl_byte s"
proof (induction s)
  case Nil
  then show ?case by (simp add: not_tail)
next
  case (Cons b s)
  show ?case
  proof (cases "tl_byte b")
    case True
    then have "f (b # s) = 0" and "esc1 nbs b = [b]"
      using head [of b] slash_esc_high [OF high] by (auto simp: esc1_def)
    with True Cons show ?thesis by (simp add: esc_text.simps(2))
  next
    case False
    then show ?thesis
      by (cases "f (b # s)") (auto simp: esc_text.simps(2) esc1_def not_tail)
  qed
qed

lemma scan_esc1:
  assumes "f (b # s) = 0" and "f (b # t) = 0"
  shows "scan_literal f nbs (esc1 nbs b @ t) = cons_value [b] (scan_literal f nbs t)"
proof (cases nbs)
  case True
  with assms show ?thesis by (simp add: esc1_def scan_literal.simps(2) special)
next
  case False
  with assms show ?thesis
    by (auto simp: esc1_def scan_literal.simps(2) unescape_slash_esc special dest: slash_esc_0)
qed

theorem scan_esc_text:
  assumes "rest = [] \<or> hd rest \<noteq> 0x27"
  shows "scan_literal f nbs (esc_text f nbs s @ 0x27 # rest) = Some (s, rest)"
proof (induction s rule: length_induct)
  case (1 s)
  show ?case
  proof (cases s)
    case Nil
    with assms show ?thesis by (cases rest) (auto simp: scan_literal.simps(2) special)
  next
    case (Cons b s')
    define n where "n = f (b # s')"
    show ?thesis
    proof (cases "n = 0")
      case True
      have "f (b # esc_text f nbs s' @ 0x27 # rest) = f (b # s')"
        by (rule depends) (rule takeWhile_esc_text)
      with True n_def Cons 1 show ?thesis
        by (simp add: esc_text.simps(2) scan_esc1)
    next
      case False
      let ?X = "esc_text f nbs (drop (n - 1) s') @ 0x27 # rest"
      have "n \<le> Suc (length s')" using inside [of "b # s'"] by (simp add: n_def)
      moreover have all: "\<And>x. x \<in> set (take (n - 1) s') \<Longrightarrow> tl_byte x"
        using tails False unfolding n_def by blast
      then have "takeWhile tl_byte (take (n - 1) s' @ ?X) = takeWhile tl_byte (take (n - 1) s' @ drop (n - 1) s')"
        by (simp only: takeWhile_append2 takeWhile_esc_text)
      then have "f (b # take (n - 1) s' @ ?X) = n"
        unfolding n_def append_take_drop_id by (rule depends)
      moreover have "scan_literal f nbs ?X = Some (drop (n - 1) s', rest)"
        using 1 Cons by simp
      moreover have et: "esc_text f nbs s = b # take (n - 1) s' @ esc_text f nbs (drop (n - 1) s')"
        using False Cons by (simp add: esc_text.simps(2) n_def take_Cons' drop_Cons')
      ultimately show ?thesis using False Cons
        by (simp add: scan_literal.simps(2) Let_def take_Cons' drop_Cons')
    qed
  qed
qed

end

section \<open>The sets that are\<close>

lemma check_mb_utf8_valid_tails:
  "check_mb_utf8_valid (b # s) = check_mb_utf8_valid (b # takeWhile utf8_tail s)"
proof -
  consider "s = []" | x where "s = [x]" | x y where "s = [x, y]" | x y z r where "s = x # y # z # r"
    by (metis list.exhaust)
  then show ?thesis
  proof cases
    case 1
    then show ?thesis by simp
  next
    case (2 x)
    then show ?thesis
      by (cases "utf8_tail x") (simp_all add: check_mb_utf8_valid_def check_mb_utf8_sequence_def uc_def at_def)
  next
    case (3 x y)
    then show ?thesis
      by (cases "utf8_tail x"; cases "utf8_tail y")
        (simp_all add: check_mb_utf8_valid_def check_mb_utf8_sequence_def uc_def at_def)
  next
    case (4 x y z r)
    then show ?thesis
      by (cases "utf8_tail x"; cases "utf8_tail y"; cases "utf8_tail z")
        (simp_all add: check_mb_utf8_valid_def check_mb_utf8_sequence_def uc_def at_def)
  qed
qed

lemma check_mb_utf8_low: "b < 0x80 \<Longrightarrow> check_mb_utf8_sequence (b # s) = 1"
  by (simp add: check_mb_utf8_sequence_def uc_def at_def)

lemma check_mb_utf8_no_head: "\<not> b < 0x80 \<Longrightarrow> b < 0xC2 \<Longrightarrow> check_mb_utf8_sequence (b # s) = 0"
  by (simp add: check_mb_utf8_sequence_def uc_def at_def)

lemma check_mb_utf8_valid_tail_bytes:
  assumes "x \<in> set (take (check_mb_utf8_valid (b # s) - 1) s)"
  shows "utf8_tail x"
proof -
  let ?n = "check_mb_utf8_sequence (b # s)"
  have n4: "?n \<le> 4" by (simp add: check_mb_utf8_sequence_def Let_def)
  from assms obtain i where i: "i < ?n - 1" "i < length s" "x = s ! i"
    by (auto simp: check_mb_utf8_valid_def Let_def in_set_conv_nth split: if_splits)
  then have "x = uc (b # s) (Suc i)" by (simp add: uc_def at_def nth_append)
  moreover have "\<forall>k \<in> {1, 2, 3}. k < ?n \<longrightarrow> utf8_tail (uc (b # s) k)"
    by (simp add: check_mb_utf8_sequence_def Let_def)
  moreover have "Suc i \<in> {1, 2, 3}" using i n4 by auto
  moreover have "Suc i < ?n" using i by simp
  ultimately show ?thesis by blast
qed

lemma check_mb_utf8mb3_valid_tails:
  "check_mb_utf8mb3_valid (b # s) = check_mb_utf8mb3_valid (b # takeWhile utf8_tail s)"
proof -
  consider "s = []" | x where "s = [x]" | x y where "s = [x, y]" | x y z r where "s = x # y # z # r"
    by (metis list.exhaust)
  then show ?thesis
  proof cases
    case 1
    then show ?thesis by simp
  next
    case (2 x)
    then show ?thesis
      by (cases "utf8_tail x") (simp_all add: check_mb_utf8mb3_valid_def check_mb_utf8mb3_sequence_def uc_def at_def)
  next
    case (3 x y)
    then show ?thesis
      by (cases "utf8_tail x"; cases "utf8_tail y")
        (simp_all add: check_mb_utf8mb3_valid_def check_mb_utf8mb3_sequence_def uc_def at_def)
  next
    case (4 x y z r)
    then show ?thesis
      by (cases "utf8_tail x"; cases "utf8_tail y"; cases "utf8_tail z")
        (simp_all add: check_mb_utf8mb3_valid_def check_mb_utf8mb3_sequence_def uc_def at_def)
  qed
qed

lemma check_mb_utf8mb3_low: "b < 0x80 \<Longrightarrow> check_mb_utf8mb3_sequence (b # s) = 1"
  by (simp add: check_mb_utf8mb3_sequence_def uc_def at_def)

lemma check_mb_utf8mb3_no_head: "\<not> b < 0x80 \<Longrightarrow> b < 0xC2 \<Longrightarrow> check_mb_utf8mb3_sequence (b # s) = 0"
  by (simp add: check_mb_utf8mb3_sequence_def uc_def at_def)

lemma check_mb_utf8mb3_valid_tail_bytes:
  assumes "x \<in> set (take (check_mb_utf8mb3_valid (b # s) - 1) s)"
  shows "utf8_tail x"
proof -
  let ?n = "check_mb_utf8mb3_sequence (b # s)"
  have n4: "?n \<le> 4" by (simp add: check_mb_utf8mb3_sequence_def Let_def)
  from assms obtain i where i: "i < ?n - 1" "i < length s" "x = s ! i"
    by (auto simp: check_mb_utf8mb3_valid_def Let_def in_set_conv_nth split: if_splits)
  then have "x = uc (b # s) (Suc i)" by (simp add: uc_def at_def nth_append)
  moreover have "\<forall>k \<in> {1, 2, 3}. k < ?n \<longrightarrow> utf8_tail (uc (b # s) k)"
    by (simp add: check_mb_utf8mb3_sequence_def Let_def)
  moreover have "Suc i \<in> {1, 2, 3}" using i n4 by auto
  moreover have "Suc i < ?n" using i by simp
  ultimately show ?thesis by blast
qed

lemma utf8_tail_table: "utf8_tail b \<longrightarrow> b < 0xC2"
  by (rule byte_all [of "\<lambda>b. utf8_tail b \<longrightarrow> b < 0xC2"]) code_simp

lemma utf8_tail_range: "utf8_tail b \<Longrightarrow> b < 0xC2"
  using utf8_tail_table by blast

interpretation single: mb_charset "\<lambda>_. 0" "\<lambda>_. False"
  by unfold_locales auto

interpretation utf8mb4: mb_charset check_mb_utf8_valid utf8_tail
proof
  fix s t :: "byte list" and b x :: byte
  show "check_mb_utf8_valid s \<le> length s"
    using mb_safe_utf8 by (simp add: mb_safe_def)
  show "utf8_tail x" if "0 < check_mb_utf8_valid (b # s)"
    "x \<in> set (take (check_mb_utf8_valid (b # s) - 1) s)"
    using that(2) by (rule check_mb_utf8_valid_tail_bytes)
  show "check_mb_utf8_valid (b # s) = 0" if "b < 0x80 \<or> utf8_tail b"
  proof -
    from that utf8_tail_range [of b] have "b < 0x80 \<or> b < 0xC2" by blast
    then have "check_mb_utf8_sequence (b # s) = 1 \<or> check_mb_utf8_sequence (b # s) = 0"
      using check_mb_utf8_low [of b s] check_mb_utf8_no_head [of b s] by (cases "b < 0x80") auto
    then show ?thesis by (auto simp: check_mb_utf8_valid_def)
  qed
  show "0x80 \<le> b" if "utf8_tail b"
    using that by (rule utf8_tail_high)
  show "check_mb_utf8_valid (b # s) = check_mb_utf8_valid (b # t)"
    if "takeWhile utf8_tail s = takeWhile utf8_tail t"
    using that check_mb_utf8_valid_tails by metis
qed

interpretation utf8mb3: mb_charset check_mb_utf8mb3_valid utf8_tail
proof
  fix s t :: "byte list" and b x :: byte
  show "check_mb_utf8mb3_valid s \<le> length s"
    using mb_safe_utf8mb3 by (simp add: mb_safe_def)
  show "utf8_tail x" if "0 < check_mb_utf8mb3_valid (b # s)"
    "x \<in> set (take (check_mb_utf8mb3_valid (b # s) - 1) s)"
    using that(2) by (rule check_mb_utf8mb3_valid_tail_bytes)
  show "check_mb_utf8mb3_valid (b # s) = 0" if "b < 0x80 \<or> utf8_tail b"
  proof -
    from that utf8_tail_range [of b] have "b < 0x80 \<or> b < 0xC2" by blast
    then have "check_mb_utf8mb3_sequence (b # s) = 1 \<or> check_mb_utf8mb3_sequence (b # s) = 0"
      using check_mb_utf8mb3_low [of b s] check_mb_utf8mb3_no_head [of b s] by (cases "b < 0x80") auto
    then show ?thesis by (auto simp: check_mb_utf8mb3_valid_def)
  qed
  show "0x80 \<le> b" if "utf8_tail b"
    using that by (rule utf8_tail_high)
  show "check_mb_utf8mb3_valid (b # s) = check_mb_utf8mb3_valid (b # t)"
    if "takeWhile utf8_tail s = takeWhile utf8_tail t"
    using that check_mb_utf8mb3_valid_tails by metis
qed

end
