(* ===== verification/Ma_Charset_Table.thy ===== *)
theory Ma_Charset_Table
  imports Ma_Charset
begin

text \<open>
  The data of \<open>libmariadb/ma_charset.c\<close>: \<open>mariadb_compiled_charsets\<close> (the sets the client
  knows, in the order the searches meet them), the Windows half of \<open>MADB_OS_CHARSET\<close> (code page
  to character set), and the searches over them. The rows stand as in the source; the arrays'
  closing rows of zeros are the ends of the lists, and \<open>NULL\<close> is \<open>None\<close>.
\<close>

section \<open>The compiled character sets\<close>

definition UTF8_MB4 :: string where
  "UTF8_MB4 = ''utf8mb4''"

definition UTF8_MB3 :: string where
  "UTF8_MB3 = ''utf8''"

text \<open>One row of the array, its fields in the order of \<open>struct ma_charset_info_st\<close>.\<close>

definition cs :: "int \<Rightarrow> int \<Rightarrow> string \<Rightarrow> string \<Rightarrow> string \<Rightarrow> int \<Rightarrow> string \<Rightarrow> int \<Rightarrow> int \<Rightarrow>
    (u32 \<Rightarrow> nat) option \<Rightarrow> (byte list \<Rightarrow> nat) option \<Rightarrow> MARIADB_CHARSET_INFO" where
  "cs n st csn nm dr cp enc mn mx chl val =
     \<lparr>nr = n, state = st, csname = csn, name = nm, dir = dr, codepage = cp, encoding = enc,
      char_minlen = mn, char_maxlen = mx, mb_charlen = chl, mb_valid = val\<rparr>"

definition mariadb_compiled_charsets_1 :: "MARIADB_CHARSET_INFO list" where
  "mariadb_compiled_charsets_1 = [
     cs 1 1 ''big5'' ''big5_chinese_ci'' '''' 950 ''BIG5'' 1 2 (Some mysql_mbcharlen_big5) (Some check_mb_big5),
     cs 3 1 ''dec8'' ''dec8_swedisch_ci'' '''' 0 ''DEC'' 1 1 None None,
     cs 4 1 ''cp850'' ''cp850_general_ci'' '''' 850 ''CP850'' 1 1 None None,
     cs 6 1 ''hp8'' ''hp8_english_ci'' '''' 0 ''HP-ROMAN8'' 1 1 None None,
     cs 7 1 ''koi8r'' ''koi8r_general_ci'' '''' 878 ''KOI8R'' 1 1 None None,
     cs 8 1 ''latin1'' ''latin1_swedish_ci'' '''' 850 ''LATIN1'' 1 1 None None,
     cs 9 1 ''latin2'' ''latin2_general_ci'' '''' 852 ''LATIN2'' 1 1 None None,
     cs 10 1 ''swe7'' ''swe7_swedish_ci'' '''' 20107 '''' 1 1 None None,
     cs 11 1 ''ascii'' ''ascii_general_ci'' '''' 1252 ''ASCII'' 1 1 None None,
     cs 12 1 ''ujis'' ''ujis_japanese_ci'' '''' 20932 ''UJIS'' 1 3 (Some mysql_mbcharlen_ujis) (Some check_mb_ujis),
     cs 13 1 ''sjis'' ''sjis_japanese_ci'' '''' 932 ''SJIS'' 1 2 (Some mysql_mbcharlen_sjis) (Some check_mb_sjis),
     cs 16 1 ''hebrew'' ''hebrew_general_ci'' '''' 1255 ''HEBREW'' 1 1 None None,
     cs 18 1 ''tis620'' ''tis620_thai_ci'' '''' 874 ''TIS620'' 1 1 None None,
     cs 19 1 ''euckr'' ''euckr_korean_ci'' '''' 51949 ''EUCKR'' 1 2 (Some mysql_mbcharlen_euckr) (Some check_mb_euckr),
     cs 22 1 ''koi8u'' ''koi8u_general_ci'' '''' 20866 ''KOI8U'' 1 1 None None,
     cs 24 1 ''gb2312'' ''gb2312_chinese_ci'' '''' 936 ''GB2312'' 1 2 (Some mysql_mbcharlen_gb2312) (Some check_mb_gb2312),
     cs 25 1 ''greek'' ''greek_general_ci'' '''' 28597 ''GREEK'' 1 1 None None,
     cs 26 1 ''cp1250'' ''cp1250_general_ci'' '''' 1250 ''CP1250'' 1 1 None None,
     cs 28 1 ''gbk'' ''gbk_chinese_ci'' '''' 936 ''GBK'' 1 2 (Some mysql_mbcharlen_gbk) (Some check_mb_gbk),
     cs 30 1 ''latin5'' ''latin5_turkish_ci'' '''' 1254 ''LATIN5'' 1 1 None None,
     cs 32 1 ''armscii8'' ''armscii8_general_ci'' '''' 0 ''ARMSCII-8'' 1 1 None None,
     cs 33 1 UTF8_MB3 (UTF8_MB3 @ ''_general_ci'') '''' 65001 ''UTF-8'' 1 3 (Some mysql_mbcharlen_utf8mb3) (Some check_mb_utf8mb3_valid),
     cs 35 1 ''ucs2'' ''ucs2_general_ci'' '''' 1200 ''UCS-2BE'' 2 2 (Some mysql_mbcharlen_ucs2) (Some check_mb_ucs2),
     cs 36 1 ''cp866'' ''cp866_general_ci'' '''' 866 ''CP866'' 1 1 None None,
     cs 37 1 ''keybcs2'' ''keybcs2_general_ci'' '''' 0 '''' 1 1 None None,
     cs 38 1 ''macce'' ''macce_general_ci'' '''' 10029 ''CP1282'' 1 1 None None,
     cs 39 1 ''macroman'' ''macroman_general_ci'' '''' 10000 ''MACINTOSH'' 1 1 None None,
     cs 40 1 ''cp852'' ''cp852_general_ci'' '''' 852 ''CP852'' 1 1 None None,
     cs 41 1 ''latin7'' ''latin7_general_ci'' '''' 28603 ''LATIN7'' 1 1 None None,
     cs 51 1 ''cp1251'' ''cp1251_general_ci'' '''' 1251 ''CP1251'' 1 1 None None,
     cs 57 1 ''cp1256'' ''cp1256_general_ci'' '''' 1256 ''CP1256'' 1 1 None None,
     cs 59 1 ''cp1257'' ''cp1257_general_ci'' '''' 1257 ''CP1257'' 1 1 None None,
     cs 63 1 ''binary'' ''binary'' '''' 0 ''ASCII'' 1 1 None None,
     cs 64 1 ''armscii8'' ''armscii8_bin'' '''' 0 ''ARMSCII-8'' 1 1 None None,
     cs 92 1 ''geostd8'' ''geostd8_general_ci'' '''' 0 ''GEORGIAN-PS'' 1 1 None None,
     cs 95 1 ''cp932'' ''cp932_japanese_ci'' '''' 932 ''CP932'' 1 2 (Some mysql_mbcharlen_cp932) (Some check_mb_cp932),
     cs 97 1 ''eucjpms'' ''eucjpms_japanese_ci'' '''' 932 ''EUC-JP-MS'' 1 3 (Some mysql_mbcharlen_eucjpms) (Some check_mb_eucjpms),
     cs 2 1 ''latin2'' ''latin2_czech_cs'' '''' 852 ''LATIN2'' 1 1 None None,
     cs 5 1 ''latin1'' ''latin1_german_ci'' '''' 850 ''LATIN1'' 1 1 None None,
     cs 14 1 ''cp1251'' ''cp1251_bulgarian_ci'' '''' 1251 ''CP1251'' 1 1 None None,
     cs 15 1 ''latin1'' ''latin1_danish_ci'' '''' 850 ''LATIN1'' 1 1 None None,
     cs 17 1 ''filename'' ''filename'' '''' 0 '''' 1 5 None None,
     cs 20 1 ''latin7'' ''latin7_estonian_cs'' '''' 28603 ''LATIN7'' 1 1 None None,
     cs 21 1 ''latin2'' ''latin2_hungarian_ci'' '''' 852 ''LATIN2'' 1 1 None None,
     cs 23 1 ''cp1251'' ''cp1251_ukrainian_ci'' '''' 1251 ''CP1251'' 1 1 None None,
     cs 27 1 ''latin2'' ''latin2_croatian_ci'' '''' 852 ''LATIN2'' 1 1 None None,
     cs 29 1 ''cp1257'' ''cp1257_lithunian_ci'' '''' 1257 ''CP1257'' 1 1 None None,
     cs 31 1 ''latin1'' ''latin1_german2_ci'' '''' 850 ''LATIN1'' 1 1 None None,
     cs 34 1 ''cp1250'' ''cp1250_czech_cs'' '''' 1250 ''CP1250'' 1 1 None None,
     cs 42 1 ''latin7'' ''latin7_general_cs'' '''' 28603 ''LATIN7'' 1 1 None None,
     cs 43 1 ''macce'' ''macce_bin'' '''' 10029 ''CP1282'' 1 1 None None,
     cs 44 1 ''cp1250'' ''cp1250_croatian_ci'' '''' 1250 ''CP1250'' 1 1 None None,
     cs 45 1 UTF8_MB4 (UTF8_MB4 @ ''_general_ci'') '''' 65001 ''UTF-8'' 1 4 (Some mysql_mbcharlen_utf8) (Some check_mb_utf8_valid),
     cs 46 1 UTF8_MB4 (UTF8_MB4 @ ''_bin'') '''' 65001 ''UTF-8'' 1 4 (Some mysql_mbcharlen_utf8) (Some check_mb_utf8_valid),
     cs 47 1 ''latin1'' ''latin1_bin'' '''' 1250 ''LATIN1'' 1 1 None None,
     cs 48 1 ''latin1'' ''latin1_general_ci'' '''' 1250 ''LATIN1'' 1 1 None None,
     cs 49 1 ''latin1'' ''latin1_general_cs'' '''' 1250 ''LATIN1'' 1 1 None None,
     cs 50 1 ''cp1251'' ''cp1251_bin'' '''' 1251 ''CP1251'' 1 1 None None,
     cs 52 1 ''cp1251'' ''cp1251_general_cs'' '''' 1251 ''CP1251'' 1 1 None None,
     cs 53 1 ''macroman'' ''macroman_bin'' '''' 10000 ''MACINTOSH'' 1 1 None None,
     cs 54 1 ''utf16'' ''utf16_general_ci'' '''' 0 ''UTF16'' 2 4 (Some mysql_mbcharlen_utf16) (Some check_mb_utf16),
     cs 55 1 ''utf16'' ''utf16_bin'' '''' 0 ''UTF16'' 2 4 (Some mysql_mbcharlen_utf16) (Some check_mb_utf16),
     cs 56 1 ''utf16le'' ''utf16_general_ci'' '''' 1200 ''UTF16LE'' 2 4 (Some mysql_mbcharlen_utf16) (Some check_mb_utf16),
     cs 58 1 ''cp1257'' ''cp1257_bin'' '''' 1257 ''CP1257'' 1 1 None None,
     cs 60 1 ''utf32'' ''utf32_general_ci'' '''' 0 ''UTF32'' 4 4 (Some mysql_mbcharlen_utf32) (Some check_mb_utf32),
     cs 61 1 ''utf32'' ''utf32_bin'' '''' 0 ''UTF32'' 4 4 (Some mysql_mbcharlen_utf32) (Some check_mb_utf32),
     cs 62 1 ''utf16le'' ''utf16_bin'' '''' 1200 ''UTF16LE'' 2 4 (Some mysql_mbcharlen_utf16) (Some check_mb_utf16),
     cs 65 1 ''ascii'' ''ascii_bin'' '''' 1252 ''ASCII'' 1 1 None None,
     cs 66 1 ''cp1250'' ''cp1250_bin'' '''' 1250 ''CP1250'' 1 1 None None,
     cs 67 1 ''cp1256'' ''cp1256_bin'' '''' 1256 ''CP1256'' 1 1 None None,
     cs 68 1 ''cp866'' ''cp866_bin'' '''' 866 ''CP866'' 1 1 None None,
     cs 69 1 ''dec8'' ''dec8_bin'' '''' 0 ''DEC'' 1 1 None None,
     cs 70 1 ''greek'' ''greek_bin'' '''' 28597 ''GREEK'' 1 1 None None,
     cs 71 1 ''hebrew'' ''hebrew_bin'' '''' 1255 ''hebrew'' 1 1 None None,
     cs 72 1 ''hp8'' ''hp8_bin'' '''' 0 ''HPROMAN-8'' 1 1 None None,
     cs 73 1 ''keybcs2'' ''keybcs2_bin'' '''' 0 '''' 1 1 None None,
     cs 74 1 ''koi8r'' ''koi8r_bin'' '''' 20866 ''KOI8R'' 1 1 None None,
     cs 75 1 ''koi8u'' ''koi8u_bin'' '''' 21866 ''KOI8U'' 1 1 None None,
     cs 77 1 ''latin2'' ''latin2_bin'' '''' 28592 ''LATIN2'' 1 1 None None,
     cs 78 1 ''latin5'' ''latin5_bin'' '''' 1254 ''LATIN5'' 1 1 None None,
     cs 79 1 ''latin7'' ''latin7_bin'' '''' 28603 ''LATIN7'' 1 1 None None,
     cs 80 1 ''cp850'' ''cp850_bin'' '''' 850 ''CP850'' 1 1 None None,
     cs 81 1 ''cp852'' ''cp852_bin'' '''' 852 ''CP852'' 1 1 None None,
     cs 82 1 ''swe7'' ''swe7_bin'' '''' 0 '''' 1 1 None None,
     cs 93 1 ''geostd8'' ''geostd8_bin'' '''' 0 ''GEORGIAN-PS'' 1 1 None None,
     cs 83 1 UTF8_MB3 (UTF8_MB3 @ ''_bin'') '''' 65001 ''UTF-8'' 1 3 (Some mysql_mbcharlen_utf8mb3) (Some check_mb_utf8mb3_valid),
     cs 84 1 ''big5'' ''big5_bin'' '''' 65000 ''BIG5'' 1 2 (Some mysql_mbcharlen_big5) (Some check_mb_big5),
     cs 85 1 ''euckr'' ''euckr_bin'' '''' 51949 ''EUCKR'' 1 2 (Some mysql_mbcharlen_euckr) (Some check_mb_euckr),
     cs 86 1 ''gb2312'' ''gb2312_bin'' '''' 936 ''GB2312'' 1 2 (Some mysql_mbcharlen_gb2312) (Some check_mb_gb2312),
     cs 87 1 ''gbk'' ''gbk_bin'' '''' 936 ''GBK'' 1 2 (Some mysql_mbcharlen_gbk) (Some check_mb_gbk),
     cs 88 1 ''sjis'' ''sjis_bin'' '''' 932 ''SJIS'' 1 2 (Some mysql_mbcharlen_sjis) (Some check_mb_sjis),
     cs 89 1 ''tis620'' ''tis620_bin'' '''' 874 ''TIS620'' 1 1 None None,
     cs 90 1 ''ucs2'' ''ucs2_bin'' '''' 1200 ''UCS-2BE'' 2 2 (Some mysql_mbcharlen_ucs2) (Some check_mb_ucs2),
     cs 91 1 ''ujis'' ''ujis_bin'' '''' 20932 ''UJIS'' 1 3 (Some mysql_mbcharlen_ujis) (Some check_mb_ujis),
     cs 94 1 ''latin1'' ''latin1_spanish_ci'' '''' 1252 ''LATIN1'' 1 1 None None,
     cs 96 1 ''cp932'' ''cp932_bin'' '''' 932 ''CP932'' 1 2 (Some mysql_mbcharlen_cp932) (Some check_mb_cp932),
     cs 99 1 ''cp1250'' ''cp1250_polish_ci'' '''' 1250 ''CP1250'' 1 1 None None,
     cs 98 1 ''eucjpms'' ''eucjpms_bin'' '''' 932 ''EUCJP-MS'' 1 3 (Some mysql_mbcharlen_eucjpms) (Some check_mb_eucjpms),
     cs 101 1 ''utf16'' ''utf16_unicode_ci'' '''' 0 ''UTF16'' 2 4 (Some mysql_mbcharlen_utf16) (Some check_mb_utf16),
     cs 102 1 ''utf16'' ''utf16_icelandic_ci'' '''' 0 ''UTF16'' 2 4 (Some mysql_mbcharlen_utf16) (Some check_mb_utf16),
     cs 103 1 ''utf16'' ''utf16_latvian_ci'' '''' 0 ''UTF16'' 2 4 (Some mysql_mbcharlen_utf16) (Some check_mb_utf16),
     cs 104 1 ''utf16'' ''utf16_romanian_ci'' '''' 0 ''UTF16'' 2 4 (Some mysql_mbcharlen_utf16) (Some check_mb_utf16),
     cs 105 1 ''utf16'' ''utf16_slovenian_ci'' '''' 0 ''UTF16'' 2 4 (Some mysql_mbcharlen_utf16) (Some check_mb_utf16),
     cs 106 1 ''utf16'' ''utf16_polish_ci'' '''' 0 ''UTF16'' 2 4 (Some mysql_mbcharlen_utf16) (Some check_mb_utf16),
     cs 107 1 ''utf16'' ''utf16_estonian_ci'' '''' 0 ''UTF16'' 2 4 (Some mysql_mbcharlen_utf16) (Some check_mb_utf16),
     cs 108 1 ''utf16'' ''utf16_spanish_ci'' '''' 0 ''UTF16'' 2 4 (Some mysql_mbcharlen_utf16) (Some check_mb_utf16),
     cs 109 1 ''utf16'' ''utf16_swedish_ci'' '''' 0 ''UTF16'' 2 4 (Some mysql_mbcharlen_utf16) (Some check_mb_utf16)]"

definition mariadb_compiled_charsets_2 :: "MARIADB_CHARSET_INFO list" where
  "mariadb_compiled_charsets_2 = [
     cs 110 1 ''utf16'' ''utf16_turkish_ci'' '''' 0 ''UTF16'' 2 4 (Some mysql_mbcharlen_utf16) (Some check_mb_utf16),
     cs 111 1 ''utf16'' ''utf16_czech_ci'' '''' 0 ''UTF16'' 2 4 (Some mysql_mbcharlen_utf16) (Some check_mb_utf16),
     cs 112 1 ''utf16'' ''utf16_danish_ci'' '''' 0 ''UTF16'' 2 4 (Some mysql_mbcharlen_utf16) (Some check_mb_utf16),
     cs 113 1 ''utf16'' ''utf16_lithunian_ci'' '''' 0 ''UTF16'' 2 4 (Some mysql_mbcharlen_utf16) (Some check_mb_utf16),
     cs 114 1 ''utf16'' ''utf16_slovak_ci'' '''' 0 ''UTF16'' 2 4 (Some mysql_mbcharlen_utf16) (Some check_mb_utf16),
     cs 115 1 ''utf16'' ''utf16_spanish2_ci'' '''' 0 ''UTF16'' 2 4 (Some mysql_mbcharlen_utf16) (Some check_mb_utf16),
     cs 116 1 ''utf16'' ''utf16_roman_ci'' '''' 0 ''UTF16'' 2 4 (Some mysql_mbcharlen_utf16) (Some check_mb_utf16),
     cs 117 1 ''utf16'' ''utf16_persian_ci'' '''' 0 ''UTF16'' 2 4 (Some mysql_mbcharlen_utf16) (Some check_mb_utf16),
     cs 118 1 ''utf16'' ''utf16_esperanto_ci'' '''' 0 ''UTF16'' 2 4 (Some mysql_mbcharlen_utf16) (Some check_mb_utf16),
     cs 120 1 ''utf16'' ''utf16_sinhala_ci'' '''' 0 ''UTF16'' 2 4 (Some mysql_mbcharlen_utf16) (Some check_mb_utf16),
     cs 121 1 ''utf16'' ''utf16_german2_ci'' '''' 0 ''UTF16'' 2 4 (Some mysql_mbcharlen_utf16) (Some check_mb_utf16),
     cs 122 1 ''utf16'' ''utf16_croatian_mysql561_ci'' '''' 0 ''UTF16'' 2 4 (Some mysql_mbcharlen_utf16) (Some check_mb_utf16),
     cs 123 1 ''utf16'' ''utf16_unicode_520_ci'' '''' 0 ''UTF16'' 2 4 (Some mysql_mbcharlen_utf16) (Some check_mb_utf16),
     cs 124 1 ''utf16'' ''utf16_vietnamese_ci'' '''' 0 ''UTF16'' 2 4 (Some mysql_mbcharlen_utf16) (Some check_mb_utf16),
     cs 128 1 ''ucs2'' ''ucs2_unicode_ci'' '''' 1200 ''UCS-2BE'' 2 2 (Some mysql_mbcharlen_ucs2) (Some check_mb_ucs2),
     cs 129 1 ''ucs2'' ''ucs2_icelandic_ci'' '''' 1200 ''UCS-2BE'' 2 2 (Some mysql_mbcharlen_ucs2) (Some check_mb_ucs2),
     cs 130 1 ''ucs2'' ''ucs2_latvian_ci'' '''' 1200 ''UCS-2BE'' 2 2 (Some mysql_mbcharlen_ucs2) (Some check_mb_ucs2),
     cs 131 1 ''ucs2'' ''ucs2_romanian_ci'' '''' 1200 ''UCS2-BE'' 2 2 (Some mysql_mbcharlen_ucs2) (Some check_mb_ucs2),
     cs 132 1 ''ucs2'' ''ucs2_slovenian_ci'' '''' 1200 ''UCS2-BE'' 2 2 (Some mysql_mbcharlen_ucs2) (Some check_mb_ucs2),
     cs 133 1 ''ucs2'' ''ucs2_polish_ci'' '''' 1200 ''UCS2-BE'' 2 2 (Some mysql_mbcharlen_ucs2) (Some check_mb_ucs2),
     cs 134 1 ''ucs2'' ''ucs2_estonian_ci'' '''' 1200 ''UCS2-BE'' 2 2 (Some mysql_mbcharlen_ucs2) (Some check_mb_ucs2),
     cs 135 1 ''ucs2'' ''ucs2_spanish_ci'' '''' 1200 ''UCS2-BE'' 2 2 (Some mysql_mbcharlen_ucs2) (Some check_mb_ucs2),
     cs 136 1 ''ucs2'' ''ucs2_swedish_ci'' '''' 1200 ''UCS2-BE'' 2 2 (Some mysql_mbcharlen_ucs2) (Some check_mb_ucs2),
     cs 137 1 ''ucs2'' ''ucs2_turkish_ci'' '''' 1200 ''UCS2-BE'' 2 2 (Some mysql_mbcharlen_ucs2) (Some check_mb_ucs2),
     cs 138 1 ''ucs2'' ''ucs2_czech_ci'' '''' 1200 ''UCS2-BE'' 2 2 (Some mysql_mbcharlen_ucs2) (Some check_mb_ucs2),
     cs 139 1 ''ucs2'' ''ucs2_danish_ci'' '''' 1200 ''UCS2-BE'' 2 2 (Some mysql_mbcharlen_ucs2) (Some check_mb_ucs2),
     cs 140 1 ''ucs2'' ''ucs2_lithunian_ci'' '''' 1200 ''UCS2-BE'' 2 2 (Some mysql_mbcharlen_ucs2) (Some check_mb_ucs2),
     cs 141 1 ''ucs2'' ''ucs2_slovak_ci'' '''' 1200 ''UCS2-BE'' 2 2 (Some mysql_mbcharlen_ucs2) (Some check_mb_ucs2),
     cs 142 1 ''ucs2'' ''ucs2_spanish2_ci'' '''' 1200 ''UCS2-BE'' 2 2 (Some mysql_mbcharlen_ucs2) (Some check_mb_ucs2),
     cs 143 1 ''ucs2'' ''ucs2_roman_ci'' '''' 1200 ''UCS2-BE'' 2 2 (Some mysql_mbcharlen_ucs2) (Some check_mb_ucs2),
     cs 144 1 ''ucs2'' ''ucs2_persian_ci'' '''' 1200 ''UCS2-BE'' 2 2 (Some mysql_mbcharlen_ucs2) (Some check_mb_ucs2),
     cs 145 1 ''ucs2'' ''ucs2_esperanto_ci'' '''' 1200 ''UCS2-BE'' 2 2 (Some mysql_mbcharlen_ucs2) (Some check_mb_ucs2),
     cs 146 1 ''ucs2'' ''ucs2_hungarian_ci'' '''' 1200 ''UCS2-BE'' 2 2 (Some mysql_mbcharlen_ucs2) (Some check_mb_ucs2),
     cs 147 1 ''ucs2'' ''ucs2_sinhala_ci'' '''' 1200 ''UCS2-BE'' 2 2 (Some mysql_mbcharlen_ucs2) (Some check_mb_ucs2),
     cs 148 1 ''ucs2'' ''ucs2_german2_ci'' '''' 1200 ''UCS2-BE'' 2 2 (Some mysql_mbcharlen_ucs2) (Some check_mb_ucs2),
     cs 149 1 ''ucs2'' ''ucs2_croatian_ci'' '''' 1200 ''UCS2-BE'' 2 2 (Some mysql_mbcharlen_ucs2) (Some check_mb_ucs2),
     cs 150 1 ''ucs2'' ''ucs2_unicode_520_ci'' '''' 1200 ''UCS2-BE'' 2 2 (Some mysql_mbcharlen_ucs2) (Some check_mb_ucs2),
     cs 151 1 ''ucs2'' ''ucs2_vietnamese_ci'' '''' 1200 ''UCS2-BE'' 2 2 (Some mysql_mbcharlen_ucs2) (Some check_mb_ucs2),
     cs 159 1 ''ucs2'' ''ucs2_general_mysql500_ci'' '''' 1200 ''UCS2-BE'' 2 2 (Some mysql_mbcharlen_ucs2) (Some check_mb_ucs2),
     cs 160 1 ''utf32'' ''utf32_unicode_ci'' '''' 0 ''UTF32'' 4 4 (Some mysql_mbcharlen_utf32) (Some check_mb_utf32),
     cs 161 1 ''utf32'' ''utf32_icelandic_ci'' '''' 0 ''UTF32'' 4 4 (Some mysql_mbcharlen_utf32) (Some check_mb_utf32),
     cs 162 1 ''utf32'' ''utf32_latvian_ci'' '''' 0 ''UTF32'' 4 4 (Some mysql_mbcharlen_utf32) (Some check_mb_utf32),
     cs 163 1 ''utf32'' ''utf32_romanian_ci'' '''' 0 ''UTF32'' 4 4 (Some mysql_mbcharlen_utf32) (Some check_mb_utf32),
     cs 164 1 ''utf32'' ''utf32_slovenian_ci'' '''' 0 ''UTF32'' 4 4 (Some mysql_mbcharlen_utf32) (Some check_mb_utf32),
     cs 165 1 ''utf32'' ''utf32_polish_ci'' '''' 0 ''UTF32'' 4 4 (Some mysql_mbcharlen_utf32) (Some check_mb_utf32),
     cs 166 1 ''utf32'' ''utf32_estonian_ci'' '''' 0 ''UTF32'' 4 4 (Some mysql_mbcharlen_utf32) (Some check_mb_utf32),
     cs 167 1 ''utf32'' ''utf32_spanish_ci'' '''' 0 ''UTF32'' 4 4 (Some mysql_mbcharlen_utf32) (Some check_mb_utf32),
     cs 168 1 ''utf32'' ''utf32_swedish_ci'' '''' 0 ''UTF32'' 4 4 (Some mysql_mbcharlen_utf32) (Some check_mb_utf32),
     cs 169 1 ''utf32'' ''utf32_turkish_ci'' '''' 0 ''UTF32'' 4 4 (Some mysql_mbcharlen_utf32) (Some check_mb_utf32),
     cs 170 1 ''utf32'' ''utf32_czech_ci'' '''' 0 ''UTF32'' 4 4 (Some mysql_mbcharlen_utf32) (Some check_mb_utf32),
     cs 171 1 ''utf32'' ''utf32_danish_ci'' '''' 0 ''UTF32'' 4 4 (Some mysql_mbcharlen_utf32) (Some check_mb_utf32),
     cs 172 1 ''utf32'' ''utf32_lithunian_ci'' '''' 0 ''UTF32'' 4 4 (Some mysql_mbcharlen_utf32) (Some check_mb_utf32),
     cs 173 1 ''utf32'' ''utf32_slovak_ci'' '''' 0 ''UTF32'' 4 4 (Some mysql_mbcharlen_utf32) (Some check_mb_utf32),
     cs 174 1 ''utf32'' ''utf32_spanish_ci'' '''' 0 ''UTF32'' 4 4 (Some mysql_mbcharlen_utf32) (Some check_mb_utf32),
     cs 175 1 ''utf32'' ''utf32_roman_ci'' '''' 0 ''UTF32'' 4 4 (Some mysql_mbcharlen_utf32) (Some check_mb_utf32),
     cs 176 1 ''utf32'' ''utf32_persian_ci'' '''' 0 ''UTF32'' 4 4 (Some mysql_mbcharlen_utf32) (Some check_mb_utf32),
     cs 177 1 ''utf32'' ''utf32_esperanto_ci'' '''' 0 ''UTF32'' 4 4 (Some mysql_mbcharlen_utf32) (Some check_mb_utf32),
     cs 178 1 ''utf32'' ''utf32_hungarian_ci'' '''' 0 ''UTF32'' 4 4 (Some mysql_mbcharlen_utf32) (Some check_mb_utf32),
     cs 179 1 ''utf32'' ''utf32_sinhala_ci'' '''' 0 ''UTF32'' 4 4 (Some mysql_mbcharlen_utf32) (Some check_mb_utf32),
     cs 180 1 ''utf32'' ''utf32_german2_ci'' '''' 0 ''UTF32'' 4 4 (Some mysql_mbcharlen_utf32) (Some check_mb_utf32),
     cs 181 1 ''utf32'' ''utf32_croatian_mysql561_ci'' '''' 0 ''UTF32'' 4 4 (Some mysql_mbcharlen_utf32) (Some check_mb_utf32),
     cs 182 1 ''utf32'' ''utf32_unicode_520_ci'' '''' 0 ''UTF32'' 4 4 (Some mysql_mbcharlen_utf32) (Some check_mb_utf32),
     cs 183 1 ''utf32'' ''utf32_vietnamese_ci'' '''' 0 ''UTF32'' 4 4 (Some mysql_mbcharlen_utf32) (Some check_mb_utf32),
     cs 192 1 UTF8_MB3 (UTF8_MB3 @ ''_general_ci'') '''' 65001 ''UTF-8'' 1 3 (Some mysql_mbcharlen_utf8mb3) (Some check_mb_utf8mb3_valid),
     cs 193 1 UTF8_MB3 (UTF8_MB3 @ ''_icelandic_ci'') '''' 65001 ''UTF-8'' 1 3 (Some mysql_mbcharlen_utf8mb3) (Some check_mb_utf8mb3_valid),
     cs 194 1 UTF8_MB3 (UTF8_MB3 @ ''_latvian_ci'') '''' 65001 ''UTF-8'' 1 3 (Some mysql_mbcharlen_utf8mb3) (Some check_mb_utf8mb3_valid),
     cs 195 1 UTF8_MB3 (UTF8_MB3 @ ''_romanian_ci'') '''' 65001 ''UTF-8'' 1 3 (Some mysql_mbcharlen_utf8mb3) (Some check_mb_utf8mb3_valid),
     cs 196 1 UTF8_MB3 (UTF8_MB3 @ ''_slovenian_ci'') '''' 65001 ''UTF-8'' 1 3 (Some mysql_mbcharlen_utf8mb3) (Some check_mb_utf8mb3_valid),
     cs 197 1 UTF8_MB3 (UTF8_MB3 @ ''_polish_ci'') '''' 65001 ''UTF-8'' 1 3 (Some mysql_mbcharlen_utf8mb3) (Some check_mb_utf8mb3_valid),
     cs 198 1 UTF8_MB3 (UTF8_MB3 @ ''_estonian_ci'') '''' 65001 ''UTF-8'' 1 3 (Some mysql_mbcharlen_utf8mb3) (Some check_mb_utf8mb3_valid),
     cs 199 1 UTF8_MB3 (UTF8_MB3 @ ''_spanish_ci'') '''' 65001 ''UTF-8'' 1 3 (Some mysql_mbcharlen_utf8mb3) (Some check_mb_utf8mb3_valid),
     cs 119 1 UTF8_MB3 (UTF8_MB3 @ ''_spanish_ci'') '''' 65001 ''UTF-8'' 1 3 (Some mysql_mbcharlen_utf8mb3) (Some check_mb_utf8mb3_valid),
     cs 200 1 UTF8_MB3 (UTF8_MB3 @ ''_swedish_ci'') '''' 65001 ''UTF-8'' 1 3 (Some mysql_mbcharlen_utf8mb3) (Some check_mb_utf8mb3_valid),
     cs 201 1 UTF8_MB3 (UTF8_MB3 @ ''_turkish_ci'') '''' 65001 ''UTF-8'' 1 3 (Some mysql_mbcharlen_utf8mb3) (Some check_mb_utf8mb3_valid),
     cs 202 1 UTF8_MB3 (UTF8_MB3 @ ''_czech_ci'') '''' 65001 ''UTF-8'' 1 3 (Some mysql_mbcharlen_utf8mb3) (Some check_mb_utf8mb3_valid),
     cs 203 1 UTF8_MB3 (UTF8_MB3 @ ''_danish_ci'') '''' 65001 ''UTF-8'' 1 3 (Some mysql_mbcharlen_utf8mb3) (Some check_mb_utf8mb3_valid),
     cs 204 1 UTF8_MB3 (UTF8_MB3 @ ''_lithunian_ci'') '''' 65001 ''UTF-8'' 1 3 (Some mysql_mbcharlen_utf8mb3) (Some check_mb_utf8mb3_valid),
     cs 205 1 UTF8_MB3 (UTF8_MB3 @ ''_slovak_ci'') '''' 65001 ''UTF-8'' 1 3 (Some mysql_mbcharlen_utf8mb3) (Some check_mb_utf8mb3_valid),
     cs 206 1 UTF8_MB3 (UTF8_MB3 @ ''_spanish2_ci'') '''' 65001 ''UTF-8'' 1 3 (Some mysql_mbcharlen_utf8mb3) (Some check_mb_utf8mb3_valid),
     cs 207 1 UTF8_MB3 (UTF8_MB3 @ ''_roman_ci'') '''' 65001 ''UTF-8'' 1 3 (Some mysql_mbcharlen_utf8mb3) (Some check_mb_utf8mb3_valid),
     cs 208 1 UTF8_MB3 (UTF8_MB3 @ ''_persian_ci'') '''' 65001 ''UTF-8'' 1 3 (Some mysql_mbcharlen_utf8mb3) (Some check_mb_utf8mb3_valid),
     cs 209 1 UTF8_MB3 (UTF8_MB3 @ ''_esperanto_ci'') '''' 65001 ''UTF-8'' 1 3 (Some mysql_mbcharlen_utf8mb3) (Some check_mb_utf8mb3_valid),
     cs 210 1 UTF8_MB3 (UTF8_MB3 @ ''_hungarian_ci'') '''' 65001 ''UTF-8'' 1 3 (Some mysql_mbcharlen_utf8mb3) (Some check_mb_utf8mb3_valid),
     cs 211 1 UTF8_MB3 (UTF8_MB3 @ ''_sinhala_ci'') '''' 65001 ''UTF-8'' 1 3 (Some mysql_mbcharlen_utf8mb3) (Some check_mb_utf8mb3_valid),
     cs 212 1 UTF8_MB3 (UTF8_MB3 @ ''_german_ci'') '''' 65001 ''UTF-8'' 1 3 (Some mysql_mbcharlen_utf8mb3) (Some check_mb_utf8mb3_valid),
     cs 214 1 UTF8_MB3 (UTF8_MB3 @ ''_unicode_520_ci'') '''' 65001 ''UTF-8'' 1 3 (Some mysql_mbcharlen_utf8mb3) (Some check_mb_utf8mb3_valid),
     cs 215 1 UTF8_MB3 (UTF8_MB3 @ ''_vietnamese_ci'') '''' 65001 ''UTF-8'' 1 3 (Some mysql_mbcharlen_utf8mb3) (Some check_mb_utf8mb3_valid),
     cs 213 1 UTF8_MB3 (UTF8_MB3 @ ''_croatian_ci'') '''' 65001 ''UTF-8'' 1 3 (Some mysql_mbcharlen_utf8mb3) (Some check_mb_utf8mb3_valid),
     cs 223 1 UTF8_MB3 (UTF8_MB3 @ ''_general_mysql500_ci'') '''' 65001 ''UTF-8'' 1 3 (Some mysql_mbcharlen_utf8mb3) (Some check_mb_utf8mb3_valid),
     cs 224 1 UTF8_MB4 (UTF8_MB4 @ ''_unicode_ci'') '''' 65001 ''UTF-8'' 1 4 (Some mysql_mbcharlen_utf8) (Some check_mb_utf8_valid),
     cs 225 1 UTF8_MB4 (UTF8_MB4 @ ''_icelandic_ci'') '''' 65001 ''UTF-8'' 1 4 (Some mysql_mbcharlen_utf8) (Some check_mb_utf8_valid),
     cs 226 1 UTF8_MB4 (UTF8_MB4 @ ''_latvian_ci'') '''' 65001 ''UTF-8'' 1 4 (Some mysql_mbcharlen_utf8) (Some check_mb_utf8_valid),
     cs 227 1 UTF8_MB4 (UTF8_MB4 @ ''_romanian_ci'') '''' 65001 ''UTF-8'' 1 4 (Some mysql_mbcharlen_utf8) (Some check_mb_utf8_valid),
     cs 228 1 UTF8_MB4 (UTF8_MB4 @ ''_slovenian_ci'') '''' 65001 ''UTF-8'' 1 4 (Some mysql_mbcharlen_utf8) (Some check_mb_utf8_valid),
     cs 229 1 UTF8_MB4 (UTF8_MB4 @ ''_polish_ci'') '''' 65001 ''UTF-8'' 1 4 (Some mysql_mbcharlen_utf8) (Some check_mb_utf8_valid),
     cs 230 1 UTF8_MB4 (UTF8_MB4 @ ''_estonian_ci'') '''' 65001 ''UTF-8'' 1 4 (Some mysql_mbcharlen_utf8) (Some check_mb_utf8_valid),
     cs 231 1 UTF8_MB4 (UTF8_MB4 @ ''_spanish_ci'') '''' 65001 ''UTF-8'' 1 4 (Some mysql_mbcharlen_utf8) (Some check_mb_utf8_valid),
     cs 232 1 UTF8_MB4 (UTF8_MB4 @ ''_swedish_ci'') '''' 65001 ''UTF-8'' 1 4 (Some mysql_mbcharlen_utf8) (Some check_mb_utf8_valid),
     cs 233 1 UTF8_MB4 (UTF8_MB4 @ ''_turkish_ci'') '''' 65001 ''UTF-8'' 1 4 (Some mysql_mbcharlen_utf8) (Some check_mb_utf8_valid),
     cs 234 1 UTF8_MB4 (UTF8_MB4 @ ''_czech_ci'') '''' 65001 ''UTF-8'' 1 4 (Some mysql_mbcharlen_utf8) (Some check_mb_utf8_valid),
     cs 235 1 UTF8_MB4 (UTF8_MB4 @ ''_danish_ci'') '''' 65001 ''UTF-8'' 1 4 (Some mysql_mbcharlen_utf8) (Some check_mb_utf8_valid),
     cs 236 1 UTF8_MB4 (UTF8_MB4 @ ''_lithuanian_ci'') '''' 65001 ''UTF-8'' 1 4 (Some mysql_mbcharlen_utf8) (Some check_mb_utf8_valid),
     cs 237 1 UTF8_MB4 (UTF8_MB4 @ ''_slovak_ci'') '''' 65001 ''UTF-8'' 1 4 (Some mysql_mbcharlen_utf8) (Some check_mb_utf8_valid),
     cs 238 1 UTF8_MB4 (UTF8_MB4 @ ''_spanish2_ci'') '''' 65001 ''UTF-8'' 1 4 (Some mysql_mbcharlen_utf8) (Some check_mb_utf8_valid),
     cs 239 1 UTF8_MB4 (UTF8_MB4 @ ''_roman_ci'') '''' 65001 ''UTF-8'' 1 4 (Some mysql_mbcharlen_utf8) (Some check_mb_utf8_valid),
     cs 240 1 UTF8_MB4 (UTF8_MB4 @ ''_persian_ci'') '''' 65001 ''UTF-8'' 1 4 (Some mysql_mbcharlen_utf8) (Some check_mb_utf8_valid),
     cs 241 1 UTF8_MB4 (UTF8_MB4 @ ''_esperanto_ci'') '''' 65001 ''UTF-8'' 1 4 (Some mysql_mbcharlen_utf8) (Some check_mb_utf8_valid),
     cs 242 1 UTF8_MB4 (UTF8_MB4 @ ''_hungarian_ci'') '''' 65001 ''UTF-8'' 1 4 (Some mysql_mbcharlen_utf8) (Some check_mb_utf8_valid)]"

definition mariadb_compiled_charsets_3 :: "MARIADB_CHARSET_INFO list" where
  "mariadb_compiled_charsets_3 = [
     cs 243 1 UTF8_MB4 (UTF8_MB4 @ ''_sinhala_ci'') '''' 65001 ''UTF-8'' 1 4 (Some mysql_mbcharlen_utf8) (Some check_mb_utf8_valid),
     cs 244 1 UTF8_MB4 (UTF8_MB4 @ ''_german2_ci'') '''' 65001 ''UTF-8'' 1 4 (Some mysql_mbcharlen_utf8) (Some check_mb_utf8_valid),
     cs 245 1 UTF8_MB4 (UTF8_MB4 @ ''_croatian_mysql561_ci'') '''' 65001 ''UTF-8'' 1 4 (Some mysql_mbcharlen_utf8) (Some check_mb_utf8_valid),
     cs 246 1 UTF8_MB4 (UTF8_MB4 @ ''_unicode_520_ci'') '''' 65001 ''UTF-8'' 1 4 (Some mysql_mbcharlen_utf8) (Some check_mb_utf8_valid),
     cs 247 1 UTF8_MB4 (UTF8_MB4 @ ''_vietnamese_ci'') '''' 65001 ''UTF-8'' 1 4 (Some mysql_mbcharlen_utf8) (Some check_mb_utf8_valid),
     cs 254 1 UTF8_MB3 (UTF8_MB3 @ ''_general_cs'') '''' 65001 ''UTF-8'' 1 3 (Some mysql_mbcharlen_utf8) (Some check_mb_utf8_valid),
     cs 576 1 UTF8_MB3 (UTF8_MB3 @ ''_croatian_ci'') '''' 65001 ''UTF-8'' 1 3 (Some mysql_mbcharlen_utf8mb3) (Some check_mb_utf8mb3_valid),
     cs 577 1 UTF8_MB3 (UTF8_MB3 @ ''_myanmar_ci'') '''' 65001 ''UTF-8'' 1 3 (Some mysql_mbcharlen_utf8mb3) (Some check_mb_utf8mb3_valid),
     cs 578 1 UTF8_MB3 (UTF8_MB3 @ ''_thai_520_w2'') '''' 65001 ''UTF-8'' 1 3 (Some mysql_mbcharlen_utf8mb3) (Some check_mb_utf8mb3_valid),
     cs 608 1 UTF8_MB4 (UTF8_MB4 @ ''_croatian_ci'') '''' 65001 ''UTF-8'' 1 4 (Some mysql_mbcharlen_utf8) (Some check_mb_utf8_valid),
     cs 609 1 UTF8_MB4 (UTF8_MB4 @ ''_myanmar_ci'') '''' 65001 ''UTF-8'' 1 4 (Some mysql_mbcharlen_utf8) (Some check_mb_utf8_valid),
     cs 610 1 UTF8_MB4 (UTF8_MB4 @ ''_thai_520_w2'') '''' 65001 ''UTF-8'' 1 4 (Some mysql_mbcharlen_utf8) (Some check_mb_utf8_valid),
     cs 640 1 ''ucs2'' ''ucs2_croatian_ci'' '''' 1200 ''UCS2-BE'' 2 2 (Some mysql_mbcharlen_ucs2) (Some check_mb_ucs2),
     cs 641 1 ''ucs2'' ''ucs2_myanmar_ci'' '''' 1200 ''UCS2-BE'' 2 2 (Some mysql_mbcharlen_ucs2) (Some check_mb_ucs2),
     cs 642 1 ''ucs2'' ''ucs2_thai_520_w2'' '''' 1200 ''UCS2-BE'' 2 2 (Some mysql_mbcharlen_ucs2) (Some check_mb_ucs2),
     cs 672 1 ''utf16'' ''utf16_croatian_ci'' '''' 0 ''UTF16'' 2 4 (Some mysql_mbcharlen_utf16) (Some check_mb_utf16),
     cs 673 1 ''utf16'' ''utf16_myanmar_ci'' '''' 0 ''UTF16'' 2 4 (Some mysql_mbcharlen_utf16) (Some check_mb_utf16),
     cs 674 1 ''utf16'' ''utf16_thai_520_w2'' '''' 0 ''UTF16'' 2 4 (Some mysql_mbcharlen_utf16) (Some check_mb_utf16),
     cs 736 1 ''utf32'' ''utf32_croatian_ci'' '''' 0 ''UTF32'' 4 4 (Some mysql_mbcharlen_utf32) (Some check_mb_utf32),
     cs 737 1 ''utf32'' ''utf32_myanmar_ci'' '''' 0 ''UTF32'' 4 4 (Some mysql_mbcharlen_utf32) (Some check_mb_utf32),
     cs 738 1 ''utf32'' ''utf32_thai_520_w2'' '''' 0 ''UTF32'' 4 4 (Some mysql_mbcharlen_utf32) (Some check_mb_utf32),
     cs 1025 1 ''big5'' ''big5_chinese_nopad_ci'' '''' 950 ''BIG5'' 1 2 (Some mysql_mbcharlen_big5) (Some check_mb_big5),
     cs 1027 1 ''dec8'' ''dec8_swedisch_nopad_ci'' '''' 0 ''DEC'' 1 1 None None,
     cs 1028 1 ''cp850'' ''cp850_general_nopad_ci'' '''' 850 ''CP850'' 1 1 None None,
     cs 1030 1 ''hp8'' ''hp8_english_nopad_ci'' '''' 0 ''HP-ROMAN8'' 1 1 None None,
     cs 1031 1 ''koi8r'' ''koi8r_general_nopad_ci'' '''' 878 ''KOI8R'' 1 1 None None,
     cs 1032 1 ''latin1'' ''latin1_swedish_nopad_ci'' '''' 850 ''LATIN1'' 1 1 None None,
     cs 1033 1 ''latin2'' ''latin2_general_nopad_ci'' '''' 852 ''LATIN2'' 1 1 None None,
     cs 1034 1 ''swe7'' ''swe7_swedish_nopad_ci'' '''' 20107 '''' 1 1 None None,
     cs 1035 1 ''ascii'' ''ascii_general_nopad_ci'' '''' 1252 ''ASCII'' 1 1 None None,
     cs 1036 1 ''ujis'' ''ujis_japanese_nopad_ci'' '''' 20932 ''UJIS'' 1 3 (Some mysql_mbcharlen_ujis) (Some check_mb_ujis),
     cs 1037 1 ''sjis'' ''sjis_japanese_nopad_ci'' '''' 932 ''SJIS'' 1 2 (Some mysql_mbcharlen_sjis) (Some check_mb_sjis),
     cs 1040 1 ''hebrew'' ''hebrew_general_nopad_ci'' '''' 1255 ''HEBREW'' 1 1 None None,
     cs 1042 1 ''tis620'' ''tis620_thai_nopad_ci'' '''' 874 ''TIS620'' 1 1 None None,
     cs 1043 1 ''euckr'' ''euckr_korean_nopad_ci'' '''' 51949 ''EUCKR'' 1 2 (Some mysql_mbcharlen_euckr) (Some check_mb_euckr),
     cs 1046 1 ''koi8u'' ''koi8u_general_nopad_ci'' '''' 20866 ''KOI8U'' 1 1 None None,
     cs 1048 1 ''gb2312'' ''gb2312_chinese_nopad_ci'' '''' 936 ''GB2312'' 1 2 (Some mysql_mbcharlen_gb2312) (Some check_mb_gb2312),
     cs 1049 1 ''greek'' ''greek_general_nopad_ci'' '''' 28597 ''GREEK'' 1 1 None None,
     cs 1050 1 ''cp1250'' ''cp1250_general_nopad_ci'' '''' 1250 ''CP1250'' 1 1 None None,
     cs 1052 1 ''gbk'' ''gbk_chinese_nopad_ci'' '''' 936 ''GBK'' 1 2 (Some mysql_mbcharlen_gbk) (Some check_mb_gbk),
     cs 1054 1 ''latin5'' ''latin5_turkish_nopad_ci'' '''' 1254 ''LATIN5'' 1 1 None None,
     cs 1056 1 ''armscii8'' ''armscii8_general_nopad_ci'' '''' 0 ''ARMSCII-8'' 1 1 None None,
     cs 1057 1 UTF8_MB3 (UTF8_MB3 @ ''_general_nopad_ci'') '''' 65001 ''UTF-8'' 1 3 (Some mysql_mbcharlen_utf8mb3) (Some check_mb_utf8mb3_valid),
     cs 1059 1 ''ucs2'' ''ucs2_general_nopad_ci'' '''' 1200 ''UCS-2BE'' 2 2 (Some mysql_mbcharlen_ucs2) (Some check_mb_ucs2),
     cs 1060 1 ''cp866'' ''cp866_general_nopad_ci'' '''' 866 ''CP866'' 1 1 None None,
     cs 1061 1 ''keybcs2'' ''keybcs2_general_nopad_ci'' '''' 0 '''' 1 1 None None,
     cs 1062 1 ''macce'' ''macce_general_nopad_ci'' '''' 10029 ''CP1282'' 1 1 None None,
     cs 1063 1 ''macroman'' ''macroman_general_nopad_ci'' '''' 10000 ''MACINTOSH'' 1 1 None None,
     cs 1064 1 ''cp852'' ''cp852_general_nopad_ci'' '''' 852 ''CP852'' 1 1 None None,
     cs 1065 1 ''latin7'' ''latin7_general_nopad_ci'' '''' 28603 ''LATIN7'' 1 1 None None,
     cs 1067 1 ''macce'' ''macce_nopad_bin'' '''' 10029 ''CP1282'' 1 1 None None,
     cs 1069 1 UTF8_MB4 (UTF8_MB4 @ ''_general_nopad_ci'') '''' 65001 ''UTF-8'' 1 4 (Some mysql_mbcharlen_utf8) (Some check_mb_utf8_valid),
     cs 1070 1 UTF8_MB4 (UTF8_MB4 @ ''_general_nopad_bin'') '''' 65001 ''UTF-8'' 1 4 (Some mysql_mbcharlen_utf8) (Some check_mb_utf8_valid),
     cs 1071 1 ''latin1'' ''latin1_nopad_bin'' '''' 850 ''LATIN1'' 1 1 None None,
     cs 1074 1 ''cp1251'' ''cp1251_nopad_bin'' '''' 1251 ''CP1251'' 1 1 None None,
     cs 1075 1 ''cp1251'' ''cp1251_general_nopad_ci'' '''' 1251 ''CP1251'' 1 1 None None,
     cs 1077 1 ''macroman'' ''macroman_nopad_bin'' '''' 10000 ''MACINTOSH'' 1 1 None None,
     cs 1078 1 ''utf16'' ''utf16_general_nopad_ci'' '''' 0 ''UTF16'' 2 4 (Some mysql_mbcharlen_utf16) (Some check_mb_utf16),
     cs 1079 1 ''utf16'' ''utf16_nopad_bin'' '''' 0 ''UTF16'' 2 4 (Some mysql_mbcharlen_utf16) (Some check_mb_utf16),
     cs 1080 1 ''utf16le'' ''utf16le_general_nopad_ci'' '''' 1200 ''UTF16LE'' 2 4 (Some mysql_mbcharlen_utf16) (Some check_mb_utf16),
     cs 1081 1 ''cp1256'' ''cp1256_general_nopad_ci'' '''' 1256 ''CP1256'' 1 1 None None,
     cs 1082 1 ''cp1257'' ''cp1257_nopad_bin'' '''' 1257 ''CP1257'' 1 1 None None,
     cs 1083 1 ''cp1257'' ''cp1257_general_nopad_ci'' '''' 1257 ''CP1257'' 1 1 None None,
     cs 1084 1 ''utf32'' ''utf32_general_nopad_ci'' '''' 0 ''UTF32'' 4 4 (Some mysql_mbcharlen_utf32) (Some check_mb_utf32),
     cs 1085 1 ''utf32'' ''utf32_nopad_bin'' '''' 0 ''UTF32'' 4 4 (Some mysql_mbcharlen_utf32) (Some check_mb_utf32),
     cs 1086 1 ''utf16le'' ''utf16le_nopad_bin'' '''' 1200 ''UTF16LE'' 2 4 (Some mysql_mbcharlen_utf16) (Some check_mb_utf16),
     cs 1088 1 ''armscii8'' ''armscii8_nopad_bin'' '''' 0 ''ARMSCII-8'' 1 1 None None,
     cs 1089 1 ''ascii'' ''ascii_nopad_bin'' '''' 1252 ''ASCII'' 1 1 None None,
     cs 1090 1 ''cp1250'' ''cp1250_nopad_bin'' '''' 1250 ''CP1250'' 1 1 None None,
     cs 1091 1 ''cp1256'' ''cp1256_nopad_bin'' '''' 1256 ''CP1256'' 1 1 None None,
     cs 1092 1 ''cp866'' ''cp866_nopad_bin'' '''' 866 ''CP866'' 1 1 None None,
     cs 1093 1 ''dec8'' ''dec8_nopad_bin'' '''' 0 ''DEC'' 1 1 None None,
     cs 1094 1 ''greek'' ''greek_nopad_bin'' '''' 28597 ''GREEK'' 1 1 None None,
     cs 1095 1 ''hebrew'' ''hebrew_nopad_bin'' '''' 1255 ''HEBREW'' 1 1 None None,
     cs 1096 1 ''hp8'' ''hp8_nopad_bin'' '''' 0 ''HP-ROMAN8'' 1 1 None None,
     cs 1097 1 ''keybcs2'' ''keybcs2_nopad_bin'' '''' 0 '''' 1 1 None None,
     cs 1098 1 ''koi8r'' ''koi8r_nopad_bin'' '''' 878 ''KOI8R'' 1 1 None None,
     cs 1099 1 ''koi8u'' ''koi8u_nopad_bin'' '''' 20866 ''KOI8U'' 1 1 None None,
     cs 1101 1 ''latin2'' ''latin2_nopad_bin'' '''' 852 ''LATIN2'' 1 1 None None,
     cs 1102 1 ''latin5'' ''latin5_nopad_bin'' '''' 1254 ''LATIN5'' 1 1 None None,
     cs 1103 1 ''latin7'' ''latin7_nopad_bin'' '''' 28603 ''LATIN7'' 1 1 None None,
     cs 1104 1 ''cp850'' ''cp850_nopad_bin'' '''' 850 ''CP850'' 1 1 None None,
     cs 1105 1 ''cp852'' ''cp852_nopad_bin'' '''' 852 ''CP852'' 1 1 None None,
     cs 1106 1 ''swe7'' ''swe7_nopad_bin'' '''' 20107 '''' 1 1 None None,
     cs 1107 1 UTF8_MB3 (UTF8_MB3 @ ''_nopad_bin'') '''' 65001 ''UTF-8'' 1 3 (Some mysql_mbcharlen_utf8mb3) (Some check_mb_utf8mb3_valid),
     cs 1108 1 ''big5'' ''big5_nopad_bin'' '''' 950 ''BIG5'' 1 2 (Some mysql_mbcharlen_big5) (Some check_mb_big5),
     cs 1109 1 ''euckr'' ''euckr_nopad_bin'' '''' 51949 ''EUCKR'' 1 2 (Some mysql_mbcharlen_euckr) (Some check_mb_euckr),
     cs 1110 1 ''gb2312'' ''gb2312_nopad_bin'' '''' 936 ''GB2312'' 1 2 (Some mysql_mbcharlen_gb2312) (Some check_mb_gb2312),
     cs 1111 1 ''gbk'' ''gbk_nopad_bin'' '''' 936 ''GBK'' 1 2 (Some mysql_mbcharlen_gbk) (Some check_mb_gbk),
     cs 1112 1 ''sjis'' ''sjis_nopad_bin'' '''' 932 ''SJIS'' 1 2 (Some mysql_mbcharlen_sjis) (Some check_mb_sjis),
     cs 1113 1 ''tis620'' ''tis620_nopad_bin'' '''' 874 ''TIS620'' 1 1 None None,
     cs 1114 1 ''ucs2'' ''ucs2_nopad_bin'' '''' 1200 ''UCS-2BE'' 2 2 (Some mysql_mbcharlen_ucs2) (Some check_mb_ucs2),
     cs 1115 1 ''ujis'' ''ujis_nopad_bin'' '''' 20932 ''UJIS'' 1 3 (Some mysql_mbcharlen_ujis) (Some check_mb_ujis),
     cs 1116 1 ''geostd8'' ''geostd8_general_nopad_ci'' '''' 0 ''GEORGIAN-PS'' 1 1 None None,
     cs 1117 1 ''geostd8'' ''geostd8_nopad_bin'' '''' 0 ''GEORGIAN-PS'' 1 1 None None,
     cs 1119 1 ''cp932'' ''cp932_japanese_nopad_ci'' '''' 932 ''CP932'' 1 2 (Some mysql_mbcharlen_cp932) (Some check_mb_cp932),
     cs 1120 1 ''cp932'' ''cp932_nopad_bin'' '''' 932 ''CP932'' 1 2 (Some mysql_mbcharlen_cp932) (Some check_mb_cp932),
     cs 1121 1 ''eucjpms'' ''eucjpms_japanese_nopad_ci'' '''' 932 ''EUCJP-MS'' 1 3 (Some mysql_mbcharlen_eucjpms) (Some check_mb_eucjpms),
     cs 1122 1 ''eucjpms'' ''eucjpms_nopad_bin'' '''' 932 ''EUCJP-MS'' 1 3 (Some mysql_mbcharlen_eucjpms) (Some check_mb_eucjpms),
     cs 1125 1 ''utf16'' ''utf16_unicode_nopad_ci'' '''' 1200 ''UTF16'' 2 4 (Some mysql_mbcharlen_utf16) (Some check_mb_utf16),
     cs 1147 1 ''utf16'' ''utf16_unicode_520_nopad_ci'' '''' 1200 ''UTF16'' 2 4 (Some mysql_mbcharlen_utf16) (Some check_mb_utf16),
     cs 1152 1 ''ucs2'' ''ucs2_unicode_nopad_ci'' '''' 1200 ''UCS-2BE'' 2 2 (Some mysql_mbcharlen_ucs2) (Some check_mb_ucs2),
     cs 1174 1 ''ucs2'' ''ucs2_unicode_520_nopad_ci'' '''' 1200 ''UCS-2BE'' 2 2 (Some mysql_mbcharlen_ucs2) (Some check_mb_ucs2),
     cs 1184 1 ''utf32'' ''utf32_unicode_nopad_ci'' '''' 0 ''UTF32'' 4 4 (Some mysql_mbcharlen_utf32) (Some check_mb_utf32),
     cs 1206 1 ''utf32'' ''utf32_unicode_520_nopad_ci'' '''' 0 ''UTF32'' 4 4 (Some mysql_mbcharlen_utf32) (Some check_mb_utf32),
     cs 1216 1 UTF8_MB3 (UTF8_MB3 @ ''_unicode_nopad_ci'') '''' 65001 ''UTF-8'' 1 3 (Some mysql_mbcharlen_utf8mb3) (Some check_mb_utf8mb3_valid),
     cs 1238 1 UTF8_MB3 (UTF8_MB3 @ ''_unicode_520_nopad_ci'') '''' 65001 ''UTF-8'' 1 3 (Some mysql_mbcharlen_utf8mb3) (Some check_mb_utf8mb3_valid),
     cs 1248 1 UTF8_MB4 (UTF8_MB4 @ ''_unicode_nopad_ci'') '''' 65001 ''UTF-8'' 1 4 (Some mysql_mbcharlen_utf8) (Some check_mb_utf8_valid),
     cs 1270 1 UTF8_MB4 (UTF8_MB4 @ ''_unicode_520_nopad_ci'') '''' 65001 ''UTF-8'' 1 4 (Some mysql_mbcharlen_utf8) (Some check_mb_utf8_valid)]"
text \<open>The array, cut in three to keep each definition readable.\<close>

definition mariadb_compiled_charsets :: "MARIADB_CHARSET_INFO list" where
  "mariadb_compiled_charsets =
     mariadb_compiled_charsets_1 @ mariadb_compiled_charsets_2 @ mariadb_compiled_charsets_3"

section \<open>The code pages of Windows\<close>

record st_madb_os_charset =
  os_identifier :: string
  description :: string
  charset :: "string option"
  iconv_cs :: "string option"
  supported :: nat

definition MADB_CS_UNSUPPORTED :: nat where
  "MADB_CS_UNSUPPORTED = 0"

definition MADB_CS_APPROX :: nat where
  "MADB_CS_APPROX = 1"

definition MADB_CS_EXACT :: nat where
  "MADB_CS_EXACT = 2"

definition os_cs :: "string \<Rightarrow> string \<Rightarrow> string option \<Rightarrow> string option \<Rightarrow> nat \<Rightarrow> st_madb_os_charset" where
  "os_cs i d c ic s =
     \<lparr>os_identifier = i, description = d, charset = c, iconv_cs = ic, supported = s\<rparr>"

definition MADB_OS_CHARSET_1 :: "st_madb_os_charset list" where
  "MADB_OS_CHARSET_1 = [
     os_cs ''037'' ''IBM EBCDIC US-Canada'' None None MADB_CS_UNSUPPORTED,
     os_cs ''437'' ''OEM United States'' (Some ''cp850'') None MADB_CS_APPROX,
     os_cs ''500'' ''IBM EBCDIC International'' None None MADB_CS_UNSUPPORTED,
     os_cs ''708'' ''Arabic (ASMO 708)'' None None MADB_CS_UNSUPPORTED,
     os_cs ''709'' ''Arabic (ASMO-449+, BCON V4)'' None None MADB_CS_UNSUPPORTED,
     os_cs ''710'' ''Transparent Arabic'' None None MADB_CS_UNSUPPORTED,
     os_cs ''720'' ''Arabic (DOS)'' None None MADB_CS_UNSUPPORTED,
     os_cs ''737'' ''Greek (DOS)'' None None MADB_CS_UNSUPPORTED,
     os_cs ''775'' ''Baltic (DOS)'' None None MADB_CS_UNSUPPORTED,
     os_cs ''850'' ''Western European (DOS)'' (Some ''cp850'') None MADB_CS_EXACT,
     os_cs ''852'' ''Central European (DOS)'' (Some ''cp852'') None MADB_CS_EXACT,
     os_cs ''855'' ''Cyrillic (primarily Russian)'' None None MADB_CS_UNSUPPORTED,
     os_cs ''857'' ''Turkish (DOS)'' None None MADB_CS_UNSUPPORTED,
     os_cs ''858'' ''OEM Multilingual Latin 1 + Euro symbol'' (Some ''cp850'') None MADB_CS_EXACT,
     os_cs ''860'' ''Portuguese (DOS)'' None None MADB_CS_UNSUPPORTED,
     os_cs ''861'' ''Icelandic (DOS)'' None None MADB_CS_UNSUPPORTED,
     os_cs ''862'' ''Hebrew (DOS)'' None None MADB_CS_UNSUPPORTED,
     os_cs ''863'' ''French Canadian (DOS)'' None None MADB_CS_UNSUPPORTED,
     os_cs ''864'' ''Arabic (864)'' None None MADB_CS_UNSUPPORTED,
     os_cs ''865'' ''Nordic (DOS)'' None None MADB_CS_UNSUPPORTED,
     os_cs ''866'' ''Cyrillic (DOS)'' (Some ''cp866'') None MADB_CS_EXACT,
     os_cs ''869'' ''Greek, Modern (DOS)'' (Some ''greek'') None MADB_CS_EXACT,
     os_cs ''870'' ''IBM EBCDIC Multilingual Latin 2'' None None MADB_CS_UNSUPPORTED,
     os_cs ''874'' ''Thai (Windows)'' (Some ''tis620'') None MADB_CS_UNSUPPORTED,
     os_cs ''875'' ''Greek Modern'' None None MADB_CS_UNSUPPORTED,
     os_cs ''932'' ''Japanese (Shift-JIS)'' (Some ''cp932'') None MADB_CS_EXACT,
     os_cs ''936'' ''Chinese Simplified (GB2312)'' (Some ''gbk'') None MADB_CS_EXACT,
     os_cs ''949'' ''ANSI/OEM Korean (Unified Hangul Code)'' (Some ''euckr'') None MADB_CS_EXACT,
     os_cs ''950'' ''Chinese Traditional (Big5)'' (Some ''big5'') None MADB_CS_EXACT,
     os_cs ''1026'' ''EBCDIC Turkish (Latin 5)'' None None MADB_CS_UNSUPPORTED,
     os_cs ''1047'' ''EBCDIC Latin 1/Open System'' None None MADB_CS_UNSUPPORTED,
     os_cs ''1140'' ''IBM EBCDIC (US-Canada-Euro)'' None None MADB_CS_UNSUPPORTED,
     os_cs ''1141'' ''IBM EBCDIC (Germany-Euro)'' None None MADB_CS_UNSUPPORTED,
     os_cs ''1142'' ''IBM EBCDIC (Denmark-Norway-Euro)'' None None MADB_CS_UNSUPPORTED,
     os_cs ''1143'' ''IBM EBCDIC (Finland-Sweden-Euro)'' None None MADB_CS_UNSUPPORTED,
     os_cs ''1144'' ''IBM EBCDIC (Italy-Euro)'' None None MADB_CS_UNSUPPORTED,
     os_cs ''1145'' ''IBM EBCDIC (Spain-Euro)'' None None MADB_CS_UNSUPPORTED,
     os_cs ''1146'' ''IBM EBCDIC (UK-Euro)'' None None MADB_CS_UNSUPPORTED,
     os_cs ''1147'' ''IBM EBCDIC (France-Euro)'' None None MADB_CS_UNSUPPORTED,
     os_cs ''1148'' ''IBM EBCDIC (International-Euro)'' None None MADB_CS_UNSUPPORTED,
     os_cs ''1149'' ''IBM EBCDIC (Icelandic-Euro)'' None None MADB_CS_UNSUPPORTED,
     os_cs ''1200'' ''UTF-16, little endian byte order'' None None MADB_CS_UNSUPPORTED,
     os_cs ''1201'' ''UTF-16, big endian byte order'' (Some ''utf16'') None MADB_CS_UNSUPPORTED,
     os_cs ''1250'' ''Central European (Windows)'' (Some ''cp1250'') None MADB_CS_EXACT,
     os_cs ''1251'' ''Cyrillic (Windows)'' (Some ''cp1251'') None MADB_CS_EXACT,
     os_cs ''1252'' ''Western European (Windows)'' (Some ''latin1'') None MADB_CS_EXACT,
     os_cs ''1253'' ''Greek (Windows)'' (Some ''greek'') None MADB_CS_EXACT,
     os_cs ''1254'' ''Turkish (Windows)'' (Some ''latin5'') None MADB_CS_EXACT,
     os_cs ''1255'' ''Hebrew (Windows)'' (Some ''hewbrew'') None MADB_CS_EXACT,
     os_cs ''1256'' ''Arabic (Windows)'' (Some ''cp1256'') None MADB_CS_EXACT,
     os_cs ''1257'' ''Baltic (Windows)'' (Some ''cp1257'') None MADB_CS_EXACT,
     os_cs ''1258'' ''Vietnamese (Windows)'' None None MADB_CS_UNSUPPORTED,
     os_cs ''1361'' ''Korean (Johab)'' None None MADB_CS_UNSUPPORTED,
     os_cs ''10000'' ''Western European (Mac)'' (Some ''macroman'') None MADB_CS_EXACT,
     os_cs ''10001'' ''Japanese (Mac)'' (Some ''sjis'') None MADB_CS_EXACT,
     os_cs ''10002'' ''Chinese Traditional (Mac)'' (Some ''big5'') None MADB_CS_EXACT,
     os_cs ''10003'' ''Korean (Mac)'' None None MADB_CS_UNSUPPORTED,
     os_cs ''10004'' ''Arabic (Mac)'' None None MADB_CS_UNSUPPORTED,
     os_cs ''10005'' ''Hebrew (Mac)'' None None MADB_CS_UNSUPPORTED,
     os_cs ''10006'' ''Greek (Mac)'' None None MADB_CS_UNSUPPORTED,
     os_cs ''10007'' ''Cyrillic (Mac)'' None None MADB_CS_UNSUPPORTED,
     os_cs ''10008'' ''Chinese Simplified (Mac)'' (Some ''gb2312'') None MADB_CS_EXACT,
     os_cs ''10010'' ''Romanian (Mac)'' None None MADB_CS_UNSUPPORTED,
     os_cs ''10017'' ''Ukrainian (Mac)'' None None MADB_CS_UNSUPPORTED,
     os_cs ''10021'' ''Thai (Mac)'' (Some ''tis620'') None MADB_CS_EXACT,
     os_cs ''10029'' ''Central European (Mac)'' (Some ''macce'') None MADB_CS_EXACT,
     os_cs ''10079'' ''Icelandic (Mac)'' None None MADB_CS_UNSUPPORTED,
     os_cs ''10081'' ''Turkish (Mac)'' None None MADB_CS_UNSUPPORTED,
     os_cs ''10082'' ''Croatian (Mac)'' None None MADB_CS_UNSUPPORTED,
     os_cs ''12000'' ''Unicode UTF-32, little endian byte order'' None None MADB_CS_UNSUPPORTED,
     os_cs ''12001'' ''Unicode UTF-32, big endian byte order'' (Some ''utf32'') None MADB_CS_UNSUPPORTED,
     os_cs ''20000'' ''Chinese Traditional (CNS)'' None None MADB_CS_UNSUPPORTED,
     os_cs ''20001'' ''TCA Taiwan'' None None MADB_CS_UNSUPPORTED,
     os_cs ''20002'' ''Chinese Traditional (Eten)'' None None MADB_CS_UNSUPPORTED,
     os_cs ''20003'' ''IBM5550 Taiwan'' None None MADB_CS_UNSUPPORTED,
     os_cs ''20004'' ''TeleText Taiwan'' None None MADB_CS_UNSUPPORTED]"

definition MADB_OS_CHARSET_2 :: "st_madb_os_charset list" where
  "MADB_OS_CHARSET_2 = [
     os_cs ''20005'' ''Wang Taiwan'' None None MADB_CS_UNSUPPORTED,
     os_cs ''20105'' ''Western European (IA5)'' None None MADB_CS_UNSUPPORTED,
     os_cs ''20106'' ''IA5 German (7-bit)'' None None MADB_CS_UNSUPPORTED,
     os_cs ''20107'' ''Swedish (7-bit)'' None None MADB_CS_UNSUPPORTED,
     os_cs ''20108'' ''Norwegian (7-bit)'' None None MADB_CS_UNSUPPORTED,
     os_cs ''20127'' ''US-ASCII (7-bit)'' (Some ''ascii'') None MADB_CS_EXACT,
     os_cs ''20261'' ''T.61'' None None MADB_CS_UNSUPPORTED,
     os_cs ''20269'' ''Non-Spacing Accent'' None None MADB_CS_UNSUPPORTED,
     os_cs ''20273'' ''EBCDIC Germany'' None None MADB_CS_UNSUPPORTED,
     os_cs ''20277'' ''EBCDIC Denmark-Norway'' None None MADB_CS_UNSUPPORTED,
     os_cs ''20278'' ''EBCDIC Finland-Sweden'' None None MADB_CS_UNSUPPORTED,
     os_cs ''20280'' ''EBCDIC Italy'' None None MADB_CS_UNSUPPORTED,
     os_cs ''20284'' ''EBCDIC Latin America-Spain'' None None MADB_CS_UNSUPPORTED,
     os_cs ''20285'' ''EBCDIC United Kingdom'' None None MADB_CS_UNSUPPORTED,
     os_cs ''20290'' ''EBCDIC Japanese Katakana Extended'' None None MADB_CS_UNSUPPORTED,
     os_cs ''20297'' ''EBCDIC France'' None None MADB_CS_UNSUPPORTED,
     os_cs ''20420'' ''EBCDIC Arabic'' None None MADB_CS_UNSUPPORTED,
     os_cs ''20423'' ''EBCDIC Greek'' None None MADB_CS_UNSUPPORTED,
     os_cs ''20424'' ''EBCDIC Hebrew'' None None MADB_CS_UNSUPPORTED,
     os_cs ''20833'' ''EBCDIC Korean Extended'' None None MADB_CS_UNSUPPORTED,
     os_cs ''20838'' ''EBCDIC Thai'' None None MADB_CS_UNSUPPORTED,
     os_cs ''20866'' ''Cyrillic (KOI8-R)'' (Some ''koi8r'') None MADB_CS_EXACT,
     os_cs ''20871'' ''EBCDIC Icelandic'' None None MADB_CS_UNSUPPORTED,
     os_cs ''20880'' ''EBCDIC Cyrillic Russian'' None None MADB_CS_UNSUPPORTED,
     os_cs ''20905'' ''EBCDIC Turkish'' None None MADB_CS_UNSUPPORTED,
     os_cs ''20924'' ''EBCDIC Latin 1/Open System (1047 + Euro symbol)'' None None MADB_CS_UNSUPPORTED,
     os_cs ''20932'' ''Japanese (JIS 0208-1990 and 0121-1990)'' (Some ''ujis'') None MADB_CS_EXACT,
     os_cs ''20936'' ''Chinese Simplified (GB2312-80)'' (Some ''gb2312'') None MADB_CS_APPROX,
     os_cs ''20949'' ''Korean Wansung'' (Some ''euckr'') None MADB_CS_APPROX,
     os_cs ''21025'' ''EBCDIC Cyrillic Serbian-Bulgarian'' None None MADB_CS_UNSUPPORTED,
     os_cs ''21866'' ''Cyrillic (KOI8-U)'' (Some ''koi8u'') None MADB_CS_EXACT,
     os_cs ''28591'' ''Western European (ISO)'' (Some ''latin1'') None MADB_CS_APPROX,
     os_cs ''28592'' ''Central European (ISO)'' (Some ''latin2'') None MADB_CS_EXACT,
     os_cs ''28593'' ''Latin 3'' None None MADB_CS_UNSUPPORTED,
     os_cs ''28594'' ''Baltic'' None None MADB_CS_UNSUPPORTED,
     os_cs ''28595'' ''ISO 8859-5 Cyrillic'' None None MADB_CS_UNSUPPORTED,
     os_cs ''28596'' ''ISO 8859-6 Arabic'' None None MADB_CS_UNSUPPORTED,
     os_cs ''28597'' ''ISO 8859-7 Greek'' (Some ''greek'') None MADB_CS_EXACT,
     os_cs ''28598'' ''Hebrew (ISO-Visual)'' (Some ''hebrew'') None MADB_CS_EXACT,
     os_cs ''28599'' ''ISO 8859-9 Turkish'' (Some ''latin5'') None MADB_CS_EXACT,
     os_cs ''28603'' ''ISO 8859-13 Estonian'' (Some ''latin7'') None MADB_CS_EXACT,
     os_cs ''28605'' ''8859-15 Latin 9'' None None MADB_CS_UNSUPPORTED,
     os_cs ''29001'' ''Europa 3'' None None MADB_CS_UNSUPPORTED,
     os_cs ''38598'' ''ISO 8859-8 Hebrew; Hebrew (ISO-Logical)'' (Some ''hebrew'') None MADB_CS_EXACT,
     os_cs ''50220'' ''ISO 2022 Japanese with no halfwidth Katakana'' None None MADB_CS_UNSUPPORTED,
     os_cs ''50221'' ''ISO 2022 Japanese with halfwidth Katakana'' None None MADB_CS_UNSUPPORTED,
     os_cs ''50222'' ''ISO 2022 Japanese JIS X 0201-1989'' None None MADB_CS_UNSUPPORTED,
     os_cs ''50225'' ''ISO 2022 Korean'' None None MADB_CS_UNSUPPORTED,
     os_cs ''50227'' ''ISO 2022 Simplified Chinese'' None None MADB_CS_UNSUPPORTED,
     os_cs ''50229'' ''ISO 2022 Traditional Chinese'' None None MADB_CS_UNSUPPORTED,
     os_cs ''50930'' ''EBCDIC Japanese (Katakana) Extended'' None None MADB_CS_UNSUPPORTED,
     os_cs ''50931'' ''EBCDIC US-Canada and Japanese'' None None MADB_CS_UNSUPPORTED,
     os_cs ''50933'' ''EBCDIC Korean Extended and Korean'' None None MADB_CS_UNSUPPORTED,
     os_cs ''50935'' ''EBCDIC Simplified Chinese Extended and Simplified Chinese'' None None MADB_CS_UNSUPPORTED,
     os_cs ''50936'' ''EBCDIC Simplified Chinese'' None None MADB_CS_UNSUPPORTED,
     os_cs ''50937'' ''EBCDIC US-Canada and Traditional Chinese'' None None MADB_CS_UNSUPPORTED,
     os_cs ''50939'' ''EBCDIC Japanese (Latin) Extended and Japanese'' None None MADB_CS_UNSUPPORTED,
     os_cs ''51932'' ''EUC Japanese'' (Some ''ujis'') None MADB_CS_EXACT,
     os_cs ''51936'' ''EUC Simplified Chinese; Chinese Simplified (EUC)'' (Some ''gb2312'') None MADB_CS_EXACT,
     os_cs ''51949'' ''EUC Korean'' (Some ''euckr'') None MADB_CS_EXACT,
     os_cs ''51950'' ''EUC Traditional Chinese'' (Some ''big5'') None MADB_CS_EXACT,
     os_cs ''52936'' ''Chinese Simplified (HZ)'' None None MADB_CS_UNSUPPORTED,
     os_cs ''54936'' ''Chinese Simplified (GB18030)'' None None MADB_CS_UNSUPPORTED,
     os_cs ''57002'' ''ISCII Devanagari'' None None MADB_CS_UNSUPPORTED,
     os_cs ''57003'' ''ISCII Bengali'' None None MADB_CS_UNSUPPORTED,
     os_cs ''57004'' ''ISCII Tamil'' None None MADB_CS_UNSUPPORTED,
     os_cs ''57005'' ''ISCII Telugu'' None None MADB_CS_UNSUPPORTED,
     os_cs ''57006'' ''ISCII Assamese'' None None MADB_CS_UNSUPPORTED,
     os_cs ''57007'' ''ISCII Oriya'' None None MADB_CS_UNSUPPORTED,
     os_cs ''57008'' ''ISCII Kannada'' None None MADB_CS_UNSUPPORTED,
     os_cs ''57009'' ''ISCII Malayalam'' None None MADB_CS_UNSUPPORTED,
     os_cs ''57010'' ''ISCII Gujarati'' None None MADB_CS_UNSUPPORTED,
     os_cs ''57011'' ''ISCII Punjabi'' None None MADB_CS_UNSUPPORTED,
     os_cs ''65000'' ''utf-7 Unicode (UTF-7)'' None None MADB_CS_UNSUPPORTED,
     os_cs ''65001'' ''utf-8 Unicode (UTF-8)'' (Some ''utf8'') None MADB_CS_EXACT]"
definition MADB_OS_CHARSET :: "st_madb_os_charset list" where
  "MADB_OS_CHARSET = MADB_OS_CHARSET_1 @ MADB_OS_CHARSET_2"

section \<open>The searches\<close>

definition MADB_DEFAULT_CHARSET_NAME :: string where
  "MADB_DEFAULT_CHARSET_NAME = ''latin1''"

definition MADB_AUTODETECT_CHARSET_NAME :: string where
  "MADB_AUTODETECT_CHARSET_NAME = ''auto''"

text \<open>Both searches over the compiled sets stop at the first hit.\<close>

fun charset_search :: "(MARIADB_CHARSET_INFO \<Rightarrow> bool) \<Rightarrow> MARIADB_CHARSET_INFO list \<Rightarrow>
    MARIADB_CHARSET_INFO option" where
  "charset_search P [] = None"
| "charset_search P (c # l) = (if P c then Some c else charset_search P l)"

definition mysql_find_charset_nr :: "int \<Rightarrow> MARIADB_CHARSET_INFO option" where
  "mysql_find_charset_nr charsetnr =
     charset_search (\<lambda>c. nr c = charsetnr) mariadb_compiled_charsets"

fun os_charset_search :: "string \<Rightarrow> st_madb_os_charset list \<Rightarrow> string option" where
  "os_charset_search p [] = Some MADB_DEFAULT_CHARSET_NAME"
| "os_charset_search p (r # rs) =
     (if MADB_CS_UNSUPPORTED < supported r \<and> strcaseeq (os_identifier r) p then charset r
      else os_charset_search p rs)"

text \<open>\<open>cp\<close> is what \<open>GetConsoleCP\<close> or \<open>GetACP\<close> answers.\<close>

definition madb_get_os_character_set :: "nat \<Rightarrow> string option" where
  "madb_get_os_character_set cp = os_charset_search (dec_of_nat cp) MADB_OS_CHARSET"

text \<open>A null \<open>charset\<close> would be passed to \<open>strcasecmp\<close>; that no supported row has one is
  \<open>os_charset_rows\<close> below.\<close>

definition mysql_find_charset_name :: "nat \<Rightarrow> string \<Rightarrow> MARIADB_CHARSET_INFO option" where
  "mysql_find_charset_name cp nm =
     (case (if strcaseeq nm MADB_AUTODETECT_CHARSET_NAME
            then madb_get_os_character_set cp else Some nm) of
        None \<Rightarrow> None
      | Some n \<Rightarrow> charset_search (\<lambda>c. strcaseeq (csname c) n) mariadb_compiled_charsets)"

fun cp_search :: "string \<Rightarrow> st_madb_os_charset list \<Rightarrow> int" where
  "cp_search c [] = -1"
| "cp_search c (r # rs) =
     (if MADB_CS_UNSUPPORTED < supported r \<and> charset r = Some c then atoi (os_identifier r)
      else cp_search c rs)"

definition madb_get_windows_cp :: "string \<Rightarrow> int" where
  "madb_get_windows_cp c = cp_search c MADB_OS_CHARSET"

section \<open>What the tables hold\<close>

lemma charset_search_Some:
  "charset_search P l = Some c \<Longrightarrow> P c \<and> c \<in> set l"
  by (induction l) (auto split: if_splits)

lemma charset_search_unique:
  "distinct (map f l) \<Longrightarrow> c \<in> set l \<Longrightarrow> charset_search (\<lambda>x. f x = f c) l = Some c"
  by (induction l) (auto simp: image_iff)

lemma os_charset_search_cases:
  "os_charset_search p rs = c \<Longrightarrow> c = Some MADB_DEFAULT_CHARSET_NAME \<or>
    (\<exists>r \<in> set rs. MADB_CS_UNSUPPORTED < supported r \<and> strcaseeq (os_identifier r) p \<and> c = charset r)"
  by (induction rs) (auto split: if_splits)

lemma charset_search_known:
  "n \<in> csname ` set l \<Longrightarrow> charset_search (\<lambda>c. strcaseeq (csname c) n) l \<noteq> None"
  by (induction l) (auto simp: strcaseeq_def)

text \<open>The name of every supported row but that of code page 1255 is in the other table.\<close>

definition os_charset_names :: "string list" where
  "os_charset_names =
     [''ascii'', ''big5'', ''cp1250'', ''cp1251'', ''cp1256'', ''cp1257'', ''cp850'',
      ''cp852'', ''cp866'', ''cp932'', ''euckr'', ''gb2312'', ''gbk'', ''greek'',
      ''hebrew'', ''koi8r'', ''koi8u'', ''latin1'', ''latin2'', ''latin5'', ''latin7'',
      ''macce'', ''macroman'', ''sjis'', ''tis620'', ''ujis'', ''utf8'']"

definition row_resolves :: "st_madb_os_charset \<Rightarrow> bool" where
  "row_resolves r \<longleftrightarrow> supported r = MADB_CS_UNSUPPORTED \<or>
     (case charset r of None \<Rightarrow> False
      | Some n \<Rightarrow> os_identifier r = ''1255'' \<or> n \<in> set os_charset_names)"

lemma os_charset_rows: "list_all row_resolves MADB_OS_CHARSET"
  by code_simp

fun all_in :: "'a list \<Rightarrow> 'a list \<Rightarrow> bool" where
  "all_in [] ys = True"
| "all_in (x # xs) ys \<longleftrightarrow> List.member ys x \<and> all_in xs ys"

lemma all_in_iff: "all_in xs ys \<longleftrightarrow> set xs \<subseteq> set ys"
  by (induction xs) auto

lemma os_charset_names_in: "all_in os_charset_names (map csname (take 43 mariadb_compiled_charsets_1))"
  by code_simp

lemma os_charset_names_known: "set os_charset_names \<subseteq> csname ` set mariadb_compiled_charsets_1"
  using os_charset_names_in by (auto simp: all_in_iff dest!: subsetD in_set_takeD)

lemma default_charset_known:
  "charset_search (\<lambda>c. strcaseeq (csname c) MADB_DEFAULT_CHARSET_NAME) mariadb_compiled_charsets \<noteq> None"
  by code_simp

text \<open>The numbers are distinct: sorted, they increase strictly.\<close>

lemma distinct_if_sorts: "successively (<) (sort xs) \<Longrightarrow> distinct (xs :: int list)"
  by (metis successively_conv_sorted_wrt strict_sorted_iff distinct_sort transp_on_less)

lemma charset_nr_increasing: "successively (<) (sort (map nr mariadb_compiled_charsets))"
  by code_simp

lemma charset_nr_distinct: "distinct (map nr mariadb_compiled_charsets)"
  by (rule distinct_if_sorts) (rule charset_nr_increasing)

lemma cp_1255: "os_charset_search ''1255'' MADB_OS_CHARSET = Some ''hewbrew''"
  by code_simp

lemma charset_search_None: "(\<And>c. c \<in> set l \<Longrightarrow> \<not> P c) \<Longrightarrow> charset_search P l = None"
  by (induction l) auto

lemma no_such_name:
  "list_all (\<lambda>c. length (csname c) \<noteq> 7 \<or> hd (csname c) \<noteq> CHR ''h'' \<and> hd (csname c) \<noteq> CHR ''H'')
     mariadb_compiled_charsets"
  by code_simp

lemma tolower_h: "tolower_c c = CHR ''h'' \<Longrightarrow> c = CHR ''h'' \<or> c = CHR ''H''"
proof -
  assume h: "tolower_c c = CHR ''h''"
  show ?thesis
  proof (cases "65 \<le> (of_char c :: nat) \<and> (of_char c :: nat) \<le> 90")
    case True
    with h have "char_of ((of_char c :: nat) + 32) = CHR ''h''" by (simp add: tolower_c_def)
    then have "(of_char (char_of ((of_char c :: nat) + 32) :: char) :: nat) = 104" by simp
    with True have "of_char c = (72 :: nat)" by (simp add: of_char_of)
    then have "c = char_of (72 :: nat)" by (metis char_of_char)
    then show ?thesis by (simp add: char_of_def bit_0)
  next
    case False
    with h show ?thesis by (simp add: tolower_c_def)
  qed
qed

lemma hewbrew_unknown:
  "charset_search (\<lambda>c. strcaseeq (csname c) ''hewbrew'') mariadb_compiled_charsets = None"
proof (rule charset_search_None)
  fix c
  assume "c \<in> set mariadb_compiled_charsets"
  then have *: "length (csname c) \<noteq> 7 \<or> hd (csname c) \<noteq> CHR ''h'' \<and> hd (csname c) \<noteq> CHR ''H''"
    using no_such_name by (auto simp: list_all_iff)
  show "\<not> strcaseeq (csname c) ''hewbrew''"
  proof
    assume "strcaseeq (csname c) ''hewbrew''"
    then have eq: "map tolower_c (csname c) = map tolower_c ''hewbrew''" by (simp add: strcaseeq_def)
    then have "length (map tolower_c (csname c)) = length (map tolower_c ''hewbrew'')" by simp
    then have len: "length (csname c) = 7" by simp
    then have "hd (map tolower_c (csname c)) = tolower_c (hd (csname c))"
      by (cases "csname c") auto
    with eq have "tolower_c (hd (csname c)) = CHR ''h''" by (simp add: tolower_c_def)
    with * len show False by (auto dest: tolower_h)
  qed
qed

section \<open>Properties\<close>

lemma compiled_1: "csname ` set mariadb_compiled_charsets_1 \<subseteq> csname ` set mariadb_compiled_charsets"
  by (auto simp: mariadb_compiled_charsets_def)

text \<open>
  Autodetection of the character set (the name \<open>auto\<close>) finds a compiled set for every
  code page Windows can report, except for the Hebrew code page 1255, whose row misspells the
  name of its set: there the client ends with no character set at all.
\<close>

theorem autodetect_fails_only_for_1255:
  "mysql_find_charset_name cp MADB_AUTODETECT_CHARSET_NAME = None \<longleftrightarrow> cp = 1255"
proof
  assume "cp = 1255"
  moreover have "dec_of_nat 1255 = ''1255''"
    by (simp add: dec_of_nat.simps digit_def char_of_def bit_0)
  ultimately show "mysql_find_charset_name cp MADB_AUTODETECT_CHARSET_NAME = None"
    by (simp add: mysql_find_charset_name_def madb_get_os_character_set_def cp_1255 hewbrew_unknown)
next
  assume none: "mysql_find_charset_name cp MADB_AUTODETECT_CHARSET_NAME = None"
  let ?p = "dec_of_nat cp"
  from os_charset_search_cases [of ?p MADB_OS_CHARSET, OF refl]
  show "cp = 1255"
  proof
    assume "os_charset_search ?p MADB_OS_CHARSET = Some MADB_DEFAULT_CHARSET_NAME"
    with none default_charset_known show ?thesis
      by (simp add: mysql_find_charset_name_def madb_get_os_character_set_def)
  next
    assume "\<exists>r \<in> set MADB_OS_CHARSET. MADB_CS_UNSUPPORTED < supported r \<and>
      strcaseeq (os_identifier r) ?p \<and> os_charset_search ?p MADB_OS_CHARSET = charset r"
    then obtain r where r: "r \<in> set MADB_OS_CHARSET" "MADB_CS_UNSUPPORTED < supported r"
      "strcaseeq (os_identifier r) ?p" "os_charset_search ?p MADB_OS_CHARSET = charset r"
      by auto
    from os_charset_rows r(1) have "row_resolves r" by (auto simp: list_all_iff)
    with r(2) obtain n where n: "charset r = Some n"
      and "os_identifier r = ''1255'' \<or> n \<in> set os_charset_names"
      by (auto simp: row_resolves_def split: option.splits)
    then consider "os_identifier r = ''1255''" | "n \<in> csname ` set mariadb_compiled_charsets"
      using os_charset_names_known compiled_1 by blast
    then show ?thesis
    proof cases
      case 1
      moreover have "dec_of_nat 1255 = ''1255''"
        by (simp add: dec_of_nat.simps digit_def char_of_def bit_0)
      ultimately have "strcaseeq (dec_of_nat 1255) (dec_of_nat cp)" using r(3) by simp
      then show ?thesis by (simp add: strcaseeq_dec)
    next
      case 2
      then have "charset_search (\<lambda>c. strcaseeq (csname c) n) mariadb_compiled_charsets \<noteq> None"
        by (rule charset_search_known)
      with none r(4) n show ?thesis
        by (simp add: mysql_find_charset_name_def madb_get_os_character_set_def)
    qed
  qed
qed

text \<open>The numbers of the compiled sets identify them.\<close>

lemma find_charset_nr_roundtrip:
  "c \<in> set mariadb_compiled_charsets \<Longrightarrow> mysql_find_charset_nr (nr c) = Some c"
  unfolding mysql_find_charset_nr_def by (rule charset_search_unique [OF charset_nr_distinct])

end
