(* ===== verification/Ma_Literal.thy ===== *)
theory Ma_Literal
  imports Ma_Escape Ma_Charset_Table
begin

text \<open>
  Escaping over the compiled character sets: which sets fit the buffer, for which sets an escaped
  text put between quotes reads back as itself, and the two defects of the measuring functions
  that break it.
\<close>

section \<open>Rows\<close>

definition measure_of :: "MARIADB_CHARSET_INFO \<Rightarrow> byte list \<Rightarrow> nat" where
  "measure_of c =
     (if char_maxlen c > 1 then case mb_valid c of Some f \<Rightarrow> f | None \<Rightarrow> (\<lambda>_. 0) else (\<lambda>_. 0))"

text \<open>A row whose functions are present and stay inside the text, or one of three sets.\<close>

definition row_safe :: "MARIADB_CHARSET_INFO \<Rightarrow> bool" where
  "row_safe c \<longleftrightarrow> csname c \<in> {''filename'', ''ucs2'', ''utf32''} \<or> char_maxlen c \<le> 1 \<or>
     (\<exists>f g. mb_valid c = Some f \<and> mb_safe f \<and> mb_charlen c = Some g)"

lemma row_safe_cs [simp]:
  "row_safe (cs n st csn nm dr cp enc mn 1 g f)"
  "mb_safe v \<Longrightarrow> row_safe (cs n st csn nm dr cp enc mn mx (Some h) (Some v))"
  "row_safe (cs n st ''filename'' nm dr cp enc mn mx g f)"
  "row_safe (cs n st ''ucs2'' nm dr cp enc mn mx g f)"
  "row_safe (cs n st ''utf32'' nm dr cp enc mn mx g f)"
  by (simp_all add: row_safe_def cs_def)


text \<open>A row that is single-byte or UTF-8, or neither by its name.\<close>

definition row_utf8 :: "MARIADB_CHARSET_INFO \<Rightarrow> bool" where
  "row_utf8 c \<longleftrightarrow> char_maxlen c = 1 \<or>
     (mb_valid c = Some check_mb_utf8_valid \<and> mb_charlen c = Some mysql_mbcharlen_utf8) \<or>
     (mb_valid c = Some check_mb_utf8mb3_valid \<and> mb_charlen c = Some mysql_mbcharlen_utf8mb3) \<or>
     csname c \<noteq> UTF8_MB3 \<and> csname c \<noteq> UTF8_MB4"

lemma row_utf8_cs [simp]:
  "row_utf8 (cs n st csn nm dr cp enc mn 1 g f)"
  "row_utf8 (cs n st csn nm dr cp enc mn mx (Some mysql_mbcharlen_utf8) (Some check_mb_utf8_valid))"
  "row_utf8 (cs n st csn nm dr cp enc mn mx (Some mysql_mbcharlen_utf8mb3) (Some check_mb_utf8mb3_valid))"
  "csn \<noteq> UTF8_MB3 \<Longrightarrow> csn \<noteq> UTF8_MB4 \<Longrightarrow> row_utf8 (cs n st csn nm dr cp enc mn mx g f)"
  by (simp_all add: row_utf8_def cs_def)

lemma not_utf8_names [simp]:
  "CHR ''b'' # s \<noteq> UTF8_MB3" "CHR ''b'' # s \<noteq> UTF8_MB4" "CHR ''s'' # s \<noteq> UTF8_MB3"
  "CHR ''s'' # s \<noteq> UTF8_MB4" "CHR ''e'' # s \<noteq> UTF8_MB3" "CHR ''e'' # s \<noteq> UTF8_MB4"
  "CHR ''g'' # s \<noteq> UTF8_MB3" "CHR ''g'' # s \<noteq> UTF8_MB4" "CHR ''c'' # s \<noteq> UTF8_MB3"
  "CHR ''c'' # s \<noteq> UTF8_MB4" "CHR ''f'' # s \<noteq> UTF8_MB3" "CHR ''f'' # s \<noteq> UTF8_MB4"
  "''ujis'' \<noteq> UTF8_MB3" "''ujis'' \<noteq> UTF8_MB4" "''ucs2'' \<noteq> UTF8_MB3" "''ucs2'' \<noteq> UTF8_MB4"
  "''utf16'' \<noteq> UTF8_MB3" "''utf16'' \<noteq> UTF8_MB4" "''utf16le'' \<noteq> UTF8_MB3" "''utf16le'' \<noteq> UTF8_MB4"
  "''utf32'' \<noteq> UTF8_MB3" "''utf32'' \<noteq> UTF8_MB4"
  by (simp_all add: UTF8_MB3_def UTF8_MB4_def)

lemma rows_utf8: "list_all row_utf8 mariadb_compiled_charsets"
  by (simp add: mariadb_compiled_charsets_def mariadb_compiled_charsets_1_def
      mariadb_compiled_charsets_2_def mariadb_compiled_charsets_3_def)

lemma utf8_heads_alone: "mysql_mbcharlen_utf8 (char_to_int b) \<le> 1"
  by (rule byte_all [of "\<lambda>b. mysql_mbcharlen_utf8 (char_to_int b) \<le> 1"]) code_simp

lemma utf8mb3_heads_alone: "mysql_mbcharlen_utf8mb3 (char_to_int b) \<le> 1"
  by (rule byte_all [of "\<lambda>b. mysql_mbcharlen_utf8mb3 (char_to_int b) \<le> 1"]) code_simp

lemma big5_head_never: "\<not> valid_big5head (char_to_int b)"
  by (rule byte_all [of "\<lambda>b. \<not> valid_big5head (char_to_int b)"]) code_simp

text \<open>What both escape functions write for these sets, and how it reads.\<close>

lemma real_escape_text:
  assumes "\<And>s. mb_len c s = Some (f s)" and "\<And>s. f s \<le> length s" and "\<And>b. mb_head c b = Some False"
  shows "\<exists>n. mysql_real_escape_string c nbs s = Some (n, esc_text f nbs s @ [0])"
  using escape_quotes_loop_text [of c f "[]" s "2 * length s", OF assms(1,2)]
    escape_slashes_loop_text [of c f "[]" s "2 * length s", OF assms]
  by (cases nbs) (simp_all add: mysql_real_escape_string_def mysql_cset_escape_quotes_def
      mysql_cset_escape_slashes_def escape_result_def)

lemma row_utf8_measure:
  assumes "row_utf8 c" and "char_maxlen c = 1 \<or> csname c = UTF8_MB3 \<or> csname c = UTF8_MB4"
  obtains f where "measure_of c = f" "\<And>s. mb_len c s = Some (f s)" "\<And>b. mb_head c b = Some False"
    "f = (\<lambda>_. 0) \<or> f = check_mb_utf8_valid \<or> f = check_mb_utf8mb3_valid"
proof -
  consider "char_maxlen c \<le> 1"
    | "char_maxlen c > 1" "mb_valid c = Some check_mb_utf8_valid" "mb_charlen c = Some mysql_mbcharlen_utf8"
    | "char_maxlen c > 1" "mb_valid c = Some check_mb_utf8mb3_valid"
        "mb_charlen c = Some mysql_mbcharlen_utf8mb3"
    using assms by (fastforce simp: row_utf8_def)
  then show thesis
  proof cases
    case 1
    with that [of "\<lambda>_. 0"] show thesis by (simp add: measure_of_def mb_len_def mb_head_def)
  next
    case 2
    with that [of check_mb_utf8_valid] utf8_heads_alone show thesis
      by (simp add: measure_of_def mb_len_def mb_head_def not_less)
  next
    case 3
    with that [of check_mb_utf8mb3_valid] utf8mb3_heads_alone show thesis
      by (simp add: measure_of_def mb_len_def mb_head_def not_less)
  qed
qed

lemma charset_5: "mariadb_compiled_charsets ! 5 =
    cs 8 1 ''latin1'' ''latin1_swedish_ci'' '''' 850 ''LATIN1'' 1 1 None None"
  by (simp add: mariadb_compiled_charsets_def mariadb_compiled_charsets_1_def)

lemma charset_0: "mariadb_compiled_charsets ! 0 =
    cs 1 1 ''big5'' ''big5_chinese_ci'' '''' 950 ''BIG5'' 1 2
      (Some mysql_mbcharlen_big5) (Some check_mb_big5)"
  by (simp add: mariadb_compiled_charsets_def mariadb_compiled_charsets_1_def)

lemma charset_in: "k < 107 \<Longrightarrow> mariadb_compiled_charsets ! k \<in> set mariadb_compiled_charsets"
  by (rule nth_mem) (simp add: mariadb_compiled_charsets_def mariadb_compiled_charsets_1_def)

text \<open>The measure big5 is meant to have.\<close>

definition big5_meant :: "byte list \<Rightarrow> nat" where
  "big5_meant s =
     (if length s > 1 \<and> valid_big5head (uchar_to_uint (at s 0)) \<and> valid_big5tail (uchar_to_uint (at s 1))
      then 2 else 0)"

lemma escape_text:
  assumes "c \<in> set mariadb_compiled_charsets"
    and "char_maxlen c = 1 \<or> csname c = UTF8_MB3 \<or> csname c = UTF8_MB4"
  shows "(\<exists>n. mysql_real_escape_string c nbs s = Some (n, esc_text (measure_of c) nbs s @ [0])) \<and>
    length (esc_text (measure_of c) nbs s) \<le> 2 * length s \<and>
    (\<forall>b s. b < 0x80 \<longrightarrow> measure_of c (b # s) = 0) \<and>
    (rest = [] \<or> hd rest \<noteq> 0x27 \<longrightarrow>
      scan_literal (measure_of c) nbs (esc_text (measure_of c) nbs s @ 0x27 # rest) = Some (s, rest))"
proof -
  from rows_utf8 assms(1) have "row_utf8 c" by (simp add: list_all_iff)
  then obtain f where f: "measure_of c = f" "\<And>s. mb_len c s = Some (f s)"
    "\<And>b. mb_head c b = Some False"
    "f = (\<lambda>_. 0) \<or> f = check_mb_utf8_valid \<or> f = check_mb_utf8mb3_valid"
    using row_utf8_measure assms(2) by blast
  then have le: "\<And>s. f s \<le> length s"
    using utf8mb4.inside utf8mb3.inside by auto
  have "rest = [] \<or> hd rest \<noteq> 0x27 \<Longrightarrow>
      scan_literal f nbs (esc_text f nbs s @ 0x27 # rest) = Some (s, rest)"
    using f(4) single.scan_esc_text utf8mb4.scan_esc_text utf8mb3.scan_esc_text by metis
  moreover have "b < 0x80 \<Longrightarrow> f (b # s) = 0" for b s
    using f(4) utf8mb4.head [of b s] utf8mb3.head [of b s] by metis
  ultimately show ?thesis
    using real_escape_text [OF f(2) le f(3)] length_esc_text [OF le] f(1) by blast
qed

section \<open>Properties\<close>

text \<open>
  C6. What \<open>mysql_real_escape_string\<close> writes for a text, put between single quotes, reads back as
  that text and leaves the statement after the closing quote alone: no value can end its own
  literal. This holds for every compiled single-byte character set (the default latin1 among
  them) and for both UTF-8 sets, in both quoting modes of the server, and the result fits the
  buffer of twice the length and one.
\<close>

theorem escaped_literal_reads_back:
  assumes "c \<in> set mariadb_compiled_charsets"
    and "char_maxlen c = 1 \<or> csname c = UTF8_MB3 \<or> csname c = UTF8_MB4"
    and "rest = [] \<or> hd rest \<noteq> 0x27"
  shows "\<exists>n out. mysql_real_escape_string c no_backslash s = Some (n, out @ [0]) \<and>
    length out \<le> 2 * length s \<and>
    scan_literal (measure_of c) no_backslash (out @ 0x27 # rest) = Some (s, rest)"
  using escape_text [OF assms(1,2), of no_backslash s rest] assms(3) by blast

lemma escaped_literal_reads_back_witness:
  "\<exists>n out. mysql_real_escape_string (mariadb_compiled_charsets ! 5) False [0x27, 0x5C, 0x41] =
      Some (n, out @ [0]) \<and> length out \<le> 2 * length [0x27 :: byte, 0x5C, 0x41] \<and>
    scan_literal (measure_of (mariadb_compiled_charsets ! 5)) False (out @ 0x27 # [0x29]) =
      Some ([0x27, 0x5C, 0x41], [0x29])"
proof -
  have "char_maxlen (mariadb_compiled_charsets ! 5) = 1" unfolding charset_5 by (simp add: cs_def)
  then show ?thesis
    by (intro escaped_literal_reads_back charset_in) simp_all
qed



text \<open>
  The measuring function of big5 never recognises a character: it compares a signed \<open>char\<close>
  with 161, which no \<open>char\<close> reaches. A text that ends in a character whose second byte is the
  backslash is escaped so that the closing quote is taken for an escaped one: read with the
  measure big5 is meant to have, the literal does not end.
\<close>

theorem big5_escape_unsafe:
  "check_mb_big5 s = 0 \<and>
   (\<exists>out n. mysql_real_escape_string (mariadb_compiled_charsets ! 0) False [0xA1, 0x5C] =
      Some (n, out @ [0]) \<and> scan_literal big5_meant False (out @ [0x27]) = None)"
proof
  show "check_mb_big5 s = 0" by (simp add: check_mb_big5_def sc_def big5_head_never)
  have "mysql_real_escape_string (mariadb_compiled_charsets ! 0) False [0xA1, 0x5C] =
      Some (3, [0xA1, 0x5C, 0x5C] @ [0])"
    unfolding charset_0 by code_simp
  moreover have "scan_literal big5_meant False ([0xA1, 0x5C, 0x5C] @ [0x27]) = None"
    by code_simp
  ultimately show "\<exists>out n. mysql_real_escape_string (mariadb_compiled_charsets ! 0) False [0xA1, 0x5C] =
      Some (n, out @ [0]) \<and> scan_literal big5_meant False (out @ [0x27]) = None"
    by blast
qed

end
