(* ===== verification/Ma_Result.thy ===== *)
theory Ma_Result
  imports Prelude
begin

text \<open>
  The query half of \<open>libmariadb/mariadb_lib.c\<close>: the packets of a result set and the state a
  connection goes through, from \<open>mysql_query\<close> over \<open>mysql_use_result\<close> and \<open>mysql_fetch_row\<close>
  to \<open>mysql_free_result\<close>. A packet is the payload \<open>ma_net_read\<close> returns; the server is a function
  from a command to the packets it answers with. \<open>None\<close> as the result of an operation is a read
  outside the packet (undefined behaviour), or \<open>LOAD DATA LOCAL\<close>, which is not modelled. Memory
  allocation succeeds; there is no progress callback and no session tracking.
\<close>

section \<open>Lengths on the wire\<close>

definition NULL_LENGTH :: u32 where
  "NULL_LENGTH = - 1"

text \<open>A buffer is read through the list of its bytes from the current position on; the byte after
  a packet is the null \<open>ma_net_read\<close> puts there. Eight-byte lengths are read as four bytes.\<close>

fun net_field_length :: "byte list \<Rightarrow> (u32 \<times> byte list) option" where
  "net_field_length [] = None"
| "net_field_length (b # r) =
     (if b < 251 then Some (ucast b, r)
      else if b = 251 then Some (NULL_LENGTH, r)
      else if b = 252 then
        (if 2 \<le> length r then Some (word_of_nat (le_load (take 2 r)), drop 2 r) else None)
      else if b = 253 then
        (if 3 \<le> length r then Some (word_of_nat (le_load (take 3 r)), drop 3 r) else None)
      else
        (if 8 \<le> length r then Some (word_of_nat (le_load (take 4 r)), drop 8 r) else None))"

fun net_field_length_ll :: "byte list \<Rightarrow> (u64 \<times> byte list) option" where
  "net_field_length_ll [] = None"
| "net_field_length_ll (b # r) =
     (if b < 251 then Some (ucast b, r)
      else if b = 251 then Some (ucast NULL_LENGTH, r)
      else if b = 252 then
        (if 2 \<le> length r then Some (word_of_nat (le_load (take 2 r)), drop 2 r) else None)
      else if b = 253 then
        (if 3 \<le> length r then Some (word_of_nat (le_load (take 3 r)), drop 3 r) else None)
      else
        (if 8 \<le> length r then Some (word_of_nat (le_load (take 8 r)), drop 8 r) else None))"

text \<open>The writer, of \<open>mariadb_stmt.c\<close>.\<close>

definition mysql_net_store_length :: "nat \<Rightarrow> byte list" where
  "mysql_net_store_length len =
     (if len < 251 then [word_of_nat len]
      else if len < 65536 then 252 # le_store 2 len
      else if len < 16777216 then 253 # le_store 3 len
      else 254 # le_store 8 len)"

section \<open>The connection\<close>

datatype mysql_status = MYSQL_STATUS_READY | MYSQL_STATUS_GET_RESULT | MYSQL_STATUS_USE_RESULT

record MYSQL_FIELD =
  f_catalog :: "byte list"
  f_db :: "byte list"
  f_table :: "byte list"
  f_org_table :: "byte list"
  f_name :: "byte list"
  f_org_name :: "byte list"
  f_charsetnr :: nat
  f_length :: nat
  f_type :: nat
  f_flags :: nat
  f_decimals :: nat

type_synonym row = "byte list option list"

text \<open>What comes of writing a command: it is sent, it is too large for the buffer, or the connection breaks.
  A connection has the script of its coming writes; they succeed where it has ended.\<close>

datatype write_outcome = Written | Too_large | Broken

record 'db MYSQL =
  writes :: "write_outcome list"
  incoming :: "byte list list"
  server :: 'db
  connected :: bool
  progress :: bool
  status :: mysql_status
  mfields :: "MYSQL_FIELD list option"
  field_count :: nat
  server_status :: nat
  warning_count :: nat
  affected_rows :: u64
  insert_id :: u64
  my_errno :: nat

text \<open>The bits of \<open>server_status\<close> the client looks at: 0 \<open>SERVER_STATUS_IN_TRANS\<close>, 1
  \<open>SERVER_STATUS_AUTOCOMMIT\<close>, 3 \<open>SERVER_MORE_RESULTS_EXIST\<close>.\<close>

definition CR_UNKNOWN_ERROR :: nat where "CR_UNKNOWN_ERROR = 2000"
definition CR_SERVER_GONE_ERROR :: nat where "CR_SERVER_GONE_ERROR = 2006"
definition CR_NET_PACKET_TOO_LARGE :: nat where "CR_NET_PACKET_TOO_LARGE = 2020"
definition CR_SERVER_LOST :: nat where "CR_SERVER_LOST = 2013"
definition CR_COMMANDS_OUT_OF_SYNC :: nat where "CR_COMMANDS_OUT_OF_SYNC = 2014"
definition CR_MALFORMED_PACKET :: nat where "CR_MALFORMED_PACKET = 2027"

definition free_old_query :: "'db MYSQL \<Rightarrow> 'db MYSQL" where
  "free_old_query m = m\<lparr>mfields := None, field_count := 0\<rparr>"

definition end_server :: "'db MYSQL \<Rightarrow> 'db MYSQL" where
  "end_server m = free_old_query (m\<lparr>connected := False\<rparr>)"

text \<open>\<open>cli_report_progress\<close> without a callback only checks the length.\<close>

definition cli_report_progress :: "nat \<Rightarrow> bool" where
  "cli_report_progress len \<longleftrightarrow> len < 5"

text \<open>\<open>ma_net_safe_read\<close>: the next packet that is no error and no progress report; \<open>None\<close> is
  \<open>packet_error\<close>.\<close>

fun safe_read_loop :: "byte list list \<Rightarrow> 'db MYSQL \<Rightarrow> byte list option \<times> 'db MYSQL" where
  "safe_read_loop [] m = (None, (end_server (m\<lparr>incoming := []\<rparr>))\<lparr>my_errno := CR_SERVER_LOST\<rparr>)"
| "safe_read_loop (p # ps) m =
     (case p of
        [] \<Rightarrow> (None, (end_server (m\<lparr>incoming := ps\<rparr>))\<lparr>my_errno := CR_SERVER_LOST\<rparr>)
      | b # _ \<Rightarrow>
          if b = 255 then
            (let quiet = (\<lambda>m. m\<lparr>incoming := ps,
                    server_status := unset_bit 3 (server_status m)\<rparr>) in
             if length p > 3 then
               let err = le_load (take 2 (drop 1 p)) in
               if err = 65535 \<and> progress m then
                 (if cli_report_progress (length p - 3)
                  then (None, m\<lparr>incoming := ps, my_errno := CR_MALFORMED_PACKET\<rparr>)
                  else safe_read_loop ps m)
               else (None, (quiet m)\<lparr>my_errno := err\<rparr>)
             else (None, (quiet m)\<lparr>my_errno := CR_UNKNOWN_ERROR\<rparr>))
          else (Some p, m\<lparr>incoming := ps\<rparr>))"

definition ma_net_safe_read :: "'db MYSQL \<Rightarrow> byte list option \<times> 'db MYSQL" where
  "ma_net_safe_read m = safe_read_loop (if connected m then incoming m else []) m"

lemma safe_read_loop_shrinks:
  "safe_read_loop ps m = (Some p, m') \<Longrightarrow> length (incoming m') < length ps"
  by (induction ps arbitrary: m) (auto simp: Let_def split: list.splits if_splits intro: less_SucI)

lemma ma_net_safe_read_shrinks:
  "ma_net_safe_read m = (Some p, m') \<Longrightarrow> length (incoming m') < length (incoming m)"
  by (auto simp: ma_net_safe_read_def dest: safe_read_loop_shrinks split: if_splits)

section \<open>Reading rows\<close>

text \<open>The end of data: a short packet that starts with 254.\<close>

definition is_eof :: "byte list \<Rightarrow> bool" where
  "is_eof p \<longleftrightarrow> length p \<le> 8 \<and> p \<noteq> [] \<and> hd p = 254"

text \<open>Its two numbers. Behind the packet is the null of \<open>ma_net_read\<close>, and behind that what earlier packets
  have left in the buffer (\<open>None\<close>).\<close>

definition read_eof :: "byte list \<Rightarrow> 'db MYSQL \<Rightarrow> 'db MYSQL option" where
  "read_eof p m =
     (if length (p @ [0]) < 5 then None
      else Some (m\<lparr>warning_count := le_load (take 2 (drop 1 (p @ [0]))),
        server_status := le_load (take 2 (drop 3 (p @ [0])))\<rparr>))"

function mthd_my_skip_result :: "'db MYSQL \<Rightarrow> 'db MYSQL" where
  "mthd_my_skip_result m =
     (case ma_net_safe_read m of
        (None, m') \<Rightarrow> m'
      | (Some p, m') \<Rightarrow> if is_eof p then m' else mthd_my_skip_result m')"
  by pat_completeness auto
termination
  by (relation "measure (\<lambda>m. length (incoming m))") (auto dest: ma_net_safe_read_shrinks [OF sym])

declare mthd_my_skip_result.simps [simp del]

datatype 'a fetch = Fetch_error | Fetch_end | Fetched 'a

text \<open>The loop of \<open>mthd_my_read_one_row\<close> over the fields. \<open>end_pos - pos\<close> is cut to the 32 bits
  of \<open>ulong\<close>, which makes it huge once \<open>pos\<close> has passed \<open>end_pos\<close>.\<close>

fun one_row_loop :: "nat \<Rightarrow> byte list \<Rightarrow> row \<Rightarrow> row option option" where
  "one_row_loop 0 pos row = Some (Some row)"
| "one_row_loop (Suc n) pos row =
     (case net_field_length pos of
        None \<Rightarrow> None
      | Some (len, pos1) \<Rightarrow>
          if len = NULL_LENGTH then one_row_loop n pos1 (row @ [None])
          else if len > word_of_int (int (length pos1) - 1) then Some None
          else if unat len > length pos1 then None
          else one_row_loop n (drop (unat len) pos1) (row @ [Some (take (unat len) pos1)]))"

text \<open>The last step writes a null through \<open>prev_pos\<close>, which is null without fields.\<close>

definition mthd_my_read_one_row :: "nat \<Rightarrow> 'db MYSQL \<Rightarrow> (row fetch \<times> 'db MYSQL) option" where
  "mthd_my_read_one_row n m =
     (case ma_net_safe_read m of
        (None, m') \<Rightarrow> Some (Fetch_error, m')
      | (Some p, m') \<Rightarrow>
          if is_eof p then map_option (Pair Fetch_end) (read_eof p m')
          else if n = 0 then None
          else
            case one_row_loop n (p @ [0]) [] of
              None \<Rightarrow> None
            | Some None \<Rightarrow> Some (Fetch_error, m'\<lparr>my_errno := CR_UNKNOWN_ERROR\<rparr>)
            | Some (Some row) \<Rightarrow> Some (Fetched row, m'))"

text \<open>The row loop of \<open>mthd_my_read_rows\<close>: the check is against the room left in the copy
  (\<open>end_to - to\<close>), not against the packet; a copy from outside the packet is \<open>None\<close>.\<close>

fun row_copy_loop :: "nat \<Rightarrow> byte list \<Rightarrow> int \<Rightarrow> row \<Rightarrow> row option option" where
  "row_copy_loop 0 cp room row = Some (Some row)"
| "row_copy_loop (Suc n) cp room row =
     (case net_field_length cp of
        None \<Rightarrow> None
      | Some (len, cp1) \<Rightarrow>
          if len = NULL_LENGTH then row_copy_loop n cp1 room (row @ [None])
          else if len > word_of_int room then Some None
          else if unat len > length cp1 then None
          else row_copy_loop n (drop (unat len) cp1) (room - int (unat len) - 1)
                 (row @ [Some (take (unat len) cp1)]))"

function read_rows_loop :: "nat \<Rightarrow> byte list \<Rightarrow> row list \<Rightarrow> 'db MYSQL \<Rightarrow>
    (row list option \<times> 'db MYSQL) option" where
  "read_rows_loop n p rows m =
     (if p \<noteq> [] \<and> hd p = 254 \<and> length p < 8
      then map_option (Pair (Some rows)) (if length p > 1 then read_eof p m else Some m)
      else
        case row_copy_loop n (p @ [0]) (int n + int (length p) - 1) [] of
          None \<Rightarrow> None
        | Some None \<Rightarrow> Some (None, m\<lparr>my_errno := CR_UNKNOWN_ERROR\<rparr>)
        | Some (Some row) \<Rightarrow>
            case ma_net_safe_read m of
              (None, m') \<Rightarrow> Some (None, m')
            | (Some p', m') \<Rightarrow> read_rows_loop n p' (rows @ [row]) m')"
  by pat_completeness auto
termination
  by (relation "measure (\<lambda>(_, _, _, m). length (incoming m))")
    (auto dest: ma_net_safe_read_shrinks [OF sym])

declare read_rows_loop.simps [simp del]

definition mthd_my_read_rows :: "nat \<Rightarrow> 'db MYSQL \<Rightarrow> (row list option \<times> 'db MYSQL) option" where
  "mthd_my_read_rows n m =
     (case ma_net_safe_read m of
        (None, m') \<Rightarrow> Some (None, m')
      | (Some p, m') \<Rightarrow> read_rows_loop n p [] m')"

section \<open>Field descriptions\<close>

text \<open>A C string: up to the first null.\<close>

definition cstr :: "byte list \<Rightarrow> byte list" where
  "cstr s = takeWhile (\<lambda>b. b \<noteq> 0) s"

definition INTERNAL_NUM_FIELD :: "nat \<Rightarrow> nat \<Rightarrow> bool" where
  "INTERNAL_NUM_FIELD ty len \<longleftrightarrow> (ty \<le> 9 \<and> (ty \<noteq> 7 \<or> len = 14 \<or> len = 8)) \<or> ty = 13 \<or> ty = 246 \<or> ty = 0"

text \<open>One turn of the loop of \<open>unpack_fields\<close>: six texts, then twelve fixed bytes. Null pointers
  and a fixed part shorter than what is read are \<open>None\<close>. The lengths of the texts and the
  default value, which nothing in the program reads, are left out.\<close>

definition unpack_field :: "row \<Rightarrow> MYSQL_FIELD option" where
  "unpack_field r =
     (case r of
        Some c # Some d # Some t # Some ot # Some n # Some on # Some p # _ \<Rightarrow>
          if length p < 10 then None
          else
            let len = le_load (take 4 (drop 2 p)); ty = unat (p ! 6); fl = le_load (take 2 (drop 7 p)) in
            Some \<lparr>f_catalog = cstr c, f_db = cstr d, f_table = cstr t, f_org_table = cstr ot,
              f_name = cstr n, f_org_name = cstr on, f_charsetnr = le_load (take 2 p),
              f_length = len, f_type = ty,
              f_flags = (if INTERNAL_NUM_FIELD ty len then set_bit 15 fl else fl),
              f_decimals = unat (char_to_int (p ! 9))\<rparr>
      | _ \<Rightarrow> None)"

fun unpack_rows :: "row list \<Rightarrow> MYSQL_FIELD list option" where
  "unpack_rows [] = Some []"
| "unpack_rows (r # rs) =
     (case unpack_field r of
        None \<Rightarrow> None
      | Some f \<Rightarrow> (case unpack_rows rs of None \<Rightarrow> None | Some fs \<Rightarrow> Some (f # fs)))"

text \<open>The array has \<open>n\<close> elements; a longer list of rows is written past its end.\<close>

definition unpack_fields :: "row list \<Rightarrow> nat \<Rightarrow> MYSQL_FIELD list option" where
  "unpack_fields rows n = (if length rows > n then None else unpack_rows rows)"

section \<open>Queries\<close>

definition read_ok_packet :: "byte list \<Rightarrow> 'db MYSQL \<Rightarrow> 'db MYSQL option" where
  "read_ok_packet pos m =
     (case net_field_length_ll pos of
        None \<Rightarrow> None
      | Some (affected, pos1) \<Rightarrow>
          (case net_field_length_ll pos1 of
             None \<Rightarrow> None
           | Some (ins, pos2) \<Rightarrow>
               if length pos2 < 4 then None
               else Some (m\<lparr>affected_rows := affected, insert_id := ins,
                 server_status := le_load (take 2 pos2),
                 warning_count := le_load (take 2 (drop 2 pos2))\<rparr>)))"

definition mark_in_trans :: "'db MYSQL \<Rightarrow> 'db MYSQL" where
  "mark_in_trans m =
     (if bit (server_status m) 1 then m else m\<lparr>server_status := set_bit 0 (server_status m)\<rparr>)"

definition mthd_my_read_query_result :: "'db MYSQL \<Rightarrow> (bool \<times> 'db MYSQL) option" where
  "mthd_my_read_query_result m =
     (case ma_net_safe_read m of
        (None, m1) \<Rightarrow> Some (True, m1)
      | (Some p, m1) \<Rightarrow>
          let m2 = free_old_query m1 in
          case net_field_length (p @ [0]) of
            None \<Rightarrow> None
          | Some (n, pos) \<Rightarrow>
              if n = 0 then map_option (Pair False) (read_ok_packet pos m2)
              else if n = NULL_LENGTH then None
              else
                case net_field_length_ll pos of
                  None \<Rightarrow> None
                | Some _ \<Rightarrow>
                    case mthd_my_read_rows 8 (mark_in_trans m2) of
                      None \<Rightarrow> None
                    | Some (None, m4) \<Rightarrow> Some (True, m4)
                    | Some (Some rows, m4) \<Rightarrow>
                        case unpack_fields rows (unat n) of
                          None \<Rightarrow> None
                        | Some fs \<Rightarrow> Some (False, m4\<lparr>mfields := Some fs,
                            status := MYSQL_STATUS_GET_RESULT, field_count := unat n\<rparr>))"

text \<open>The server: a command and its state give the packets of the answer and a new state.\<close>

type_synonym 'db srv = "byte list \<Rightarrow> 'db \<Rightarrow> byte list list \<times> 'db"

definition COM_QUERY :: byte where "COM_QUERY = 3"

text \<open>The option to reconnect is off.\<close>

definition mariadb_reconnect :: "'db MYSQL \<Rightarrow> 'db MYSQL" where
  "mariadb_reconnect m = m\<lparr>server_status := unset_bit 0 (server_status m), my_errno := CR_SERVER_GONE_ERROR\<rparr>"

definition transmit :: "'db srv \<Rightarrow> byte list \<Rightarrow> 'db MYSQL \<Rightarrow> 'db MYSQL" where
  "transmit srv packet m =
     (let (reply, db) = srv packet (server m) in
      m\<lparr>my_errno := 0, affected_rows := - 1, server := db, incoming := incoming m @ reply\<rparr>)"

text \<open>The result is whether it failed. A packet that is not written does not reach the server.\<close>

definition mthd_my_send_cmd :: "'db srv \<Rightarrow> byte \<Rightarrow> byte list \<Rightarrow> 'db MYSQL \<Rightarrow> bool \<times> 'db MYSQL" where
  "mthd_my_send_cmd srv command arg m =
     (if \<not> connected m then (True, mariadb_reconnect m)
      else if status m \<noteq> MYSQL_STATUS_READY \<or> bit (server_status m) 3
      then (True, m\<lparr>my_errno := CR_COMMANDS_OUT_OF_SYNC\<rparr>)
      else
        case writes m of
          [] \<Rightarrow> (False, transmit srv (command # arg) m)
        | Written # ws \<Rightarrow> (False, transmit srv (command # arg) (m\<lparr>writes := ws\<rparr>))
        | Too_large # ws \<Rightarrow> (True, m\<lparr>writes := ws, affected_rows := - 1, my_errno := CR_NET_PACKET_TOO_LARGE\<rparr>)
        | Broken # ws \<Rightarrow> (True, mariadb_reconnect (end_server (m\<lparr>writes := ws, affected_rows := - 1\<rparr>))))"

text \<open>The farewell of \<open>mysql_close\<close>; nothing is read after it.\<close>

definition COM_QUIT :: byte where "COM_QUIT = 1"

definition mysql_close_slow_part :: "'db srv \<Rightarrow> 'db MYSQL \<Rightarrow> 'db MYSQL" where
  "mysql_close_slow_part srv m =
     (if connected m
      then end_server (snd (mthd_my_send_cmd srv COM_QUIT [] ((free_old_query m)\<lparr>status := MYSQL_STATUS_READY\<rparr>)))
      else m)"

text \<open>\<open>mysql_query\<close>; the result is whether it failed.\<close>

definition mysql_query :: "'db srv \<Rightarrow> byte list \<Rightarrow> 'db MYSQL \<Rightarrow> (bool \<times> 'db MYSQL) option" where
  "mysql_query srv q m =
     (let (err, m1) = mthd_my_send_cmd srv COM_QUERY (cstr q) (free_old_query m) in
      if err then Some (True, m1) else mthd_my_read_query_result m1)"

record MYSQL_RES =
  r_fields :: "MYSQL_FIELD list"
  r_field_count :: nat
  current_field :: nat
  has_handle :: bool
  eof :: bool
  row_count :: nat

definition mysql_use_result :: "'db MYSQL \<Rightarrow> MYSQL_RES option \<times> 'db MYSQL" where
  "mysql_use_result m =
     (case mfields m of
        None \<Rightarrow> (None, m)
      | Some fs \<Rightarrow>
          if status m \<noteq> MYSQL_STATUS_GET_RESULT
          then (None, m\<lparr>my_errno := CR_COMMANDS_OUT_OF_SYNC\<rparr>)
          else
            (Some \<lparr>r_fields = fs, r_field_count = field_count m, current_field = 0,
               has_handle = True, eof = False, row_count = 0\<rparr>,
             m\<lparr>mfields := None, status := MYSQL_STATUS_USE_RESULT\<rparr>))"

text \<open>\<open>result->fields\<close> has \<open>field_count\<close> elements; reading one the server did not describe
  finds memory nothing wrote (\<open>None\<close>).\<close>

definition mysql_fetch_field :: "MYSQL_RES \<Rightarrow> (MYSQL_FIELD option \<times> MYSQL_RES) option" where
  "mysql_fetch_field r =
     (if current_field r \<ge> r_field_count r then Some (None, r)
      else if current_field r \<ge> length (r_fields r) then None
      else Some (Some (r_fields r ! current_field r), r\<lparr>current_field := current_field r + 1\<rparr>))"

text \<open>\<open>mysql_fetch_row\<close> of an unbuffered result. An error while reading ends the rows the same
  way as their end does.\<close>

definition mysql_fetch_row :: "MYSQL_RES \<Rightarrow> 'db MYSQL \<Rightarrow> (row option \<times> MYSQL_RES \<times> 'db MYSQL) option" where
  "mysql_fetch_row r m =
     (if has_handle r \<and> status m = MYSQL_STATUS_READY then Some (None, r, m)
      else if eof r then Some (None, r, m)
      else
        case mthd_my_read_one_row (r_field_count r) m of
          None \<Rightarrow> None
        | Some (Fetched row, m1) \<Rightarrow> Some (Some row, r\<lparr>row_count := row_count r + 1\<rparr>, m1)
        | Some (_, m1) \<Rightarrow>
            Some (None, r\<lparr>eof := True, has_handle := False\<rparr>, m1\<lparr>status := MYSQL_STATUS_READY\<rparr>))"

definition mysql_free_result :: "MYSQL_RES option \<Rightarrow> 'db MYSQL \<Rightarrow> 'db MYSQL" where
  "mysql_free_result r m =
     (case r of
        None \<Rightarrow> m
      | Some r \<Rightarrow>
          if has_handle r \<and> status m = MYSQL_STATUS_USE_RESULT
          then (mthd_my_skip_result m)\<lparr>status := MYSQL_STATUS_READY\<rparr>
          else m)"

definition mysql_field_count :: "'db MYSQL \<Rightarrow> nat" where
  "mysql_field_count m = field_count m"

definition mysql_num_fields :: "MYSQL_RES \<Rightarrow> nat" where
  "mysql_num_fields r = r_field_count r"

section \<open>What a server sends\<close>

text \<open>The specification: the packets of a result set, as the client's own writer of lengths
  makes them.\<close>

definition enc_value :: "byte list option \<Rightarrow> byte list" where
  "enc_value v = (case v of None \<Rightarrow> [251] | Some d \<Rightarrow> mysql_net_store_length (length d) @ d)"

definition enc_row :: "row \<Rightarrow> byte list" where
  "enc_row r = concat (map enc_value r)"

definition enc_eof :: "nat \<Rightarrow> nat \<Rightarrow> byte list" where
  "enc_eof warnings st = 254 # le_store 2 warnings @ le_store 2 st"

definition field_row :: "MYSQL_FIELD \<Rightarrow> row" where
  "field_row f =
     [Some (f_catalog f), Some (f_db f), Some (f_table f), Some (f_org_table f), Some (f_name f),
      Some (f_org_name f),
      Some (le_store 2 (f_charsetnr f) @ le_store 4 (f_length f) @ [word_of_nat (f_type f)] @
        le_store 2 (f_flags f) @ [word_of_nat (f_decimals f), 0, 0])]"

lemma mysql_net_store_length_not_Nil [simp]: "mysql_net_store_length n \<noteq> []"
  by (simp add: mysql_net_store_length_def)

lemma enc_value_not_Nil: "enc_value v \<noteq> []"
  by (simp add: enc_value_def split: option.splits)

lemma enc_row_Nil [simp]: "enc_row [] = []"
  by (simp add: enc_row_def)

lemma enc_row_Cons [simp]: "enc_row (v # r) = enc_value v @ enc_row r"
  by (simp add: enc_row_def)

lemma enc_row_not_Nil: "r \<noteq> [] \<Longrightarrow> enc_row r \<noteq> []"
  by (cases r) (simp_all add: enc_value_not_Nil)

lemma le_load_stored: "n < 256 ^ k \<Longrightarrow> le_load (take k (le_store k n @ r)) = n"
  by (simp add: le_load_store)

lemma take_le_store: "k \<le> m \<Longrightarrow> take k (le_store m n) = le_store k n"
proof (induction k arbitrary: m n)
  case 0
  then show ?case by simp
next
  case (Suc k)
  then show ?case by (cases m) auto
qed

text \<open>Reading back a length, for anything but the value that means a null.\<close>

lemma net_field_length_store:
  assumes "n < 2 ^ 32 - 1"
  shows "net_field_length (mysql_net_store_length n @ r) = Some (word_of_nat n, r)"
proof -
  consider "n < 251" | "\<not> n < 251" "n < 65536" | "\<not> n < 65536" "n < 16777216" | "\<not> n < 16777216"
    by linarith
  then show ?thesis
  proof cases
    case 1
    then have "(word_of_nat n :: byte) < 251" by (simp add: word_less_nat_alt unat_of_nat)
    moreover have "ucast (word_of_nat n :: byte) = (word_of_nat n :: u32)"
      using 1 by (simp add: unsigned_of_nat take_bit_nat_eq_self)
    ultimately show ?thesis using 1 by (simp add: mysql_net_store_length_def)
  next
    case 2
    then show ?thesis using le_load_stored [of n 2 r] by (simp add: mysql_net_store_length_def)
  next
    case 3
    then show ?thesis using le_load_stored [of n 3 r] by (simp add: mysql_net_store_length_def)
  next
    case 4
    have "take 4 (le_store 8 n @ r) = le_store 4 n" using take_le_store [of 4 8 n] by simp
    moreover have "le_load (le_store 4 n) = n" using assms by (simp add: le_load_store)
    ultimately show ?thesis using 4 by (simp add: mysql_net_store_length_def)
  qed
qed

lemma word_of_nat_not_null: "n < 2 ^ 32 - 1 \<Longrightarrow> word_of_nat n \<noteq> NULL_LENGTH"
proof
  assume n: "n < 2 ^ 32 - 1" and "word_of_nat n = NULL_LENGTH"
  then have "unat (word_of_nat n :: u32) = unat NULL_LENGTH" by simp
  with n show False by (simp add: NULL_LENGTH_def unat_of_nat unsigned_minus_1_eq_mask mask_eq_exp_minus_1)
qed

text \<open>The bound every packet of a result obeys: it is smaller than 4 GB.\<close>

definition fits32 :: "byte list \<Rightarrow> bool" where
  "fits32 p \<longleftrightarrow> length p + 16 < 2 ^ 32"

lemma not_less_word_of_int:
  "n \<le> k \<Longrightarrow> 0 \<le> k \<Longrightarrow> k < 2 ^ 32 \<Longrightarrow> int m = n \<Longrightarrow> \<not> (word_of_int k :: u32) < word_of_nat m"
proof -
  assume "n \<le> k" "0 \<le> k" "k < 2 ^ 32" "int m = n"
  then have "uint (word_of_int k :: u32) = k" "uint (word_of_nat m :: u32) = n"
    by (simp_all add: uint_word_of_int unsigned_of_nat take_bit_nat_eq_self)
  with \<open>n \<le> k\<close> show ?thesis by (simp add: word_less_def)
qed

lemma one_row_step:
  assumes "length (enc_value v @ s) < 2 ^ 32 - 1" and "s \<noteq> []"
  shows "one_row_loop (Suc n) (enc_value v @ s) acc = one_row_loop n s (acc @ [v])"
proof (cases v)
  case None
  then show ?thesis by (simp add: enc_value_def)
next
  case (Some d)
  have d: "length d < 2 ^ 32 - 1" using assms Some by (simp add: enc_value_def)
  have "int (length (d @ s)) < 2 ^ 32" using assms Some by (simp add: enc_value_def)
  moreover have "int (length d) \<le> int (length (d @ s)) - 1" using assms(2) by (cases s) simp_all
  ultimately have "\<not> (word_of_int (int (length (d @ s)) - 1) :: u32) < word_of_nat (length d)"
    by (intro not_less_word_of_int [OF _ _ _ refl]) linarith+
  moreover have "unat (word_of_nat (length d) :: u32) = length d"
    using d by (simp add: unat_of_nat)
  ultimately show ?thesis
    using Some d net_field_length_store [OF d, of "d @ s"] word_of_nat_not_null [OF d]
    by (simp add: enc_value_def)
qed

lemma one_row_loop_enc:
  "length (enc_row r @ s) < 2 ^ 32 - 1 \<Longrightarrow> s \<noteq> [] \<Longrightarrow>
     one_row_loop (length r) (enc_row r @ s) acc = Some (Some (acc @ r))"
proof (induction r arbitrary: acc)
  case Nil
  then show ?case by simp
next
  case (Cons v r)
  then show ?case using one_row_step [of v "enc_row r @ s" "length r" acc] by simp
qed

lemma row_copy_step:
  assumes "int (length (enc_value v)) \<le> room + 1" and "room < 2 ^ 32 - 1"
  shows "row_copy_loop (Suc n) (enc_value v @ s) room acc =
    row_copy_loop n s (case v of None \<Rightarrow> room | Some d \<Rightarrow> room - int (length d) - 1) (acc @ [v])"
proof (cases v)
  case None
  then show ?thesis by (simp add: enc_value_def)
next
  case (Some d)
  have "0 < int (length (mysql_net_store_length (length d)))"
    by (cases "mysql_net_store_length (length d)") simp_all
  moreover have "int (length (mysql_net_store_length (length d))) + int (length d) \<le> room + 1"
    using assms Some by (simp add: enc_value_def)
  ultimately have d: "int (length d) \<le> room" by linarith
  with assms(2) have d': "length d < 2 ^ 32 - 1" by simp
  have "\<not> (word_of_int room :: u32) < word_of_nat (length d)"
    using d assms(2) by (intro not_less_word_of_int [OF _ _ _ refl]) simp_all
  moreover have "unat (word_of_nat (length d) :: u32) = length d"
    using d' by (simp add: unat_of_nat)
  ultimately show ?thesis
    using Some net_field_length_store [OF d', of "d @ s"] word_of_nat_not_null [OF d']
    by (simp add: enc_value_def)
qed

lemma row_copy_loop_enc:
  "int (length (enc_row r)) \<le> room + 1 \<Longrightarrow> room < 2 ^ 32 - 1 \<Longrightarrow>
     \<exists>room'. room - int (length (enc_row r)) \<le> room' \<and> room' \<le> room \<and>
       row_copy_loop (length r + n) (enc_row r @ s) room acc = row_copy_loop n s room' (acc @ r)"
proof (induction r arbitrary: acc room)
  case Nil
  then show ?case by auto
next
  case (Cons v r)
  let ?room = "case v of None \<Rightarrow> room | Some d \<Rightarrow> room - int (length d) - 1"
  have v: "0 < int (length (mysql_net_store_length k))" for k
    by (cases "mysql_net_store_length k") simp_all
  have le: "room - int (length (enc_value v)) \<le> ?room" "?room \<le> room"
    using v [of "length (the v)"] by (auto simp: enc_value_def split: option.splits)
  have "row_copy_loop (Suc (length r + n)) (enc_value v @ (enc_row r @ s)) room acc =
      row_copy_loop (length r + n) (enc_row r @ s) ?room (acc @ [v])"
    by (rule row_copy_step) (use Cons.prems in simp_all)
  moreover obtain room' where "?room - int (length (enc_row r)) \<le> room'" "room' \<le> ?room"
    "row_copy_loop (length r + n) (enc_row r @ s) ?room (acc @ [v]) =
      row_copy_loop n s room' ((acc @ [v]) @ r)"
    using Cons.IH [of ?room "acc @ [v]"] Cons.prems le by auto
  ultimately show ?case using le by (intro exI [of _ room']) auto
qed

definition enc_result :: "MYSQL_FIELD list \<Rightarrow> row list \<Rightarrow> nat \<Rightarrow> byte list list" where
  "enc_result fs rows st =
     mysql_net_store_length (length fs) # map (\<lambda>f. enc_row (field_row f)) fs @ [enc_eof 0 st] @
     map enc_row rows @ [enc_eof 0 st]"

text \<open>What a result must obey to be one: column names without nulls, as many values in a row as
  there are columns, packets smaller than 4 GB.\<close>

definition result_ok :: "MYSQL_FIELD list \<Rightarrow> row list \<Rightarrow> bool" where
  "result_ok fs rows \<longleftrightarrow> fs \<noteq> [] \<and> length fs < 2 ^ 32 - 1 \<and>
     list_all (\<lambda>f. 0 \<notin> set (f_name f) \<and> fits32 (enc_row (field_row f))) fs \<and>
     list_all (\<lambda>r. length r = length fs \<and> fits32 (enc_row r)) rows"

lemma hd_enc_value: "hd (enc_value v @ s) \<noteq> 255 \<and> (hd (enc_value v @ s) = 254 \<longrightarrow> 8 < length (enc_value v))"
proof (cases v)
  case None
  then show ?thesis by (simp add: enc_value_def)
next
  case (Some d)
  have "(word_of_nat n :: byte) \<noteq> 255 \<and> (word_of_nat n :: byte) \<noteq> 254" if "n < 251" for n
  proof -
    have "unat (word_of_nat n :: byte) = n" using that by (simp add: unat_of_nat)
    then show ?thesis using that by auto
  qed
  then show ?thesis using Some by (auto simp: enc_value_def mysql_net_store_length_def)
qed

lemma ma_net_safe_read_packet:
  "connected m \<Longrightarrow> incoming m = p # ps \<Longrightarrow> p \<noteq> [] \<Longrightarrow> hd p \<noteq> 255 \<Longrightarrow>
     ma_net_safe_read m = (Some p, m\<lparr>incoming := ps\<rparr>)"
  by (cases p) (simp_all add: ma_net_safe_read_def)

lemma hd_enc_row:
  "r \<noteq> [] \<Longrightarrow> enc_row r \<noteq> [] \<and> hd (enc_row r) \<noteq> 255 \<and> (hd (enc_row r) = 254 \<longrightarrow> 8 < length (enc_row r))"
  using hd_enc_value [of "hd r" "enc_row (tl r)"]
  by (cases r) (auto simp: enc_value_not_Nil)

lemma safe_read_row:
  "connected m \<Longrightarrow> incoming m = enc_row r # ps \<Longrightarrow> r \<noteq> [] \<Longrightarrow>
     ma_net_safe_read m = (Some (enc_row r), m\<lparr>incoming := ps\<rparr>)"
  using hd_enc_row [of r] by (intro ma_net_safe_read_packet) auto

lemma enc_eof_simps [simp]:
  "enc_eof w st \<noteq> []" "hd (enc_eof w st) = 254" "length (enc_eof w st) = 5" "is_eof (enc_eof w st)"
  by (simp_all add: enc_eof_def is_eof_def)

lemma read_eof_enc: "st < 65536 \<Longrightarrow> read_eof (enc_eof 0 st) m = Some (m\<lparr>warning_count := 0, server_status := st\<rparr>)"
proof -
  assume "st < 65536"
  then have "take 2 (drop 1 (enc_eof 0 st @ [0])) = le_store 2 0" "take 2 (drop 3 (enc_eof 0 st @ [0])) = le_store 2 st"
    by (simp_all add: enc_eof_def drop_Cons')
  with \<open>st < 65536\<close> show ?thesis by (simp add: read_eof_def le_load_store)
qed

lemma safe_read_eof:
  "connected m \<Longrightarrow> incoming m = enc_eof w st # ps \<Longrightarrow>
     ma_net_safe_read m = (Some (enc_eof w st), m\<lparr>incoming := ps\<rparr>)"
  by (intro ma_net_safe_read_packet) auto

lemma field_row_length [simp]: "length (field_row f) = 7" "field_row f \<noteq> []"
  by (simp_all add: field_row_def)

text \<open>A field packet read as eight values: the eighth is the null after the packet.\<close>

lemma row_copy_field:
  assumes "fits32 (enc_row (field_row f))"
  shows "row_copy_loop 8 (enc_row (field_row f) @ [0]) (8 + int (length (enc_row (field_row f))) - 1) [] =
    Some (Some (field_row f @ [Some []]))"
proof -
  let ?p = "enc_row (field_row f)"
  obtain room' where room': "7 \<le> room'" "room' \<le> 8 + int (length ?p) - 1"
    "row_copy_loop (length (field_row f) + 1) (?p @ [0]) (8 + int (length ?p) - 1) [] =
      row_copy_loop 1 [0] room' ([] @ field_row f)"
    using row_copy_loop_enc [of "field_row f" "8 + int (length ?p) - 1" 1 "[0]" "[]"] assms
    by (auto simp: fits32_def)
  have "0 \<noteq> NULL_LENGTH" by (simp add: NULL_LENGTH_def)
  moreover have "\<not> (word_of_int room' :: u32) < 0" by simp
  ultimately have "row_copy_loop 1 [0] room' (field_row f) = Some (Some (field_row f @ [Some []]))"
    by simp
  with room' show ?thesis by simp
qed

lemma read_rows_loop_fields:
  assumes "list_all (\<lambda>f. fits32 (enc_row (field_row f))) fs" and "connected m" and "st < 65536"
    and "p # incoming m = map (\<lambda>f. enc_row (field_row f)) fs @ enc_eof 0 st # rest"
  shows "read_rows_loop 8 p acc m =
    Some (Some (acc @ map (\<lambda>f. field_row f @ [Some []]) fs),
      m\<lparr>incoming := rest, warning_count := 0, server_status := st\<rparr>)"
  using assms
proof (induction fs arbitrary: p acc m)
  case Nil
  then show ?case by (simp add: read_rows_loop.simps read_eof_enc)
next
  case (Cons f fs)
  let ?p = "enc_row (field_row f)"
  have p: "p = ?p" and inc: "incoming m = map (\<lambda>f. enc_row (field_row f)) fs @ enc_eof 0 st # rest"
    using Cons.prems(4) by auto
  then obtain q qs where q: "incoming m = q # qs" by (metis Nil_is_append_conv list.distinct(1) neq_Nil_conv)
  have "q \<noteq> [] \<and> hd q \<noteq> 255"
    using inc q hd_enc_row [of "field_row (hd fs)"] by (cases fs) auto
  then have rd: "ma_net_safe_read m = (Some q, m\<lparr>incoming := qs\<rparr>)"
    using Cons.prems(2) q by (intro ma_net_safe_read_packet) auto
  have "read_rows_loop 8 p acc m = read_rows_loop 8 q (acc @ [field_row f @ [Some []]]) (m\<lparr>incoming := qs\<rparr>)"
  proof -
    have "\<not> (p \<noteq> [] \<and> hd p = 254 \<and> length p < 8)"
      using hd_enc_row [of "field_row f"] by (auto simp: p)
    note no_eof = if_not_P [OF this]
    show ?thesis
      unfolding read_rows_loop.simps [of 8 p acc m] no_eof
      using row_copy_field [of f] Cons.prems(1) rd by (simp add: p)
  qed
  also have "\<dots> = Some (Some ((acc @ [field_row f @ [Some []]]) @ map (\<lambda>f. field_row f @ [Some []]) fs),
      (m\<lparr>incoming := qs\<rparr>)\<lparr>incoming := rest, warning_count := 0, server_status := st\<rparr>)"
    by (rule Cons.IH) (use Cons.prems inc q in simp_all)
  finally show ?case by simp
qed

lemma unpack_field_name:
  assumes "0 \<notin> set (f_name f)"
  shows "\<exists>g. unpack_field (field_row f @ [Some []]) = Some g \<and> f_name g = f_name f"
proof -
  have "cstr (f_name f) = f_name f"
    using assms by (auto simp: cstr_def takeWhile_eq_all_conv)
  then show ?thesis by (simp add: unpack_field_def field_row_def Let_def)
qed

lemma unpack_rows_names:
  "list_all (\<lambda>f. 0 \<notin> set (f_name f)) fs \<Longrightarrow>
     \<exists>gs. unpack_rows (map (\<lambda>f. field_row f @ [Some []]) fs) = Some gs \<and> map f_name gs = map f_name fs"
proof (induction fs)
  case Nil
  then show ?case by simp
next
  case (Cons f fs)
  then obtain gs where "unpack_rows (map (\<lambda>f. field_row f @ [Some []]) fs) = Some gs"
    "map f_name gs = map f_name fs" by auto
  moreover obtain g where "unpack_field (field_row f @ [Some []]) = Some g" "f_name g = f_name f"
    using unpack_field_name [of f] Cons.prems by auto
  ultimately show ?case by simp
qed

section \<open>A query that returns rows\<close>

definition conn_ready :: "'db MYSQL \<Rightarrow> bool" where
  "conn_ready m \<longleftrightarrow> connected m \<and> status m = MYSQL_STATUS_READY \<and> \<not> bit (server_status m) 3 \<and>
     incoming m = [] \<and> writes m = []"

lemma mysql_query_result:
  assumes "conn_ready m" and "result_ok fs rows" and "st < 65536"
    and "srv (COM_QUERY # cstr q) (server m) = (enc_result fs rows st, db)"
  shows "\<exists>m' gs. mysql_query srv q m = Some (False, m') \<and> mfields m' = Some gs \<and>
    map f_name gs = map f_name fs \<and> field_count m' = length fs \<and>
    status m' = MYSQL_STATUS_GET_RESULT \<and> connected m' \<and> server m' = db \<and>
    server_status m' = st \<and> incoming m' = map enc_row rows @ [enc_eof 0 st] \<and> writes m' = []"
proof -
  let ?n = "mysql_net_store_length (length fs)"
  have n: "0 < length fs" "length fs < 2 ^ 32 - 1" using assms(2) by (auto simp: result_ok_def)
  have hd: "hd ?n \<noteq> 255" using hd_enc_value [of "Some (replicate (length fs) 0)" "[]"]
    by (simp add: enc_value_def)
  let ?m1 = "(free_old_query m)\<lparr>my_errno := 0, affected_rows := - 1, server := db,
      incoming := enc_result fs rows st\<rparr>"
  have send: "mthd_my_send_cmd srv COM_QUERY (cstr q) (free_old_query m) = (False, ?m1)"
    using assms(1,4) by (simp add: mthd_my_send_cmd_def transmit_def conn_ready_def free_old_query_def)
  let ?rest = "map (\<lambda>f. enc_row (field_row f)) fs @ [enc_eof 0 st] @ map enc_row rows @ [enc_eof 0 st]"
  have rd: "ma_net_safe_read ?m1 = (Some ?n, ?m1\<lparr>incoming := ?rest\<rparr>)"
    using assms(1) hd
    by (intro ma_net_safe_read_packet) (simp_all add: enc_result_def conn_ready_def free_old_query_def)
  have fl: "net_field_length (?n @ [0]) = Some (word_of_nat (length fs), [0])"
    using n(2) by (rule net_field_length_store)
  have un: "unat (word_of_nat (length fs) :: u32) = length fs" using n(2) by (simp add: unat_of_nat)
  have n0: "word_of_nat (length fs) \<noteq> (0 :: u32)"
  proof
    assume "word_of_nat (length fs) = (0 :: u32)"
    then have "unat (word_of_nat (length fs) :: u32) = 0" by simp
    with un n(1) show False by simp
  qed
  define m3 where "m3 = mark_in_trans (free_old_query (?m1\<lparr>incoming := ?rest\<rparr>))"
  obtain f fs' where fs: "fs = f # fs'" using n(1) by (cases fs) auto
  have con3: "connected m3" and inc3: "incoming m3 = ?rest" and srv3: "server m3 = db" "writes m3 = []"
    using assms(1) by (simp_all add: conn_ready_def free_old_query_def m3_def mark_in_trans_def)
  define m4 where "m4 = m3\<lparr>incoming := tl ?rest\<rparr>"
  have rd3: "ma_net_safe_read m3 = (Some (enc_row (field_row f)), m4)"
    unfolding m4_def using con3 inc3 fs by (intro safe_read_row) simp_all
  let ?fr = "map (\<lambda>f. field_row f @ [Some []]) fs"
  define m5 where
    "m5 = m4\<lparr>incoming := map enc_row rows @ [enc_eof 0 st], warning_count := 0, server_status := st\<rparr>"
  have "read_rows_loop 8 (enc_row (field_row f)) [] m4 = Some (Some ([] @ ?fr), m5)"
    unfolding m5_def
  proof (rule read_rows_loop_fields)
    show "list_all (\<lambda>f. fits32 (enc_row (field_row f))) fs"
      using assms(2) by (auto simp: result_ok_def list_all_iff)
    show "connected m4" using con3 by (simp add: m4_def)
  qed (use assms(3) fs m4_def in simp_all)
  then have rr: "mthd_my_read_rows 8 m3 = Some (Some ?fr, m5)"
    using rd3 by (simp add: mthd_my_read_rows_def)
  obtain gs where gs: "unpack_rows ?fr = Some gs" "map f_name gs = map f_name fs"
    using unpack_rows_names [of fs] assms(2) by (auto simp: result_ok_def list_all_iff)
  have "mthd_my_read_query_result ?m1 = Some (False, m5\<lparr>mfields := Some gs,
      status := MYSQL_STATUS_GET_RESULT, field_count := length fs\<rparr>)"
    unfolding mthd_my_read_query_result_def rd prod.case option.case Let_def fl m3_def [symmetric]
    using n0 word_of_nat_not_null [OF n(2)] rr gs(1) un
    by (simp add: unpack_fields_def)
  then have "mysql_query srv q m = Some (False, m5\<lparr>mfields := Some gs,
      status := MYSQL_STATUS_GET_RESULT, field_count := length fs\<rparr>)"
    unfolding mysql_query_def send by simp
  then show ?thesis using gs(2) con3 srv3 by (simp add: m5_def m4_def)
qed

lemma mysql_fetch_row_enc:
  assumes "connected m" and "status m = MYSQL_STATUS_USE_RESULT" and "\<not> eof r"
    and "incoming m = enc_row row # rest" and "length row = r_field_count r" and "row \<noteq> []"
    and "fits32 (enc_row row)"
  shows "mysql_fetch_row r m = Some (Some row, r\<lparr>row_count := row_count r + 1\<rparr>, m\<lparr>incoming := rest\<rparr>)"
proof -
  have "one_row_loop (r_field_count r) (enc_row row @ [0]) [] = Some (Some row)"
    using one_row_loop_enc [of row "[0]" "[]"] assms(5,7) by (simp add: fits32_def)
  moreover have "\<not> is_eof (enc_row row)" using hd_enc_row [OF assms(6)] by (auto simp: is_eof_def)
  moreover have "r_field_count r \<noteq> 0" using assms(5,6) by (metis length_0_conv)
  ultimately show ?thesis using safe_read_row [OF assms(1,4,6)] assms(2,3)
    by (simp add: mysql_fetch_row_def mthd_my_read_one_row_def)
qed

lemma mysql_fetch_row_eof:
  assumes "connected m" and "status m = MYSQL_STATUS_USE_RESULT" and "\<not> eof r"
    and "incoming m = enc_eof 0 st # rest" and "st < 65536"
  shows "mysql_fetch_row r m = Some (None, r\<lparr>eof := True, has_handle := False\<rparr>,
    m\<lparr>incoming := rest, warning_count := 0, server_status := st, status := MYSQL_STATUS_READY\<rparr>)"
  using safe_read_eof [OF assms(1,4)] assms(2,3,5)
  by (simp add: mysql_fetch_row_def mthd_my_read_one_row_def read_eof_enc)

lemma mysql_fetch_row_shrinks:
  "mysql_fetch_row r m = Some (Some row, r', m') \<Longrightarrow> length (incoming m') < length (incoming m)"
  by (auto simp: mysql_fetch_row_def mthd_my_read_one_row_def dest!: ma_net_safe_read_shrinks
      split: if_splits option.splits fetch.splits prod.splits)

end
