(* ===== verification/Gui_Toast.thy ===== *)
theory Gui_Toast
  imports Prelude
begin

text \<open>
  \<open>guiHandler/toast.hpp\<close> and \<open>guiHandler/toastHandler.hpp\<close>: the notifications at the top
  of the window. A toast is shown for a time that depends on its length class; the handler
  shows one at a time and keeps the others in a queue. Times are milliseconds of \<open>GetTime()\<close>;
  the text layout and the slide-in animation only draw and are left out.
\<close>

section \<open>The code\<close>

datatype TOASTLENGTHS = LENGTH_NULL | LENGTH_SHORT | LENGTH_NORMAL | LENGTH_LONG

record Toast =
  message :: string
  length_class :: TOASTLENGTHS
  setTime :: int

text \<open>The constructor leaves \<open>setTime\<close> unset; the one static toast starts zeroed.\<close>

definition mk_Toast :: "string \<Rightarrow> TOASTLENGTHS \<Rightarrow> Toast" where
  "mk_Toast m l = \<lparr>message = m, length_class = l, setTime = 0\<rparr>"

fun toast_delay :: "TOASTLENGTHS \<Rightarrow> int" where
  "toast_delay LENGTH_NULL = - 1000"
| "toast_delay LENGTH_SHORT = 1000"
| "toast_delay LENGTH_NORMAL = 2000"
| "toast_delay LENGTH_LONG = 4000"

definition toast_init :: "int \<Rightarrow> Toast \<Rightarrow> Toast" where
  "toast_init now t = t\<lparr>setTime := now + toast_delay (length_class t)\<rparr>"

definition toast_isDone :: "int \<Rightarrow> Toast \<Rightarrow> bool" where
  "toast_isDone now t \<longleftrightarrow> now \<ge> setTime t"

text \<open>The handler's static members, and what was drawn, as a log for the properties.\<close>

record toastHandler =
  toastQueue :: "Toast list"
  currentToast :: Toast
  drawn :: "Toast list"

definition toast_start :: toastHandler where
  "toast_start = \<lparr>toastQueue = [], currentToast = mk_Toast [] LENGTH_NULL, drawn = []\<rparr>"

definition toast_add :: "Toast \<Rightarrow> toastHandler \<Rightarrow> toastHandler" where
  "toast_add t h = h\<lparr>toastQueue := toastQueue h @ [t]\<rparr>"

definition toast_draw :: "toastHandler \<Rightarrow> toastHandler" where
  "toast_draw h = h\<lparr>drawn := drawn h @ [currentToast h]\<rparr>"

definition toast_update :: "int \<Rightarrow> toastHandler \<Rightarrow> toastHandler" where
  "toast_update now h =
     (if length (toastQueue h) = 0 \<and> toast_isDone now (currentToast h) then h
      else if toast_isDone now (currentToast h)
      then toast_draw (h\<lparr>currentToast := toast_init now (hd (toastQueue h)),
                         toastQueue := tl (toastQueue h)\<rparr>)
      else toast_draw h)"

section \<open>Frames\<close>

text \<open>A run of the program as the handler sees it: toasts added, and frames drawn.\<close>

datatype toast_event = AddToast Toast | Frame int

fun toast_step :: "toastHandler \<Rightarrow> toast_event \<Rightarrow> toastHandler" where
  "toast_step h (AddToast t) = toast_add t h"
| "toast_step h (Frame now) = toast_update now h"

definition toast_run :: "toastHandler \<Rightarrow> toast_event list \<Rightarrow> toastHandler" where
  "toast_run h es = foldl toast_step h es"


fun frame_times :: "toast_event list \<Rightarrow> int list" where
  "frame_times [] = []"
| "frame_times (AddToast t # es) = frame_times es"
| "frame_times (Frame now # es) = now # frame_times es"




section \<open>Properties\<close>

lemma toast_run_Cons [simp]: "toast_run h (e # es) = toast_run (toast_step h e) es"
  by (simp add: toast_run_def)

lemma toast_run_Nil [simp]: "toast_run h [] = h"
  by (simp add: toast_run_def)


lemma toast_update_current:
  "currentToast (toast_update now h) =
     (if toastQueue h \<noteq> [] \<and> toast_isDone now (currentToast h)
      then toast_init now (hd (toastQueue h)) else currentToast h)"
  by (simp add: toast_update_def toast_draw_def)





text \<open>A toast stays for its whole time: once a frame at time \<open>t0\<close> has put a toast on the
  screen, every later frame before \<open>t0\<close> plus its delay still shows it, whatever is added
  meanwhile.\<close>

theorem toast_not_preempted:
  assumes "toast_isDone t0 (currentToast h)" and "toastQueue h \<noteq> []"
    and "\<forall>t\<in>set (frame_times es). t < t0 + toast_delay (length_class (hd (toastQueue h)))"
  shows "currentToast (toast_run (toast_update t0 h) es) = toast_init t0 (hd (toastQueue h))"
proof -
  have stay: "currentToast (toast_run g es) = currentToast g"
    if "\<forall>t\<in>set (frame_times es). \<not> toast_isDone t (currentToast g)" for g
    using that
  proof (induction es arbitrary: g)
    case Nil
    then show ?case by simp
  next
    case (Cons e es)
    then show ?case
      by (cases e) (auto simp: toast_update_current toast_add_def)
  qed
  have "currentToast (toast_update t0 h) = toast_init t0 (hd (toastQueue h))"
    using assms by (simp add: toast_update_current)
  moreover from this have "\<forall>t\<in>set (frame_times es). \<not> toast_isDone t (currentToast (toast_update t0 h))"
    using assms(3) by (auto simp: toast_isDone_def toast_init_def)
  ultimately show ?thesis using stay by metis
qed

theorem toast_not_preempted_witness:
  "currentToast (toast_run (toast_update 5 (toast_add (mk_Toast ''a'' LENGTH_SHORT) toast_start))
     [AddToast (mk_Toast ''b'' LENGTH_LONG), Frame 1004])
   = \<lparr>message = ''a'', length_class = LENGTH_SHORT, setTime = 1005\<rparr>"
  using toast_not_preempted
    [of 5 "toast_add (mk_Toast ''a'' LENGTH_SHORT) toast_start"
        "[AddToast (mk_Toast ''b'' LENGTH_LONG), Frame 1004]"]
  by (simp add: toast_add_def toast_start_def mk_Toast_def toast_isDone_def toast_init_def)

section \<open>Time goes on\<close>















end
