(* ===== verification/Json_Parser.thy ===== *)
theory Json_Parser
  imports Gui_Toast "HOL-Library.Char_ord" "HOL-Library.List_Lexorder"
begin

text \<open>
  \<open>jsonParser.hpp\<close>, and the parts of \<open>include/json.hpp\<close> it uses on a parsed value:
  \<open>operator[]\<close> with a string, iteration, and the conversions to \<open>std::string\<close> and \<open>int\<close>.
  \<open>json::parse\<close> itself is a parameter: \<open>None\<close> is the exception it throws.
\<close>

section \<open>JSON values\<close>

text \<open>An object is its entries in key order (\<open>std::map\<close>). A floating-point number enters
  with its value truncated towards zero, the only use the program makes of one.\<close>

datatype json =
    JNull
  | JBool bool
  | JInt int
  | JFloat int
  | JStr string
  | JArr "json list"
  | JObj "(string \<times> json) list"

datatype json_error = TypeError nat

definition is_null :: "json \<Rightarrow> bool" where
  "is_null j \<longleftrightarrow> j = JNull"

text \<open>\<open>std::map::emplace\<close>: nothing changes if the key is there.\<close>

fun insert_entry :: "string \<Rightarrow> json \<Rightarrow> (string \<times> json) list \<Rightarrow> (string \<times> json) list" where
  "insert_entry k v [] = [(k, v)]"
| "insert_entry k v ((k', v') # kvs) =
     (if k < k' then (k, v) # (k', v') # kvs else (k', v') # insert_entry k v kvs)"

definition emplace :: "string \<Rightarrow> json \<Rightarrow> (string \<times> json) list \<Rightarrow> (string \<times> json) list" where
  "emplace k v kvs = (if map_of kvs k \<noteq> None then kvs else insert_entry k v kvs)"

text \<open>\<open>operator[](key)\<close> on a mutable value: null becomes an object, a missing key is added
  with null, anything else throws. The result is the entry and the changed value.\<close>

definition json_index :: "string \<Rightarrow> json \<Rightarrow> json_error + (json \<times> json)" where
  "json_index key j =
     (let j1 = (if is_null j then JObj [] else j) in
      case j1 of
        JObj kvs \<Rightarrow>
          (let kvs1 = emplace key JNull kvs in Inr (the (map_of kvs1 key), JObj kvs1))
      | _ \<Rightarrow> Inl (TypeError 305))"

text \<open>What the loop from \<open>begin()\<close> to \<open>end()\<close> visits: nothing for null, the value itself
  for a primitive.\<close>

fun json_elements :: "json \<Rightarrow> json list" where
  "json_elements JNull = []"
| "json_elements (JArr js) = js"
| "json_elements (JObj kvs) = map snd kvs"
| "json_elements j = [j]"

fun json_to_string :: "json \<Rightarrow> json_error + string" where
  "json_to_string (JStr s) = Inr s"
| "json_to_string _ = Inl (TypeError 302)"

text \<open>\<open>static_cast<int>\<close> keeps the low 32 bits.\<close>

definition cast_int :: "int \<Rightarrow> int" where
  "cast_int n = sint (word_of_int n :: i32)"

fun json_to_int :: "json \<Rightarrow> json_error + int" where
  "json_to_int (JInt n) = Inr (cast_int n)"
| "json_to_int (JFloat n) = Inr (cast_int n)"
| "json_to_int (JBool b) = Inr (if b then 1 else 0)"
| "json_to_int _ = Inl (TypeError 302)"

section \<open>The structures filled\<close>

record MATCH_DATAPOINT =
  ScouterID :: string
  MatchID :: string
  TeamID :: string
  DatapointID :: string
  DatapointValue :: string
  DatapointTimestamp :: string
  AllianceID :: string
  CompID :: string

record TEAM_DATAPOINT =
  teamNum :: int
  teamName :: string
  teamDesc :: string

record MATCHLIST_DATAPOINT =
  tbaMatchID :: string
  compLevel :: string
  matchNumber :: int

section \<open>The parser\<close>

text \<open>Exceptions thread through \<open>then_do\<close>: the first one skips the rest of the block.\<close>

definition then_do :: "'e + 'a \<Rightarrow> ('a \<Rightarrow> 'e + 'b) \<Rightarrow> 'e + 'b" where
  "then_do r f = (case r of Inl e \<Rightarrow> Inl e | Inr a \<Rightarrow> f a)"

record JsonParser =
  data :: json
  toasts :: "Toast list"
  logFile :: string

definition mk_JsonParser :: "(string \<Rightarrow> json option) \<Rightarrow> string \<Rightarrow> JsonParser" where
  "mk_JsonParser parse datan =
     (case parse datan of
        Some j \<Rightarrow> \<lparr>data = j, toasts = [mk_Toast ''JSON parsed'' LENGTH_NORMAL], logFile = datan\<rparr>
      | None \<Rightarrow> \<lparr>data = JNull, toasts = [mk_Toast ''Failed to parse JSON'' LENGTH_NORMAL],
                 logFile = datan\<rparr>)"

text \<open>\<open>element[key]\<close> converted to a string; the element is the loop's own copy.\<close>

definition field_string :: "string \<Rightarrow> json \<Rightarrow> json_error + (string \<times> json)" where
  "field_string key e =
     then_do (json_index key e) (\<lambda>(v, e1). then_do (json_to_string v) (\<lambda>s. Inr (s, e1)))"

definition match_of_element :: "json \<Rightarrow> json_error + MATCH_DATAPOINT" where
  "match_of_element e =
     then_do (field_string ''CompID'' e) (\<lambda>(comp, e).
     then_do (field_string ''MatchID'' e) (\<lambda>(match, e).
     then_do (field_string ''DatapointID'' e) (\<lambda>(dp, e).
     then_do (field_string ''ScouterID'' e) (\<lambda>(scouter, e).
     then_do (field_string ''TeamID'' e) (\<lambda>(team, e).
     then_do (field_string ''AllianceID'' e) (\<lambda>(alliance, e).
     then_do (field_string ''DatapointValue'' e) (\<lambda>(val, e).
     then_do (field_string ''DatapointTimestamp'' e) (\<lambda>(time, e).
       Inr \<lparr>ScouterID = scouter, MatchID = match, TeamID = team, DatapointID = dp,
            DatapointValue = val, DatapointTimestamp = time, AllianceID = alliance,
            CompID = comp\<rparr>))))))))"

text \<open>The loop inside \<open>try\<close>: what was pushed before the exception stays.\<close>

fun push_until_throw :: "(json \<Rightarrow> json_error + 'a) \<Rightarrow> json list \<Rightarrow> 'a list \<Rightarrow> 'a list \<times> bool" where
  "push_until_throw f [] acc = (acc, False)"
| "push_until_throw f (e # es) acc =
     (case f e of Inl _ \<Rightarrow> (acc, True) | Inr a \<Rightarrow> push_until_throw f es (acc @ [a]))"

definition parseMatch :: "JsonParser \<Rightarrow> MATCH_DATAPOINT list \<times> JsonParser" where
  "parseMatch p =
     (case json_index ''scoutingData'' (data p) of
        Inl _ \<Rightarrow> ([], p)
      | Inr (sd, data') \<Rightarrow>
          (fst (push_until_throw match_of_element (json_elements sd) []), p\<lparr>data := data'\<rparr>))"

text \<open>\<open>(!element[key].is_null()) ? x = element[key] : x = dflt\<close>.\<close>

definition field_or :: "(json \<Rightarrow> json_error + 'a) \<Rightarrow> string \<Rightarrow> 'a \<Rightarrow> json \<Rightarrow> json_error + ('a \<times> json)" where
  "field_or conv key dflt e =
     then_do (json_index key e) (\<lambda>(v, e1).
       if \<not> is_null v
       then then_do (json_index key e1) (\<lambda>(v2, e2). then_do (conv v2) (\<lambda>a. Inr (a, e2)))
       else Inr (dflt, e1))"

definition team_of_element :: "json \<Rightarrow> json_error + TEAM_DATAPOINT" where
  "team_of_element e =
     then_do (field_or json_to_string ''nickname'' ''NULL'' e) (\<lambda>(name, e).
     then_do (field_or json_to_int ''team_number'' 0 e) (\<lambda>(num, e).
     then_do (field_or json_to_string ''website'' ''NULL'' e) (\<lambda>(desc, e).
       Inr \<lparr>teamNum = num, teamName = name, teamDesc = desc\<rparr>)))"

definition parseTeams :: "JsonParser \<Rightarrow> TEAM_DATAPOINT list" where
  "parseTeams p = fst (push_until_throw team_of_element (json_elements (data p)) [])"

definition matchlist_of_element :: "json \<Rightarrow> json_error + MATCHLIST_DATAPOINT" where
  "matchlist_of_element e =
     then_do (field_or json_to_string ''key'' ''NULL'' e) (\<lambda>(key, e).
     then_do (field_or json_to_string ''comp_level'' ''NULL'' e) (\<lambda>(level, e).
     then_do (field_or json_to_int ''match_number'' (- 1) e) (\<lambda>(num, e).
       Inr \<lparr>tbaMatchID = key, compLevel = level, matchNumber = num\<rparr>)))"

definition parseMatchList :: "JsonParser \<Rightarrow> MATCHLIST_DATAPOINT list" where
  "parseMatchList p =
     (let (ms, threw) = push_until_throw matchlist_of_element (json_elements (data p)) []
      in if threw then [] else ms)"

section \<open>Lemmas\<close>

lemma map_of_emplace:
  "map_of (emplace k v kvs) k = Some (case map_of kvs k of None \<Rightarrow> v | Some w \<Rightarrow> w)"
proof -
  have "map_of kvs k = None \<Longrightarrow> map_of (insert_entry k v kvs) k = Some v" for kvs
    by (induction kvs) (auto split: if_splits)
  then show ?thesis by (auto simp: emplace_def split: option.splits)
qed

lemma json_index_JObj:
  "json_index key (JObj kvs) =
     Inr (case map_of kvs key of None \<Rightarrow> JNull | Some v \<Rightarrow> v, JObj (emplace key JNull kvs))"
  by (simp add: json_index_def is_null_def map_of_emplace Let_def)

text \<open>What is pushed is the longest run of elements that convert.\<close>

definition converts :: "('a \<Rightarrow> 'e + 'b) \<Rightarrow> 'a \<Rightarrow> bool" where
  "converts f e \<longleftrightarrow> (case f e of Inl _ \<Rightarrow> False | Inr _ \<Rightarrow> True)"

lemma push_until_throw_eq:
  "push_until_throw f es acc =
     (acc @ map (\<lambda>e. projr (f e)) (takeWhile (converts f) es), \<not> list_all (converts f) es)"
  by (induction es arbitrary: acc) (auto simp: converts_def split: sum.splits)

text \<open>\<open>json_field key e\<close>: the string an element holds under a key, if it does.\<close>

fun json_field :: "string \<Rightarrow> json \<Rightarrow> string option" where
  "json_field key (JObj kvs) = (case map_of kvs key of Some (JStr s) \<Rightarrow> Some s | _ \<Rightarrow> None)"
| "json_field key _ = None"

lemma field_string_Some:
  "json_field key e = Some s \<Longrightarrow> field_string key e = Inr (s, e)"
  by (cases e) (auto simp: field_string_def then_do_def json_index_JObj emplace_def
      split: option.splits json.splits)

lemma field_string_None:
  assumes "json_field key e = None"
  shows "\<exists>t. field_string key e = Inl t"
proof (cases e)
  case (JObj kvs)
  with assms show ?thesis
    by (auto simp: field_string_def then_do_def json_index_JObj
        split: option.splits json.splits sum.splits)
qed (auto simp: field_string_def then_do_def json_index_def is_null_def emplace_def)

definition match_keys :: "string list" where
  "match_keys = [''CompID'', ''MatchID'', ''DatapointID'', ''ScouterID'', ''TeamID'',
     ''AllianceID'', ''DatapointValue'', ''DatapointTimestamp'']"

definition complete_match :: "json \<Rightarrow> bool" where
  "complete_match e \<longleftrightarrow> list_all (\<lambda>k. json_field k e \<noteq> None) match_keys"

definition datapoint_of :: "json \<Rightarrow> MATCH_DATAPOINT" where
  "datapoint_of e =
     \<lparr>ScouterID = the (json_field ''ScouterID'' e), MatchID = the (json_field ''MatchID'' e),
      TeamID = the (json_field ''TeamID'' e), DatapointID = the (json_field ''DatapointID'' e),
      DatapointValue = the (json_field ''DatapointValue'' e),
      DatapointTimestamp = the (json_field ''DatapointTimestamp'' e),
      AllianceID = the (json_field ''AllianceID'' e), CompID = the (json_field ''CompID'' e)\<rparr>"

lemma match_of_element_complete:
  assumes "complete_match e"
  shows "match_of_element e = Inr (datapoint_of e)"
  using assms
  by (auto simp: complete_match_def match_keys_def match_of_element_def datapoint_of_def
      field_string_Some then_do_def)

lemma match_of_element_incomplete:
  assumes "\<not> complete_match e"
  shows "\<exists>t. match_of_element e = Inl t"
proof -
  have step: "\<exists>t. then_do (field_string k e) f = Inl t"
    if "json_field k e \<noteq> None \<Longrightarrow> \<exists>t. f (the (json_field k e), e) = Inl t" for k and f :: "_ \<Rightarrow> json_error + MATCH_DATAPOINT"
    using that field_string_Some [of k e] field_string_None [of k e]
    by (cases "json_field k e") (auto simp: then_do_def)
  show ?thesis
    using assms unfolding match_of_element_def complete_match_def match_keys_def
    by (auto intro!: step)
qed

lemma converts_match: "converts match_of_element e \<longleftrightarrow> complete_match e"
  using match_of_element_complete [of e] match_of_element_incomplete [of e]
  by (cases "complete_match e") (auto simp: converts_def)

text \<open>The message of a tablet, as the program means it.\<close>

definition encode_datapoint :: "MATCH_DATAPOINT \<Rightarrow> json" where
  "encode_datapoint d =
     JObj [(''AllianceID'', JStr (AllianceID d)), (''CompID'', JStr (CompID d)),
       (''DatapointID'', JStr (DatapointID d)), (''DatapointTimestamp'', JStr (DatapointTimestamp d)),
       (''DatapointValue'', JStr (DatapointValue d)), (''MatchID'', JStr (MatchID d)),
       (''ScouterID'', JStr (ScouterID d)), (''TeamID'', JStr (TeamID d))]"

lemma encode_datapoint_complete [simp]:
  "complete_match (encode_datapoint d)" "datapoint_of (encode_datapoint d) = d"
  by (simp_all add: complete_match_def match_keys_def encode_datapoint_def datapoint_of_def)

lemma takeWhile_complete: "takeWhile complete_match (map encode_datapoint ds) = map encode_datapoint ds"
  by (induction ds) auto

text \<open>What \<open>parseMatch\<close> finds.\<close>

lemma parseMatch_data:
  "fst (parseMatch p) =
     (case data p of
        JObj kvs \<Rightarrow>
          (case map_of kvs ''scoutingData'' of
             Some sd \<Rightarrow> map datapoint_of (takeWhile complete_match (json_elements sd))
           | None \<Rightarrow> [])
      | _ \<Rightarrow> [])"
proof -
  have conv: "converts match_of_element = complete_match"
    by (simp add: fun_eq_iff converts_match)
  have els: "fst (push_until_throw match_of_element es [])
      = map datapoint_of (takeWhile complete_match es)" for es
    by (auto simp: push_until_throw_eq conv match_of_element_complete dest: set_takeWhileD)
  show ?thesis
  proof (cases "data p")
    case (JObj kvs)
    then show ?thesis
      by (simp add: parseMatch_def json_index_JObj els split: option.splits)
  qed (simp_all add: parseMatch_def json_index_def is_null_def emplace_def)
qed

section \<open>Properties\<close>

text \<open>C16. on any message, \<open>parseMatch\<close> returns the data points of the longest initial run of
  elements under \<open>scoutingData\<close> whose eight fields are all strings; nothing at all if the message
  is not an object or has no such key. In particular one bad element silently drops all after it.\<close>

theorem parseMatch_longest_prefix:
  "fst (parseMatch p) =
     (case data p of
        JObj kvs \<Rightarrow>
          (case map_of kvs ''scoutingData'' of
             Some sd \<Rightarrow> map datapoint_of (takeWhile complete_match (json_elements sd))
           | None \<Rightarrow> [])
      | _ \<Rightarrow> [])"
  by (rule parseMatch_data)

text \<open>Round trip. A message built from any list of data points parses back to exactly
  that list.\<close>

theorem parseMatch_roundtrip:
  "fst (parseMatch \<lparr>data = JObj [(''scoutingData'', JArr (map encode_datapoint ds))],
                   toasts = ts, logFile = lf\<rparr>) = ds"
  by (simp add: parseMatch_data takeWhile_complete comp_def)

end
