(* ===== verification/Db_Query.thy ===== *)
theory Db_Query
  imports Ma_Literal Ma_Result Json_Parser
begin

text \<open>
  \<open>database.hpp\<close> and \<open>DatabaseMan.hpp\<close>: the program's database class over the client library.
  Statements and values are byte lists; C strings end at their first null. \<open>cset\<close> is the
  connection's character set and \<open>srv\<close> the server. \<open>None\<close> is undefined behaviour.
\<close>

section \<open>Building a statement\<close>

text \<open>\<open>SERVER_STATUS_NO_BACKSLASH_ESCAPES\<close> is bit 9 of the server's status.\<close>

definition no_backslash_escapes :: "'db MYSQL \<Rightarrow> bool" where
  "no_backslash_escapes m \<longleftrightarrow> bit (server_status m) 9"

text \<open>The loop of \<open>Database::query\<close> over the statement: each \<open>?\<close> takes the next argument, a null
  argument adds nothing, an argument that was not passed is undefined behaviour.\<close>

fun build_query :: "MARIADB_CHARSET_INFO \<Rightarrow> bool \<Rightarrow> byte list \<Rightarrow> byte list option list \<Rightarrow>
    byte list option" where
  "build_query cset nbs [] args = Some []"
| "build_query cset nbs (c # st) args =
     (if c = 0x3F then
        case args of
          [] \<Rightarrow> None
        | None # as \<Rightarrow> build_query cset nbs st as
        | Some a # as \<Rightarrow>
            (case mysql_real_escape_string cset nbs a of
               None \<Rightarrow> None
             | Some (_, out) \<Rightarrow> map_option (\<lambda>q. cstr out @ q) (build_query cset nbs st as))
      else map_option (\<lambda>q. c # q) (build_query cset nbs st args))"

section \<open>Reading the rows\<close>

function collect_rows :: "(row \<Rightarrow> 'a option) \<Rightarrow> MYSQL_RES \<Rightarrow> 'db MYSQL \<Rightarrow> 'a list \<Rightarrow>
    ('a list \<times> MYSQL_RES \<times> 'db MYSQL) option" where
  "collect_rows f r m acc =
     (case mysql_fetch_row r m of
        None \<Rightarrow> None
      | Some (None, r', m') \<Rightarrow> Some (acc, r', m')
      | Some (Some row, r', m') \<Rightarrow>
          (case f row of None \<Rightarrow> None | Some x \<Rightarrow> collect_rows f r' m' (acc @ [x])))"
  by pat_completeness auto
termination
  by (relation "measure (\<lambda>(_, _, m, _). length (incoming m))") (auto dest: mysql_fetch_row_shrinks)

declare collect_rows.simps [simp del]

text \<open>A row has \<open>mysql_num_fields\<close> values; a null value becomes the text \<open>NULL\<close>.\<close>

definition query_row :: "row \<Rightarrow> byte list list" where
  "query_row row = map (\<lambda>v. case v of None \<Rightarrow> bytes_of ''NULL'' | Some d \<Rightarrow> cstr d) row"

definition Database_query ::
    "'db srv \<Rightarrow> MARIADB_CHARSET_INFO \<Rightarrow> byte list \<Rightarrow> byte list option list \<Rightarrow> 'db MYSQL \<Rightarrow>
     (byte list list list \<times> 'db MYSQL) option" where
  "Database_query srv cset queryStatement args m =
     (case build_query cset (no_backslash_escapes m) queryStatement args of
        None \<Rightarrow> None
      | Some fullQuery \<Rightarrow>
          case mysql_query srv fullQuery m of
            None \<Rightarrow> None
          | Some (True, m1) \<Rightarrow> Some ([], m1)
          | Some (False, m1) \<Rightarrow>
              case mysql_use_result m1 of
                (None, m2) \<Rightarrow> Some ([], mysql_free_result None m2)
              | (Some r, m2) \<Rightarrow>
                  case collect_rows (\<lambda>row. Some (query_row row)) r m2 [] of
                    None \<Rightarrow> None
                  | Some (resultVector, r', m3) \<Rightarrow> Some (resultVector, mysql_free_result (Some r') m3))"

text \<open>\<open>execQuery\<close> takes the number of columns to read from its caller. Reading more than there are
  is undefined behaviour; null values are left out, which moves the ones after them.\<close>

definition exec_row :: "nat \<Rightarrow> row \<Rightarrow> byte list list option" where
  "exec_row n row =
     (if n > length row then None
      else Some (map (\<lambda>v. cstr (the v)) (filter (\<lambda>v. v \<noteq> None) (take n row))))"

definition execQuery ::
    "'db srv \<Rightarrow> byte list \<Rightarrow> nat \<Rightarrow> 'db MYSQL \<Rightarrow> (byte list list list \<times> 'db MYSQL) option" where
  "execQuery srv statement n m =
     (case mysql_query srv (cstr statement) m of
        None \<Rightarrow> None
      | Some (True, m1) \<Rightarrow> Some ([], m1)
      | Some (False, m1) \<Rightarrow>
          let (resptr, m2) = mysql_use_result m1 in
          if n = 0 then Some ([], m2)
          else
            case resptr of
              None \<Rightarrow> Some ([], m2)
            | Some r \<Rightarrow>
                case collect_rows (exec_row n) r m2 [] of
                  None \<Rightarrow> None
                | Some (vector, r', m3) \<Rightarrow> Some (vector, mysql_free_result (Some r') m3))"

text \<open>\<open>getHeaders\<close>. Both buffers have the size that fits the table's name; an escaped list of
  columns longer than that is written past the end.\<close>

function fetch_names :: "MYSQL_RES \<Rightarrow> byte list list \<Rightarrow> byte list list option" where
  "fetch_names r acc =
     (case mysql_fetch_field r of
        None \<Rightarrow> None
      | Some (None, _) \<Rightarrow> Some acc
      | Some (Some f, r') \<Rightarrow> fetch_names r' (acc @ [f_name f]))"
  by pat_completeness auto
termination
  by (relation "measure (\<lambda>(r, _). r_field_count r - current_field r)")
    (auto simp: mysql_fetch_field_def split: if_splits)

declare fetch_names.simps [simp del]

definition getHeaders ::
    "'db srv \<Rightarrow> MARIADB_CHARSET_INFO \<Rightarrow> byte list \<Rightarrow> byte list option \<Rightarrow> 'db MYSQL \<Rightarrow>
     (byte list list \<times> 'db MYSQL) option" where
  "getHeaders srv cset tbl columns m =
     (let nbs = no_backslash_escapes m; tableNameLen = length tbl in
      case mysql_real_escape_string cset nbs tbl of
        None \<Rightarrow> None
      | Some (_, tableEscaped) \<Rightarrow>
          case (case columns of
                  None \<Rightarrow> Some (bytes_of ''* '')
                | Some c \<Rightarrow>
                    (case mysql_real_escape_string cset nbs c of
                       None \<Rightarrow> None
                     | Some (_, columnsEscaped) \<Rightarrow>
                         if length columnsEscaped > tableNameLen * 2 + 1 then None
                         else Some (cstr columnsEscaped @ bytes_of '' ''))) of
            None \<Rightarrow> None
          | Some cols \<Rightarrow>
              case mysql_query srv (bytes_of ''SELECT '' @ cols @ bytes_of ''FROM '' @ cstr tableEscaped @
                     bytes_of '' LIMIT 1'') m of
                None \<Rightarrow> None
              | Some (True, m1) \<Rightarrow> Some ([], m1)
              | Some (False, m1) \<Rightarrow>
                  case mysql_use_result m1 of
                    (None, _) \<Rightarrow> None
                  | (Some r, m2) \<Rightarrow>
                      map_option (\<lambda>names. (names, mysql_free_result (Some r) m2)) (fetch_names r []))"

section \<open>DatabaseMan\<close>

text \<open>One statement run once for each list of arguments; the results are dropped. \<open>c_str\<close> ends
  an argument at its first null.\<close>

fun run_queries ::
    "'db srv \<Rightarrow> MARIADB_CHARSET_INFO \<Rightarrow> byte list \<Rightarrow> string list list \<Rightarrow> 'db MYSQL \<Rightarrow> 'db MYSQL option" where
  "run_queries srv cset st [] m = Some m"
| "run_queries srv cset st (as # ass) m =
     (case Database_query srv cset st (map (\<lambda>a. Some (cstr (bytes_of a))) as) m of
        None \<Rightarrow> None
      | Some (_, m') \<Rightarrow> run_queries srv cset st ass m')"

definition insert_matchtransaction :: string where
  "insert_matchtransaction =
     ''insert into matchtransaction (UploadID, CompID, MatchID, DatapointID, ScouterID, TeamID, AllianceID, DatapointValue, DatapointTimestamp) values(?,'' @
     [CHR 0x27] @ ''?'' @ [CHR 0x27] @ '','' @ [CHR 0x27] @ ''?'' @ [CHR 0x27] @ '',?,?,?,?,'' @
     [CHR 0x27] @ ''?'' @ [CHR 0x27] @ '',?)''"

definition match_args :: "MATCH_DATAPOINT \<Rightarrow> string list" where
  "match_args i =
     [''0'', CompID i, MatchID i, DatapointID i, ScouterID i, TeamID i, AllianceID i,
      DatapointValue i, DatapointTimestamp i]"

definition addMatchDatapoints ::
    "'db srv \<Rightarrow> MARIADB_CHARSET_INFO \<Rightarrow> MATCH_DATAPOINT list \<Rightarrow> 'db MYSQL \<Rightarrow> 'db MYSQL option" where
  "addMatchDatapoints srv cset datapoints m =
     (if datapoints \<noteq> []
      then run_queries srv cset (bytes_of insert_matchtransaction) (map match_args datapoints) m
      else Some m)"

definition clearTeams :: "'db srv \<Rightarrow> 'db MYSQL \<Rightarrow> 'db MYSQL option" where
  "clearTeams srv m = map_option snd (execQuery srv (bytes_of ''delete from team'') 1 m)"

definition insert_team :: string where
  "insert_team =
     ''insert into team(TeamId, TeamNumber, TeamDesc) values(?, ?, '' @ [CHR 0x27] @ ''?'' @ [CHR 0x27] @ '')''"

definition team_args :: "TEAM_DATAPOINT \<Rightarrow> string list" where
  "team_args t = [dec_of_int (teamNum t), dec_of_int (teamNum t), teamName t]"

definition addTeams ::
    "'db srv \<Rightarrow> MARIADB_CHARSET_INFO \<Rightarrow> TEAM_DATAPOINT list \<Rightarrow> 'db MYSQL \<Rightarrow> 'db MYSQL option" where
  "addTeams srv cset teams m =
     (if teams \<noteq> [] then run_queries srv cset (bytes_of insert_team) (map team_args teams) m
      else Some m)"

section \<open>Statements\<close>

definition marks :: "byte list \<Rightarrow> nat" where
  "marks st = length (filter (\<lambda>c. c = 0x3F) st)"

lemma marks_simps [simp]: "marks [] = 0" "marks (c # st) = (if c = 0x3F then Suc (marks st) else marks st)"
  by (simp_all add: marks_def)

lemma build_query_append:
  "marks pre = length as1 \<Longrightarrow> build_query cset nbs pre as1 = Some p \<Longrightarrow>
     build_query cset nbs (pre @ post) (as1 @ as2) = map_option (\<lambda>r. p @ r) (build_query cset nbs post as2)"
proof (induction pre arbitrary: as1 p)
  case Nil
  then show ?case by (simp add: option.map_ident)
next
  case (Cons c pre)
  show ?case
  proof (cases "c = 0x3F")
    case False
    with Cons obtain p' where "build_query cset nbs pre as1 = Some p'" "p = c # p'"
      by auto
    with Cons.IH [of as1 p'] Cons.prems False show ?thesis
      by (simp add: option.map_comp comp_def)
  next
    case True
    with Cons.prems obtain a as where as: "as1 = a # as" "marks pre = length as"
      by (cases as1) auto
    show ?thesis
    proof (cases a)
      case None
      with True as Cons show ?thesis by simp
    next
      case (Some v)
      with True as Cons.prems obtain n out p' where "mysql_real_escape_string cset nbs v = Some (n, out)"
        "build_query cset nbs pre as = Some p'" "p = cstr out @ p'"
        by (auto split: option.splits)
      with Cons.IH [of as p'] True as Some show ?thesis
        by (simp add: option.map_comp comp_def)
    qed
  qed
qed

lemma esc_text_no_null: "0 \<notin> set s \<Longrightarrow> 0 \<notin> set (esc_text f nbs s)"
proof (induction f nbs s rule: esc_text.induct)
  case (1 f nbs)
  then show ?case by simp
next
  case (2 f nbs b s)
  have "0 \<notin> set (esc1 nbs b)" using "2.prems" by (auto simp: esc1_def)
  moreover have "0 \<notin> set (drop k (b # s))" "0 \<notin> set (take k (b # s))" for k
    using "2.prems" by (auto dest: in_set_takeD in_set_dropD)
  ultimately show ?case using 2 by (auto simp: esc_text.simps(2))
qed

lemma cstr_null: "0 \<notin> set s \<Longrightarrow> cstr (s @ [0]) = s"
  by (induction s) (auto simp: cstr_def)

text \<open>What one argument contributes, in the sets of \<open>escape_text\<close>.\<close>

lemma build_query_arg:
  assumes "c \<in> set mariadb_compiled_charsets"
    and "char_maxlen c = 1 \<or> csname c = UTF8_MB3 \<or> csname c = UTF8_MB4"
    and "marks pre = length as1" and "build_query c nbs pre as1 = Some p"
    and "build_query c nbs post as2 = Some r" and "0 \<notin> set v"
  shows "build_query c nbs (pre @ [0x3F] @ post) (as1 @ Some v # as2) =
    Some (p @ esc_text (measure_of c) nbs v @ r)"
proof -
  obtain n where "mysql_real_escape_string c nbs v = Some (n, esc_text (measure_of c) nbs v @ [0])"
    using escape_text [OF assms(1,2)] by blast
  then have "build_query c nbs ([0x3F] @ post) (Some v # as2) = Some (esc_text (measure_of c) nbs v @ r)"
    using assms(5,6) by (simp add: cstr_null esc_text_no_null)
  with build_query_append [OF assms(3,4), of "[0x3F] @ post" "Some v # as2"] show ?thesis by simp
qed

lemma build_query_hd:
  "build_query c nbs post as = Some r \<Longrightarrow> post \<noteq> [] \<Longrightarrow> hd post \<noteq> 0x3F \<Longrightarrow> r \<noteq> [] \<and> hd r = hd post"
  by (cases post) auto

text \<open>A byte that no set and no mode changes.\<close>

definition plain_byte :: "byte \<Rightarrow> bool" where
  "plain_byte b \<longleftrightarrow> b < 0x80 \<and> slash_esc b = 0"

lemma esc_text_plain:
  assumes "\<And>b s. b < 0x80 \<Longrightarrow> f (b # s) = 0"
  shows "list_all plain_byte s \<Longrightarrow> esc_text f nbs s = s"
  by (induction s) (auto simp: esc_text.simps(2) assms plain_byte_def esc1_def dest: slash_esc_0)

section \<open>Properties of statements\<close>

text \<open>
  C8. A value passed for a placeholder between single quotes stays one value: in the statement
  that \<open>Database::query\<close> sends, the literal that opens before the placeholder reads as exactly
  that value and ends at the statement's own quote, whatever the value, and also if it contains
  quotes, backslashes or question marks (those are not placeholders again). This holds for the
  single-byte character sets and UTF-8, wherever the placeholder stands among others.
\<close>

theorem quoted_placeholder_holds_value:
  assumes "c \<in> set mariadb_compiled_charsets"
    and "char_maxlen c = 1 \<or> csname c = UTF8_MB3 \<or> csname c = UTF8_MB4"
    and "marks pre = length as1" and "build_query c nbs pre as1 = Some p"
    and "build_query c nbs post as2 = Some r"
    and "post = [] \<or> hd post \<noteq> 0x27 \<and> hd post \<noteq> 0x3F" and "0 \<notin> set v"
  shows "\<exists>e. build_query c nbs (pre @ [0x27, 0x3F, 0x27] @ post) (as1 @ Some v # as2) =
      Some (p @ 0x27 # e @ 0x27 # r) \<and>
    scan_literal (measure_of c) nbs (e @ 0x27 # r) = Some (v, r)"
proof -
  let ?e = "esc_text (measure_of c) nbs v"
  have p: "build_query c nbs (pre @ [0x27]) as1 = Some (p @ [0x27])"
    using build_query_append [OF assms(3,4), of "[0x27]" "[]"] by simp
  have n: "marks (pre @ [0x27]) = length as1" using assms(3) by (simp add: marks_def)
  have r: "build_query c nbs (0x27 # post) as2 = Some (0x27 # r)" using assms(5) by simp
  from build_query_arg [OF assms(1,2) n p r assms(7)]
  have "build_query c nbs (pre @ [0x27, 0x3F, 0x27] @ post) (as1 @ Some v # as2) =
      Some (p @ 0x27 # ?e @ 0x27 # r)" by simp
  moreover have "r = [] \<or> hd r \<noteq> 0x27"
  proof (cases "post = []")
    case True
    with assms(5) show ?thesis by simp
  next
    case False
    with assms(6) build_query_hd [OF assms(5)] show ?thesis by auto
  qed
  then have "scan_literal (measure_of c) nbs (?e @ 0x27 # r) = Some (v, r)"
    using escape_text [OF assms(1,2)] by blast
  ultimately show ?thesis by auto
qed

text \<open>The witness: the second argument of the statement \<open>addMatchDatapoints\<close> runs, a competition
  named \<open>a' b?\<close> in its first quoted place.\<close>

lemma quoted_placeholder_holds_value_witness:
  "\<exists>e. build_query (mariadb_compiled_charsets ! 5) False
      (bytes_of ''values(?,'' @ [0x27, 0x3F, 0x27] @ bytes_of '',?)'')
      ([Some [0x30]] @ Some [0x61, 0x27, 0x20, 0x62, 0x3F] # [Some [0x37]]) =
      Some (bytes_of ''values(0,'' @ 0x27 # e @ 0x27 # bytes_of '',7)'') \<and>
    scan_literal (measure_of (mariadb_compiled_charsets ! 5)) False (e @ 0x27 # bytes_of '',7)'') =
      Some ([0x61, 0x27, 0x20, 0x62, 0x3F], bytes_of '',7)'')"
proof (rule quoted_placeholder_holds_value)
  show "mariadb_compiled_charsets ! 5 \<in> set mariadb_compiled_charsets" by (rule charset_in) simp
  show "char_maxlen (mariadb_compiled_charsets ! 5) = 1 \<or> csname (mariadb_compiled_charsets ! 5) = UTF8_MB3 \<or>
      csname (mariadb_compiled_charsets ! 5) = UTF8_MB4"
    unfolding charset_5 by (simp add: cs_def)
  show "marks (bytes_of ''values(?,'') = length [Some [0x30 :: byte]]" by code_simp
  show "build_query (mariadb_compiled_charsets ! 5) False (bytes_of ''values(?,'') [Some [0x30]] =
      Some (bytes_of ''values(0,'')"
    unfolding charset_5 by code_simp
  show "build_query (mariadb_compiled_charsets ! 5) False (bytes_of '',?)'') [Some [0x37]] =
      Some (bytes_of '',7)'')"
    unfolding charset_5 by code_simp
  show "bytes_of '',?)'' = [] \<or> hd (bytes_of '',?)'') \<noteq> 0x27 \<and> hd (bytes_of '',?)'') \<noteq> 0x3F"
    by code_simp
qed simp

text \<open>
  C40. A value passed for a placeholder without quotes becomes part of the statement as it stands,
  for every value made of ordinary characters: spaces, operators and keywords in it are code for
  the server. The team number a tablet asks for reaches the server this way.
\<close>

theorem unquoted_placeholder_is_code:
  assumes "c \<in> set mariadb_compiled_charsets"
    and "char_maxlen c = 1 \<or> csname c = UTF8_MB3 \<or> csname c = UTF8_MB4"
    and "marks pre = length as1" and "build_query c nbs pre as1 = Some p"
    and "build_query c nbs post as2 = Some r" and "list_all plain_byte v"
  shows "build_query c nbs (pre @ [0x3F] @ post) (as1 @ Some v # as2) = Some (p @ v @ r)"
proof -
  have "0 \<notin> set v"
  proof
    assume "0 \<in> set v"
    with assms(6) have "plain_byte 0" by (simp add: list_all_iff)
    then show False by (simp add: plain_byte_def slash_esc_def)
  qed
  moreover have "esc_text (measure_of c) nbs v = v"
    using escape_text [OF assms(1,2)] by (intro esc_text_plain assms(6)) blast
  ultimately show ?thesis using build_query_arg [OF assms(1-5)] by simp
qed

lemma unquoted_placeholder_is_code_witness:
  "build_query (mariadb_compiled_charsets ! 5) False
     (bytes_of ''... AND TeamID='' @ [0x3F] @ bytes_of '';'') ([] @ Some (bytes_of ''0 OR 1=1'') # []) =
   Some (bytes_of ''... AND TeamID='' @ bytes_of ''0 OR 1=1'' @ bytes_of '';'')"
proof (rule unquoted_placeholder_is_code)
  show "mariadb_compiled_charsets ! 5 \<in> set mariadb_compiled_charsets" by (rule charset_in) simp
  show "char_maxlen (mariadb_compiled_charsets ! 5) = 1 \<or> csname (mariadb_compiled_charsets ! 5) = UTF8_MB3 \<or>
      csname (mariadb_compiled_charsets ! 5) = UTF8_MB4"
    unfolding charset_5 by (simp add: cs_def)
  show "marks (bytes_of ''... AND TeamID='') = length ([] :: byte list option list)" by code_simp
  show "build_query (mariadb_compiled_charsets ! 5) False (bytes_of ''... AND TeamID='') [] =
      Some (bytes_of ''... AND TeamID='')"
    unfolding charset_5 by code_simp
  show "build_query (mariadb_compiled_charsets ! 5) False (bytes_of '';'') [] = Some (bytes_of '';'')"
    unfolding charset_5 by code_simp
  show "list_all plain_byte (bytes_of ''0 OR 1=1'')" by code_simp
qed

section \<open>Properties of results\<close>

lemma collect_rows_enc:
  assumes "list_all (\<lambda>row. length row = k \<and> fits32 (enc_row row)) rows" and "0 < k"
    and "connected m" and "status m = MYSQL_STATUS_USE_RESULT" and "\<not> eof r" and "r_field_count r = k"
    and "incoming m = map enc_row rows @ [enc_eof 0 st]" and "st < 65536" and "writes m = []"
    and "\<And>row. row \<in> set rows \<Longrightarrow> f row = Some (g row)"
  shows "\<exists>r' m'. collect_rows f r m acc = Some (acc @ map g rows, r', m') \<and> \<not> has_handle r' \<and>
    status m' = MYSQL_STATUS_READY \<and> connected m' \<and> incoming m' = [] \<and> server m' = server m \<and>
    server_status m' = st \<and> writes m' = []"
  using assms
proof (induction rows arbitrary: r m acc)
  case Nil
  then have "mysql_fetch_row r m = Some (None, r\<lparr>eof := True, has_handle := False\<rparr>,
      m\<lparr>incoming := [], warning_count := 0, server_status := st, status := MYSQL_STATUS_READY\<rparr>)"
    by (intro mysql_fetch_row_eof) simp_all
  with Nil.prems(3,9) show ?case by (subst collect_rows.simps) simp
next
  case (Cons row rows)
  let ?r = "r\<lparr>row_count := row_count r + 1\<rparr>" and ?m = "m\<lparr>incoming := map enc_row rows @ [enc_eof 0 st]\<rparr>"
  have fetch: "mysql_fetch_row r m = Some (Some row, ?r, ?m)"
    using Cons.prems by (intro mysql_fetch_row_enc) auto
  have "\<exists>r' m'. collect_rows f ?r ?m (acc @ [g row]) = Some ((acc @ [g row]) @ map g rows, r', m') \<and>
      \<not> has_handle r' \<and> status m' = MYSQL_STATUS_READY \<and> connected m' \<and> incoming m' = [] \<and>
      server m' = server ?m \<and> server_status m' = st \<and> writes m' = []"
    by (rule Cons.IH) (use Cons.prems in simp_all)
  moreover have "collect_rows f r m acc = collect_rows f ?r ?m (acc @ [g row])"
    using fetch Cons.prems(10) by (subst collect_rows.simps) simp
  ultimately show ?case by simp
qed

lemma query_result:
  assumes "conn_ready m" and "result_ok fs rows" and "st < 65536"
    and "srv (COM_QUERY # cstr q) (server m) = (enc_result fs rows st, db)"
  obtains m1 r m2 where "mysql_query srv q m = Some (False, m1)" "mysql_use_result m1 = (Some r, m2)"
    "connected m2" "status m2 = MYSQL_STATUS_USE_RESULT" "\<not> eof r" "r_field_count r = length fs"
    "map f_name (r_fields r) = map f_name fs" "current_field r = 0" "has_handle r"
    "incoming m2 = map enc_row rows @ [enc_eof 0 st]" "server m2 = db" "server_status m2 = st" "writes m2 = []"
proof -
  from mysql_query_result [where srv = srv and q = q, OF assms] obtain m1 gs where "mysql_query srv q m = Some (False, m1)"
    "mfields m1 = Some gs" "map f_name gs = map f_name fs" "field_count m1 = length fs"
    "status m1 = MYSQL_STATUS_GET_RESULT" "connected m1" "server m1 = db" "server_status m1 = st"
    "incoming m1 = map enc_row rows @ [enc_eof 0 st]" "writes m1 = []"
    by blast
  then show thesis
    by (intro that [of m1 "\<lparr>r_fields = gs, r_field_count = length fs, current_field = 0,
          has_handle = True, eof = False, row_count = 0\<rparr>" "m1\<lparr>mfields := None, status := MYSQL_STATUS_USE_RESULT\<rparr>"])
      (simp_all add: mysql_use_result_def)
qed

lemma query_rows:
  assumes "conn_ready m" and "result_ok fs rows" and "st < 65536"
    and "build_query cset (no_backslash_escapes m) stmt args = Some q"
    and "srv (COM_QUERY # cstr q) (server m) = (enc_result fs rows st, db)"
  shows "\<exists>m'. Database_query srv cset stmt args m = Some (map query_row rows, m') \<and>
    status m' = MYSQL_STATUS_READY \<and> connected m' \<and> incoming m' = [] \<and> server m' = db \<and>
    conn_ready m' = (\<not> bit st 3)"
proof -
  obtain m1 r m2 where q: "mysql_query srv q m = Some (False, m1)" "mysql_use_result m1 = (Some r, m2)"
    and m2: "connected m2" "status m2 = MYSQL_STATUS_USE_RESULT" "\<not> eof r" "r_field_count r = length fs"
    "incoming m2 = map enc_row rows @ [enc_eof 0 st]" "server m2 = db" "writes m2 = []"
    by (rule query_result [where srv = srv and q = q, OF assms(1-3,5)])
  have rows: "list_all (\<lambda>row. length row = length fs \<and> fits32 (enc_row row)) rows" "0 < length fs"
    using assms(2) by (auto simp: result_ok_def)
  from collect_rows_enc [OF rows m2(1-5) assms(3) m2(7), of "\<lambda>row. Some (query_row row)" query_row "[]"]
  obtain r' m' where "collect_rows (\<lambda>row. Some (query_row row)) r m2 [] = Some (map query_row rows, r', m')"
    "\<not> has_handle r'" "status m' = MYSQL_STATUS_READY" "connected m'" "incoming m' = []"
    "server m' = db" "server_status m' = st" "writes m' = []"
    using m2(6) by auto
  with q assms(4) show ?thesis by (simp add: Database_query_def mysql_free_result_def conn_ready_def)
qed

text \<open>
  C4. \<open>Database::query\<close> returns exactly the rows the server sends, in their order, a null value as
  the text \<open>NULL\<close>, through the packets of the protocol: column count, column descriptions, rows
  and the two end marks. Afterwards everything sent has been read and the connection is open and in
  the state \<open>READY\<close>; it takes the next statement unless the last end mark announces another result
  (bit 3 of the status, \<open>SERVER_MORE_RESULTS_EXIST\<close>), which the program never asks for.
\<close>

theorem query_returns_rows:
  assumes "conn_ready m" and "result_ok fs rows" and "st < 65536"
    and "build_query cset (no_backslash_escapes m) stmt args = Some q"
    and "srv (COM_QUERY # cstr q) (server m) = (enc_result fs rows st, db)"
  shows "\<exists>m'. Database_query srv cset stmt args m = Some (map query_row rows, m') \<and>
    status m' = MYSQL_STATUS_READY \<and> connected m' \<and> incoming m' = [] \<and> server m' = db \<and>
    conn_ready m' = (\<not> bit st 3)"
  by (rule query_rows [where srv = srv, OF assms])

definition example_field :: MYSQL_FIELD where
  "example_field = \<lparr>f_catalog = [100, 101, 102], f_db = [115], f_table = [116], f_org_table = [116],
     f_name = [65], f_org_name = [65], f_charsetnr = 8, f_length = 255, f_type = 253, f_flags = 0,
     f_decimals = 0\<rparr>"

definition example_conn :: "unit MYSQL" where
  "example_conn = \<lparr>writes = [], incoming = [], server = (), connected = True, progress = False,
     status = MYSQL_STATUS_READY, mfields = None, field_count = 0, server_status = 2,
     warning_count = 0, affected_rows = 0, insert_id = 0, my_errno = 0\<rparr>"

definition example_srv :: "unit srv" where
  "example_srv q db = (enc_result [example_field, example_field] [[Some [49], None], [Some [50], Some [51]]] 2, db)"

lemma example_facts:
  "conn_ready example_conn"
  "result_ok [example_field, example_field] [[Some [49], None], [Some [50], Some [51]]]"
  by (simp_all add: conn_ready_def example_conn_def result_ok_def example_field_def fits32_def
      field_row_def enc_value_def mysql_net_store_length_def)

lemma query_returns_rows_witness:
  "\<exists>m'. Database_query example_srv (mariadb_compiled_charsets ! 5) [115] [] example_conn =
      Some (map query_row [[Some [49], None], [Some [50], Some [51]]], m') \<and> conn_ready m'"
proof -
  have "build_query (mariadb_compiled_charsets ! 5) (no_backslash_escapes example_conn) [115] [] = Some [115]"
    by simp
  from query_returns_rows [OF example_facts _ this, where srv = example_srv and st = 2 and db = "()"]
  show ?thesis by (auto simp: example_srv_def bit_simps)
qed

text \<open>
  \<open>execQuery\<close> with the length 0 never reads nor frees the result: after a statement that
  returns rows the connection stays in use, and every later \<open>Database::query\<close> on it reaches
  nothing but the error that commands are out of sync; the server does not see it.
\<close>

theorem exec_query_zero_blocks:
  assumes "conn_ready m" and "result_ok fs rows" and "st < 65536"
    and "srv (COM_QUERY # cstr q) (server m) = (enc_result fs rows st, db)"
    and "execQuery srv q 0 m = Some (v, m')"
    and "build_query cset (no_backslash_escapes m') stmt args = Some q'"
  shows "v = [] \<and> (\<exists>m''. Database_query srv cset stmt args m' = Some ([], m'') \<and>
    server m'' = db \<and> my_errno m'' = CR_COMMANDS_OUT_OF_SYNC)"
proof -
  have "cstr (cstr q) = cstr q" by (simp add: cstr_def)
  then have srv: "srv (COM_QUERY # cstr (cstr q)) (server m) = (enc_result fs rows st, db)"
    using assms(4) by simp
  obtain m1 r m2 where q: "mysql_query srv (cstr q) m = Some (False, m1)" "mysql_use_result m1 = (Some r, m2)"
    "connected m2" "status m2 = MYSQL_STATUS_USE_RESULT" "server m2 = db"
    by (rule query_result [where srv = srv and q = "cstr q", OF assms(1-3) srv])
  with assms(5) have "v = []" "m' = m2" by (simp_all add: execQuery_def)
  moreover have "mysql_query srv q' m2 = Some (True, (free_old_query m2)\<lparr>my_errno := CR_COMMANDS_OUT_OF_SYNC\<rparr>)"
    using q by (simp add: mysql_query_def mthd_my_send_cmd_def free_old_query_def)
  ultimately show ?thesis using assms(6) q(5)
    by (simp add: Database_query_def free_old_query_def)
qed

lemma exec_query_zero_blocks_witness:
  "fst (the (execQuery example_srv [115] 0 example_conn)) = [] \<and>
   (\<exists>m''. Database_query example_srv (mariadb_compiled_charsets ! 5) [115] []
      (snd (the (execQuery example_srv [115] 0 example_conn))) = Some ([], m'') \<and>
    server m'' = () \<and> my_errno m'' = CR_COMMANDS_OUT_OF_SYNC)"
proof -
  have srv: "example_srv (COM_QUERY # cstr (cstr [115])) (server example_conn) =
      (enc_result [example_field, example_field] [[Some [49], None], [Some [50], Some [51]]] 2, ())"
    by (simp add: example_srv_def)
  obtain m1 r m2 where "mysql_query example_srv (cstr [115]) example_conn = Some (False, m1)"
    "mysql_use_result m1 = (Some r, m2)"
    by (rule query_result [where srv = example_srv and q = "cstr [115]", OF example_facts _ srv]) simp
  then have e: "execQuery example_srv [115] 0 example_conn = Some ([], m2)"
    by (simp add: execQuery_def)
  have "[] = ([] :: byte list list list) \<and> (\<exists>m''. Database_query example_srv (mariadb_compiled_charsets ! 5) [115] [] m2 =
      Some ([], m'') \<and> server m'' = () \<and> my_errno m'' = CR_COMMANDS_OUT_OF_SYNC)"
    by (rule exec_query_zero_blocks [OF example_facts _ _ e, of 2 "()" _ _ _ "[115]"])
      (simp_all add: example_srv_def)
  with e show ?thesis by simp
qed

end
