(* ===== verification/Murmur.thy ===== *)
theory Murmur
  imports Prelude
begin

text \<open>
  \<open>murmurHash2Neutral.hpp\<close>: the hash with which the tablets find out whether their copy
  of the scouting database is current. \<open>data\<close> is the \<open>std::vector<char>\<close> (signed
  bytes), the arithmetic is that of 32-bit \<open>int\<close> with the wrap-around the compiled code
  has, and \<open>>>\<close> on \<open>int\<close> is the arithmetic shift.
\<close>

section \<open>The code\<close>

definition multVal :: i32 where "multVal = 0x5bd1e995"
definition rotate_amt :: nat where "rotate_amt = 24"

text \<open>\<open>(int)data.size()\<close>: a size of \<open>2^31\<close> or more becomes negative.\<close>

definition int_size :: "byte list \<Rightarrow> int" where
  "int_size data = sint (word_of_nat (length data) :: i32)"

definition murmur_curr :: "byte list \<Rightarrow> nat \<Rightarrow> i32" where
  "murmur_curr data index =
     char_to_int (data ! index)
     OR push_bit 8 (char_to_int (data ! (1 + index)))
     OR push_bit 16 (char_to_int (data ! (2 + index)))
     OR push_bit 24 (char_to_int (data ! (3 + index)))"

definition murmur_mix :: "i32 \<Rightarrow> i32 \<Rightarrow> i32" where
  "murmur_mix hash cur =
     (let c1 = cur * multVal;
          c2 = c1 XOR signed_drop_bit rotate_amt c1;
          c3 = c2 * multVal
      in (hash * multVal) XOR c3)"

function murmur_loop :: "byte list \<Rightarrow> i32 \<Rightarrow> nat \<Rightarrow> i32 \<times> nat" where
  "murmur_loop data hash index =
     (if int_size data - int index \<ge> 4
      then murmur_loop data (murmur_mix hash (murmur_curr data index)) (index + 4)
      else (hash, index))"
  by pat_completeness auto
termination
  by (relation "measure (\<lambda>(data, hash, index). nat (int_size data - int index))") auto

declare murmur_loop.simps [simp del]

text \<open>The \<open>switch\<close> on the 0 to 3 bytes left over, with its fall-through.\<close>

definition murmur_tail :: "byte list \<Rightarrow> nat \<Rightarrow> int \<Rightarrow> i32 \<Rightarrow> i32" where
  "murmur_tail data index left hash =
     (let h3 = (if left = 3 then hash XOR push_bit 16 (char_to_int (data ! (2 + index))) else hash);
          h2 = (if left = 3 \<or> left = 2 then h3 XOR push_bit 8 (char_to_int (data ! (1 + index))) else h3)
      in (if left = 3 \<or> left = 2 \<or> left = 1
          then (h2 XOR char_to_int (data ! index)) * multVal else h2))"

definition murmur_final :: "i32 \<Rightarrow> i32" where
  "murmur_final hash =
     (let h1 = hash XOR signed_drop_bit 13 hash;
          h2 = h1 * multVal
      in h2 XOR signed_drop_bit 15 h2)"

definition murmurHash :: "byte list \<Rightarrow> i32" where
  "murmurHash data =
     (let hash0 = 1138 XOR word_of_int (int_size data);
          (hash, index) = murmur_loop data hash0 0
      in murmur_final (murmur_tail data index (int_size data - int index) hash))"

section \<open>A structural reference\<close>

text \<open>The same hash over the list itself, four bytes at a time, with no index.\<close>

definition ref_curr :: "byte \<Rightarrow> byte \<Rightarrow> byte \<Rightarrow> byte \<Rightarrow> i32" where
  "ref_curr a b c d = char_to_int a OR push_bit 8 (char_to_int b)
     OR push_bit 16 (char_to_int c) OR push_bit 24 (char_to_int d)"

fun ref_hash :: "i32 \<Rightarrow> byte list \<Rightarrow> i32" where
  "ref_hash h [] = h"
| "ref_hash h [a] = (h XOR char_to_int a) * multVal"
| "ref_hash h [a, b] = ((h XOR push_bit 8 (char_to_int b)) XOR char_to_int a) * multVal"
| "ref_hash h [a, b, c] =
     (((h XOR push_bit 16 (char_to_int c)) XOR push_bit 8 (char_to_int b)) XOR char_to_int a) * multVal"
| "ref_hash h (a # b # c # d # ds) = ref_hash (murmur_mix h (ref_curr a b c d)) ds"

section \<open>Lemmas\<close>

lemma int_size_small: "length data < 2 ^ 31 \<Longrightarrow> int_size data = int (length data)"
  by (simp add: int_size_def signed_of_nat signed_take_bit_int_eq_self)

lemma murmur_loop_stop:
  "int_size data - int index < 4 \<Longrightarrow> murmur_loop data hash index = (hash, index)"
  by (simp add: murmur_loop.simps [of data hash index])

lemma murmur_loop_step:
  "4 \<le> int_size data - int index \<Longrightarrow>
   murmur_loop data hash index
     = murmur_loop data (murmur_mix hash (murmur_curr data index)) (index + 4)"
  by (simp add: murmur_loop.simps [of data hash index])

text \<open>The part of the hash from position \<open>length pre\<close> on only looks at what follows.\<close>

lemma murmur_from:
  assumes "length (pre @ xs) < 2 ^ 31"
  shows "(let (hash, index) = murmur_loop (pre @ xs) h (length pre)
          in murmur_tail (pre @ xs) index (int_size (pre @ xs) - int index) hash) = ref_hash h xs"
  using assms
proof (induction h xs arbitrary: pre rule: ref_hash.induct)
  case (1 h)
  then show ?case
    by (simp add: int_size_small murmur_loop_stop murmur_tail_def)
next
  case (2 h a)
  then show ?case
    by (simp add: int_size_small murmur_loop_stop murmur_tail_def nth_append)
next
  case (3 h a b)
  then show ?case
    by (simp add: int_size_small murmur_loop_stop murmur_tail_def nth_append)
next
  case (4 h a b c)
  then show ?case
    by (simp add: int_size_small murmur_loop_stop murmur_tail_def nth_append)
next
  case (5 h a b c d ds)
  have cur: "murmur_curr (pre @ a # b # c # d # ds) (length pre) = ref_curr a b c d"
    by (simp add: murmur_curr_def ref_curr_def nth_append)
  have "murmur_loop (pre @ a # b # c # d # ds) h (length pre)
      = murmur_loop (pre @ a # b # c # d # ds) (murmur_mix h (ref_curr a b c d)) (length pre + 4)"
    using "5.prems" by (subst murmur_loop_step) (simp_all add: int_size_small cur)
  moreover have len: "length (pre @ [a, b, c, d]) = length pre + 4" by simp
  note IH = "5.IH" [of "pre @ [a, b, c, d]", unfolded len]
  ultimately show ?case
    using IH "5.prems" by simp
qed

lemma murmurHash_ref:
  assumes "length data < 2 ^ 31"
  shows "murmurHash data = murmur_final (ref_hash (1138 XOR word_of_nat (length data)) data)"
  using murmur_from [of "[]" data "1138 XOR word_of_nat (length data)"] assms
  by (simp add: murmurHash_def int_size_small split: prod.splits)

lemma ref_hash_append:
  "4 dvd length pre \<Longrightarrow> ref_hash h (pre @ xs) = ref_hash (ref_hash h pre) xs"
proof (induction h pre rule: ref_hash.induct)
  case (5 h a b c d ds)
  then have "4 dvd length ds" by (simp add: dvd_def) presburger
  with 5 show ?case by simp
qed (auto dest: dvd_imp_le)

text \<open>A signed byte below zero fills the upper three bytes of the block with ones.\<close>

lemma ref_curr_negative:
  assumes "sint a < 0"
  shows "ref_curr a b c d = char_to_int a"
proof (rule bit_word_eqI)
  fix n assume n: "n < LENGTH(32)"
  have "bit a 7" using assms bit_last_iff [of a] by simp
  then show "bit (ref_curr a b c d) n = bit (char_to_int a) n"
    using n
    by (auto simp: ref_curr_def char_to_int_def bit_or_iff bit_push_bit_iff
        Word.bit_signed_iff bit_word_scast_iff min_def)
qed

lemma murmur_final_sign: "\<not> bit (murmur_final h) 31"
  by (simp add: murmur_final_def Let_def bit_xor_iff bit_signed_drop_bit_iff)

section \<open>Properties\<close>

text \<open>C15. on data below 2 GiB the index-based loop with its fall-through \<open>switch\<close>
  computes the hash of the structural reference: every byte is read exactly once, block by
  block, and no read is out of range.\<close>

theorem murmurHash_refines_reference:
  assumes "length data < 2 ^ 31"
  shows "murmurHash data = murmur_final (ref_hash (1138 XOR word_of_nat (length data)) data)"
  using assms by (rule murmurHash_ref)

theorem murmurHash_refines_reference_witness:
  "murmurHash (bytes_of ''abcde'')
     = murmur_final (ref_hash (1138 XOR 5) (bytes_of ''abcde''))"
  using murmurHash_refines_reference [of "bytes_of ''abcde''"] by simp

text \<open>The arithmetic shifts of the finaliser clear the sign bit, so a hash sent to a
  tablet is never negative: only half of the 32-bit values are ever used.\<close>

theorem murmurHash_nonneg: "0 \<le> sint (murmurHash data)"
proof -
  obtain hash index where "murmur_loop data (1138 XOR word_of_int (int_size data)) 0 = (hash, index)"
    by force
  then obtain h where "murmurHash data = murmur_final h"
    by (simp add: murmurHash_def)
  then show ?thesis
    using murmur_final_sign [of h] bit_last_iff [of "murmur_final h"] by simp
qed

text \<open>A byte above 127 hides the three bytes after it: within an aligned block that
  starts with such a byte the other three bytes have no influence on the hash, so files that
  differ only there (non-ASCII names in the scouter list) are taken to be the same.\<close>

theorem murmurHash_high_byte_collision:
  assumes "4 dvd length pre" and "sint a < 0"
    and "length (pre @ a # b # c # d # post) < 2 ^ 31"
  shows "murmurHash (pre @ a # b # c # d # post) = murmurHash (pre @ a # b' # c' # d' # post)"
  using assms by (simp add: murmurHash_ref ref_hash_append ref_curr_negative)

theorem murmurHash_high_byte_collision_witness:
  "murmurHash [0x41, 0x42, 0x43, 0x44, 0xC3, 0xA9, 0x31, 0x32]
     = murmurHash [0x41, 0x42, 0x43, 0x44, 0xC3, 0x01, 0x02, 0x03]"
proof -
  have "4 dvd length [0x41 :: byte, 0x42, 0x43, 0x44]"
    by (simp add: eval_nat_numeral)
  from murmurHash_high_byte_collision
    [OF this, of "0xC3" "0xA9" "0x31" "0x32" "[]" "0x01" "0x02" "0x03"]
  show ?thesis by simp
qed

end
