(* ===== verification/Gui_Input.thy ===== *)
theory Gui_Input
  imports Prelude
begin

text \<open>
  The widgets that take input, \<open>guiHandler/button.hpp\<close>, \<open>toggle.hpp\<close> and \<open>textBox.hpp\<close>, without their
  geometry: whether the mouse is over the rectangle a widget was last drawn at is an input, as are
  the mouse button and the keys of the frame.
\<close>

section \<open>Buttons\<close>

record Button =
  lastClickState :: bool
  disabled :: bool

record mouse =
  m_down :: bool
  m_released :: bool

definition mk_Button :: Button where
  "mk_Button = \<lparr>lastClickState = False, disabled = False\<rparr>"

definition isPressed :: "mouse \<Rightarrow> bool \<Rightarrow> Button \<Rightarrow> bool \<times> Button" where
  "isPressed ms hovering b =
     (if disabled b then (False, b)
      else
        let clickState = (hovering \<and> m_down ms);
            retval = (clickState = True \<and> lastClickState b = False) in
        (retval, b\<lparr>lastClickState := clickState\<rparr>))"

definition isReleased :: "mouse \<Rightarrow> bool \<Rightarrow> Button \<Rightarrow> bool \<times> Button" where
  "isReleased ms hovering b =
     (if disabled b then (False, b)
      else
        let down = (hovering \<and> m_down ms); up = (hovering \<and> m_released ms);
            retval = (up \<and> lastClickState b) in
        (retval, b\<lparr>lastClickState := down\<rparr>))"

definition disable :: "Button \<Rightarrow> Button" where
  "disable b = b\<lparr>disabled := True\<rparr>"

definition enable :: "Button \<Rightarrow> Button" where
  "enable b = b\<lparr>disabled := False\<rparr>"

lemma disable_simps [simp]:
  "disabled (disable b)" "\<not> disabled (enable b)"
  "isPressed ms h (disable b) = (False, disable b)"
  by (simp_all add: disable_def enable_def isPressed_def)

lemma isPressed_disabled: "disabled (snd (isPressed ms h b)) = disabled b"
  by (simp add: isPressed_def Let_def)

lemma isReleased_once:
  assumes "\<not> (m_down ms \<and> m_released ms)"
  shows "\<not> fst (isReleased ms h (snd (isReleased ms h b)))"
  using assms by (auto simp: isReleased_def Let_def)

section \<open>Toggles\<close>

record Toggle =
  checked :: bool
  lastCheckState :: bool

definition mk_Toggle :: Toggle where
  "mk_Toggle = \<lparr>checked = False, lastCheckState = False\<rparr>"

definition toggle_isPressed :: "mouse \<Rightarrow> bool \<Rightarrow> Toggle \<Rightarrow> bool \<times> Toggle" where
  "toggle_isPressed ms hovering t =
     (let state = (hovering \<and> m_down ms);
          retval = (state = True \<and> lastCheckState t = False) in
      (retval, t\<lparr>lastCheckState := state\<rparr>))"

definition toggle_draw :: "mouse \<Rightarrow> bool \<Rightarrow> Toggle \<Rightarrow> Toggle" where
  "toggle_draw ms hovering t =
     (let (pressed, t1) = toggle_isPressed ms hovering t in
      if pressed then t1\<lparr>checked := \<not> checked t1\<rparr> else t1)"

section \<open>Text boxes\<close>

text \<open>The buffer of characters has one more than the limit. A write outside it is undefined
  (\<open>None\<close>).\<close>

record TextBox =
  tb_text :: "byte list"
  selected :: bool
  sizeLimit :: int
  currentChar :: int

definition mk_TextBox :: "nat \<Rightarrow> TextBox" where
  "mk_TextBox limit = \<lparr>tb_text = replicate (limit + 1) 0, selected = False,
     sizeLimit = int limit, currentChar = 0\<rparr>"

definition put_char :: "int \<Rightarrow> byte \<Rightarrow> TextBox \<Rightarrow> TextBox option" where
  "put_char i c t =
     (if 0 \<le> i \<and> nat i < length (tb_text t) then Some (t\<lparr>tb_text := (tb_text t)[nat i := c]\<rparr>) else None)"

text \<open>\<open>GetCharPressed\<close> takes the next character of the frame's queue, or 0.\<close>

definition getCharPressed :: "int list \<Rightarrow> int \<times> int list" where
  "getCharPressed q = (case q of [] \<Rightarrow> (0, []) | c # cs \<Rightarrow> (c, cs))"

text \<open>The loop over the characters of a frame, with the one that was read last.\<close>

function type_loop :: "int \<Rightarrow> int list \<Rightarrow> TextBox \<Rightarrow> TextBox option" where
  "type_loop key q t =
     (if (key > 31 \<and> key < 123) \<and> currentChar t < sizeLimit t then
        case put_char (currentChar t) (word_of_int key) t of
          None \<Rightarrow> None
        | Some t1 \<Rightarrow>
            case put_char (currentChar t + 1) 0 t1 of
              None \<Rightarrow> None
            | Some t2 \<Rightarrow>
                let t3 = t2\<lparr>currentChar := currentChar t2 + 1\<rparr> in
                if q = [] then Some t3 else type_loop (hd q) (tl q) t3
      else Some t)"
  by pat_completeness auto
termination
  by (relation "measure (\<lambda>(_, q, _). length q)") auto

declare type_loop.simps [simp del]

record key_in =
  k_chars :: "int list"
  k_backspace :: bool

definition updateText :: "mouse \<Rightarrow> bool \<Rightarrow> key_in \<Rightarrow> TextBox \<Rightarrow> TextBox option" where
  "updateText ms hovering keys t =
     (let t1 = (if m_down ms then t\<lparr>selected := hovering\<rparr> else t) in
      if selected t1 then
        let (key, q) = getCharPressed (k_chars keys) in
        case (if k_backspace keys then
                let cur = (if currentChar t1 - 1 < 0 then 0 else currentChar t1 - 1) in
                put_char cur 0 (t1\<lparr>currentChar := cur\<rparr>)
              else Some t1) of
          None \<Rightarrow> None
        | Some t2 \<Rightarrow> type_loop key q t2
      else Some t1)"

definition getText :: "TextBox \<Rightarrow> byte list" where
  "getText t = takeWhile (\<lambda>c. c \<noteq> 0) (tb_text t)"

section \<open>The text box as an editor\<close>

definition tb_ok :: "TextBox \<Rightarrow> bool" where
  "tb_ok t \<longleftrightarrow> 0 \<le> currentChar t \<and> currentChar t \<le> sizeLimit t \<and>
     length (tb_text t) = nat (sizeLimit t) + 1 \<and>
     (\<exists>s rest. tb_text t = s @ 0 # rest \<and> 0 \<notin> set s \<and> int (length s) = currentChar t)"

text \<open>What an editor with a limit does with the keys of a frame.\<close>

definition typable :: "int \<Rightarrow> bool" where
  "typable key \<longleftrightarrow> 31 < key \<and> key < 123"

definition edit :: "nat \<Rightarrow> bool \<Rightarrow> int list \<Rightarrow> byte list \<Rightarrow> byte list" where
  "edit limit backspace keys s =
     (let s1 = (if backspace then butlast s else s) in
      s1 @ take (limit - length s1) (map word_of_int (takeWhile typable keys)))"

lemma getText_split: "0 \<notin> set s \<Longrightarrow> tb_text t = s @ 0 # rest \<Longrightarrow> getText t = s"
  by (auto simp: getText_def takeWhile_append)

lemma tb_ok_text:
  assumes "tb_ok t"
  obtains rest where "tb_text t = getText t @ 0 # rest" and "0 \<notin> set (getText t)"
    and "int (length (getText t)) = currentChar t"
proof -
  from assms obtain s rest where "tb_text t = s @ 0 # rest" "0 \<notin> set s" "int (length s) = currentChar t"
    unfolding tb_ok_def by blast
  moreover from this have "getText t = s" by (intro getText_split)
  ultimately show thesis using that by simp
qed

lemma tb_okI:
  assumes "tb_text t = s @ 0 # rest" and "0 \<notin> set s" and "int (length s) = currentChar t"
    and "int (length s) \<le> sizeLimit t" and "length (tb_text t) = nat (sizeLimit t) + 1"
  shows "tb_ok t" and "getText t = s"
  using assms by (auto simp: tb_ok_def getText_split)

lemma typable_byte: "typable key \<Longrightarrow> (word_of_int key :: byte) \<noteq> 0"
proof
  assume k: "typable key" and "(word_of_int key :: byte) = 0"
  then have "uint (word_of_int key :: byte) = 0" by simp
  with k show False by (simp add: typable_def uint_word_of_int)
qed

text \<open>One character.\<close>

lemma type_one:
  assumes "tb_ok t" and "typable key" and "currentChar t < sizeLimit t"
  shows "\<exists>t1 t2. put_char (currentChar t) (word_of_int key) t = Some t1 \<and>
    put_char (currentChar t + 1) 0 t1 = Some t2 \<and>
    (let t3 = t2\<lparr>currentChar := currentChar t2 + 1\<rparr> in
      tb_ok t3 \<and> getText t3 = getText t @ [word_of_int key] \<and> sizeLimit t3 = sizeLimit t \<and>
      selected t3 = selected t \<and> currentChar t3 = currentChar t + 1)"
proof -
  obtain rest where x: "tb_text t = getText t @ 0 # rest" "0 \<notin> set (getText t)"
      "int (length (getText t)) = currentChar t"
    by (rule tb_ok_text [OF assms(1)])
  have len: "length (tb_text t) = nat (sizeLimit t) + 1" using assms(1) by (simp add: tb_ok_def)
  then have "rest \<noteq> []" using x assms(1,3) by (auto simp: tb_ok_def)
  then obtain r rest' where r: "rest = r # rest'" by (cases rest) auto
  let ?k = "word_of_int key :: byte"
  have n: "nat (currentChar t) = length (getText t)" "nat (currentChar t + 1) = Suc (length (getText t))"
    using x(3) by auto
  have "put_char (currentChar t) ?k t = Some (t\<lparr>tb_text := getText t @ ?k # rest\<rparr>)"
    using x assms(3) len n by (simp add: put_char_def)
  moreover have "put_char (currentChar t + 1) 0 (t\<lparr>tb_text := getText t @ ?k # rest\<rparr>) =
      Some (t\<lparr>tb_text := getText t @ ?k # 0 # rest'\<rparr>)"
    using x r len n by (simp add: put_char_def list_update_append)
  moreover have "tb_ok (t\<lparr>tb_text := getText t @ ?k # 0 # rest', currentChar := currentChar t + 1\<rparr>)"
    and "getText (t\<lparr>tb_text := getText t @ ?k # 0 # rest', currentChar := currentChar t + 1\<rparr>) = getText t @ [?k]"
    using x r len assms(3) typable_byte [OF assms(2)]
    by (auto intro!: tb_okI [of _ "getText t @ [?k]" rest'])
  ultimately show ?thesis by simp
qed

lemma tb_room: "tb_ok t \<Longrightarrow> currentChar t < sizeLimit t \<longleftrightarrow> length (getText t) < nat (sizeLimit t)"
  by (rule tb_ok_text) auto

lemma type_loop_spec:
  assumes "tb_ok t"
  shows "\<exists>t'. type_loop key q t = Some t' \<and> tb_ok t' \<and> sizeLimit t' = sizeLimit t \<and>
    selected t' = selected t \<and>
    getText t' = getText t @ take (nat (sizeLimit t) - length (getText t))
      (map word_of_int (takeWhile typable (key # q)))"
  using assms
proof (induction q arbitrary: key t)
  case Nil
  show ?case
  proof (cases "typable key \<and> currentChar t < sizeLimit t")
    case True
    obtain t1 t2 where t12: "put_char (currentChar t) (word_of_int key) t = Some t1"
        "put_char (currentChar t + 1) 0 t1 = Some t2"
      and t3: "let t3 = t2\<lparr>currentChar := currentChar t2 + 1\<rparr> in
        tb_ok t3 \<and> getText t3 = getText t @ [word_of_int key] \<and> sizeLimit t3 = sizeLimit t \<and>
        selected t3 = selected t \<and> currentChar t3 = currentChar t + 1"
      using type_one [OF Nil] True by blast
    define t3 where "t3 = t2\<lparr>currentChar := currentChar t2 + 1\<rparr>"
    have "length (getText t) < nat (sizeLimit t)" using True tb_room [OF Nil] by simp
    moreover have "type_loop key [] t = Some t3"
      using True t12 by (simp add: type_loop.simps [of key] typable_def Let_def t3_def)
    ultimately show ?thesis using True t3 [unfolded Let_def, folded t3_def] by (simp add: take_Cons')
  next
    case False
    have "nat (sizeLimit t) \<le> length (getText t)" if "\<not> currentChar t < sizeLimit t"
      using that tb_room [OF Nil] by simp
    with False Nil show ?thesis by (auto simp: type_loop.simps [of key] typable_def)
  qed
next
  case (Cons k q)
  show ?case
  proof (cases "typable key \<and> currentChar t < sizeLimit t")
    case True
    obtain t1 t2 where t12: "put_char (currentChar t) (word_of_int key) t = Some t1"
        "put_char (currentChar t + 1) 0 t1 = Some t2"
      and t3: "let t3 = t2\<lparr>currentChar := currentChar t2 + 1\<rparr> in
        tb_ok t3 \<and> getText t3 = getText t @ [word_of_int key] \<and> sizeLimit t3 = sizeLimit t \<and>
        selected t3 = selected t \<and> currentChar t3 = currentChar t + 1"
      using type_one [OF Cons.prems] True by blast
    define t3 where "t3 = t2\<lparr>currentChar := currentChar t2 + 1\<rparr>"
    have p3: "tb_ok t3" "getText t3 = getText t @ [word_of_int key]" "sizeLimit t3 = sizeLimit t" "selected t3 = selected t"
      using t3 [unfolded Let_def, folded t3_def] by simp_all
    have room: "length (getText t) < nat (sizeLimit t)"
      using True tb_room [OF Cons.prems] by simp
    have "type_loop key (k # q) t = type_loop k q t3"
      using True t12 by (simp add: type_loop.simps [of key] typable_def Let_def t3_def)
    moreover obtain t' where "type_loop k q t3 = Some t'" "tb_ok t'" "sizeLimit t' = sizeLimit t3" "selected t' = selected t3"
      "getText t' = getText t3 @ take (nat (sizeLimit t3) - length (getText t3)) (map word_of_int (takeWhile typable (k # q)))"
      using Cons.IH [OF p3(1)] by blast
    ultimately show ?thesis using True p3 room by (simp add: take_Cons' Suc_diff_Suc)
  next
    case False
    have "nat (sizeLimit t) \<le> length (getText t)" if "\<not> currentChar t < sizeLimit t"
      using that tb_room [OF Cons.prems] by simp
    with False Cons.prems show ?thesis by (auto simp: type_loop.simps [of key] typable_def)
  qed
qed

lemma backspace_spec:
  assumes "tb_ok t" and "cur = (if currentChar t - 1 < 0 then 0 else currentChar t - 1)"
  shows "\<exists>t'. put_char cur 0 (t\<lparr>currentChar := cur\<rparr>) = Some t' \<and> tb_ok t' \<and>
    getText t' = butlast (getText t) \<and> sizeLimit t' = sizeLimit t \<and> selected t' = selected t"
proof -
  obtain rest where x: "tb_text t = getText t @ 0 # rest" "0 \<notin> set (getText t)"
      "int (length (getText t)) = currentChar t"
    by (rule tb_ok_text [OF assms(1)])
  have len: "length (tb_text t) = nat (sizeLimit t) + 1" and lim: "currentChar t \<le> sizeLimit t"
    using assms(1) by (simp_all add: tb_ok_def)
  show ?thesis
  proof (cases "getText t" rule: rev_cases)
    case Nil
    then have c: "currentChar t = 0" "cur = 0" using x(3) assms(2) by simp_all
    have "put_char cur 0 (t\<lparr>currentChar := cur\<rparr>) = Some t"
      using x(1) Nil c by (simp add: put_char_def)
    then show ?thesis using assms(1) Nil by simp
  next
    case (snoc s c)
    let ?t = "t\<lparr>currentChar := cur, tb_text := s @ 0 # 0 # rest\<rparr>"
    have cur: "cur = int (length s)" using snoc x(3) assms(2) by simp
    then have "put_char cur 0 (t\<lparr>currentChar := cur\<rparr>) = Some ?t"
      using x(1) snoc by (simp add: put_char_def list_update_append)
    moreover have "tb_ok ?t" "getText ?t = s"
      using snoc x len lim cur by (auto intro!: tb_okI [of _ s "0 # rest"])
    ultimately show ?thesis using snoc by simp
  qed
qed

text \<open>A frame's keys.\<close>

lemma updateText_spec:
  assumes "tb_ok t"
  shows "\<exists>t'. updateText ms hovering keys t = Some t' \<and> tb_ok t' \<and> sizeLimit t' = sizeLimit t \<and>
    selected t' = (if m_down ms then hovering else selected t) \<and>
    getText t' = (if selected t' then edit (nat (sizeLimit t)) (k_backspace keys) (k_chars keys) (getText t)
      else getText t)"
proof -
  define t1 where "t1 = (if m_down ms then t\<lparr>selected := hovering\<rparr> else t)"
  have t1: "tb_ok t1" "getText t1 = getText t" "sizeLimit t1 = sizeLimit t"
      "selected t1 = (if m_down ms then hovering else selected t)"
    using assms by (simp_all add: t1_def tb_ok_def getText_def)
  show ?thesis
  proof (cases "selected t1")
    case False
    then show ?thesis using t1 by (simp add: updateText_def t1_def [symmetric])
  next
    case True
    define cur where "cur = (if currentChar t1 - 1 < 0 then 0 else currentChar t1 - 1)"
    obtain t2 where t2: "(if k_backspace keys then put_char cur 0 (t1\<lparr>currentChar := cur\<rparr>) else Some t1) = Some t2"
        "tb_ok t2" "getText t2 = (if k_backspace keys then butlast (getText t) else getText t)"
        "sizeLimit t2 = sizeLimit t" "selected t2"
      using backspace_spec [OF t1(1) cur_def] t1 True by (cases "k_backspace keys") auto
    obtain key q where kq: "getCharPressed (k_chars keys) = (key, q)" by fastforce
    then have "takeWhile typable (key # q) = takeWhile typable (k_chars keys)"
      by (auto simp: getCharPressed_def typable_def split: list.splits)
    with type_loop_spec [OF t2(2), of key q] obtain t' where "type_loop key q t2 = Some t'" "tb_ok t'"
        "sizeLimit t' = sizeLimit t2" "selected t'"
        "getText t' = getText t2 @ take (nat (sizeLimit t2) - length (getText t2))
           (map word_of_int (takeWhile typable (k_chars keys)))"
      using t2(5) by auto
    moreover have "updateText ms hovering keys t = type_loop key q t2"
      by (simp only: updateText_def Let_def t1_def [symmetric] True if_True kq prod.case
          cur_def [symmetric] t2(1) option.case)
    ultimately show ?thesis using True t1(4) t2 by (auto simp: edit_def Let_def)
  qed
qed

section \<open>Properties\<close>

text \<open>
  C19. A text box is a bounded line editor. In every frame it takes the focus from a click; with the
  focus it removes its last character if backspace was pressed and then appends the characters of
  the frame up to the first one outside the range it takes, as far as the limit allows; without it
  the text stays. It never writes outside its buffer.
\<close>

theorem textbox_refines_editor:
  assumes "tb_ok t"
  shows "\<exists>t'. updateText ms hovering keys t = Some t' \<and> tb_ok t' \<and> sizeLimit t' = sizeLimit t \<and>
    selected t' = (if m_down ms then hovering else selected t) \<and>
    getText t' = (if selected t' then edit (nat (sizeLimit t)) (k_backspace keys) (k_chars keys) (getText t)
      else getText t)"
  by (rule updateText_spec [OF assms])

lemma textbox_refines_editor_witness:
  "\<exists>t'. updateText \<lparr>m_down = True, m_released = False\<rparr> True
      \<lparr>k_chars = [52, 50, 123, 55], k_backspace = False\<rparr> (mk_TextBox 10) = Some t' \<and> getText t' = [52, 50]"
proof -
  have "tb_ok (mk_TextBox 10)" 
    by (intro tb_okI(1) [of _ "[]" "replicate 10 0"]) (simp_all add: mk_TextBox_def eval_nat_numeral)
  moreover have "edit 10 False [52, 50, 123, 55] (getText (mk_TextBox 10)) = [52, 50]" by code_simp
  moreover have "sizeLimit (mk_TextBox 10) = 10" by (simp add: mk_TextBox_def)
  ultimately show ?thesis
    using textbox_refines_editor [of "mk_TextBox 10" "\<lparr>m_down = True, m_released = False\<rparr>" True
      "\<lparr>k_chars = [52, 50, 123, 55], k_backspace = False\<rparr>"] by auto
qed

end
