(* ===== verification/Bt_Conductor.thy ===== *)
theory Bt_Conductor
  imports Bt_Link Db_Query Murmur Gui_Input
begin

text \<open>
  \<open>bluetoothTransaction.hpp\<close> and \<open>bluetoothConductor.hpp\<close>: one exchange with a tablet, run by
  \<open>std::async\<close>, and what becomes of its result. A tablet object has an identity, the address it
  lives at; pointers and the references a task captures are identities, and an object that is
  moved to another address has another identity. Following a pointer to an object that is gone
  is undefined behaviour.
\<close>

section \<open>Objects and futures\<close>

datatype SOCKETCALLTYPE = CALLTYPE_DEFAULT | CALLTYPE_DEFERRED | CALLTYPE_ASYNCHRONOUS

record MatchIdentifier =
  mi_comp :: string
  mi_team :: string
  mi_match :: string

text \<open>What a task does, with the object it captured.\<close>

datatype task = ReadTask | WriteTask "byte list"

text \<open>A task ends with a value or with an exception, which the future keeps for \<open>get\<close>.\<close>

type_synonym task_result = "exn + byte list option"

text \<open>A future without state, a deferred task, one that runs in its thread (each with the tablet and
  the transaction whose \<open>success\<close> it captured), or a result.\<close>

datatype future =
    NoState
  | Deferred nat nat task
  | Async nat nat task
  | Ready task_result

record TABTRANSACTION =
  tr_parent :: "nat option"
  tr_type :: byte
  tr_data :: future
  batmanTrans :: bool
  tr_success :: bool
  writeTransaction :: bool

record BtTabObj =
  obj_id :: nat
  macStr :: string
  tab_socket :: nat
  callType :: SOCKETCALLTYPE
  currTrans :: TABTRANSACTION
  tabletMatches :: "MatchIdentifier list"
  tabScoutingName :: string
  transactionState :: bool
  killButton :: Button

text \<open>The ways an operation does not return normally: undefined behaviour, waiting for ever, and
  the exceptions.\<close>

datatype bt_error = Undefined | Waits | FutureError | BadOptionalAccess | OutOfRange

definition rethrow :: "exn + 'a \<Rightarrow> bt_error + 'a" where
  "rethrow r = (case r of Inl Std_out_of_range \<Rightarrow> Inl OutOfRange | Inr x \<Rightarrow> Inr x)"

text \<open>What the program runs in: the database server and the connection a new \<open>Database\<close> makes,
  the JSON parser, the allocator, the files it reads, how a vector grows.\<close>

record 'db env =
  e_srv :: "'db srv"
  e_cset :: MARIADB_CHARSET_INFO
  e_open :: "'db \<Rightarrow> 'db MYSQL"
  e_parse :: "string \<Rightarrow> json option"
  e_malloc :: "nat \<Rightarrow> bool"
  e_files :: "string \<Rightarrow> string"
  e_grow :: "nat \<Rightarrow> nat"

text \<open>The manager's members, the sockets by their handles, and what it does to the outside.\<close>

record 'db Bluetooth =
  connectedTablets :: "BtTabObj list"
  runningTransactions :: "nat list"
  tab_capacity :: nat
  next_id :: nat
  net :: "nat \<Rightarrow> sock"
  closed :: "nat list"
  dbase :: 'db
  bt_toasts :: "Toast list"

definition new_trans :: TABTRANSACTION where
  "new_trans = \<lparr>tr_parent = None, tr_type = 0, tr_data = NoState, batmanTrans = False,
     tr_success = True, writeTransaction = False\<rparr>"

definition mk_BtTabObj :: "nat \<Rightarrow> nat \<Rightarrow> string \<Rightarrow> BtTabObj" where
  "mk_BtTabObj i sck addrStr = \<lparr>obj_id = i, macStr = addrStr, tab_socket = sck,
     callType = CALLTYPE_DEFAULT, currTrans = new_trans, tabletMatches = [],
     tabScoutingName = addrStr, transactionState = False, killButton = mk_Button\<rparr>"

definition find_obj :: "nat \<Rightarrow> 'db Bluetooth \<Rightarrow> BtTabObj option" where
  "find_obj i b = find (\<lambda>t. obj_id t = i) (connectedTablets b)"

definition upd_obj :: "nat \<Rightarrow> (BtTabObj \<Rightarrow> BtTabObj) \<Rightarrow> 'db Bluetooth \<Rightarrow> 'db Bluetooth" where
  "upd_obj i f b = b\<lparr>connectedTablets :=
     map (\<lambda>t. if obj_id t = i then f t else t) (connectedTablets b)\<rparr>"

definition upd_trans :: "nat \<Rightarrow> (TABTRANSACTION \<Rightarrow> TABTRANSACTION) \<Rightarrow> 'db Bluetooth \<Rightarrow> 'db Bluetooth" where
  "upd_trans i f = upd_obj i (\<lambda>t. t\<lparr>currTrans := f (currTrans t)\<rparr>)"

text \<open>Following a pointer.\<close>

definition deref :: "nat \<Rightarrow> 'db Bluetooth \<Rightarrow> bt_error + BtTabObj" where
  "deref i b = (case find_obj i b of None \<Rightarrow> Inl Undefined | Some t \<Rightarrow> Inr t)"

definition deref_parent :: "TABTRANSACTION \<Rightarrow> 'db Bluetooth \<Rightarrow> bt_error + BtTabObj" where
  "deref_parent tr b = (case tr_parent tr of None \<Rightarrow> Inl Undefined | Some i \<Rightarrow> deref i b)"

section \<open>Running a task\<close>

text \<open>The task reads or writes its tablet's socket and sets the captured \<open>success\<close>; \<open>t1\<close> and
  \<open>t2\<close> are the clocks at its two reads. An exception leaves \<open>success\<close> as the start of the task set
  it.\<close>

definition run_task :: "'db env \<Rightarrow> nat \<Rightarrow> nat \<Rightarrow> task \<Rightarrow> int \<Rightarrow> int \<Rightarrow> 'db Bluetooth \<Rightarrow>
    bt_error + (task_result \<times> 'db Bluetooth)" where
  "run_task S p i tsk t1 t2 b =
     then_do (deref p b) (\<lambda>t.
     then_do (deref i b) (\<lambda>_.
       case (case tsk of
               ReadTask \<Rightarrow> internalRead (e_malloc S) t1 t2 (net b (tab_socket t))
             | WriteTask d \<Rightarrow> internalWrite (e_malloc S) t1 t2 d (net b (tab_socket t))) of
         None \<Rightarrow> Inl Waits
       | Some (res, s') \<Rightarrow>
           let (r, ok) = (case res of Inl e \<Rightarrow> (Inl e, True) | Inr (r, ok) \<Rightarrow> (Inr r, ok)) in
           Inr (r, upd_trans i (\<lambda>tr. tr\<lparr>tr_success := ok\<rparr>)
             (b\<lparr>net := (net b)(tab_socket t := s')\<rparr>))))"

text \<open>How far a task has got when \<open>std::async\<close> returns, and the clocks of its reads. A deferred
  task starts when its result is asked for.\<close>

datatype launch = Launch_deferred | Not_started | Started | Finished

text \<open>The policies: both (the library chooses), deferred, asynchronous.\<close>

definition allowed :: "SOCKETCALLTYPE \<Rightarrow> launch \<Rightarrow> bool" where
  "allowed c l \<longleftrightarrow>
     (case c of
        CALLTYPE_DEFAULT \<Rightarrow> True
      | CALLTYPE_DEFERRED \<Rightarrow> l = Launch_deferred
      | CALLTYPE_ASYNCHRONOUS \<Rightarrow> l \<noteq> Launch_deferred)"

definition std_async :: "'db env \<Rightarrow> launch \<Rightarrow> nat \<Rightarrow> nat \<Rightarrow> task \<Rightarrow> int \<Rightarrow> int \<Rightarrow> 'db Bluetooth \<Rightarrow>
    bt_error + 'db Bluetooth" where
  "std_async S l p i tsk t1 t2 b =
     (case l of
        Launch_deferred \<Rightarrow> Inr (upd_trans i (\<lambda>tr. tr\<lparr>tr_data := Deferred p i tsk\<rparr>) b)
      | Not_started \<Rightarrow> Inr (upd_trans i (\<lambda>tr. tr\<lparr>tr_data := Async p i tsk\<rparr>) b)
      | Started \<Rightarrow> Inr (upd_trans i (\<lambda>tr. tr\<lparr>tr_data := Async p i tsk, tr_success := True\<rparr>) b)
      | Finished \<Rightarrow>
          then_do (run_task S p i tsk t1 t2 b) (\<lambda>(r, b').
            Inr (upd_trans i (\<lambda>tr. tr\<lparr>tr_data := Ready r\<rparr>) b')))"

definition isReady :: "TABTRANSACTION \<Rightarrow> bt_error + bool" where
  "isReady tr =
     (case tr_data tr of
        NoState \<Rightarrow> Inl FutureError
      | Deferred _ _ _ \<Rightarrow> Inr True
      | Ready _ \<Rightarrow> Inr True
      | Async _ _ _ \<Rightarrow> Inr False)"

text \<open>\<open>data.get()\<close> of the transaction at \<open>i\<close>: a deferred task runs now, a running one is waited
  for; afterwards the future has no state. The exception of the task is thrown here.\<close>

definition fut_get :: "'db env \<Rightarrow> nat \<Rightarrow> int \<Rightarrow> int \<Rightarrow> 'db Bluetooth \<Rightarrow>
    bt_error + (byte list option \<times> 'db Bluetooth)" where
  "fut_get S i t1 t2 b =
     then_do (deref i b) (\<lambda>t.
     then_do (case tr_data (currTrans t) of
         NoState \<Rightarrow> Inl FutureError
       | Ready r \<Rightarrow> Inr (r, b)
       | Deferred p j tsk \<Rightarrow> run_task S p j tsk t1 t2 b
       | Async p j tsk \<Rightarrow> run_task S p j tsk t1 t2 b) (\<lambda>(res, b').
     then_do (rethrow res) (\<lambda>r.
       Inr (r, upd_trans i (\<lambda>tr. tr\<lparr>tr_data := NoState\<rparr>) b'))))"

section \<open>What is sent\<close>

text \<open>The four files of the local database, a newline between them.\<close>

definition local_db :: "'db env \<Rightarrow> string" where
  "local_db S =
     e_files S ''resources/csv/scouterList.csv'' @ [CHR 0x0A] @
     e_files S ''resources/csv/teamCompList.csv'' @ [CHR 0x0A] @
     e_files S ''resources/csv/compMatchNums.csv'' @ [CHR 0x0A] @
     e_files S ''resources/csv/compID.csv''"

definition BT_HASH_SIZE :: nat where "BT_HASH_SIZE = 4"

definition hash_data :: "string \<Rightarrow> byte list" where
  "hash_data db = le_store BT_HASH_SIZE (unat (murmurHash (bytes_of db)))"

definition select_match :: string where
  "select_match = ''SELECT * FROM matchtransaction WHERE CompID='' @ [CHR 0x27] @ ''?'' @ [CHR 0x27] @
     '' AND TeamID=? AND MatchID='' @ [CHR 0x27] @ ''?'' @ [CHR 0x27] @ '';''"

text \<open>The indexes of the matches for which the database has no row.\<close>

fun unrecvd_loop :: "'db env \<Rightarrow> nat \<Rightarrow> MatchIdentifier list \<Rightarrow> 'db MYSQL \<Rightarrow> nat list \<Rightarrow>
    (nat list \<times> 'db MYSQL) option" where
  "unrecvd_loop S i [] m acc = Some (acc, m)"
| "unrecvd_loop S i (x # xs) m acc =
     (case Database_query (e_srv S) (e_cset S) (bytes_of select_match)
         (map (\<lambda>a. Some (cstr (bytes_of a))) [mi_comp x, mi_team x, mi_match x]) m of
        None \<Rightarrow> None
      | Some (result, m') \<Rightarrow>
          unrecvd_loop S (Suc i) xs m' (if result = [] then acc @ [i] else acc))"

fun comma_list :: "nat list \<Rightarrow> string" where
  "comma_list [] = []"
| "comma_list [i] = dec_of_nat i"
| "comma_list (i # is) = dec_of_nat i @ '','' @ comma_list is"

text \<open>The local \<open>Database\<close> is destroyed at the end of its block, after the task was started: its
  connection is closed.\<close>

definition handleWriteTransactions :: "'db env \<Rightarrow> launch \<Rightarrow> int \<Rightarrow> int \<Rightarrow> nat \<Rightarrow> 'db Bluetooth \<Rightarrow>
    bt_error + 'db Bluetooth" where
  "handleWriteTransactions S l t1 t2 i b =
     then_do (deref i b) (\<lambda>t.
       let tr = currTrans t;
           go = (\<lambda>d b.
             then_do (deref_parent tr b) (\<lambda>par.
               std_async S l (obj_id par) i (WriteTask d) t1 t2
                 (upd_trans i (\<lambda>tr. tr\<lparr>batmanTrans := False, writeTransaction := True\<rparr>) b))) in
       if tr_type tr = TRANS_SEND_LOCAL_DB then go (bytes_of (local_db S)) b
       else if tr_type tr = TRANS_SEND_LOCAL_DB_HASH then go (hash_data (local_db S)) b
       else if tr_type tr = TRANS_SEND_TAB_UNRECVD_MATCHES then
         then_do (deref_parent tr b) (\<lambda>par.
           case unrecvd_loop S 0 (tabletMatches par) (e_open S (dbase b)) [] of
             None \<Rightarrow> Inl Undefined
           | Some (unrecvd, m) \<Rightarrow>
               then_do (go (bytes_of (comma_list unrecvd)) (b\<lparr>dbase := server m\<rparr>)) (\<lambda>b1.
                 Inr (b1\<lparr>dbase := server (mysql_close_slow_part (e_srv S) m)\<rparr>)))
       else Inr b)"

section \<open>Starting a transaction\<close>

definition sockSuicide :: "BtTabObj \<Rightarrow> 'db Bluetooth \<Rightarrow> 'db Bluetooth" where
  "sockSuicide t b = b\<lparr>closed := closed b @ [tab_socket t]\<rparr>"

definition initReadyTransaction :: "'db env \<Rightarrow> launch \<Rightarrow> int \<Rightarrow> int \<Rightarrow> nat \<Rightarrow> 'db Bluetooth \<Rightarrow>
    bt_error + 'db Bluetooth" where
  "initReadyTransaction S l t1 t2 i b =
     then_do (deref i b) (\<lambda>t.
     then_do (deref_parent (currTrans t) b) (\<lambda>par.
       let tr = currTrans t;
           failed = (\<lambda>tr. tr\<lparr>tr_success := False, batmanTrans := True, writeTransaction := False\<rparr>) in
       if tr_type tr = TRANS_SOCKET_ERROR then
         case sendNack (e_malloc S) (net b (tab_socket par)) of
           None \<Rightarrow> Inl Waits
         | Some (_, s') \<Rightarrow>
             Inr (sockSuicide par (upd_trans i failed (b\<lparr>net := (net b)(tab_socket par := s')\<rparr>)))
       else if tr_type tr = TRANS_CLOSE_SOCKET then Inr (sockSuicide par (upd_trans i failed b))
       else if writeTransaction tr then handleWriteTransactions S l t1 t2 i b
       else
         std_async S l (obj_id par) i ReadTask t1 t2
           (upd_trans i (\<lambda>tr. tr\<lparr>tr_success := True, batmanTrans := False\<rparr>) b)))"

section \<open>Handling its result\<close>

text \<open>\<open>std::string::find\<close> and \<open>substr\<close> on \<open>size_t\<close> positions; \<open>npos\<close> is the largest.
  \<open>substr\<close> throws if the position is beyond the end.\<close>

definition npos :: u64 where "npos = - 1"

fun find_index :: "char \<Rightarrow> string \<Rightarrow> nat option" where
  "find_index c [] = None"
| "find_index c (x # xs) = (if x = c then Some 0 else map_option Suc (find_index c xs))"

definition str_find :: "char \<Rightarrow> string \<Rightarrow> u64 \<Rightarrow> u64" where
  "str_find c s pos =
     (if length s < unat pos then npos
      else case find_index c (drop (unat pos) s) of None \<Rightarrow> npos | Some k \<Rightarrow> pos + word_of_nat k)"

definition substr :: "string \<Rightarrow> u64 \<Rightarrow> u64 \<Rightarrow> bt_error + string" where
  "substr s pos len =
     (if length s < unat pos then Inl OutOfRange else Inr (take (unat len) (drop (unat pos) s)))"

text \<open>\<open>std::getline\<close> until the end: the line after the last newline counts if it is not empty.\<close>

function getlines :: "string \<Rightarrow> string list" where
  "getlines s =
     (if s = [] then []
      else takeWhile (\<lambda>c. c \<noteq> CHR 0x0A) s # getlines (tl (dropWhile (\<lambda>c. c \<noteq> CHR 0x0A) s)))"
  by pat_completeness auto
termination
proof (relation "measure length", goal_cases)
  case (2 s)
  have "length (dropWhile (\<lambda>c. c \<noteq> CHR 0x0A) s) \<le> length s" by (rule length_dropWhile_le)
  with 2 show ?case by (cases s) auto
qed simp

declare getlines.simps [simp del]

text \<open>One line of a match list; the positions may wrap when a semicolon is missing.\<close>

definition parse_match_line :: "string \<Rightarrow> bt_error + MatchIdentifier" where
  "parse_match_line currLine =
     (let firstSemicolon = str_find CHR '';'' currLine 0;
          secondSemicolon = str_find CHR '';'' currLine (firstSemicolon + 1) in
      then_do (substr currLine 0 firstSemicolon) (\<lambda>comp.
      then_do (substr currLine (firstSemicolon + 1) (secondSemicolon - firstSemicolon - 1)) (\<lambda>team.
      then_do (substr currLine (secondSemicolon + 1) npos) (\<lambda>match.
        Inr \<lparr>mi_comp = comp, mi_team = team, mi_match = match\<rparr>))))"

fun parse_match_lines :: "string list \<Rightarrow> bt_error + MatchIdentifier list" where
  "parse_match_lines [] = Inr []"
| "parse_match_lines (l # ls) =
     then_do (parse_match_line l) (\<lambda>m. then_do (parse_match_lines ls) (\<lambda>ms. Inr (m # ms)))"

text \<open>\<open>value()\<close> of an optional.\<close>

definition opt_value :: "'a option \<Rightarrow> bt_error + 'a" where
  "opt_value r = (case r of None \<Rightarrow> Inl BadOptionalAccess | Some x \<Rightarrow> Inr x)"

text \<open>The local \<open>DatabaseMan\<close> of a match is destroyed at the end of its block, which closes its
  connection.\<close>

definition handleTransResult :: "'db env \<Rightarrow> int \<Rightarrow> int \<Rightarrow> nat \<Rightarrow> 'db Bluetooth \<Rightarrow>
    bt_error + 'db Bluetooth" where
  "handleTransResult S t1 t2 i b =
     then_do (deref i b) (\<lambda>t.
       let typ = tr_type (currTrans t) in
       if writeTransaction (currTrans t) then Inr b
       else if typ = TRANS_RECV_MATCH then
         then_do (fut_get S i t1 t2 b) (\<lambda>(r, b1).
         then_do (opt_value r) (\<lambda>readDataVec.
         then_do (deref i b1) (\<lambda>t1.
           if tr_success (currTrans t1) then
             let parser = mk_JsonParser (e_parse S) (string_of readDataVec);
                 b2 = b1\<lparr>bt_toasts := bt_toasts b1 @ toasts parser\<rparr> in
             case addMatchDatapoints (e_srv S) (e_cset S) (fst (parseMatch parser)) (e_open S (dbase b2)) of
               None \<Rightarrow> Inl Undefined
             | Some m \<Rightarrow> Inr (b2\<lparr>dbase := server (mysql_close_slow_part (e_srv S) m)\<rparr>)
           else Inr b1)))
       else if typ = TRANS_RECV_TABLET_INFO then
         then_do (fut_get S i t1 t2 b) (\<lambda>(r, b1).
         then_do (deref i b1) (\<lambda>t1.
           case r of
             Some info \<Rightarrow>
               if tr_success (currTrans t1) then
                 then_do (deref_parent (currTrans t1) b1) (\<lambda>par.
                   Inr (upd_obj (obj_id par) (\<lambda>o'. o'\<lparr>tabScoutingName := string_of info\<rparr>) b1))
               else Inr b1
           | None \<Rightarrow> Inr b1))
       else if typ = TRANS_RECV_TAB_MATCH_LIST then
         then_do (deref_parent (currTrans t) b) (\<lambda>par.
         then_do (fut_get S i t1 t2 b) (\<lambda>(r, b1).
         then_do (opt_value r) (\<lambda>readDataVec.
         then_do (parse_match_lines (getlines (string_of readDataVec))) (\<lambda>ms.
           Inr (upd_obj (obj_id par) (\<lambda>o'. o'\<lparr>tabletMatches := tabletMatches o' @ ms\<rparr>) b1)))))
       else Inr b)"

section \<open>What an exchange leaves alone\<close>

lemma then_do_Inr: "then_do r f = Inr y \<longleftrightarrow> (\<exists>a. r = Inr a \<and> f a = Inr y)"
  by (cases r) (simp_all add: then_do_def)

lemma then_do_simps [simp]: "then_do (Inr a) f = f a" "then_do (Inl e) f = Inl e"
  by (simp_all add: then_do_def)

lemma rethrow_simps [simp]:
  "rethrow (Inr x) = Inr x" "rethrow (Inl e) = Inl OutOfRange" "rethrow r = Inr y \<longleftrightarrow> r = Inr y"
  by (cases e; simp add: rethrow_def) (auto simp: rethrow_def split: sum.splits exn.splits)

lemma deref_Inr: "deref i b = Inr t \<longleftrightarrow> find_obj i b = Some t"
  by (auto simp: deref_def split: option.splits)

text \<open>The list of tablets as the manager sees it, and its own members: everything but the
  transactions' contents, the sockets and the database.\<close>

definition shape :: "'db Bluetooth \<Rightarrow>
    (nat \<times> nat \<times> bool) list \<times> nat list \<times> nat \<times> nat" where
  "shape b = (map (\<lambda>t. (obj_id t, tab_socket t, transactionState t)) (connectedTablets b),
     runningTransactions b, tab_capacity b, next_id b)"

lemma shape_ids:
  fixes a b :: "'db Bluetooth"
  assumes "shape b = shape a"
  shows "map obj_id (connectedTablets b) = map obj_id (connectedTablets a)"
proof -
  have "map fst (fst (shape c)) = map obj_id (connectedTablets c)" for c :: "'db Bluetooth"
    by (simp add: shape_def)
  from this [of b] this [of a] assms show ?thesis by simp
qed

lemma shape_upd_obj:
  assumes "\<And>t. obj_id (f t) = obj_id t \<and> tab_socket (f t) = tab_socket t \<and>
    transactionState (f t) = transactionState t"
  shows "shape (upd_obj i f b) = shape b"
  using assms by (simp add: shape_def upd_obj_def)

lemma shape_upd_trans [simp]: "shape (upd_trans i f b) = shape b"
  by (simp add: upd_trans_def shape_upd_obj)

lemma shape_outside [simp]:
  "shape (b\<lparr>net := n\<rparr>) = shape b" "shape (b\<lparr>dbase := d\<rparr>) = shape b"
  "shape (b\<lparr>bt_toasts := ts\<rparr>) = shape b" "shape (sockSuicide t b) = shape b"
  by (simp_all add: shape_def sockSuicide_def)

lemma run_task_shape: "run_task S p i tsk t1 t2 b = Inr (r, b') \<Longrightarrow> shape b' = shape b"
  by (auto simp: run_task_def then_do_Inr Let_def split: option.split_asm task.split_asm prod.split_asm sum.split_asm)

lemma fut_get_shape: "fut_get S i t1 t2 b = Inr (r, b') \<Longrightarrow> shape b' = shape b"
proof -
  assume g: "fut_get S i t1 t2 b = Inr (r, b')"
  then obtain t where "deref i b = Inr t" by (auto simp: fut_get_def then_do_Inr)
  with g show "shape b' = shape b"
    by (cases "tr_data (currTrans t)") (auto simp: fut_get_def then_do_Inr dest: run_task_shape)
qed

lemma std_async_shape: "std_async S l p i tsk t1 t2 b = Inr b' \<Longrightarrow> shape b' = shape b"
  by (auto simp: std_async_def then_do_Inr dest: run_task_shape split: launch.splits)

lemma handleWriteTransactions_shape:
  "handleWriteTransactions S l t1 t2 i b = Inr b' \<Longrightarrow> shape b' = shape b"
  by (auto simp: handleWriteTransactions_def then_do_Inr Let_def dest!: std_async_shape
      split: if_splits option.splits)

lemma handleTransResult_shape:
  "handleTransResult S t1 t2 i b = Inr b' \<Longrightarrow> shape b' = shape b"
  by (auto simp: handleTransResult_def then_do_Inr Let_def shape_upd_obj dest!: fut_get_shape
      split: if_splits option.splits)

lemma handleTransResult_running:
  "handleTransResult S t1 t2 i b = Inr b' \<Longrightarrow> runningTransactions b' = runningTransactions b"
  by (drule handleTransResult_shape) (simp add: shape_def)

lemma find_upd_obj:
  assumes "\<And>t. obj_id (f t) = obj_id t"
  shows "find_obj j (upd_obj i f b) = (if j = i then map_option f (find_obj i b) else find_obj j b)"
proof -
  have "find (\<lambda>t. obj_id t = j) (map (\<lambda>t. if obj_id t = i then f t else t) ts) =
      (if j = i then map_option f (find (\<lambda>t. obj_id t = i) ts) else find (\<lambda>t. obj_id t = j) ts)" for ts
    using assms by (induction ts) auto
  then show ?thesis by (simp add: find_obj_def upd_obj_def)
qed

lemma find_upd_trans [simp]:
  "find_obj j (upd_trans i f b) =
    (if j = i then map_option (\<lambda>t. t\<lparr>currTrans := f (currTrans t)\<rparr>) (find_obj i b) else find_obj j b)"
  by (simp add: upd_trans_def find_upd_obj)

lemma find_outside [simp]:
  "find_obj i (b\<lparr>net := n\<rparr>) = find_obj i b" "find_obj i (b\<lparr>dbase := d\<rparr>) = find_obj i b"
  "find_obj i (b\<lparr>bt_toasts := ts\<rparr>) = find_obj i b" "find_obj i (sockSuicide t b) = find_obj i b"
  "find_obj i (b\<lparr>runningTransactions := rs\<rparr>) = find_obj i b"
  by (simp_all add: find_obj_def sockSuicide_def)

lemma find_obj_id: "find_obj i b = Some t \<Longrightarrow> obj_id t = i"
  by (auto simp: find_obj_def find_Some_iff)

text \<open>Only the object \<open>i\<close> changes, and not its place in the manager.\<close>

definition only :: "nat \<Rightarrow> 'db Bluetooth \<Rightarrow> 'db Bluetooth \<Rightarrow> bool" where
  "only i b b' \<longleftrightarrow> shape b' = shape b \<and>
     list_all2 (\<lambda>t t'. obj_id t \<noteq> i \<longrightarrow> t' = t) (connectedTablets b) (connectedTablets b')"

lemma only_refl: "only i b b"
  by (simp add: only_def list_all2_refl)

lemma only_trans [trans]: "only i a b \<Longrightarrow> only i b c \<Longrightarrow> only i a c"
proof -
  assume "only i a b" "only i b c"
  moreover have "map obj_id (connectedTablets b) = map obj_id (connectedTablets a)"
    using \<open>only i a b\<close> by (intro shape_ids) (simp add: only_def)
  ultimately show ?thesis
    unfolding only_def list_all2_conv_all_nth
    by simp
qed

lemma only_upd_obj:
  assumes "\<And>t. obj_id (f t) = obj_id t \<and> tab_socket (f t) = tab_socket t \<and>
    transactionState (f t) = transactionState t"
  shows "only i b (upd_obj i f b)"
  using shape_upd_obj [of f i b, OF assms]
  by (auto simp: only_def upd_obj_def list_all2_conv_all_nth)

lemma only_upd_trans: "only i b (upd_trans i f b)"
  by (simp add: upd_trans_def only_upd_obj)

lemma only_outside:
  "only i b (b\<lparr>net := n\<rparr>)" "only i b (b\<lparr>dbase := d\<rparr>)" "only i b (b\<lparr>bt_toasts := ts\<rparr>)"
  "only i b (sockSuicide t b)"
  by (simp_all add: only_def list_all2_refl) (simp_all add: sockSuicide_def list_all2_refl)

text \<open>A future whose task, if it has one, belongs to its own tablet.\<close>

fun own_future :: "nat \<Rightarrow> future \<Rightarrow> bool" where
  "own_future i (Deferred p j _) \<longleftrightarrow> p = i \<and> j = i"
| "own_future i (Async p j _) \<longleftrightarrow> p = i \<and> j = i"
| "own_future i _ \<longleftrightarrow> True"

lemma run_task_only:
  assumes "run_task S i i tsk t1 t2 b = Inr (r, b')" and "find_obj i b = Some t"
  shows "only i b b'"
    and "\<exists>ok. find_obj i b' = Some (t\<lparr>currTrans := (currTrans t)\<lparr>tr_success := ok\<rparr>\<rparr>)"
proof -
  from assms obtain ok n where "b' = upd_trans i (\<lambda>tr. tr\<lparr>tr_success := ok\<rparr>) (b\<lparr>net := n\<rparr>)"
    by (auto simp: run_task_def then_do_Inr Let_def split: option.split_asm prod.split_asm sum.split_asm)
  with assms(2) show "only i b b'"
      and "\<exists>ok. find_obj i b' = Some (t\<lparr>currTrans := (currTrans t)\<lparr>tr_success := ok\<rparr>\<rparr>)"
    using only_trans [OF only_outside(1) only_upd_trans] by auto
qed

lemma fut_get_only:
  assumes "fut_get S i t1 t2 b = Inr (r, b')" and "find_obj i b = Some t"
    and "own_future i (tr_data (currTrans t))"
  shows "only i b b'"
    and "\<exists>ok. find_obj i b' = Some (t\<lparr>currTrans := (currTrans t)\<lparr>tr_success := ok, tr_data := NoState\<rparr>\<rparr>)"
proof -
  obtain b1 ok where b1: "only i b b1"
      "find_obj i b1 = Some (t\<lparr>currTrans := (currTrans t)\<lparr>tr_success := ok\<rparr>\<rparr>)"
      and b': "b' = upd_trans i (\<lambda>tr. tr\<lparr>tr_data := NoState\<rparr>) b1"
  proof (cases "tr_data (currTrans t)")
    case (Ready x)
    with assms that [of b "tr_success (currTrans t)"] show ?thesis
      by (auto simp: fut_get_def then_do_Inr deref_Inr only_refl)
  next
    case NoState
    with assms show ?thesis by (auto simp: fut_get_def then_do_Inr deref_Inr)
  next
    case (Deferred p j tsk)
    with assms obtain b1 where "run_task S i i tsk t1 t2 b = Inr (Inr r, b1)"
        "b' = upd_trans i (\<lambda>tr. tr\<lparr>tr_data := NoState\<rparr>) b1"
      by (auto simp: fut_get_def then_do_Inr deref_Inr)
    with run_task_only [OF _ assms(2)] that show ?thesis by blast
  next
    case (Async p j tsk)
    with assms obtain b1 where "run_task S i i tsk t1 t2 b = Inr (Inr r, b1)"
        "b' = upd_trans i (\<lambda>tr. tr\<lparr>tr_data := NoState\<rparr>) b1"
      by (auto simp: fut_get_def then_do_Inr deref_Inr)
    with run_task_only [OF _ assms(2)] that show ?thesis by blast
  qed
  then show "only i b b'"
    and "\<exists>ok. find_obj i b' = Some (t\<lparr>currTrans := (currTrans t)\<lparr>tr_success := ok, tr_data := NoState\<rparr>\<rparr>)"
    using only_trans [OF b1(1) only_upd_trans] by auto
qed

text \<open>After \<open>std::async\<close> the future holds the task or its result.\<close>

lemma std_async_only:
  assumes "std_async S l i i tsk t1 t2 b = Inr b'" and "find_obj i b = Some t"
  shows "only i b b'"
    and "\<exists>t'. find_obj i b' = Some t' \<and> own_future i (tr_data (currTrans t')) \<and>
      tr_parent (currTrans t') = tr_parent (currTrans t) \<and>
      transactionState t' = transactionState t"
proof -
  have "only i b b' \<and> (\<exists>t'. find_obj i b' = Some t' \<and> own_future i (tr_data (currTrans t')) \<and>
      tr_parent (currTrans t') = tr_parent (currTrans t) \<and> transactionState t' = transactionState t)"
  proof (cases l)
    case Finished
    with assms obtain r b1 where "run_task S i i tsk t1 t2 b = Inr (r, b1)"
        "b' = upd_trans i (\<lambda>tr. tr\<lparr>tr_data := Ready r\<rparr>) b1"
      by (auto simp: std_async_def then_do_Inr)
    with run_task_only [OF _ assms(2)] only_trans [OF _ only_upd_trans] show ?thesis by fastforce
  qed (use assms in \<open>auto simp: std_async_def only_upd_trans\<close>)
  then show "only i b b'"
    and "\<exists>t'. find_obj i b' = Some t' \<and> own_future i (tr_data (currTrans t')) \<and>
      tr_parent (currTrans t') = tr_parent (currTrans t) \<and> transactionState t' = transactionState t"
    by auto
qed

text \<open>What a step leaves at its tablet: the parent and the tablet's state, and either the old
  future or one of its own.\<close>

definition kept :: "nat \<Rightarrow> BtTabObj \<Rightarrow> 'db Bluetooth \<Rightarrow> 'db Bluetooth \<Rightarrow> bool" where
  "kept i t b b' \<longleftrightarrow> only i b b' \<and>
     (\<exists>t'. find_obj i b' = Some t' \<and> tr_parent (currTrans t') = Some i \<and>
       transactionState t' = transactionState t \<and>
       (tr_data (currTrans t') = tr_data (currTrans t) \<or> own_future i (tr_data (currTrans t'))) \<and>
       (batmanTrans (currTrans t') \<or> writeTransaction (currTrans t') \<or>
         own_future i (tr_data (currTrans t'))))"

lemma kept_after: "only i b b0 \<Longrightarrow> kept i t b0 b' \<Longrightarrow> kept i t b b'"
  unfolding kept_def by (elim conjE, intro conjI, erule (1) only_trans, assumption)

lemma kept_database: "kept i t b b' \<Longrightarrow> kept i t b (b'\<lparr>dbase := db\<rparr>)"
  unfolding kept_def using only_trans [OF _ only_outside(2)] by auto

lemma std_async_kept:
  assumes "std_async S l i i tsk t1 t2 (upd_trans i f b) = Inr b'" and "find_obj i b = Some t"
    and "tr_parent (f (currTrans t)) = Some i"
  shows "kept i t b b'"
proof -
  have f: "find_obj i (upd_trans i f b) = Some (t\<lparr>currTrans := f (currTrans t)\<rparr>)"
    using assms(2) by simp
  from std_async_only [OF assms(1) f] assms(3) only_trans [OF only_upd_trans]
  show ?thesis unfolding kept_def by fastforce
qed

lemma deref_own:
  assumes "find_obj i b = Some t" and "tr_parent (currTrans t) = Some i"
  shows "deref i b = Inr t" "deref_parent (currTrans t) b = Inr t" "obj_id t = i"
  using assms by (simp_all add: deref_def deref_parent_def find_obj_id)

lemma handleWriteTransactions_own:
  fixes S :: "'db env" and l t1 t2
  assumes "find_obj i b = Some t" and "tr_parent (currTrans t) = Some i"
  defines "go \<equiv> \<lambda>d b. std_async S l i i (WriteTask d) t1 t2
    (upd_trans i (\<lambda>tr. tr\<lparr>batmanTrans := False, writeTransaction := True\<rparr>) b)"
  shows "handleWriteTransactions S l t1 t2 i b =
    (if tr_type (currTrans t) = TRANS_SEND_LOCAL_DB then go (bytes_of (local_db S)) b
     else if tr_type (currTrans t) = TRANS_SEND_LOCAL_DB_HASH then go (hash_data (local_db S)) b
     else if tr_type (currTrans t) = TRANS_SEND_TAB_UNRECVD_MATCHES then
       case unrecvd_loop S 0 (tabletMatches t) (e_open S (dbase b)) [] of
         None \<Rightarrow> Inl Undefined
       | Some (unrecvd, m) \<Rightarrow>
           then_do (go (bytes_of (comma_list unrecvd)) (b\<lparr>dbase := server m\<rparr>)) (\<lambda>b1.
             Inr (b1\<lparr>dbase := server (mysql_close_slow_part (e_srv S) m)\<rparr>))
     else Inr b)"
proof -
  have d: "deref_parent (currTrans t) (b\<lparr>dbase := x\<rparr>) = Inr t" for x
    using assms(1,2) by (simp add: deref_def deref_parent_def)
  show ?thesis
    unfolding handleWriteTransactions_def go_def deref_own [OF assms(1,2)] then_do_simps Let_def
      d deref_own(3) [OF assms(1,2)] ..
qed

lemma initReadyTransaction_own:
  assumes "find_obj i b = Some t" and "tr_parent (currTrans t) = Some i"
  defines "failed \<equiv> \<lambda>tr :: TABTRANSACTION. tr\<lparr>tr_success := False, batmanTrans := True, writeTransaction := False\<rparr>"
  shows "initReadyTransaction S l t1 t2 i b =
    (if tr_type (currTrans t) = TRANS_SOCKET_ERROR then
       case sendNack (e_malloc S) (net b (tab_socket t)) of
         None \<Rightarrow> Inl Waits
       | Some (_, s') \<Rightarrow>
           Inr (sockSuicide t (upd_trans i failed (b\<lparr>net := (net b)(tab_socket t := s')\<rparr>)))
     else if tr_type (currTrans t) = TRANS_CLOSE_SOCKET then Inr (sockSuicide t (upd_trans i failed b))
     else if writeTransaction (currTrans t) then handleWriteTransactions S l t1 t2 i b
     else std_async S l i i ReadTask t1 t2
       (upd_trans i (\<lambda>tr. tr\<lparr>tr_success := True, batmanTrans := False\<rparr>) b))"
  unfolding initReadyTransaction_def failed_def deref_own [OF assms(1,2)] then_do_simps Let_def ..

lemma handleWriteTransactions_kept:
  assumes "handleWriteTransactions S l t1 t2 i b = Inr b'" and "find_obj i b = Some t"
    and "tr_parent (currTrans t) = Some i" and "writeTransaction (currTrans t)"
  shows "kept i t b b'"
proof -
  let ?f = "\<lambda>tr :: TABTRANSACTION. tr\<lparr>batmanTrans := False, writeTransaction := True\<rparr>"
  have p: "tr_parent (?f (currTrans t)) = Some i" using assms(3) by simp
  note run = assms(1) [unfolded handleWriteTransactions_own [OF assms(2,3)]]
  show ?thesis
  proof (cases "tr_type (currTrans t) = TRANS_SEND_LOCAL_DB \<or> tr_type (currTrans t) = TRANS_SEND_LOCAL_DB_HASH")
    case True
    then obtain d where "std_async S l i i (WriteTask d) t1 t2 (upd_trans i ?f b) = Inr b'"
      using run by (cases "tr_type (currTrans t) = TRANS_SEND_LOCAL_DB") auto
    from std_async_kept [OF this assms(2) p] show ?thesis .
  next
    case False
    show ?thesis
    proof (cases "tr_type (currTrans t) = TRANS_SEND_TAB_UNRECVD_MATCHES")
      case True
      with False run obtain us m b1 where
        async: "std_async S l i i (WriteTask (bytes_of (comma_list us))) t1 t2
           (upd_trans i ?f (b\<lparr>dbase := server m\<rparr>)) = Inr b1"
        and b': "b' = b1\<lparr>dbase := server (mysql_close_slow_part (e_srv S) m)\<rparr>"
        by (cases "unrecvd_loop S 0 (tabletMatches t) (e_open S (dbase b)) []") (auto simp: then_do_Inr)
      have "find_obj i (b\<lparr>dbase := server m\<rparr>) = Some t" using assms(2) by simp
      from std_async_kept [OF async this p] have "kept i t (b\<lparr>dbase := server m\<rparr>) b1" .
      from kept_database [OF kept_after [OF only_outside(2) this]] b' show ?thesis by simp
    next
      case no: False
      with False run have "b' = b" by simp
      with assms show ?thesis by (simp add: kept_def only_refl)
    qed
  qed
qed

lemma initReadyTransaction_kept:
  assumes "initReadyTransaction S l t1 t2 i b = Inr b'" and "find_obj i b = Some t"
    and "tr_parent (currTrans t) = Some i"
  shows "kept i t b b'"
proof -
  let ?fail = "\<lambda>tr :: TABTRANSACTION. tr\<lparr>tr_success := False, batmanTrans := True, writeTransaction := False\<rparr>"
  have fail: "kept i t b (sockSuicide t (upd_trans i ?fail (b\<lparr>net := n\<rparr>)))" for n
    using only_trans [OF only_trans [OF only_outside(1) only_upd_trans] only_outside(4)] assms(2,3)
    by (simp add: kept_def)
  note run = assms(1) [unfolded initReadyTransaction_own [OF assms(2,3)]]
  show ?thesis
  proof (cases "tr_type (currTrans t) = TRANS_SOCKET_ERROR")
    case True
    with run fail show ?thesis by (auto split: option.split_asm)
  next
    case no_error: False
    show ?thesis
    proof (cases "tr_type (currTrans t) = TRANS_CLOSE_SOCKET")
      case True
      with run no_error fail [of "net b"] show ?thesis by simp
    next
      case no_close: False
      show ?thesis
      proof (cases "writeTransaction (currTrans t)")
        case True
        with run no_error no_close have "handleWriteTransactions S l t1 t2 i b = Inr b'" by simp
        from handleWriteTransactions_kept [OF this assms(2,3) True] show ?thesis .
      next
        case False
        with run no_error no_close std_async_kept [OF _ assms(2)] assms(3) show ?thesis by simp
      qed
    qed
  qed
qed

text \<open>Handling a result uses the future up or leaves it.\<close>

lemma handleTransResult_kept:
  assumes "handleTransResult S t1 t2 i b = Inr b'" and "find_obj i b = Some t"
    and "tr_parent (currTrans t) = Some i"
    and "writeTransaction (currTrans t) \<or> own_future i (tr_data (currTrans t))"
  shows "only i b b' \<and> (\<exists>t'. find_obj i b' = Some t' \<and> tr_parent (currTrans t') = Some i \<and>
    transactionState t' = transactionState t \<and>
    (tr_data (currTrans t') = tr_data (currTrans t) \<or> tr_data (currTrans t') = NoState))"
proof (cases "b' = b")
  case True
  with assms show ?thesis by (auto simp: only_refl)
next
  case False
  note run = assms(1) [unfolded handleTransResult_def deref_own [OF assms(2,3)] then_do_simps Let_def]
  have read: "\<not> writeTransaction (currTrans t)" using run False by auto
  with assms(4) have "own_future i (tr_data (currTrans t))" by simp
  note get = fut_get_only [OF _ assms(2) this]
  have done_: ?thesis if g: "fut_get S i t1 t2 b = Inr (r, b1)" and o1: "only i b1 b'"
    and f: "\<And>t1. find_obj i b1 = Some t1 \<Longrightarrow> \<exists>t'. find_obj i b' = Some t' \<and>
      currTrans t' = currTrans t1 \<and> transactionState t' = transactionState t1" for r b1
  proof -
    from get [OF g] obtain ok where "only i b b1"
      and b1: "find_obj i b1 = Some (t\<lparr>currTrans := (currTrans t)\<lparr>tr_success := ok, tr_data := NoState\<rparr>\<rparr>)"
      by blast
    with o1 have "only i b b'" using only_trans by blast
    moreover from f [OF b1] assms(3) obtain t' where "find_obj i b' = Some t'"
      "tr_parent (currTrans t') = Some i" "transactionState t' = transactionState t"
      "tr_data (currTrans t') = NoState" by auto
    ultimately show ?thesis by blast
  qed
  have par: "tr_parent (currTrans t1) = Some i" if "fut_get S i t1' t2' b = Inr (r, b1)"
      "find_obj i b1 = Some t1" for r b1 t1 t1' t2'
    using fut_get_only(2) [OF that(1) assms(2) \<open>own_future i (tr_data (currTrans t))\<close>] that(2) assms(3)
    by auto
  show ?thesis
  proof (cases "tr_type (currTrans t) = TRANS_RECV_MATCH")
    case True
    with run read obtain r b1 x t1' where g: "fut_get S i t1 t2 b = Inr (r, b1)" "opt_value r = Inr x"
        "deref i b1 = Inr t1'"
      by (auto simp: then_do_Inr)
    with run read True have "b' = b1 \<or> (\<exists>ts db. b' = b1\<lparr>bt_toasts := ts, dbase := db\<rparr>)"
      by (auto split: if_splits option.splits)
    with only_trans [OF only_outside(3) only_outside(2)] only_refl have "only i b1 b'"
      and "\<And>t1. find_obj i b1 = Some t1 \<Longrightarrow> find_obj i b' = Some t1"
      by auto
    with done_ [OF g(1)] show ?thesis by auto
  next
    case no_match: False
    show ?thesis
    proof (cases "tr_type (currTrans t) = TRANS_RECV_TABLET_INFO")
      case True
      with run read no_match obtain r b1 t1' where g: "fut_get S i t1 t2 b = Inr (r, b1)" "deref i b1 = Inr t1'"
        by (auto simp: then_do_Inr)
      then have f1: "find_obj i b1 = Some t1'" by (simp add: deref_Inr)
      from run read no_match True g deref_own [OF f1 par [OF g(1) f1]]
      have "b' = b1 \<or> (\<exists>n. b' = upd_obj i (\<lambda>o'. o'\<lparr>tabScoutingName := n\<rparr>) b1)"
        by (auto split: if_splits option.splits)
      with f1 have "only i b1 b'" and "\<exists>t'. find_obj i b' = Some t' \<and>
          currTrans t' = currTrans t1' \<and> transactionState t' = transactionState t1'"
        by (auto simp: only_refl find_upd_obj intro!: only_upd_obj)
      with done_ [OF g(1)] f1 show ?thesis by auto
    next
      case no_info: False
      have "tr_type (currTrans t) = TRANS_RECV_TAB_MATCH_LIST"
        using run read no_match no_info False by (auto split: if_splits)
      with run read no_match no_info obtain r b1 x ms where g: "fut_get S i t1 t2 b = Inr (r, b1)"
          "b' = upd_obj i (\<lambda>o'. o'\<lparr>tabletMatches := tabletMatches o' @ ms\<rparr>) b1"
        by (auto simp: then_do_Inr)
      then have "only i b1 b'" by (simp add: only_upd_obj)
      with done_ [OF g(1)] g(2) show ?thesis by (auto simp: find_upd_obj)
    qed
  qed
qed

section \<open>Match lists\<close>

lemma unat_u64: "n < 2 ^ 64 \<Longrightarrow> unat (word_of_nat n :: u64) = n"
  by (simp add: unat_of_nat take_bit_nat_eq_self)

lemma find_index_None: "find_index c s = None \<longleftrightarrow> c \<notin> set s"
  by (induction s) auto

lemma find_index_bound: "find_index c s = Some k \<Longrightarrow> k < length s"
  by (induction s arbitrary: k) (auto split: if_splits)

lemma find_index_append: "c \<notin> set s \<Longrightarrow> find_index c (s @ c # s') = Some (length s)"
  by (induction s) auto

lemma unat_minus_one_u64: "unat (- 1 :: u64) = 2 ^ 64 - 1"
  by (simp add: unat_eq_nat_uint unsigned_minus_1_eq_mask mask_eq_exp_minus_1)

text \<open>A search starts inside the text or at the wrapped position 0; the position after what it
  finds is inside the text again.\<close>

lemma str_find_next:
  assumes "length s < 2 ^ 64"
  shows "unat (str_find c s pos + 1) \<le> length s"
proof (cases "length s < unat pos")
  case True
  then show ?thesis by (simp add: str_find_def npos_def)
next
  case False
  show ?thesis
  proof (cases "find_index c (drop (unat pos) s)")
    case None
    with False show ?thesis by (simp add: str_find_def npos_def)
  next
    case (Some k)
    then have k: "unat pos + k < length s"
      using find_index_bound [OF Some] by simp
    have "pos + word_of_nat k + 1 = (word_of_nat (unat pos + Suc k) :: u64)"
      by simp
    moreover have "unat (word_of_nat (unat pos + Suc k) :: u64) = unat pos + Suc k"
      using k assms by (intro unat_u64) simp
    ultimately show ?thesis using Some False k by (simp add: str_find_def ac_simps)
  qed
qed

lemma parse_match_line_total:
  assumes "length l < 2 ^ 64"
  shows "\<exists>m. parse_match_line l = Inr m"
  using str_find_next [OF assms, of "CHR '';''" 0]
    str_find_next [OF assms, of "CHR '';''" "str_find CHR '';'' l 0 + 1"]
  by (simp add: parse_match_line_def Let_def substr_def)

lemma str_find_at:
  assumes "c \<notin> set s" and "length p + length s < 2 ^ 64"
  shows "str_find c (p @ s @ c # r) (word_of_nat (length p)) = word_of_nat (length p + length s)"
proof -
  have "unat (word_of_nat (length p) :: u64) = length p"
    using assms(2) by (intro unat_u64) simp
  with find_index_append [OF assms(1), of r] show ?thesis by (simp add: str_find_def)
qed

lemma parse_match_line_fields:
  assumes "CHR '';'' \<notin> set c" and "CHR '';'' \<notin> set t"
    and "length c + length t + length m + 2 < 2 ^ 64"
  shows "parse_match_line (c @ CHR '';'' # t @ CHR '';'' # m) =
    Inr \<lparr>mi_comp = c, mi_team = t, mi_match = m\<rparr>"
proof -
  let ?l = "c @ CHR '';'' # t @ CHR '';'' # m"
  have 1: "str_find CHR '';'' ?l 0 = word_of_nat (length c)"
    using str_find_at [OF assms(1), of "[]" "t @ CHR '';'' # m"] assms(3) by simp
  have 2: "str_find CHR '';'' ?l (word_of_nat (Suc (length c))) = word_of_nat (Suc (length c) + length t)"
    using str_find_at [OF assms(2), of "c @ [CHR '';'']" m] assms(3) by simp
  have u: "unat (word_of_nat (length c) :: u64) = length c"
      "unat (word_of_nat (Suc (length c)) :: u64) = Suc (length c)"
      "unat (word_of_nat (Suc (Suc (length c + length t))) :: u64) = Suc (Suc (length c + length t))"
      "unat (word_of_nat (length t) :: u64) = length t"
    using assms(3) by (intro unat_u64; simp)+
  have d: "word_of_nat (Suc (length c) + length t) - word_of_nat (length c) - 1 = (word_of_nat (length t) :: u64)"
    by simp
  have n: "length m \<le> unat npos"
  proof -
    have "unat npos = 2 ^ 64 - 1" by (simp only: npos_def) (rule unat_minus_one_u64)
    with assms(3) show ?thesis by linarith
  qed
  have s1: "substr ?l 0 (word_of_nat (length c)) = Inr c"
    by (simp only: substr_def u(1) unat_0) simp
  have s2: "substr ?l (word_of_nat (Suc (length c))) (word_of_nat (length t)) = Inr t"
    by (simp only: substr_def u(2,4)) simp
  have s3: "substr ?l (word_of_nat (Suc (Suc (length c + length t)))) npos = Inr m"
    using n by (simp only: substr_def u(3)) simp
  have w: "word_of_nat (length c) + 1 = (word_of_nat (Suc (length c)) :: u64)"
      "word_of_nat (Suc (length c) + length t) + 1 = (word_of_nat (Suc (Suc (length c + length t))) :: u64)"
    by simp_all
  show ?thesis
    by (simp only: parse_match_line_def Let_def 1 w 2 d s1 s2 s3 then_do_simps)
qed

lemma getlines_line:
  "CHR 0x0A \<notin> set l \<Longrightarrow> getlines (l @ CHR 0x0A # rest) = l # getlines rest"
proof (subst getlines.simps)
  assume "CHR 0x0A \<notin> set l"
  then have "\<And>x. x \<in> set l \<Longrightarrow> x \<noteq> CHR 0x0A" by auto
  then show "(if l @ CHR 0x0A # rest = [] then []
      else takeWhile (\<lambda>c. c \<noteq> CHR 0x0A) (l @ CHR 0x0A # rest) #
        getlines (tl (dropWhile (\<lambda>c. c \<noteq> CHR 0x0A) (l @ CHR 0x0A # rest)))) = l # getlines rest"
    by (simp add: takeWhile_append2 dropWhile_append2)
qed

definition enc_match_line :: "MatchIdentifier \<Rightarrow> string" where
  "enc_match_line m = mi_comp m @ CHR '';'' # mi_team m @ CHR '';'' # mi_match m @ [CHR 0x0A]"

lemma enc_match_line_parse:
  assumes "CHR '';'' \<notin> set (mi_comp m)" and "CHR '';'' \<notin> set (mi_team m)"
    and "length (mi_comp m) + length (mi_team m) + length (mi_match m) + 2 < 2 ^ 64"
  shows "parse_match_line (mi_comp m @ CHR '';'' # mi_team m @ CHR '';'' # mi_match m) = Inr m"
  using parse_match_line_fields [OF assms] by simp

definition plain_match :: "MatchIdentifier \<Rightarrow> bool" where
  "plain_match m \<longleftrightarrow>
     CHR '';'' \<notin> set (mi_comp m) \<and> CHR '';'' \<notin> set (mi_team m) \<and>
     CHR 0x0A \<notin> set (mi_comp m @ mi_team m @ mi_match m) \<and>
     length (mi_comp m) + length (mi_team m) + length (mi_match m) + 2 < 2 ^ 64"

lemma getlines_enc:
  assumes "plain_match m"
  shows "getlines (enc_match_line m @ rest) =
    (mi_comp m @ CHR '';'' # mi_team m @ CHR '';'' # mi_match m) # getlines rest"
  using getlines_line [of "mi_comp m @ CHR '';'' # mi_team m @ CHR '';'' # mi_match m" rest] assms
  by (auto simp: plain_match_def enc_match_line_def)

text \<open>
  C24. Round trip of a match list. The lines of any list of matches whose names contain no newline
  and whose first two fields contain no semicolon (the third may) are read back as exactly that
  list, through the 64-bit positions of \<open>find\<close> and \<open>substr\<close>.
\<close>

theorem match_list_roundtrip:
  assumes "\<forall>m\<in>set ms. plain_match m"
  shows "parse_match_lines (getlines (concat (map enc_match_line ms))) = Inr ms"
  using assms
proof (induction ms)
  case Nil
  then show ?case by (simp add: getlines.simps)
next
  case (Cons m ms)
  then have "plain_match m" by simp
  with Cons show ?case
    by (simp add: getlines_enc enc_match_line_parse plain_match_def)
qed

lemma match_list_roundtrip_witness:
  "parse_match_lines (getlines (''txda;1138;qm;7'' @ [CHR 0x0A])) =
     Inr [\<lparr>mi_comp = ''txda'', mi_team = ''1138'', mi_match = ''qm;7''\<rparr>]"
  using match_list_roundtrip [of "[\<lparr>mi_comp = ''txda'', mi_team = ''1138'', mi_match = ''qm;7''\<rparr>]"]
  by (simp add: plain_match_def enc_match_line_def)

text \<open>
  C29. Reading a match list never throws: \<open>substr\<close> is never asked for a position beyond the end of a
  line, because the position after a missing semicolon wraps to 0. Every line gives one entry,
  whatever it holds.
\<close>

theorem match_lines_never_throw:
  assumes "\<forall>l\<in>set ls. length l < 2 ^ 64"
  shows "\<exists>ms. parse_match_lines ls = Inr ms \<and> length ms = length ls"
  using assms
proof (induction ls)
  case Nil
  then show ?case by simp
next
  case (Cons l ls)
  then obtain m ms where "parse_match_line l = Inr m" "parse_match_lines ls = Inr ms" "length ms = length ls"
    using parse_match_line_total [of l] by auto
  then show ?case by simp
qed

lemma match_lines_never_throw_witness:
  "\<exists>ms. parse_match_lines (getlines ''no semicolon'') = Inr ms \<and> length ms = 1"
proof -
  have "getlines ''no semicolon'' = [''no semicolon'']" by (simp add: getlines.simps)
  with match_lines_never_throw [of "getlines ''no semicolon''"] show ?thesis by simp
qed

end
