(* ===== verification/Db_Statements.thy ===== *)
theory Db_Statements
  imports Db_Query
begin

text \<open>
  Statements that return no rows, over the client of \<open>mariadb_lib.c\<close>: what the answers OK and ERR
  leave of the connection, and what a run of statements of \<open>DatabaseMan.hpp\<close> does to the server.
\<close>

section \<open>The answers\<close>

definition enc_ok :: "nat \<Rightarrow> nat \<Rightarrow> nat \<Rightarrow> byte list" where
  "enc_ok affected ins st =
     0 # mysql_net_store_length affected @ mysql_net_store_length ins @ le_store 2 st @ le_store 2 0"

definition enc_err :: "nat \<Rightarrow> byte list \<Rightarrow> byte list" where
  "enc_err code msg = 255 # le_store 2 code @ msg"

lemma net_field_length_ll_store:
  assumes "n < 2 ^ 64"
  shows "net_field_length_ll (mysql_net_store_length n @ r) = Some (word_of_nat n, r)"
proof -
  consider "n < 251" | "\<not> n < 251" "n < 65536" | "\<not> n < 65536" "n < 16777216" | "\<not> n < 16777216"
    by linarith
  then show ?thesis
  proof cases
    case 1
    then have "(word_of_nat n :: byte) < 251" by (simp add: word_less_nat_alt unat_of_nat)
    moreover have "ucast (word_of_nat n :: byte) = (word_of_nat n :: u64)"
      using 1 by (simp add: unsigned_of_nat take_bit_nat_eq_self)
    ultimately show ?thesis using 1 by (simp add: mysql_net_store_length_def)
  next
    case 2
    then show ?thesis using le_load_stored [of n 2 r] by (simp add: mysql_net_store_length_def)
  next
    case 3
    then show ?thesis using le_load_stored [of n 3 r] by (simp add: mysql_net_store_length_def)
  next
    case 4
    then show ?thesis using le_load_stored [of n 8 r] assms by (simp add: mysql_net_store_length_def)
  qed
qed

text \<open>An answer without rows to a statement; the server keeps telling whether backslashes escape.\<close>

definition plain_reply :: "bool \<Rightarrow> byte list list \<Rightarrow> bool" where
  "plain_reply nbs ps \<longleftrightarrow>
     (\<exists>affected ins st. ps = [enc_ok affected ins st] \<and> affected < 2 ^ 64 \<and> ins < 2 ^ 64 \<and>
        st < 65536 \<and> \<not> bit st 3 \<and> bit st 9 = nbs) \<or>
     (\<exists>code msg. ps = [enc_err code msg] \<and> code < 65535 \<and> msg \<noteq> [])"

section \<open>One statement\<close>

lemma send_plain:
  assumes "conn_ready m" and "srv (COM_QUERY # arg) (server m) = (ps, db)"
  shows "mthd_my_send_cmd srv COM_QUERY arg (free_old_query m) =
    (False, (free_old_query m)\<lparr>my_errno := 0, affected_rows := - 1, server := db, incoming := ps\<rparr>)"
  using assms by (simp add: mthd_my_send_cmd_def transmit_def conn_ready_def free_old_query_def)

lemma read_ok_packet_enc:
  assumes "a < 2 ^ 64" and "i < 2 ^ 64" and "st < 65536"
  shows "read_ok_packet (mysql_net_store_length a @ mysql_net_store_length i @ le_store 2 st @ le_store 2 0 @ [0]) m =
    Some (m\<lparr>affected_rows := word_of_nat a, insert_id := word_of_nat i, server_status := st, warning_count := 0\<rparr>)"
  using assms le_load_stored [of st 2 "le_store 2 0 @ [0]"]
  by (simp add: read_ok_packet_def net_field_length_ll_store le_load_store)

lemma mysql_query_ok:
  fixes m :: "'db MYSQL"
  assumes "conn_ready m" and "srv (COM_QUERY # cstr q) (server m) = ([enc_ok a i st], db)"
    and "a < 2 ^ 64" and "i < 2 ^ 64" and "st < 65536" and "\<not> bit st 3"
  shows "\<exists>m'. mysql_query srv q m = Some (False, m') \<and> conn_ready m' \<and> mfields m' = None \<and>
    server m' = db \<and> server_status m' = st \<and> affected_rows m' = word_of_nat a"
proof -
  let ?p = "enc_ok a i st"
  let ?m1 = "(free_old_query m)\<lparr>my_errno := 0, affected_rows := - 1, server := db, incoming := [?p]\<rparr>"
  have rd: "ma_net_safe_read ?m1 = (Some ?p, ?m1\<lparr>incoming := []\<rparr>)"
    using assms(1)
    by (intro ma_net_safe_read_packet) (simp_all add: enc_ok_def conn_ready_def free_old_query_def)
  have "net_field_length (?p @ [0]) = Some (0, mysql_net_store_length a @ mysql_net_store_length i @
      le_store 2 st @ le_store 2 0 @ [0])"
    by (simp add: enc_ok_def)
  then have "mysql_query srv q m = Some (False, (free_old_query (?m1\<lparr>incoming := []\<rparr>))
      \<lparr>affected_rows := word_of_nat a, insert_id := word_of_nat i, server_status := st, warning_count := 0\<rparr>)"
    using send_plain [of m srv "cstr q", OF assms(1,2)] read_ok_packet_enc [OF assms(3-5)]
    by (simp add: mysql_query_def mthd_my_read_query_result_def rd Let_def)
  then show ?thesis using assms(1,6) by (simp add: conn_ready_def free_old_query_def)
qed

lemma mysql_query_err:
  fixes m :: "'db MYSQL"
  assumes "conn_ready m" and "srv (COM_QUERY # cstr q) (server m) = ([enc_err code msg], db)"
    and "code < 65535" and "msg \<noteq> []"
  shows "\<exists>m'. mysql_query srv q m = Some (True, m') \<and> conn_ready m' \<and> server m' = db \<and>
    bit (server_status m') 9 = bit (server_status m) 9 \<and> my_errno m' = code"
proof -
  let ?m1 = "(free_old_query m)\<lparr>my_errno := 0, affected_rows := - 1, server := db, incoming := [enc_err code msg]\<rparr>"
  have "le_load (take 2 (le_store 2 code @ msg)) = code" using assms(3) by (intro le_load_stored) simp
  moreover have "0 < length msg" using assms(4) by simp
  ultimately have "ma_net_safe_read ?m1 =
      (None, ?m1\<lparr>incoming := [], server_status := unset_bit 3 (server_status m), my_errno := code\<rparr>)"
    using assms(1,3) by (simp add: ma_net_safe_read_def enc_err_def conn_ready_def free_old_query_def Let_def)
  then have "mysql_query srv q m =
      Some (True, ?m1\<lparr>incoming := [], server_status := unset_bit 3 (server_status m), my_errno := code\<rparr>)"
    using send_plain [of m srv "cstr q", OF assms(1,2)]
    by (simp add: mysql_query_def mthd_my_read_query_result_def)
  then show ?thesis using assms(1) by (simp add: conn_ready_def free_old_query_def bit_unset_bit_iff)
qed

lemma query_plain:
  fixes m :: "'db MYSQL"
  assumes "conn_ready m" and "build_query cset (no_backslash_escapes m) st args = Some q"
    and "srv (COM_QUERY # cstr q) (server m) = (ps, db)" and "plain_reply (no_backslash_escapes m) ps"
  shows "\<exists>m'. Database_query srv cset st args m = Some ([], m') \<and> conn_ready m' \<and> server m' = db \<and>
    no_backslash_escapes m' = no_backslash_escapes m"
  using assms(4) unfolding plain_reply_def
proof (elim disjE exE conjE)
  fix a i s assume "ps = [enc_ok a i s]" "a < 2 ^ 64" "i < 2 ^ 64" "s < 65536" "\<not> bit s 3"
    and nbs: "bit s 9 = no_backslash_escapes m"
  then obtain m' where "mysql_query srv q m = Some (False, m')" "conn_ready m'" "mfields m' = None"
    "server m' = db" "server_status m' = s"
    using mysql_query_ok [OF assms(1), of srv q a i s db] assms(3) by auto
  with nbs show ?thesis using assms(2)
    by (simp add: Database_query_def mysql_use_result_def mysql_free_result_def no_backslash_escapes_def)
next
  fix code msg assume "ps = [enc_err code msg]" "code < 65535" "msg \<noteq> []"
  then obtain m' where "mysql_query srv q m = Some (True, m')" "conn_ready m'" "server m' = db"
    "bit (server_status m') 9 = bit (server_status m) 9"
    using mysql_query_err [OF assms(1), of srv q code msg db] assms(3) by auto
  then show ?thesis using assms(2) by (simp add: Database_query_def no_backslash_escapes_def)
qed

section \<open>A run of statements\<close>

text \<open>What the server becomes when it takes statements one after the other.\<close>

definition after_statements :: "'db srv \<Rightarrow> byte list list \<Rightarrow> 'db \<Rightarrow> 'db" where
  "after_statements srv qs db = foldl (\<lambda>db q. snd (srv (COM_QUERY # cstr q) db)) db qs"

lemma after_statements_simps [simp]:
  "after_statements srv [] db = db"
  "after_statements srv (q # qs) db = after_statements srv qs (snd (srv (COM_QUERY # cstr q) db))"
  "after_statements srv (qs @ qs') db = after_statements srv qs' (after_statements srv qs db)"
  by (simp_all add: after_statements_def)

text \<open>A statement with the arguments of \<open>run_queries\<close>.\<close>

definition filled :: "MARIADB_CHARSET_INFO \<Rightarrow> bool \<Rightarrow> byte list \<Rightarrow> string list \<Rightarrow> byte list option" where
  "filled cset nbs st as = build_query cset nbs st (map (\<lambda>a. Some (cstr (bytes_of a))) as)"

lemma run_queries_plain:
  fixes m :: "'db MYSQL"
  assumes "conn_ready m"
    and "list_all2 (\<lambda>as q. filled cset (no_backslash_escapes m) st as = Some q) ass qs"
    and "\<And>q db. plain_reply (no_backslash_escapes m) (fst (srv (COM_QUERY # q) db))"
  shows "\<exists>m'. run_queries srv cset st ass m = Some m' \<and> conn_ready m' \<and>
    server m' = after_statements srv qs (server m) \<and> no_backslash_escapes m' = no_backslash_escapes m"
  using assms
proof (induction ass arbitrary: m qs)
  case Nil
  then show ?case by simp
next
  case (Cons as ass)
  from Cons.prems(2) obtain q qs' where qs: "qs = q # qs'"
    and q: "build_query cset (no_backslash_escapes m) st (map (\<lambda>a. Some (cstr (bytes_of a))) as) = Some q"
    and rest: "list_all2 (\<lambda>as q. filled cset (no_backslash_escapes m) st as = Some q) ass qs'"
    by (auto simp: list_all2_Cons1 filled_def)
  obtain m1 where m1: "Database_query srv cset st (map (\<lambda>a. Some (cstr (bytes_of a))) as) m = Some ([], m1)"
    "conn_ready m1" "server m1 = snd (srv (COM_QUERY # cstr q) (server m))"
    "no_backslash_escapes m1 = no_backslash_escapes m"
    using query_plain [where srv = srv, OF Cons.prems(1) q prod.collapse [symmetric] Cons.prems(3)] by blast
  with Cons.IH [of m1 qs'] Cons.prems(3) rest show ?case by (simp add: qs)
qed

section \<open>Properties\<close>

text \<open>
  The data points of a match reach the database in order, one INSERT each, whatever the server
  answers: on a connection that is free, with a server that answers every statement with OK or with
  an error, \<open>addMatchDatapoints\<close> comes to an end with the connection free, and the server has
  taken exactly the statements filled in with the data points, one after the other. An error stops
  nothing and is not reported.
\<close>

theorem datapoints_inserted_in_order:
  fixes m :: "'db MYSQL"
  assumes "conn_ready m"
    and "list_all2 (\<lambda>d q. filled cset (no_backslash_escapes m) (bytes_of insert_matchtransaction) (match_args d) = Some q)
      ds qs"
    and "\<And>q db. plain_reply (no_backslash_escapes m) (fst (srv (COM_QUERY # q) db))"
  shows "\<exists>m'. addMatchDatapoints srv cset ds m = Some m' \<and> conn_ready m' \<and>
    server m' = after_statements srv qs (server m)"
proof (cases "ds = []")
  case True
  with assms show ?thesis by (simp add: addMatchDatapoints_def)
next
  case False
  have "list_all2 (\<lambda>as q. filled cset (no_backslash_escapes m) (bytes_of insert_matchtransaction) as = Some q)
      (map match_args ds) qs"
    using assms(2) by (simp add: list_all2_map1)
  from run_queries_plain [where srv = srv, OF assms(1) this assms(3)] False show ?thesis
    by (auto simp: addMatchDatapoints_def)
qed

text \<open>A server that keeps the statements it takes, and refuses the ones that are short.\<close>

definition log_srv :: "byte list list srv" where
  "log_srv q db = ([if length q < 5 then enc_err 1064 [35] else enc_ok 1 0 2], db @ [q])"

definition log_conn :: "byte list list MYSQL" where
  "log_conn = \<lparr>writes = [], incoming = [], server = [], connected = True, progress = False,
     status = MYSQL_STATUS_READY, mfields = None, field_count = 0, server_status = 2,
     warning_count = 0, affected_rows = 0, insert_id = 0, my_errno = 0\<rparr>"

lemma log_srv_plain: "plain_reply (no_backslash_escapes log_conn) (fst (log_srv q db))"
proof (cases "length q < 5")
  case True
  then show ?thesis by (auto simp: plain_reply_def log_srv_def enc_err_def)
next
  case False
  have "\<not> bit (2 :: nat) 3" "bit (2 :: nat) 9 = no_backslash_escapes log_conn" by code_simp+
  then have "plain_reply (no_backslash_escapes log_conn) [enc_ok 1 0 2]"
    unfolding plain_reply_def by (intro disjI1 exI conjI) (rule refl | simp)+
  with False show ?thesis by (simp add: log_srv_def)
qed

definition example_datapoint :: MATCH_DATAPOINT where
  "example_datapoint = \<lparr>ScouterID = ''7'', MatchID = ''qm1'', TeamID = ''1138'', DatapointID = ''4'',
     DatapointValue = ''it'' @ [CHR 0x27] @ ''s'', DatapointTimestamp = ''9'', AllianceID = ''1'', CompID = ''ca''\<rparr>"

lemma example_filled:
  "filled (mariadb_compiled_charsets ! 5) (no_backslash_escapes log_conn) (bytes_of insert_matchtransaction)
     (match_args example_datapoint) =
   Some (bytes_of (''insert into matchtransaction (UploadID, CompID, MatchID, DatapointID, ScouterID, TeamID, AllianceID, DatapointValue, DatapointTimestamp) values(0,'' @
     [CHR 0x27] @ ''ca'' @ [CHR 0x27] @ '','' @ [CHR 0x27] @ ''qm1'' @ [CHR 0x27] @ '',4,7,1138,1,'' @
     [CHR 0x27] @ ''it'' @ [CHR 0x5C, CHR 0x27] @ ''s'' @ [CHR 0x27] @ '',9)''))"
  by code_simp

lemma datapoints_inserted_in_order_witness:
  "\<exists>m' q. filled (mariadb_compiled_charsets ! 5) (no_backslash_escapes log_conn)
      (bytes_of insert_matchtransaction) (match_args example_datapoint) = Some q \<and>
    addMatchDatapoints log_srv (mariadb_compiled_charsets ! 5) [example_datapoint, example_datapoint] log_conn = Some m' \<and>
    server m' = [COM_QUERY # cstr q, COM_QUERY # cstr q]"
proof -
  obtain q where q: "filled (mariadb_compiled_charsets ! 5) (no_backslash_escapes log_conn)
      (bytes_of insert_matchtransaction) (match_args example_datapoint) = Some q"
    unfolding example_filled by blast
  have "conn_ready log_conn" by code_simp
  from datapoints_inserted_in_order [where srv = log_srv and cset = "mariadb_compiled_charsets ! 5"
      and ds = "[example_datapoint, example_datapoint]" and qs = "[q, q]", OF this _ log_srv_plain] q
  show ?thesis by (auto simp: log_srv_def log_conn_def)
qed

end
