(* ===== verification/Rest_Requests.thy ===== *)
theory Rest_Requests
  imports Bt_Conductor Db_Statements
begin

text \<open>
  \<open>restReqHandler.hpp\<close>: requests to The Blue Alliance and to the backend, and the files for the
  tablets that are written from the answers. libcurl is a parameter: whether it can be set up, and
  what a request is answered with, as the chunks its callback is given and the result code.
\<close>

section \<open>The state\<close>

text \<open>What the main program works on: the database, its own connection and the one of the request
  handler, the handler's buffer, the files of the working directory and the toasts.\<close>

record 'db App =
  app_db :: 'db
  main_conn :: "'db MYSQL"
  rest_conn :: "'db MYSQL"
  rest_output :: string
  app_files :: "string \<Rightarrow> string option"
  app_toasts :: "Toast list"

definition on_rest :: "('db MYSQL \<Rightarrow> 'db MYSQL option) \<Rightarrow> 'db App \<Rightarrow> 'db App option" where
  "on_rest f a =
     (case f ((rest_conn a)\<lparr>server := app_db a\<rparr>) of
        None \<Rightarrow> None
      | Some c \<Rightarrow> Some (a\<lparr>rest_conn := c, app_db := server c\<rparr>))"

definition write_file :: "string \<Rightarrow> string \<Rightarrow> 'db App \<Rightarrow> 'db App" where
  "write_file path text a = a\<lparr>app_files := (app_files a)(path \<mapsto> text)\<rparr>"

definition toast :: "string \<Rightarrow> 'db App \<Rightarrow> 'db App" where
  "toast msg a = a\<lparr>app_toasts := app_toasts a @ [mk_Toast msg LENGTH_NORMAL]\<rparr>"

text \<open>Making a parser shows a toast and leaves the text in a log file.\<close>

definition parse_text :: "'db env \<Rightarrow> string \<Rightarrow> 'db App \<Rightarrow> JsonParser \<times> 'db App" where
  "parse_text S text a =
     (let p = mk_JsonParser (e_parse S) text in
      (p, (write_file ''JSONPARSER log.json'' (logFile p) a)\<lparr>app_toasts := app_toasts a @ toasts p\<rparr>))"

section \<open>Requests\<close>

record request =
  rq_url :: string
  rq_header :: string
  rq_post :: "string option"

record curl =
  c_init :: bool
  c_perform :: "request \<Rightarrow> string list \<times> nat"

definition CURLE_OK :: nat where "CURLE_OK = 0"

definition readHandler :: "string \<Rightarrow> 'db App \<Rightarrow> 'db App" where
  "readHandler temp a = a\<lparr>rest_output := rest_output a @ temp\<rparr>"

definition curl_easy_perform :: "curl \<Rightarrow> request \<Rightarrow> 'db App \<Rightarrow> nat \<times> 'db App" where
  "curl_easy_perform C rq a = (snd (c_perform C rq), foldl (\<lambda>a ch. readHandler ch a) a (fst (c_perform C rq)))"

definition first_line :: "string \<Rightarrow> string" where
  "first_line s = takeWhile (\<lambda>c. c \<noteq> CHR 0x0A) s"

definition tba_request :: "string \<Rightarrow> string \<Rightarrow> request" where
  "tba_request key req = \<lparr>rq_url = ''https://www.thebluealliance.com/api/v3/'' @ req,
     rq_header = ''X-TBA-Auth-Key: '' @ key, rq_post = None\<rparr>"

definition makeTBAReq :: "curl \<Rightarrow> string \<Rightarrow> 'db App \<Rightarrow> string \<times> 'db App" where
  "makeTBAReq C req a =
     (let a0 = a\<lparr>rest_output := []\<rparr> in
      if c_init C then
        case app_files a0 ''resources/tbaKey.env'' of
          None \<Rightarrow> ([], a0)
        | Some headerFile \<Rightarrow>
            let (res, a1) = curl_easy_perform C (tba_request (first_line headerFile) req) a0 in
            (rest_output a1, a1)
      else (rest_output a0, a0))"

definition uploadToBackend :: "curl \<Rightarrow> string \<Rightarrow> string \<Rightarrow> 'db App \<Rightarrow> string \<times> 'db App" where
  "uploadToBackend C url dat a =
     (let a0 = a\<lparr>rest_output := []\<rparr> in
      if c_init C then
        case app_files a0 ''resources/backendKey.env'' of
          None \<Rightarrow> ([], a0)
        | Some authKey \<Rightarrow>
            let (result, a1) = curl_easy_perform C
                  \<lparr>rq_url = url, rq_header = ''Auth: '' @ first_line authKey, rq_post = Some dat\<rparr> a0 in
            if result \<noteq> CURLE_OK then ([], a1) else (rest_output a1, a1)
      else (rest_output a0, a0))"

definition getFromBackend :: "curl \<Rightarrow> string \<Rightarrow> 'db App \<Rightarrow> string \<times> 'db App" where
  "getFromBackend C url a = uploadToBackend C url [] a"

section \<open>Teams and matches\<close>

definition getteamdata :: "'db env \<Rightarrow> curl \<Rightarrow> nat \<Rightarrow> 'db App \<Rightarrow> 'db App option" where
  "getteamdata S C page a =
     (let (pageData, a1) = makeTBAReq C (''teams/'' @ dec_of_nat page) a;
          (parser, a2) = parse_text S pageData a1 in
      on_rest (addTeams (e_srv S) (e_cset S) (parseTeams parser)) a2)"

definition deleteteams :: "'db env \<Rightarrow> 'db App \<Rightarrow> 'db App option" where
  "deleteteams S a = on_rest (clearTeams (e_srv S)) a"

definition team_csv :: "TEAM_DATAPOINT list \<Rightarrow> string" where
  "team_csv teamsList =
     dec_of_int (teamNum (hd teamsList)) @ concat (map (\<lambda>t. '','' @ dec_of_int (teamNum t)) (tl teamsList))"

definition getteamsatcomphdata :: "'db env \<Rightarrow> curl \<Rightarrow> string \<Rightarrow> 'db App \<Rightarrow> 'db App" where
  "getteamsatcomphdata S C eventkey a =
     (let (answer, a1) = makeTBAReq C (''event/'' @ eventkey @ ''/teams'') a;
          (teamsParser, a2) = parse_text S answer a1;
          teamsList = parseTeams teamsParser in
      if length teamsList \<ge> 1 then write_file ''resources/csv/teamCompList.csv'' (team_csv teamsList) a2
      else toast ''Invalid Comp ID'' a2)"

definition qual_matches :: "MATCHLIST_DATAPOINT list \<Rightarrow> nat" where
  "qual_matches ms =
     (let qualMatchCount = length (filter (\<lambda>m. compLevel m = ''qm'') ms) in
      if qualMatchCount < 40 then 150 else qualMatchCount)"

definition getMatchData :: "'db env \<Rightarrow> curl \<Rightarrow> string \<Rightarrow> 'db App \<Rightarrow> 'db App" where
  "getMatchData S C eventKey a =
     (let (answer, a1) = makeTBAReq C (''event/'' @ eventKey @ ''/matches/simple'') a;
          (matchListParser, a2) = parse_text S answer a1 in
      write_file ''resources/csv/compMatchNums.csv''
        (dec_of_nat (qual_matches (parseMatchList matchListParser)) @ '',13,3'') a2)"

text \<open>The button of \<open>main.cpp\<close> that updates the event.\<close>

definition tbaDataUpdate :: "'db env \<Rightarrow> curl \<Rightarrow> string \<Rightarrow> 'db App \<Rightarrow> 'db App" where
  "tbaDataUpdate S C event a =
     (let (validateString, a1) = makeTBAReq C (''event/'' @ event @ ''/simple'') a in
      if \<not> (length validateString < 7 \<or> take 5 (drop 5 validateString) = ''Error'')
      then write_file ''resources/csv/compID.csv'' event
             (getteamsatcomphdata S C event (getMatchData S C event a1))
      else toast ''EVENT NAME INVALID'' a1)"

section \<open>What the files hold\<close>

text \<open>The environment of the tablets' exchanges with the files of the program's directory.\<close>

definition with_files :: "'db env \<Rightarrow> 'db App \<Rightarrow> 'db env" where
  "with_files S a = S\<lparr>e_files := \<lambda>f. case app_files a f of None \<Rightarrow> [] | Some s \<Rightarrow> s\<rparr>"

lemma readHandler_chunks:
  "foldl (\<lambda>a ch. readHandler ch a) a chs = a\<lparr>rest_output := rest_output a @ concat chs\<rparr>"
  by (induction chs arbitrary: a) (simp_all add: readHandler_def)

lemma perform_simps:
  "curl_easy_perform C rq a = (snd (c_perform C rq), a\<lparr>rest_output := rest_output a @ concat (fst (c_perform C rq))\<rparr>)"
  by (simp add: curl_easy_perform_def readHandler_chunks)

text \<open>The answer of a request to The Blue Alliance, when its key is there.\<close>

definition tba_answer :: "curl \<Rightarrow> string \<Rightarrow> string \<Rightarrow> string" where
  "tba_answer C key req = concat (fst (c_perform C (tba_request (first_line key) req)))"

lemma makeTBAReq_answer:
  assumes "c_init C" and "app_files a ''resources/tbaKey.env'' = Some key"
  shows "makeTBAReq C req a = (tba_answer C key req, a\<lparr>rest_output := tba_answer C key req\<rparr>)"
  using assms by (simp add: makeTBAReq_def perform_simps Let_def tba_answer_def)

section \<open>Reading the files back\<close>

fun split_on :: "char \<Rightarrow> string \<Rightarrow> string list" where
  "split_on c [] = [[]]"
| "split_on c (x # xs) =
     (if x = c then [] # split_on c xs
      else case split_on c xs of [] \<Rightarrow> [[x]] | w # ws \<Rightarrow> (x # w) # ws)"

lemma split_on_word: "c \<notin> set w \<Longrightarrow> split_on c w = [w]"
  by (induction w) auto

lemma split_on_append: "c \<notin> set w \<Longrightarrow> split_on c (w @ c # r) = w # split_on c r"
  by (induction w) auto

lemma dec_of_int_chars:
  "CHR '','' \<notin> set (dec_of_int n)" "CHR 0x0A \<notin> set (dec_of_int n)"
  "CHR 0x0A \<notin> set (dec_of_nat k)"
proof -
  have "\<not> is_digit (CHR '','')" "\<not> is_digit (CHR 0x0A)" by (simp_all add: is_digit_def)
  then have d: "CHR '','' \<notin> set (dec_of_nat j)" "CHR 0x0A \<notin> set (dec_of_nat j)" for j
    using dec_of_nat_digits by blast+
  then show "CHR '','' \<notin> set (dec_of_int n)" "CHR 0x0A \<notin> set (dec_of_int n)" "CHR 0x0A \<notin> set (dec_of_nat k)"
    by (simp_all add: dec_of_int_def)
qed

lemma split_team_csv:
  "ts \<noteq> [] \<Longrightarrow> map atoi (split_on CHR '','' (team_csv ts)) = map teamNum ts"
proof -
  have "map atoi (split_on CHR '','' (dec_of_int n @ concat (map (\<lambda>t. '','' @ dec_of_int (teamNum t)) us))) =
      n # map teamNum us" for n us
    by (induction us arbitrary: n)
      (simp_all add: split_on_word split_on_append dec_of_int_chars)
  then show "ts \<noteq> [] \<Longrightarrow> ?thesis" by (cases ts) (simp_all add: team_csv_def)
qed

lemma split_match_nums: "map atoi (split_on CHR '','' (dec_of_nat n @ '',13,3'')) = [int n, 13, 3]"
proof -
  have "CHR '','' \<notin> set (dec_of_nat n)" using dec_of_int_chars(1) [of "int n"] by (simp add: dec_of_int_def)
  then have "split_on CHR '','' (dec_of_nat n @ '',13,3'') = [dec_of_nat n, ''13'', ''3'']"
    using split_on_append [of "CHR '',''" "dec_of_nat n" "''13,3''"] by simp
  moreover have "atoi (dec_of_nat n) = int n" using atoi_dec_of_int [of "int n"] by (simp add: dec_of_int_def)
  moreover have "atoi ''13'' = 13" "atoi ''3'' = 3" by code_simp+
  ultimately show ?thesis by simp
qed

lemma team_csv_line: "CHR 0x0A \<notin> set (team_csv ts)"
  by (auto simp: team_csv_def dec_of_int_chars)

lemma getlines_four:
  assumes "CHR 0x0A \<notin> set a" "CHR 0x0A \<notin> set b" "CHR 0x0A \<notin> set c" "CHR 0x0A \<notin> set d" "d \<noteq> []"
  shows "getlines (a @ [CHR 0x0A] @ b @ [CHR 0x0A] @ c @ [CHR 0x0A] @ d) = [a, b, c, d]"
proof -
  have tw: "takeWhile (\<lambda>x. x \<noteq> CHR 0x0A) d = d" "dropWhile (\<lambda>x. x \<noteq> CHR 0x0A) d = []"
    using assms(4) by (auto simp: takeWhile_eq_all_conv dropWhile_eq_Nil_conv)
  have "getlines d = takeWhile (\<lambda>x. x \<noteq> CHR 0x0A) d # getlines (tl (dropWhile (\<lambda>x. x \<noteq> CHR 0x0A) d))"
    using assms(5) by (subst getlines.simps) simp
  then have "getlines d = [d]" unfolding tw by (simp add: getlines.simps [of "[]"])
  with getlines_line [OF assms(1)] getlines_line [OF assms(2)] getlines_line [OF assms(3)]
  show ?thesis by simp
qed

text \<open>The contents of a file, nothing if it is not there.\<close>

definition contents :: "'db App \<Rightarrow> string \<Rightarrow> string" where
  "contents a f = (case app_files a f of None \<Rightarrow> [] | Some s \<Rightarrow> s)"

lemma write_file_simps [simp]:
  "app_files (write_file f s a) = (app_files a)(f \<mapsto> s)"
  "contents (write_file f s a) g = (if g = f then s else contents a g)"
  by (simp_all add: write_file_def contents_def)

lemma contents_outside [simp]:
  "contents (a\<lparr>rest_output := s\<rparr>) f = contents a f" "contents (a\<lparr>app_toasts := ts\<rparr>) f = contents a f"
  by (simp_all add: contents_def)

lemma parse_text_simps:
  "fst (parse_text S text a) = mk_JsonParser (e_parse S) text"
  "contents (snd (parse_text S text a)) f = (if f = ''JSONPARSER log.json'' then text else contents a f)"
  "app_files (snd (parse_text S text a)) = (app_files a)(''JSONPARSER log.json'' \<mapsto> text)"
  by (auto simp: parse_text_def mk_JsonParser_def Let_def contents_def write_file_def split: option.splits)

section \<open>Properties\<close>

text \<open>The number the file holds: the matches of level \<open>qm\<close>, or 150 if there are fewer than 40.\<close>

definition matches_told :: "MATCHLIST_DATAPOINT list \<Rightarrow> nat" where
  "matches_told ms =
     (let n = card {k. k < length ms \<and> compLevel (ms ! k) = ''qm''} in if n < 40 then 150 else n)"

lemma qual_matches_told: "qual_matches ms = matches_told ms"
  by (simp add: qual_matches_def matches_told_def Let_def length_filter_conv_card)

text \<open>
  C13. After the event has been updated from The Blue Alliance, the local database that is sent to
  the tablets has exactly four lines: the scouters as they were, the numbers of the event's teams
  in the order of the answer, separated by commas, the number of matches with 13 playoffs and 3
  finals, and the event; and the numbers can be read back from their lines. The number of matches is
  how many entries of the answer have the level \<open>qm\<close>, but 150 if those are fewer than 40.
\<close>

theorem tba_update_reaches_tablets:
  assumes "c_init C" and "app_files a ''resources/tbaKey.env'' = Some key"
    and "7 \<le> length (tba_answer C key (''event/'' @ event @ ''/simple''))"
    and "take 5 (drop 5 (tba_answer C key (''event/'' @ event @ ''/simple''))) \<noteq> ''Error''"
    and "parseTeams (mk_JsonParser (e_parse S) (tba_answer C key (''event/'' @ event @ ''/teams''))) = ts" and "ts \<noteq> []"
    and "parseMatchList (mk_JsonParser (e_parse S) (tba_answer C key (''event/'' @ event @ ''/matches/simple''))) = ms"
    and "event \<noteq> []" and "CHR 0x0A \<notin> set event"
    and "CHR 0x0A \<notin> set (contents a ''resources/csv/scouterList.csv'')"
  shows "\<exists>nums. getlines (local_db (with_files S (tbaDataUpdate S C event a))) =
      [contents a ''resources/csv/scouterList.csv'', team_csv ts, nums, event] \<and>
    map atoi (split_on CHR '','' (team_csv ts)) = map teamNum ts \<and>
    nums = dec_of_nat (matches_told ms) @ '',13,3'' \<and>
    map atoi (split_on CHR '','' nums) = [int (matches_told ms), 13, 3]"
proof -
  let ?ans = "\<lambda>r. tba_answer C key r"
  define a1 where "a1 = a\<lparr>rest_output := ?ans (''event/'' @ event @ ''/simple'')\<rparr>"
  have a1: "app_files a1 ''resources/tbaKey.env'' = Some key" "contents a1 f = contents a f" for f
    using assms(2) by (simp_all add: a1_def)
  define a2 where "a2 = getMatchData S C event a1"
  have m: "makeTBAReq C r b = (?ans r, b\<lparr>rest_output := ?ans r\<rparr>)"
    if "app_files b ''resources/tbaKey.env'' = Some key" for r and b
    by (rule makeTBAReq_answer [OF assms(1) that])
  have a2: "app_files a2 ''resources/tbaKey.env'' = Some key"
    "contents a2 ''resources/csv/compMatchNums.csv'' = dec_of_nat (qual_matches ms) @ '',13,3''"
    "contents a2 ''resources/csv/scouterList.csv'' = contents a ''resources/csv/scouterList.csv''"
    using a1 assms(7) by (simp_all add: a2_def getMatchData_def m Let_def case_prod_beta parse_text_simps)
  define a3 where "a3 = getteamsatcomphdata S C event a2"
  have a3: "contents a3 ''resources/csv/compMatchNums.csv'' = dec_of_nat (qual_matches ms) @ '',13,3''"
    "contents a3 ''resources/csv/scouterList.csv'' = contents a ''resources/csv/scouterList.csv''"
    "contents a3 ''resources/csv/teamCompList.csv'' = team_csv ts"
    using a2 assms(5,6) by (simp_all add: a3_def getteamsatcomphdata_def m Let_def case_prod_beta parse_text_simps Suc_le_eq)
  have "tbaDataUpdate S C event a = write_file ''resources/csv/compID.csv'' event a3"
    using assms(3,4) m [OF assms(2)] by (simp add: tbaDataUpdate_def Let_def a3_def a2_def a1_def)
  moreover have "local_db (with_files S b) = contents b ''resources/csv/scouterList.csv'' @ [CHR 0x0A] @
      contents b ''resources/csv/teamCompList.csv'' @ [CHR 0x0A] @
      contents b ''resources/csv/compMatchNums.csv'' @ [CHR 0x0A] @ contents b ''resources/csv/compID.csv''" for b
    by (simp add: local_db_def with_files_def contents_def)
  moreover have c: "CHR 0x0A \<notin> set (dec_of_nat (qual_matches ms) @ '',13,3'')" by (simp add: dec_of_int_chars)
  moreover have "map atoi (split_on CHR '','' (dec_of_nat (qual_matches ms) @ '',13,3'')) = [int (qual_matches ms), 13, 3]"
    by (rule split_match_nums)
  ultimately show ?thesis
    using getlines_four [OF assms(10) team_csv_line c assms(9,8), of ts] a3 split_team_csv [OF assms(6)]
    by (simp add: qual_matches_told)
qed

definition tba_env :: "unit env" where
  "tba_env = \<lparr>e_srv = \<lambda>_ d. ([], d), e_cset = mariadb_compiled_charsets ! 5, e_open = \<lambda>_. example_conn,
     e_parse = \<lambda>s. if s = ''T'' then Some (JArr [JObj [(''team_number'', JInt 1138)], JObj [(''team_number'', JInt 254)]])
       else if s = ''M'' then Some (JArr (JObj [(''comp_level'', JStr ''sf'')] # replicate 41 (JObj [(''comp_level'', JStr ''qm'')])))
       else None,
     e_malloc = \<lambda>_. True, e_files = \<lambda>_. [], e_grow = \<lambda>n. 2 * n + 1\<rparr>"

definition tba_curl :: curl where
  "tba_curl = \<lparr>c_init = True, c_perform = \<lambda>rq.
     (if rq_url rq = ''https://www.thebluealliance.com/api/v3/event/txda/teams'' then [''T'']
      else if rq_url rq = ''https://www.thebluealliance.com/api/v3/event/txda/matches/simple'' then [''M''] else [''01234'', ''56789''], 0)\<rparr>"

definition tba_app :: "unit App" where
  "tba_app = \<lparr>app_db = (), main_conn = example_conn, rest_conn = example_conn, rest_output = [],
     app_files = [''resources/tbaKey.env'' \<mapsto> ''k'', ''resources/csv/scouterList.csv'' \<mapsto> ''A B:1''], app_toasts = []\<rparr>"

lemma tba_update_reaches_tablets_witness:
  "getlines (local_db (with_files tba_env (tbaDataUpdate tba_env tba_curl ''txda'' tba_app))) =
     [''A B:1'', ''1138,254'', ''41,13,3'', ''txda'']"
proof -
  let ?ts = "parseTeams (mk_JsonParser (e_parse tba_env) (tba_answer tba_curl ''k'' (''event/'' @ ''txda'' @ ''/teams'')))"
  let ?ms = "parseMatchList (mk_JsonParser (e_parse tba_env) (tba_answer tba_curl ''k'' (''event/'' @ ''txda'' @ ''/matches/simple'')))"
  have c: "c_init tba_curl" "app_files tba_app ''resources/tbaKey.env'' = Some ''k''"
    by (simp_all add: tba_curl_def tba_app_def)
  have v: "7 \<le> length (tba_answer tba_curl ''k'' (''event/'' @ ''txda'' @ ''/simple''))"
    "take 5 (drop 5 (tba_answer tba_curl ''k'' (''event/'' @ ''txda'' @ ''/simple''))) \<noteq> ''Error''"
    by code_simp+
  have t: "?ts \<noteq> []" "team_csv ?ts = ''1138,254''" by code_simp+
  have "dec_of_nat (qual_matches ?ms) = ''41''" by code_simp
  then have q: "dec_of_nat (matches_told ?ms) = ''41''" by (simp only: qual_matches_told)
  have s: "contents tba_app ''resources/csv/scouterList.csv'' = ''A B:1''"
    by (simp add: tba_app_def contents_def)
  show ?thesis
    using tba_update_reaches_tablets [OF c v refl t(1) refl] t(2) q s by auto
qed

end
