(* ===== verification/Main_Actions.thy ===== *)
theory Main_Actions
  imports Rest_Requests
begin

text \<open>
  \<open>main.cpp\<close>: what its buttons do with the database and the files. \<open>DebugConsole\<close> and the console
  are left out.
\<close>

section \<open>Statements on the program's own connection\<close>

definition on_main :: "('db MYSQL \<Rightarrow> 'db MYSQL option) \<Rightarrow> 'db App \<Rightarrow> 'db App option" where
  "on_main f a =
     (case f ((main_conn a)\<lparr>server := app_db a\<rparr>) of
        None \<Rightarrow> None
      | Some c \<Rightarrow> Some (a\<lparr>main_conn := c, app_db := server c\<rparr>))"

text \<open>\<open>execQuery\<close> with the length 0, the result dropped.\<close>

definition exec :: "'db env \<Rightarrow> string \<Rightarrow> 'db App \<Rightarrow> 'db App option" where
  "exec S q a = on_main (\<lambda>m. map_option snd (execQuery (e_srv S) (bytes_of q) 0 m)) a"

definition quoted :: "string \<Rightarrow> string" where
  "quoted s = [CHR 0x27] @ s @ [CHR 0x27]"

definition amplify_blue :: "'db env \<Rightarrow> 'db App \<Rightarrow> 'db App option" where
  "amplify_blue S a =
     map_option (toast ''Amplify Blue Started'')
       (exec S (''insert into matchtransaction ( MatchId, ScouterID, DataPointID,  DCValue, TeamID,AllianceID) values ( 4,-1,11,'' @
          quoted ''true'' @ '', -1, '' @ quoted ''Blue'' @ '');'') a)"

definition amplify_red :: "'db env \<Rightarrow> string \<Rightarrow> 'db App \<Rightarrow> 'db App option" where
  "amplify_red S text a =
     map_option (toast ''Amplify Red Started'')
       (exec S (''insert into matchtransaction ( MatchId, ScouterID, DataPointID,  DCValue, TeamID,AllianceID) values ('' @
          text @ '',-1,11,'' @ quoted ''true'' @ '', -1, '' @ quoted ''Red'' @ '');'') a)"

fun exec_all :: "'db env \<Rightarrow> string list \<Rightarrow> 'db App \<Rightarrow> 'db App option" where
  "exec_all S [] a = Some a"
| "exec_all S (q # qs) a = (case exec S q a of None \<Rightarrow> None | Some a' \<Rightarrow> exec_all S qs a')"

definition test_row :: "nat \<Rightarrow> nat \<Rightarrow> nat \<Rightarrow> string \<Rightarrow> string" where
  "test_row i j team alliance =
     ''insert into matchtransaction ( MatchId, ScouterID, DatapointID,  DCValue, TeamID, AllianceID) values ('' @
     dec_of_nat i @ '','' @ dec_of_int (- 1) @ '','' @ dec_of_nat j @ '','' @ quoted ''event'' @ '','' @
     dec_of_nat team @ '','' @ quoted alliance @ '');''"

definition test_rows :: "string list" where
  "test_rows = concat (map (\<lambda>i. concat (map (\<lambda>j.
     map (\<lambda>(team, alliance). test_row i j team alliance)
       [(1, ''1''), (4, ''1''), (5, ''1''), (6, ''0''), (7, ''0''), (8, ''0'')]) [1..<46])) [1..<7])"

fun team_pages :: "'db env \<Rightarrow> curl \<Rightarrow> nat list \<Rightarrow> 'db App \<Rightarrow> 'db App option" where
  "team_pages S C [] a = Some a"
| "team_pages S C (i # is) a =
     (case getteamdata S C i a of None \<Rightarrow> None | Some a' \<Rightarrow> team_pages S C is a')"

definition refresh_teams :: "'db env \<Rightarrow> curl \<Rightarrow> 'db App \<Rightarrow> 'db App option" where
  "refresh_teams S C a =
     (case deleteteams S a of None \<Rightarrow> None | Some a1 \<Rightarrow> team_pages S C [0..<23] a1)"

section \<open>The list of scouters\<close>

text \<open>The text of a row. Reading a column that is not there is undefined (\<open>None\<close>).\<close>

definition scouter_text :: "byte list list \<Rightarrow> string option" where
  "scouter_text row =
     (if length row < 3 then None
      else Some (string_of (row ! 0) @ '' '' @ string_of (row ! 1) @ '':'' @ string_of (row ! 2)))"

fun scouter_rest :: "byte list list list \<Rightarrow> string option" where
  "scouter_rest [] = Some []"
| "scouter_rest (row # rows) =
     (case scouter_text row of
        None \<Rightarrow> None
      | Some t \<Rightarrow> map_option (\<lambda>r. '','' @ t @ r) (scouter_rest rows))"

definition scouter_csv :: "byte list list list \<Rightarrow> string option" where
  "scouter_csv result =
     (case scouter_text (hd result) of
        None \<Rightarrow> None
      | Some t \<Rightarrow> map_option (\<lambda>r. t @ r) (scouter_rest (tl result)))"

definition scouter_update :: "'db env \<Rightarrow> 'db App \<Rightarrow> 'db App option" where
  "scouter_update S a =
     (case Database_query (e_srv S) (e_cset S)
         (bytes_of ''select scouterfirstname, scouterlastname, scouterid from scouter where scouterid>=0'') []
         ((main_conn a)\<lparr>server := app_db a\<rparr>) of
        None \<Rightarrow> None
      | Some (result, c) \<Rightarrow>
          let a1 = a\<lparr>main_conn := c, app_db := server c\<rparr> in
          if result = [] then None
          else if length (hd result) = 3 then
            map_option (\<lambda>t. write_file ''resources/csv/scouterList.csv'' t a1) (scouter_csv result)
          else Some (toast ''Scouter DB Error'' a1))"

section \<open>Uploading a batch\<close>

definition SERVER_UPLOAD_LINK :: string where
  "SERVER_UPLOAD_LINK = ''https://1138-scouting-app.azurewebsites.net/''"

definition insert_batch :: string where
  "insert_batch =
     ''INSERT INTO matchtransaction(UploadID, CompID, MatchID, DatapointID, ScouterID, TeamID, AllianceID, DatapointValue, DatapointTimestamp) VALUES(?,'' @
     quoted ''?'' @ '','' @ quoted ''?'' @ '',?,?,?,?,'' @ quoted ''?'' @ '',?)''"

definition delete_batch :: string where
  "delete_batch = ''DELETE FROM matchtransaction WHERE UploadID=0''"

text \<open>The arguments of \<open>c_str\<close>.\<close>

definition c_args :: "string list \<Rightarrow> byte list option list" where
  "c_args as = map (\<lambda>s. Some (cstr (bytes_of s))) as"

text \<open>\<open>at(2)\<close> to \<open>at(9)\<close>; a shorter row throws.\<close>

definition batch_args :: "string \<Rightarrow> byte list list \<Rightarrow> string list option" where
  "batch_args num row = (if length row < 10 then None else Some (num # map string_of (take 8 (drop 2 row))))"

text \<open>The loop that gives the rows of batch 0 their number.\<close>

fun move_rows :: "'db env \<Rightarrow> string \<Rightarrow> byte list list list \<Rightarrow> 'db MYSQL \<Rightarrow> bt_error + 'db MYSQL" where
  "move_rows S num [] m = Inr m"
| "move_rows S num (row # rows) m =
     (case batch_args num row of
        None \<Rightarrow> Inl OutOfRange
      | Some as \<Rightarrow>
          case Database_query (e_srv S) (e_cset S) (bytes_of insert_batch) (c_args as) m of
            None \<Rightarrow> Inl Undefined
          | Some (_, m1) \<Rightarrow>
              case Database_query (e_srv S) (e_cset S) (bytes_of delete_batch) [] m1 of
                None \<Rightarrow> Inl Undefined
              | Some (_, m2) \<Rightarrow> move_rows S num rows m2)"

text \<open>\<open>object[key] = value\<close> and \<open>array[i]\<close> of the JSON library.\<close>

definition json_put :: "string \<Rightarrow> json \<Rightarrow> (string \<times> json) list \<Rightarrow> (string \<times> json) list" where
  "json_put k v kvs = map (\<lambda>(k', v'). if k' = k then (k, v) else (k', v')) (emplace k JNull kvs)"

fun row_object :: "string list \<Rightarrow> string \<Rightarrow> nat \<Rightarrow> string list \<Rightarrow> (string \<times> json) list \<Rightarrow>
    bt_error + (string \<times> json) list" where
  "row_object cols batch j [] kvs = Inr kvs"
| "row_object cols batch j (v # vs) kvs =
     (if j \<ge> length cols then Inl OutOfRange
      else row_object cols batch (Suc j) vs
        (json_put (cols ! j) (JStr (if cols ! j = ''UploadID'' then batch else v)) kvs))"

fun batch_rows :: "string list \<Rightarrow> string \<Rightarrow> nat \<Rightarrow> string list list \<Rightarrow> json list \<Rightarrow> bt_error + json list" where
  "batch_rows cols batch i [] arr = Inr arr"
| "batch_rows cols batch i (row # rows) arr =
     (if row = [] then batch_rows cols batch (Suc i) rows arr
      else
        then_do (row_object cols batch 0 row []) (\<lambda>kvs.
          batch_rows cols batch (Suc i) rows (arr @ replicate (i - length arr) JNull @ [JObj kvs])))"

definition batch_json :: "string list \<Rightarrow> string \<Rightarrow> string list list \<Rightarrow> bt_error + json" where
  "batch_json cols batch rows =
     then_do (batch_rows cols batch 0 rows []) (\<lambda>arr. Inr (if arr = [] then JNull else JArr arr))"

text \<open>The result is whether the rest of the frame is skipped. \<open>dump\<close> is the library's. The local
  \<open>Database\<close> closes its connection when its block is left, also by \<open>continue\<close>.\<close>

definition close_local :: "'db env \<Rightarrow> 'db MYSQL \<Rightarrow> 'db App \<Rightarrow> 'db App" where
  "close_local S m a = a\<lparr>app_db := server (mysql_close_slow_part (e_srv S) m)\<rparr>"

definition upload_batch :: "'db env \<Rightarrow> curl \<Rightarrow> (json \<Rightarrow> string) \<Rightarrow> string \<Rightarrow> 'db App \<Rightarrow> bt_error + (bool \<times> 'db App)" where
  "upload_batch S C dump text a =
     (let batch = (if text = [] then ''0'' else text) in
      case Database_query (e_srv S) (e_cset S) (bytes_of ''select * from matchtransaction where UploadID=?'')
          (c_args [batch]) (e_open S (app_db a)) of
        None \<Rightarrow> Inl Undefined
      | Some (dbResp, m) \<Rightarrow>
          let a1 = a\<lparr>app_db := server m\<rparr>;
              send = (\<lambda>batch m a.
                case getHeaders (e_srv S) (e_cset S) (bytes_of ''matchtransaction'') None m of
                  None \<Rightarrow> Inl Undefined
                | Some (columnNames, m') \<Rightarrow>
                    then_do (batch_json (map string_of columnNames) batch (map (map string_of) dbResp)) (\<lambda>j.
                      Inr (False, close_local S m' (snd (uploadToBackend C
                        (SERVER_UPLOAD_LINK @ ''requests/uploadMatchData.php'') (dump j) (a\<lparr>app_db := server m'\<rparr>)))))) in
          if batch = ''0'' then
            let (backendNum, a2) = getFromBackend C (SERVER_UPLOAD_LINK @ ''requests/getNextUploadID.php'') a1 in
            if backendNum = [] then Inr (True, close_local S m a2)
            else
              then_do (move_rows S backendNum dbResp m) (\<lambda>m1.
                send backendNum m1 (a2\<lparr>app_db := server m1\<rparr>))
          else send batch m a1)"

section \<open>What a batch is turned into\<close>

lemma build_query_unmarked:
  "0x3F \<notin> set st \<Longrightarrow> build_query cset nbs st args = Some st"
  by (induction st) auto

lemma delete_batch_unmarked: "(0x3F :: byte) \<notin> set (bytes_of delete_batch)"
  by code_simp

lemma delete_batch_query: "build_query cset nbs (bytes_of delete_batch) args = Some (bytes_of delete_batch)"
  by (rule build_query_unmarked [OF delete_batch_unmarked])

text \<open>The INSERT that takes the place of a row of batch 0.\<close>

definition moved_row :: "MARIADB_CHARSET_INFO \<Rightarrow> bool \<Rightarrow> string \<Rightarrow> byte list list \<Rightarrow> byte list \<Rightarrow> bool" where
  "moved_row cset nbs num row q \<longleftrightarrow>
     10 \<le> length row \<and>
     filled cset nbs (bytes_of insert_batch) (num # map string_of (take 8 (drop 2 row))) = Some q"

section \<open>Properties\<close>

text \<open>
  C14. Giving the rows of batch 0 their number sends, for every row, its INSERT under the new number
  and then the DELETE of the whole batch 0, whatever the server answers: the rows of the batch are
  deleted after the first of them has been copied, and a copy that the server refuses later is
  neither noticed nor made good. The loop comes to its end and leaves the connection free.
\<close>

theorem batch_deleted_while_moved:
  fixes m :: "'db MYSQL"
  assumes "conn_ready m"
    and "list_all2 (moved_row (e_cset S) (no_backslash_escapes m) num) rows qs"
    and "\<And>q db. plain_reply (no_backslash_escapes m) (fst (e_srv S (COM_QUERY # q) db))"
  shows "\<exists>m'. move_rows S num rows m = Inr m' \<and> conn_ready m' \<and>
    server m' = after_statements (e_srv S) (concat (map (\<lambda>q. [q, bytes_of delete_batch]) qs)) (server m)"
  using assms
proof (induction rows arbitrary: m qs)
  case Nil
  then show ?case by simp
next
  case (Cons row rows)
  let ?nbs = "no_backslash_escapes m"
  from Cons.prems(2) obtain q qs' where qs: "qs = q # qs'"
    and here: "moved_row (e_cset S) ?nbs num row q"
    and rest: "list_all2 (moved_row (e_cset S) ?nbs num) rows qs'"
    by (auto simp: list_all2_Cons1)
  from here have row: "10 \<le> length row"
    and q: "build_query (e_cset S) ?nbs (bytes_of insert_batch)
        (c_args (num # map string_of (take 8 (drop 2 row)))) = Some q"
    by (simp_all add: moved_row_def filled_def c_args_def)
  obtain m1 where m1: "Database_query (e_srv S) (e_cset S) (bytes_of insert_batch)
        (c_args (num # map string_of (take 8 (drop 2 row)))) m = Some ([], m1)"
    "conn_ready m1" "server m1 = snd (e_srv S (COM_QUERY # cstr q) (server m))" "no_backslash_escapes m1 = ?nbs"
    using query_plain [where srv = "e_srv S", OF Cons.prems(1) q prod.collapse [symmetric] Cons.prems(3)] by blast
  have reply: "plain_reply (no_backslash_escapes m1) (fst (e_srv S (COM_QUERY # q) db))" for q db
    using Cons.prems(3) m1(4) by simp
  obtain m2 where m2: "Database_query (e_srv S) (e_cset S) (bytes_of delete_batch) [] m1 = Some ([], m2)"
    "conn_ready m2" "server m2 = snd (e_srv S (COM_QUERY # cstr (bytes_of delete_batch)) (server m1))"
    "no_backslash_escapes m2 = ?nbs"
    using query_plain [where srv = "e_srv S", OF m1(2) delete_batch_query prod.collapse [symmetric] reply] m1(4)
    by metis
  from Cons.IH [of m2 qs'] Cons.prems(3) m2 m1 rest row show ?case
    by (simp add: qs batch_args_def)
qed

definition batch_env :: "byte list list env" where
  "batch_env = \<lparr>e_srv = log_srv, e_cset = mariadb_compiled_charsets ! 5, e_open = \<lambda>_. log_conn,
     e_parse = \<lambda>_. None, e_malloc = \<lambda>_. True, e_files = \<lambda>_. [], e_grow = \<lambda>n. 2 * n + 1\<rparr>"

definition batch_row :: "string \<Rightarrow> byte list list" where
  "batch_row v = map bytes_of [''1'', ''0'', ''ca'', ''qm1'', ''4'', ''7'', ''1138'', ''1'', v, ''9'']"

lemma batch_filled:
  "filled (e_cset batch_env) (no_backslash_escapes log_conn) (bytes_of insert_batch)
     (''12'' # map string_of (take 8 (drop 2 (batch_row ''a'')))) \<noteq> None"
  by code_simp

lemma batch_deleted_while_moved_witness:
  "\<exists>q m'. move_rows batch_env ''12'' [batch_row ''a'', batch_row ''a''] log_conn = Inr m' \<and>
    server m' = map (\<lambda>s. COM_QUERY # cstr s) [q, bytes_of delete_batch, q, bytes_of delete_batch]"
proof -
  obtain q where q: "filled (e_cset batch_env) (no_backslash_escapes log_conn) (bytes_of insert_batch)
      (''12'' # map string_of (take 8 (drop 2 (batch_row ''a'')))) = Some q"
    using batch_filled by blast
  have "moved_row (e_cset batch_env) (no_backslash_escapes log_conn) ''12'' (batch_row ''a'') q"
    using q by (simp add: moved_row_def) (simp add: batch_row_def)
  then have rows: "list_all2 (moved_row (e_cset batch_env) (no_backslash_escapes log_conn) ''12'')
      [batch_row ''a'', batch_row ''a''] [q, q]"
    by simp
  have ready: "conn_ready log_conn" by code_simp
  have reply: "plain_reply (no_backslash_escapes log_conn) (fst (e_srv batch_env (COM_QUERY # q) db))" for q db
    using log_srv_plain by (simp add: batch_env_def)
  have "server log_conn = []" by (simp add: log_conn_def)
  with batch_deleted_while_moved [OF ready rows reply] show ?thesis
    by (auto simp: batch_env_def log_srv_def)
qed

end
