(* ===== verification/Bt_Init.thy ===== *)
theory Bt_Init
  imports Bt_Conductor Win_Error
begin

text \<open>
  The start of the Bluetooth server in \<open>bluetooth.hpp\<close>, with the check of \<open>btIncludes.hpp\<close> that reports
  the failure of a call. What Windows answers is the argument: for each call the value it returns
  and what \<open>WSAGetLastError\<close> gives after it.
\<close>

section \<open>Reporting a failure\<close>

record winsock_call =
  ret :: int
  last_error :: int

text \<open>What the start writes to: the table of the error texts and the console.\<close>

record start_state =
  errs :: WinsockErrorDesc
  console :: "string list"

definition println :: "string \<Rightarrow> start_state \<Rightarrow> start_state" where
  "println msg st = st\<lparr>console := console st @ [msg]\<rparr>"

definition error_name :: "int \<Rightarrow> start_state \<Rightarrow> bt_error + (string \<times> start_state)" where
  "error_name code st =
     (case get code (errs st) of
        (None, _) \<Rightarrow> Inl OutOfRange
      | (Some d, w) \<Rightarrow> Inr (errorName d, st\<lparr>errs := w\<rparr>))"

definition checkSuccessWinsock :: "winsock_call \<Rightarrow> int \<Rightarrow> string \<Rightarrow> start_state \<Rightarrow> bt_error + start_state" where
  "checkSuccessWinsock c target errorMessage st =
     (if ret c \<noteq> target then
        let errorCode = last_error c in
        then_do (error_name errorCode (println (''ERROR: '' @ errorMessage @ '' Reason:'') st)) (\<lambda>(n, st1).
          Inr (println (dec_of_int errorCode @ '' ('' @ n @ '')'') st1))
      else Inr st)"

section \<open>The calls of the start\<close>

definition initWinsock :: "int \<Rightarrow> start_state \<Rightarrow> int \<times> start_state" where
  "initWinsock startupRet st =
     (startupRet, println (if startupRet = 0 then ''Winsock/Bluetooth Successfully Initialized!''
                           else ''Winsock/Bluetooth Failed to Init'') st)"

text \<open>Whether memory can be had, what \<open>gethostname\<close> returns, and the name.\<close>

record host_call =
  h_calloc :: bool
  h_call :: winsock_call
  h_name :: string

definition getHostNameStr :: "host_call \<Rightarrow> int \<times> string" where
  "getHostNameStr h =
     (if \<not> h_calloc h then (- 1, [])
      else if ret (h_call h) \<noteq> 0 then (- 2, [])
      else (0, h_name h))"

record accept_in =
  a_socket :: "nat option \<times> int"
  a_bind :: winsock_call
  a_sockname :: winsock_call
  a_addr :: "byte list \<times> nat"
  a_host :: host_call
  a_register :: winsock_call
  a_listen :: winsock_call
  a_ioctl :: winsock_call
  a_radio :: bool
  a_discoverable :: bool
  a_host2 :: host_call

record listener =
  l_socket :: "nat option"
  localAddr :: "byte list"
  l_port :: nat

definition initRadioHandles :: "bool \<Rightarrow> start_state \<Rightarrow> start_state" where
  "initRadioHandles found st = (if \<not> found then println ''No valid bluetooth radio found!'' st else st)"

definition makeDiscoverable :: "accept_in \<Rightarrow> start_state \<Rightarrow> start_state" where
  "makeDiscoverable x st =
     (let st1 = initRadioHandles (a_radio x) st in
      if a_discoverable x
      then println (''Computer Discoverable- Host Name: '' @ snd (getHostNameStr (a_host2 x))) st1
      else println ''Failed to Enable Discoverability'' st1)"

definition initAccept :: "accept_in \<Rightarrow> start_state \<Rightarrow> bt_error + (listener \<times> start_state)" where
  "initAccept x st =
     then_do
       (case a_socket x of
          (None, err) \<Rightarrow>
            then_do (error_name err (println ''Failed to create socket in RFCOMM mode. Error: '' st)) (\<lambda>(n, st1).
              Inr (println (dec_of_int err @ '' ('' @ n @ '')'') st1))
        | (Some _, _) \<Rightarrow> Inr st) (\<lambda>st.
     then_do (checkSuccessWinsock (a_bind x) 0 ''Failed to bind socket to port/address.'' st) (\<lambda>st.
     then_do (checkSuccessWinsock (a_sockname x) 0 ''Failed to get windows-given socket info.'' st) (\<lambda>st.
       let (addr, port) = a_addr x; (r, hostname) = getHostNameStr (a_host x) in
     then_do (checkSuccessWinsock \<lparr>ret = r, last_error = last_error (h_call (a_host x))\<rparr> 0
         ''Getting host name failed (this shouldn't matter too much)'' st) (\<lambda>st.
     then_do (checkSuccessWinsock (a_register x) 0 ''Failed to register SDP server (cooked).''
         (println (''Using Hostname: '' @ hostname) st)) (\<lambda>st.
     then_do (checkSuccessWinsock (a_listen x) 0 ''Failed to set socket in listening mode.'' st) (\<lambda>st.
     then_do (checkSuccessWinsock (a_ioctl x) 0 ''Failed to set socket to non-blocking mode.'' st) (\<lambda>st.
       Inr (\<lparr>l_socket = fst (a_socket x), localAddr = addr, l_port = port\<rparr>, makeDiscoverable x st))))))))"

section \<open>Which failures stop the program\<close>

text \<open>The codes that the failing calls leave.\<close>

definition failed :: "bool \<Rightarrow> int \<Rightarrow> int list" where
  "failed b c = (if b then [c] else [])"

lemma set_failed: "set (failed b c) \<subseteq> K \<longleftrightarrow> (b \<longrightarrow> c \<in> K)"
  by (cases b) (simp_all add: failed_def)

definition failing_codes :: "accept_in \<Rightarrow> int list" where
  "failing_codes x =
     failed (fst (a_socket x) = None) (snd (a_socket x)) @
     failed (ret (a_bind x) \<noteq> 0) (last_error (a_bind x)) @
     failed (ret (a_sockname x) \<noteq> 0) (last_error (a_sockname x)) @
     failed (fst (getHostNameStr (a_host x)) \<noteq> 0) (last_error (h_call (a_host x))) @
     failed (ret (a_register x) \<noteq> 0) (last_error (a_register x)) @
     failed (ret (a_listen x) \<noteq> 0) (last_error (a_listen x)) @
     failed (ret (a_ioctl x) \<noteq> 0) (last_error (a_ioctl x))"

definition fresh :: "start_state \<Rightarrow> bool" where
  "fresh st \<longleftrightarrow> \<not> w_init (errs st)"

lemma fresh_println [simp]: "fresh (println msg st) = fresh st"
  by (simp add: fresh_def println_def)

text \<open>A result that is there under a condition, and otherwise the exception.\<close>

definition outcome :: "bool \<Rightarrow> ('a \<Rightarrow> bool) \<Rightarrow> bt_error + 'a \<Rightarrow> bool" where
  "outcome P R r \<longleftrightarrow> (if P then \<exists>y. r = Inr y \<and> R y else r = Inl OutOfRange)"

lemma outcome_then_do:
  "outcome P R r \<Longrightarrow> (\<And>y. R y \<Longrightarrow> outcome Q T (f y)) \<Longrightarrow> outcome (P \<and> Q) T (then_do r f)"
  by (cases P) (auto simp: outcome_def)

lemma outcome_Inr: "R y \<Longrightarrow> outcome True R (Inr y)"
  by (simp add: outcome_def)

lemma error_name_outcome:
  "fresh st \<Longrightarrow> outcome (code \<in> set known_codes) (\<lambda>(n, st'). fresh st') (error_name code st)"
  using get_known [of "errs st" code]
  by (auto simp: error_name_def fresh_def outcome_def split: option.splits prod.splits)

lemma report_outcome:
  assumes "fresh st"
  shows "outcome (code \<in> set known_codes) fresh
    (then_do (error_name code st) (\<lambda>(n, st1). Inr (println (f n) st1)))"
proof -
  have "outcome (code \<in> set known_codes \<and> True) fresh
      (then_do (error_name code st) (\<lambda>(n, st1). Inr (println (f n) st1)))"
    by (rule outcome_then_do [OF error_name_outcome [OF assms]]) (auto intro: outcome_Inr)
  then show ?thesis by simp
qed

lemma check_outcome:
  assumes "fresh st"
  shows "outcome (ret c = target \<or> last_error c \<in> set known_codes) fresh (checkSuccessWinsock c target msg st)"
proof (cases "ret c = target")
  case True
  then show ?thesis using assms by (simp add: checkSuccessWinsock_def outcome_def)
next
  case False
  then show ?thesis
    using report_outcome [of "println (''ERROR: '' @ msg @ '' Reason:'') st" "last_error c"] assms
    by (simp add: checkSuccessWinsock_def Let_def)
qed

lemma socket_outcome:
  assumes "fresh st"
  shows "outcome (fst s \<noteq> None \<or> snd s \<in> set known_codes) fresh
    (case s of
       (None, err) \<Rightarrow>
         then_do (error_name err (println msg st)) (\<lambda>(n, st1). Inr (println (f err n) st1))
     | (Some _, _) \<Rightarrow> Inr st)"
  using report_outcome [of "println msg st" "snd s" "f (snd s)"] assms
  by (cases s) (auto simp: outcome_def split: option.splits)

section \<open>Properties\<close>

text \<open>
  C28. Starting the server either goes through, with the address and the port that Windows gave, or
  stops on an exception; and it stops exactly if a call fails with a code that is not in the table,
  although a failure is meant to be reported only. In particular a host name that cannot be had
  without an error of Windows, said not to matter much, stops the program.
\<close>

theorem initAccept_outcome:
  assumes "fresh st"
  shows "if set (failing_codes x) \<subseteq> set known_codes
    then \<exists>l st'. initAccept x st = Inr (l, st') \<and> (localAddr l, l_port l) = a_addr x \<and> l_socket l = fst (a_socket x)
    else initAccept x st = Inl OutOfRange"
proof -
  let ?R = "\<lambda>(l, st'). (localAddr l, l_port l) = a_addr x \<and> l_socket l = fst (a_socket x)"
  let ?ok = "\<lambda>c. ret c = 0 \<or> last_error c \<in> set known_codes"
  let ?h = "\<lparr>ret = fst (getHostNameStr (a_host x)), last_error = last_error (h_call (a_host x))\<rparr>"
  have "outcome ((fst (a_socket x) \<noteq> None \<or> snd (a_socket x) \<in> set known_codes) \<and> ?ok (a_bind x) \<and>
      ?ok (a_sockname x) \<and> ?ok ?h \<and> ?ok (a_register x) \<and> ?ok (a_listen x) \<and> ?ok (a_ioctl x) \<and> True)
      ?R (initAccept x st)"
    unfolding initAccept_def Let_def case_prod_beta [of _ "a_addr x"] case_prod_beta [of _ "getHostNameStr (a_host x)"]
    by (intro outcome_then_do [where R = fresh] socket_outcome check_outcome outcome_Inr assms) simp_all
  moreover have "((fst (a_socket x) \<noteq> None \<or> snd (a_socket x) \<in> set known_codes) \<and> ?ok (a_bind x) \<and>
      ?ok (a_sockname x) \<and> ?ok ?h \<and> ?ok (a_register x) \<and> ?ok (a_listen x) \<and> ?ok (a_ioctl x) \<and> True) \<longleftrightarrow>
      set (failing_codes x) \<subseteq> set known_codes"
    by (simp add: failing_codes_def set_failed del: not_None_eq) blast
  ultimately show ?thesis by (auto simp: outcome_def split: if_splits)
qed

text \<open>Everything works, but there is no memory for the host's name.\<close>

lemma initAccept_outcome_witness:
  "let ok = \<lparr>ret = 0, last_error = 0\<rparr>; h = \<lparr>h_calloc = False, h_call = ok, h_name = []\<rparr> in
   initAccept \<lparr>a_socket = (Some 4, 0), a_bind = ok, a_sockname = ok, a_addr = ([], 0), a_host = h,
     a_register = ok, a_listen = ok, a_ioctl = ok, a_radio = True, a_discoverable = True, a_host2 = h\<rparr>
     \<lparr>errs = winsock_start, console = []\<rparr> = Inl OutOfRange"
proof -
  define ok where "ok = \<lparr>ret = 0, last_error = 0\<rparr>"
  define h where "h = \<lparr>h_calloc = False, h_call = ok, h_name = []\<rparr>"
  define x where "x = \<lparr>a_socket = (Some (4 :: nat), 0), a_bind = ok, a_sockname = ok, a_addr = ([] :: byte list, 0), a_host = h,
     a_register = ok, a_listen = ok, a_ioctl = ok, a_radio = True, a_discoverable = True, a_host2 = h\<rparr>"
  have "failing_codes x = [0]"
    by (simp add: failing_codes_def failed_def x_def h_def ok_def getHostNameStr_def)
  moreover have "0 \<notin> set known_codes" unfolding known_codes_eq by simp
  moreover have "fresh \<lparr>errs = winsock_start, console = []\<rparr>" by (simp add: fresh_def winsock_start_def)
  ultimately have "initAccept x \<lparr>errs = winsock_start, console = []\<rparr> = Inl OutOfRange"
    using initAccept_outcome [of "\<lparr>errs = winsock_start, console = []\<rparr>" x] by simp
  then show ?thesis by (simp add: x_def h_def ok_def Let_def)
qed

end
