(* ===== verification/Bt_Manager.thy ===== *)
theory Bt_Manager
  imports Bt_Init
begin

text \<open>
  \<open>bluetooth.hpp\<close>: the list of connected tablets and the transactions that are running, and what
  one frame of the program does with them. What Windows, the tablets and the threads do in a
  frame are arguments of the operations.
\<close>

section \<open>Addresses of tablets\<close>

definition hex_digit :: "nat \<Rightarrow> char" where
  "hex_digit n = (if n < 10 then char_of (n + 48) else char_of (n + 87))"

text \<open>An \<open>int\<close> below 256 written with \<open>std::hex\<close>.\<close>

definition hex_of_byte :: "byte \<Rightarrow> string" where
  "hex_of_byte b =
     (if unat b < 16 then [hex_digit (unat b)] else [hex_digit (unat b div 16), hex_digit (unat b mod 16)])"

definition toupper_c :: "char \<Rightarrow> char" where
  "toupper_c c = (if CHR ''a'' \<le> c \<and> c \<le> CHR ''z'' then char_of (of_char c - 32 :: nat) else c)"

definition mac_part :: "byte list \<Rightarrow> nat \<Rightarrow> string" where
  "mac_part rgBytes i =
     (if rgBytes ! i \<le> 0x0F then ''0'' else '''') @ hex_of_byte (rgBytes ! i)"

definition getMacStr :: "byte list \<Rightarrow> string" where
  "getMacStr rgBytes =
     map toupper_c (concat (map (\<lambda>i. mac_part rgBytes i @ '':'') [5, 4, 3, 2, 1]) @ mac_part rgBytes 0)"

section \<open>The list of tablets\<close>

text \<open>Objects that move to another address: the ones from index \<open>k\<close> on get new identities.\<close>

definition relocate :: "nat \<Rightarrow> 'db Bluetooth \<Rightarrow> 'db Bluetooth" where
  "relocate k b =
     (let ts = connectedTablets b; n = length ts - k in
      b\<lparr>connectedTablets := take k ts @
          map (\<lambda>(t, i). t\<lparr>obj_id := i\<rparr>) (zip (drop k ts) [next_id b..<next_id b + n]),
        next_id := next_id b + n\<rparr>)"

text \<open>\<open>push_back\<close>: a full vector moves to a larger buffer.\<close>

definition push_tablet :: "'db env \<Rightarrow> nat \<Rightarrow> string \<Rightarrow> 'db Bluetooth \<Rightarrow> 'db Bluetooth" where
  "push_tablet S sck addrStr b =
     (let b1 = (if length (connectedTablets b) < tab_capacity b then b
                else relocate 0 (b\<lparr>tab_capacity := e_grow S (tab_capacity b)\<rparr>)) in
      b1\<lparr>connectedTablets := connectedTablets b1 @ [mk_BtTabObj (next_id b1) sck addrStr],
         next_id := Suc (next_id b1)\<rparr>)"

text \<open>\<open>accept\<close> returns no socket, or one with the address of its tablet and its channel, which is then
  made non-blocking; the answer of that call is checked like those of the start.\<close>

type_synonym peer = "nat \<times> byte list \<times> sock \<times> winsock_call"

definition no_output :: start_state where
  "no_output = \<lparr>errs = winsock_start, console = []\<rparr>"

definition acceptConn :: "'db env \<Rightarrow> peer option \<Rightarrow> 'db Bluetooth \<Rightarrow> bt_error + 'db Bluetooth" where
  "acceptConn S peer b =
     (case peer of
        None \<Rightarrow> Inr b
      | Some (sck, rgBytes, s, ioctl) \<Rightarrow>
          then_do (checkSuccessWinsock ioctl 0 ''Failed to make new connected port non-blocking.'' no_output) (\<lambda>_.
            Inr (push_tablet S sck (getMacStr rgBytes) (b\<lparr>net := (net b)(sck := s)\<rparr>))))"

text \<open>Dropping a future waits for a task that is running.\<close>

definition release :: "'db env \<Rightarrow> int \<times> int \<Rightarrow> BtTabObj \<Rightarrow> 'db Bluetooth \<Rightarrow> bt_error + 'db Bluetooth" where
  "release S clk t b =
     (case tr_data (currTrans t) of
        Async p i tsk \<Rightarrow> then_do (run_task S p i tsk (fst clk) (snd clk) b) (\<lambda>(_, b'). Inr b')
      | _ \<Rightarrow> Inr b)"

text \<open>\<open>erase\<close> at \<open>k\<close> moves the later tablets one place down. The last one is destroyed in place;
  overwriting one whose task is running is a data race.\<close>

definition erase_tablet :: "'db env \<Rightarrow> int \<times> int \<Rightarrow> nat \<Rightarrow> 'db Bluetooth \<Rightarrow> bt_error + 'db Bluetooth" where
  "erase_tablet S clk k b =
     (let ts = connectedTablets b in
      then_do (if Suc k = length ts then release S clk (ts ! k) b
               else case tr_data (currTrans (ts ! k)) of Async _ _ _ \<Rightarrow> Inl Undefined | _ \<Rightarrow> Inr b)
        (\<lambda>b1. Inr (relocate k (b1\<lparr>connectedTablets := erase_at k (connectedTablets b1)\<rparr>))))"

text \<open>The first tablet with the socket, if there is one.\<close>

fun socket_index :: "nat \<Rightarrow> BtTabObj list \<Rightarrow> nat option" where
  "socket_index sck [] = None"
| "socket_index sck (t # ts) =
     (if tab_socket t = sck then Some 0 else map_option Suc (socket_index sck ts))"

definition killSocket :: "'db env \<Rightarrow> int \<times> int \<Rightarrow> nat \<Rightarrow> 'db Bluetooth \<Rightarrow> bt_error + (bool \<times> 'db Bluetooth)" where
  "killSocket S clk deleteSock b =
     (case socket_index deleteSock (connectedTablets b) of
        None \<Rightarrow> Inr (False, b)
      | Some k \<Rightarrow>
          then_do (erase_tablet S clk k (sockSuicide (connectedTablets b ! k) b))
            (\<lambda>b'. Inr (True, b')))"

section \<open>Tablets that are ready\<close>

text \<open>What happens at a tablet in one frame: the answers of \<open>select\<close> for the loop and for
  \<open>readTransactionData\<close>, how the task is launched, the clocks.\<close>

record tab_in =
  sel_loop :: int
  sel_read :: int
  sel_write :: int
  how :: launch
  t_code :: int
  t_task :: "int \<times> int"

definition readTransactionData :: "'db env \<Rightarrow> tab_in \<Rightarrow> nat \<Rightarrow> 'db Bluetooth \<Rightarrow> bt_error + 'db Bluetooth" where
  "readTransactionData S inp i b =
     then_do (deref i b) (\<lambda>t.
       let b1 = upd_trans i (\<lambda>tr. tr\<lparr>tr_parent := Some i\<rparr>) b in
       if \<not> readyToRead (sel_read inp) \<or> \<not> readyToWrite (sel_write inp) then
         Inr (upd_trans i (\<lambda>tr. tr\<lparr>tr_success := False, tr_type := TRANS_CLOSE_SOCKET,
           writeTransaction := False\<rparr>) b1)
       else
         case getTransactionType (e_malloc S) (t_code inp) (net b1 (tab_socket t)) of
           None \<Rightarrow> Inl Waits
         | Some (Inl e, s') \<Rightarrow> rethrow (Inl e)
         | Some (Inr code, s') \<Rightarrow>
             let b2 = upd_trans i (\<lambda>tr. tr\<lparr>tr_type := code\<rparr>) (b1\<lparr>net := (net b1)(tab_socket t := s')\<rparr>) in
             if code = TRANS_SOCKET_ERROR then
               Inr (upd_trans i (\<lambda>tr. tr\<lparr>tr_success := False, writeTransaction := False\<rparr>) b2)
             else Inr (upd_trans i (\<lambda>tr. tr\<lparr>writeTransaction := sint code < 0\<rparr>) b2))"

text \<open>What the loop does with a tablet that is ready.\<close>

definition start_transaction :: "'db env \<Rightarrow> tab_in \<Rightarrow> nat \<Rightarrow> 'db Bluetooth \<Rightarrow> bt_error + 'db Bluetooth" where
  "start_transaction S inp i b =
     then_do (readTransactionData S inp i b) (\<lambda>b1.
     then_do (initReadyTransaction S (how inp) (fst (t_task inp)) (snd (t_task inp)) i b1) (\<lambda>b2.
     then_do (deref i b2) (\<lambda>t.
       if batmanTrans (currTrans t) \<or> \<not> tr_success (currTrans t) then
         then_do (deref_parent (currTrans t) b2) (\<lambda>par.
         then_do (killSocket S (t_task inp) (tab_socket par) b2) (\<lambda>(_, b3). Inr b3))
       else
         then_do (isReady (currTrans t)) (\<lambda>ready.
           if ready then handleTransResult S (fst (t_task inp)) (snd (t_task inp)) i b2
           else
             then_do (deref_parent (currTrans t) b2) (\<lambda>par.
               Inr (upd_obj (obj_id par) (\<lambda>o'. o'\<lparr>transactionState := True\<rparr>)
                 (b2\<lparr>runningTransactions := runningTransactions b2 @ [i]\<rparr>)))))))"

text \<open>The loop over the indexes, which ends early when tablets have been erased. The inputs are
  given by socket.\<close>

fun ready_loop :: "'db env \<Rightarrow> (nat \<Rightarrow> tab_in) \<Rightarrow> nat list \<Rightarrow> 'db Bluetooth \<Rightarrow> bt_error + 'db Bluetooth" where
  "ready_loop S inp [] b = Inr b"
| "ready_loop S inp (i # is) b =
     (if i \<ge> length (connectedTablets b) then Inr b
      else
        let tabCurr = connectedTablets b ! i; x = inp (tab_socket tabCurr) in
        if \<not> readyToRead (sel_loop x) \<or> transactionState tabCurr then ready_loop S inp is b
        else then_do (start_transaction S x (obj_id tabCurr) b) (ready_loop S inp is))"

definition handleReadyConnections :: "'db env \<Rightarrow> (nat \<Rightarrow> tab_in) \<Rightarrow> 'db Bluetooth \<Rightarrow> bt_error + 'db Bluetooth" where
  "handleReadyConnections S inp b = ready_loop S inp [0..<length (connectedTablets b)] b"

section \<open>Transactions that are running\<close>

text \<open>The loop over the running transactions, with the clocks of a task that is still to run. After
  one is erased the index goes on, so the next one is left for the following frame; an invalid one
  restarts the loop.\<close>

function running_loop :: "'db env \<Rightarrow> (nat \<Rightarrow> int \<times> int) \<Rightarrow> nat \<Rightarrow> 'db Bluetooth \<Rightarrow> bt_error + 'db Bluetooth" where
  "running_loop S clk k b =
     (if k \<ge> length (runningTransactions b) then Inr b
      else
        let i = runningTransactions b ! k in
        case deref i b of
          Inl e \<Rightarrow> Inl e
        | Inr t \<Rightarrow>
            if tr_data (currTrans t) = NoState then
              running_loop S clk 0 (b\<lparr>runningTransactions := erase_at k (runningTransactions b)\<rparr>)
            else
              case isReady (currTrans t) of
                Inl e \<Rightarrow> Inl e
              | Inr False \<Rightarrow> running_loop S clk (Suc k) b
              | Inr True \<Rightarrow>
                  (case handleTransResult S (fst (clk i)) (snd (clk i)) i b of
                     Inl e \<Rightarrow> Inl e
                   | Inr b1 \<Rightarrow>
                       (case then_do (deref i b1) (\<lambda>t1. deref_parent (currTrans t1) b1) of
                          Inl e \<Rightarrow> Inl e
                        | Inr par \<Rightarrow>
                            running_loop S clk (Suc k)
                              ((upd_obj (obj_id par) (\<lambda>o'. o'\<lparr>transactionState := False\<rparr>) b1)
                                \<lparr>runningTransactions := erase_at k (runningTransactions b1)\<rparr>))))"
  by pat_completeness auto
termination
  by (relation "measures [\<lambda>(S, clk, k, b). length (runningTransactions b),
    \<lambda>(S, clk, k, b). length (runningTransactions b) - k]")
    (auto simp: erase_at_def min_def dest: handleTransResult_running)

declare running_loop.simps [simp del]

definition handleRunningTransactions :: "'db env \<Rightarrow> (nat \<Rightarrow> int \<times> int) \<Rightarrow> 'db Bluetooth \<Rightarrow> bt_error + 'db Bluetooth" where
  "handleRunningTransactions S clk b = running_loop S clk 0 b"

definition updateAllBt :: "'db env \<Rightarrow> peer option \<Rightarrow> (nat \<Rightarrow> tab_in) \<Rightarrow>
    (nat \<Rightarrow> int \<times> int) \<Rightarrow> 'db Bluetooth \<Rightarrow> bt_error + 'db Bluetooth" where
  "updateAllBt S peer inp clk b =
     then_do (acceptConn S peer b) (\<lambda>b1.
     then_do (handleReadyConnections S inp b1) (handleRunningTransactions S clk))"

text \<open>A task that runs in its thread comes to its end.\<close>

definition task_done :: "'db env \<Rightarrow> int \<times> int \<Rightarrow> nat \<Rightarrow> 'db Bluetooth \<Rightarrow> bt_error + 'db Bluetooth" where
  "task_done S clk i b =
     then_do (deref i b) (\<lambda>t.
       case tr_data (currTrans t) of
         Async p j tsk \<Rightarrow>
           then_do (run_task S p j tsk (fst clk) (snd clk) b) (\<lambda>(r, b').
             Inr (upd_trans i (\<lambda>tr. tr\<lparr>tr_data := Ready r\<rparr>) b'))
       | _ \<Rightarrow> Inr b)"

section \<open>Closing\<close>

text \<open>\<open>killAllSockets\<close>: all sockets are closed, then the running transactions are waited for, then
  both lists are emptied.\<close>

fun get_all :: "'db env \<Rightarrow> (nat \<Rightarrow> int \<times> int) \<Rightarrow> nat list \<Rightarrow> 'db Bluetooth \<Rightarrow> bt_error + 'db Bluetooth" where
  "get_all S clk [] b = Inr b"
| "get_all S clk (i # is) b =
     then_do (fut_get S i (fst (clk i)) (snd (clk i)) b) (\<lambda>(_, b'). get_all S clk is b')"

fun release_all :: "'db env \<Rightarrow> (nat \<Rightarrow> int \<times> int) \<Rightarrow> BtTabObj list \<Rightarrow> 'db Bluetooth \<Rightarrow> bt_error + 'db Bluetooth" where
  "release_all S clk [] b = Inr b"
| "release_all S clk (t # ts) b =
     then_do (release S (clk (obj_id t)) t b) (release_all S clk ts)"

definition killAllSockets :: "'db env \<Rightarrow> (nat \<Rightarrow> int \<times> int) \<Rightarrow> 'db Bluetooth \<Rightarrow> bt_error + 'db Bluetooth" where
  "killAllSockets S clk b =
     then_do (get_all S clk (runningTransactions b) (foldl (\<lambda>b t. sockSuicide t b) b (connectedTablets b)))
       (\<lambda>b1. then_do (release_all S clk (connectedTablets b1) b1) (\<lambda>b2.
         Inr (b2\<lparr>runningTransactions := [], connectedTablets := []\<rparr>)))"

section \<open>Asking the kill buttons\<close>

text \<open>\<open>hov\<close> tells whether the mouse is over the kill button of the tablet with a socket.\<close>

definition released :: "mouse \<Rightarrow> (nat \<Rightarrow> bool) \<Rightarrow> BtTabObj \<Rightarrow> bool" where
  "released ms hov t = fst (isReleased ms (hov (tab_socket t)) (killButton t))"

definition press :: "mouse \<Rightarrow> (nat \<Rightarrow> bool) \<Rightarrow> BtTabObj \<Rightarrow> BtTabObj" where
  "press ms hov t = t\<lparr>killButton := snd (isReleased ms (hov (tab_socket t)) (killButton t))\<rparr>"

section \<open>The invariant of the manager\<close>

text \<open>Identities and sockets are distinct, identities were given out before; the running transactions are those of the
  tablets marked so, each once.\<close>

definition shape_inv :: "'db Bluetooth \<Rightarrow> bool" where
  "shape_inv b \<longleftrightarrow> distinct (map obj_id (connectedTablets b)) \<and>
     distinct (map tab_socket (connectedTablets b)) \<and>
     (\<forall>t\<in>set (connectedTablets b). obj_id t < next_id b) \<and> distinct (runningTransactions b) \<and>
     set (runningTransactions b) = obj_id ` {t \<in> set (connectedTablets b). transactionState t}"

lemma shape_inv_cong:
  fixes b b' :: "'db Bluetooth"
  assumes "shape b' = shape b"
  shows "shape_inv b' = shape_inv b"
proof -
  have e: "fst ` {x \<in> (\<lambda>t. (obj_id t, tab_socket t, transactionState t)) ` set ts. snd (snd x)} =
      obj_id ` {t \<in> set ts. transactionState t}" for ts :: "BtTabObj list"
    by (force simp: image_iff)
  have "shape_inv c = (case shape c of (l, r, cap, n) \<Rightarrow> distinct (map fst l) \<and>
      distinct (map (fst \<circ> snd) l) \<and> (\<forall>x\<in>set l. fst x < n) \<and>
      distinct r \<and> set r = fst ` {x \<in> set l. snd (snd x)})" for c :: "'db Bluetooth"
    by (simp add: shape_inv_def shape_def comp_def e)
  then show ?thesis by (simp only: assms)
qed

text \<open>The transaction of a tablet that is marked has a task of that tablet or its result; no other
  tablet has a task running.\<close>

fun async_free :: "future \<Rightarrow> bool" where
  "async_free (Async p j tsk) \<longleftrightarrow> False"
| "async_free _ \<longleftrightarrow> True"

fun own_running :: "nat \<Rightarrow> future \<Rightarrow> bool" where
  "own_running i (Async p j tsk) \<longleftrightarrow> p = i \<and> j = i"
| "own_running i (Ready r) \<longleftrightarrow> True"
| "own_running i _ \<longleftrightarrow> False"

definition own_ok :: "BtTabObj \<Rightarrow> bool" where
  "own_ok t \<longleftrightarrow>
     (if transactionState t
      then tr_parent (currTrans t) = Some (obj_id t) \<and> own_running (obj_id t) (tr_data (currTrans t))
      else async_free (tr_data (currTrans t)))"

definition bt_inv :: "'db Bluetooth \<Rightarrow> bool" where
  "bt_inv b \<longleftrightarrow> shape_inv b \<and> (\<forall>t\<in>set (connectedTablets b). own_ok t)"

lemmas bt_inv_parts = bt_inv_def shape_inv_def

lemma find_obj_in:
  assumes "distinct (map obj_id (connectedTablets b))" and "t \<in> set (connectedTablets b)"
  shows "find_obj (obj_id t) b = Some t"
proof -
  have "distinct (map obj_id ts) \<Longrightarrow> t \<in> set ts \<Longrightarrow> find (\<lambda>t'. obj_id t' = obj_id t) ts = Some t" for ts
    by (induction ts) (auto simp: image_iff)
  with assms show ?thesis by (simp add: find_obj_def)
qed

lemma find_obj_mem: "find_obj i b = Some t \<Longrightarrow> t \<in> set (connectedTablets b) \<and> obj_id t = i"
  by (auto simp: find_obj_def find_Some_iff)

text \<open>The invariant of all tablets but one.\<close>

definition bt_inv_but :: "nat \<Rightarrow> 'db Bluetooth \<Rightarrow> bool" where
  "bt_inv_but i b \<longleftrightarrow> shape_inv b \<and> (\<forall>t\<in>set (connectedTablets b). obj_id t \<noteq> i \<longrightarrow> own_ok t)"

lemma bt_inv_but_only:
  assumes "bt_inv_but i b" and "only i b b'"
  shows "bt_inv_but i b'"
proof -
  have sh: "shape b' = shape b" using assms(2) by (simp add: only_def)
  have "own_ok t'" if "t' \<in> set (connectedTablets b')" "obj_id t' \<noteq> i" for t'
  proof -
    from that(1) obtain k where k: "k < length (connectedTablets b')" "connectedTablets b' ! k = t'"
      by (auto simp: in_set_conv_nth)
    with assms(2) have "k < length (connectedTablets b)"
      and "obj_id (connectedTablets b ! k) \<noteq> i \<longrightarrow> t' = connectedTablets b ! k"
      by (auto simp: only_def list_all2_conv_all_nth)
    moreover have "obj_id (connectedTablets b ! k) = obj_id t'"
      using shape_ids [OF sh] k \<open>k < length (connectedTablets b)\<close> by (metis nth_map)
    ultimately have "t' \<in> set (connectedTablets b)" using that(2) by (metis nth_mem)
    with assms(1) that(2) show ?thesis by (simp add: bt_inv_but_def)
  qed
  with assms(1) shape_inv_cong [OF sh] show ?thesis by (simp add: bt_inv_but_def)
qed

lemma bt_inv_all_but: "bt_inv b \<Longrightarrow> bt_inv_but i b"
  by (simp add: bt_inv_def bt_inv_but_def)

lemma bt_inv_but_one:
  assumes "bt_inv_but i b" and "\<And>t. find_obj i b = Some t \<Longrightarrow> own_ok t"
  shows "bt_inv b"
proof -
  have "own_ok t" if "t \<in> set (connectedTablets b)" for t
    using find_obj_in [of b t] that assms
    by (cases "obj_id t = i") (auto simp: bt_inv_but_def shape_inv_def)
  with assms(1) show ?thesis by (simp add: bt_inv_def bt_inv_but_def)
qed

lemma bt_inv_only:
  assumes "bt_inv b" and "only i b b'" and "\<And>t. find_obj i b' = Some t \<Longrightarrow> own_ok t"
  shows "bt_inv b'"
  using bt_inv_but_one [OF bt_inv_but_only [OF bt_inv_all_but [OF assms(1)] assms(2)] assms(3)] .

text \<open>Moving objects is harmless when none of them has a transaction running.\<close>

lemma map_relocated:
  assumes "\<And>t i. f (t\<lparr>obj_id := i\<rparr>) = f t" and "length ts = length is"
  shows "map f (map (\<lambda>(t, i). t\<lparr>obj_id := i\<rparr>) (zip ts is)) = map f ts"
  using assms(2) by (induction ts "is" rule: list_induct2) (auto simp: assms(1))

lemma map_ids_relocated:
  "length ts = length is \<Longrightarrow> map obj_id (map (\<lambda>(t, i). t\<lparr>obj_id := i\<rparr>) (zip ts is)) = is"
  by (induction ts "is" rule: list_induct2) auto

lemma relocate_inv:
  assumes "bt_inv b" and "\<forall>t\<in>set (drop k (connectedTablets b)). \<not> transactionState t"
  shows "bt_inv (relocate k b)"
proof -
  define ts where "ts = connectedTablets b"
  define n where "n = length ts - k"
  define ids where "ids = [next_id b..<next_id b + n]"
  define new where "new = map (\<lambda>(t, i). t\<lparr>obj_id := i\<rparr>) (zip (drop k ts) ids)"
  have len: "length (drop k ts) = length ids" by (simp add: ids_def n_def)
  have st: "map transactionState new = map transactionState (drop k ts)"
    unfolding new_def by (rule map_relocated [OF _ len]) simp
  have tr: "map currTrans new = map currTrans (drop k ts)"
    unfolding new_def by (rule map_relocated [OF _ len]) simp
  have so: "map tab_socket new = map tab_socket (drop k ts)"
    unfolding new_def by (rule map_relocated [OF _ len]) simp
  have id: "map obj_id new = ids"
    using map_ids_relocated [OF len] by (simp add: new_def)
  have ct: "connectedTablets (relocate k b) = take k ts @ new"
    and rt: "runningTransactions (relocate k b) = runningTransactions b"
    and ni: "next_id (relocate k b) = next_id b + n"
    by (simp_all add: relocate_def Let_def new_def ids_def n_def ts_def)
  have idle: "\<forall>t\<in>set new. \<not> transactionState t"
  proof
    fix t assume "t \<in> set new"
    then have "transactionState t \<in> set (map transactionState new)" by simp
    then have "transactionState t \<in> set (map transactionState (drop k ts))" unfolding st .
    with assms(2) show "\<not> transactionState t" by (auto simp: ts_def)
  qed
  have own_new: "\<forall>t\<in>set new. own_ok t"
  proof
    fix t assume t: "t \<in> set new"
    then have "currTrans t \<in> set (map currTrans new)" by simp
    then have "currTrans t \<in> set (map currTrans (drop k ts))" unfolding tr .
    then obtain t0 where "t0 \<in> set (drop k ts)" "currTrans t = currTrans t0" by auto
    moreover from this assms have "own_ok t0" "\<not> transactionState t0"
      by (auto simp: bt_inv_def ts_def dest: in_set_dropD)
    ultimately show "own_ok t" using idle t by (simp add: own_ok_def)
  qed
  have "map tab_socket (take k ts @ new) = map tab_socket ts"
    using so by (metis append_take_drop_id map_append)
  then have ds: "distinct (map tab_socket (take k ts @ new))"
    using assms(1) by (simp only:) (simp add: bt_inv_parts ts_def)
  have old: "distinct (map obj_id ts)" "\<forall>t\<in>set ts. obj_id t < next_id b" "\<forall>t\<in>set ts. own_ok t"
      "set (runningTransactions b) = obj_id ` {t \<in> set ts. transactionState t}" "distinct (runningTransactions b)"
    using assms(1) by (simp_all add: bt_inv_parts ts_def)
  have "{t \<in> set ts. transactionState t} = {t \<in> set (take k ts). transactionState t}"
    using assms(2) by (subst (1) append_take_drop_id [of k ts, symmetric]) (auto simp: ts_def simp del: append_take_drop_id)
  moreover have "distinct (map obj_id (take k ts @ new))"
  proof -
    have "distinct (map obj_id (take k ts))" using old(1) by (simp add: take_map [symmetric])
    moreover have "\<forall>i\<in>set (map obj_id (take k ts)). i < next_id b" using old(2) by (auto dest: in_set_takeD)
    ultimately show ?thesis using id by (auto simp: ids_def)
  qed
  moreover have "\<forall>t\<in>set (take k ts @ new). obj_id t < next_id b + n"
  proof
    fix t assume "t \<in> set (take k ts @ new)"
    then consider "t \<in> set ts" | "obj_id t \<in> set ids"
      using id by (auto dest: in_set_takeD)
    then show "obj_id t < next_id b + n" using old(2) by cases (auto simp: ids_def trans_less_add1)
  qed
  ultimately show ?thesis
    using old idle own_new ds by (auto simp: bt_inv_parts ct rt ni dest: in_set_takeD)
qed

lemma bt_inv_idle:
  assumes "bt_inv b" and "t \<in> set (connectedTablets b)" and "\<not> transactionState t"
  shows "async_free (tr_data (currTrans t))"
  using assms by (auto simp: bt_inv_def own_ok_def)

lemma bt_inv_outside:
  "bt_inv (b\<lparr>net := n\<rparr>) = bt_inv b" "bt_inv (b\<lparr>tab_capacity := c\<rparr>) = bt_inv b"
  "bt_inv (sockSuicide t b) = bt_inv b"
  by (simp_all add: bt_inv_parts sockSuicide_def)

lemma relocate_map:
  assumes "\<And>t i. f (t\<lparr>obj_id := i\<rparr>) = f t"
  shows "map f (connectedTablets (relocate k b)) = map f (connectedTablets b)"
proof -
  define ts where "ts = connectedTablets b"
  have "map f (map (\<lambda>(t, i). t\<lparr>obj_id := i\<rparr>)
      (zip (drop k ts) [next_id b..<next_id b + (length ts - k)])) = map f (drop k ts)"
    by (rule map_relocated [OF assms]) simp
  moreover have "connectedTablets (relocate k b) = take k ts @ map (\<lambda>(t, i). t\<lparr>obj_id := i\<rparr>)
      (zip (drop k ts) [next_id b..<next_id b + (length ts - k)])"
    by (simp add: relocate_def Let_def ts_def)
  ultimately show ?thesis by (metis append_take_drop_id map_append ts_def)
qed

lemma relocate_sockets: "map tab_socket (connectedTablets (relocate k b)) = map tab_socket (connectedTablets b)"
  by (rule relocate_map) simp

text \<open>A socket that \<open>accept\<close> returns is not one that is open.\<close>

definition peer_new :: "peer option \<Rightarrow> 'db Bluetooth \<Rightarrow> bool" where
  "peer_new peer b \<longleftrightarrow>
     (case peer of None \<Rightarrow> True | Some (sck, _) \<Rightarrow> sck \<notin> tab_socket ` set (connectedTablets b))"

lemma push_new_inv:
  assumes "bt_inv c" and "sck \<notin> tab_socket ` set (connectedTablets c)"
  shows "bt_inv (c\<lparr>connectedTablets := connectedTablets c @ [mk_BtTabObj (next_id c) sck a],
    next_id := Suc (next_id c)\<rparr>)"
  using assms by (auto simp: bt_inv_parts mk_BtTabObj_def own_ok_def new_trans_def less_SucI)

lemma accept_checked:
  assumes "ret c = 0 \<or> last_error c \<in> set known_codes"
  shows "\<exists>st. checkSuccessWinsock c 0 msg no_output = Inr st"
  using check_outcome [of no_output c 0 msg] assms
  by (auto simp: outcome_def fresh_def no_output_def winsock_start_def)

lemma acceptConn_inv:
  assumes "bt_inv b" and "length (connectedTablets b) < tab_capacity b \<or> runningTransactions b = []"
    and "peer_new peer b" and "acceptConn S peer b = Inr b'"
  shows "bt_inv b'"
proof -
  have "bt_inv (push_tablet S sck a c)"
    if "bt_inv c" "length (connectedTablets c) < tab_capacity c \<or> runningTransactions c = []"
      "sck \<notin> tab_socket ` set (connectedTablets c)"
    for c :: "'a Bluetooth" and sck a
  proof (cases "length (connectedTablets c) < tab_capacity c")
    case True
    with push_new_inv [OF that(1,3)] show ?thesis by (simp add: push_tablet_def Let_def)
  next
    case False
    let ?c = "relocate 0 (c\<lparr>tab_capacity := e_grow S (tab_capacity c)\<rparr>)"
    from False that(2) have "runningTransactions c = []" by simp
    with that(1) have "\<forall>t\<in>set (connectedTablets c). \<not> transactionState t"
      by (auto simp: bt_inv_parts)
    then have "bt_inv ?c"
      by (intro relocate_inv) (simp_all add: bt_inv_outside that(1))
    moreover have "tab_socket ` set (connectedTablets ?c) = tab_socket ` set (connectedTablets c)"
      using arg_cong [OF relocate_sockets [of 0 "c\<lparr>tab_capacity := e_grow S (tab_capacity c)\<rparr>"], of set] by simp
    ultimately have "bt_inv (?c\<lparr>connectedTablets := connectedTablets ?c @ [mk_BtTabObj (next_id ?c) sck a],
        next_id := Suc (next_id ?c)\<rparr>)"
      using that(3) by (intro push_new_inv) simp_all
    with False show ?thesis by (simp add: push_tablet_def Let_def)
  qed
  with assms show ?thesis
    by (auto simp: acceptConn_def peer_new_def bt_inv_outside then_do_Inr split: option.split_asm)
qed

text \<open>Erasing a tablet that is not marked, with only such ones after it; its own future does not
  matter.\<close>

lemma erase_inv:
  assumes "bt_inv_but i b" and k: "k < length (connectedTablets b)" "obj_id (connectedTablets b ! k) = i"
    and idle: "\<forall>t\<in>set (drop k (connectedTablets b)). \<not> transactionState t"
  shows "bt_inv (relocate k (b\<lparr>connectedTablets := erase_at k (connectedTablets b)\<rparr>))"
proof -
  let ?ts = "connectedTablets b" and ?b = "b\<lparr>connectedTablets := erase_at k (connectedTablets b)\<rparr>"
  have dr: "drop k (erase_at k ?ts) = drop (Suc k) ?ts" using k(1) by (simp add: erase_at_def)
  have split: "set ?ts = set (take k ?ts) \<union> set (drop k ?ts)" by (metis append_take_drop_id set_append)
  have split': "set (erase_at k ?ts) = set (take k ?ts) \<union> set (drop (Suc k) ?ts)" by (simp add: erase_at_def)
  have sub: "set (drop (Suc k) ?ts) \<subseteq> set (drop k ?ts)" by (simp add: set_drop_subset_set_drop)
  have sh: "shape_inv b" "\<forall>t\<in>set ?ts. obj_id t \<noteq> i \<longrightarrow> own_ok t"
    using assms(1) by (simp_all add: bt_inv_but_def)
  have "{t \<in> set (erase_at k ?ts). transactionState t} = {t \<in> set ?ts. transactionState t}"
    using idle sub by (auto simp: split split')
  moreover have ids: "distinct (map obj_id (erase_at k ?ts))" "obj_id ` set (erase_at k ?ts) = obj_id ` set ?ts - {i}"
    using sh(1) k set_erase_at_distinct [of "map obj_id ?ts" k]
    by (simp_all add: shape_inv_def flip: map_erase_at)
  moreover have "distinct (map tab_socket (erase_at k ?ts))"
    using sh(1) k set_erase_at_distinct [of "map tab_socket ?ts" k]
    by (simp add: shape_inv_def flip: map_erase_at)
  moreover have "\<forall>t\<in>set (erase_at k ?ts). own_ok t"
    using sh(2) ids(2) set_erase_at [of k ?ts] by blast
  ultimately have "bt_inv ?b"
    using sh(1) set_erase_at [of k ?ts] by (auto simp: bt_inv_parts)
  then show ?thesis
    using idle sub by (intro relocate_inv) (auto simp: dr)
qed

lemma erase_tablet_idle:
  assumes "async_free (tr_data (currTrans (connectedTablets b ! k)))"
  shows "erase_tablet S clk k b = Inr (relocate k (b\<lparr>connectedTablets := erase_at k (connectedTablets b)\<rparr>))"
  using assms
  by (cases "tr_data (currTrans (connectedTablets b ! k))")
    (simp_all add: erase_tablet_def release_def Let_def)

lemma socket_index_at:
  "distinct (map tab_socket ts) \<Longrightarrow> k < length ts \<Longrightarrow> socket_index (tab_socket (ts ! k)) ts = Some k"
proof (induction ts arbitrary: k)
  case Nil
  then show ?case by simp
next
  case (Cons t ts)
  then show ?case by (cases k) (auto simp: image_iff)
qed

lemma killSocket_at:
  assumes "shape_inv b" and "k < length (connectedTablets b)"
  shows "killSocket S clk (tab_socket (connectedTablets b ! k)) b =
    then_do (erase_tablet S clk k (sockSuicide (connectedTablets b ! k) b)) (\<lambda>b'. Inr (True, b'))"
  using assms by (simp add: killSocket_def socket_index_at shape_inv_def)

section \<open>Every step keeps the invariant\<close>

lemma bt_inv_find: "bt_inv b \<Longrightarrow> find_obj i b = Some t \<Longrightarrow> own_ok t"
  using find_obj_mem [of i b t] by (auto simp: bt_inv_def)

lemma task_done_inv:
  assumes "bt_inv b" and "task_done S clk i b = Inr b'"
  shows "bt_inv b'"
proof -
  from assms(2) obtain t where t: "find_obj i b = Some t" by (auto simp: task_done_def then_do_Inr deref_Inr)
  note ok = bt_inv_find [OF assms(1) t] and id = find_obj_id [OF t]
  show ?thesis
  proof (cases "tr_data (currTrans t)")
    case (Async p j tsk)
    with ok id have own: "p = i" "j = i" "transactionState t" "tr_parent (currTrans t) = Some i"
      by (auto simp: own_ok_def split: if_splits)
    from assms(2) t Async own obtain r b1 where r: "run_task S i i tsk (fst clk) (snd clk) b = Inr (r, b1)"
      and b': "b' = upd_trans i (\<lambda>tr. tr\<lparr>tr_data := Ready r\<rparr>) b1"
      by (auto simp: task_done_def then_do_Inr deref_Inr)
    from run_task_only [OF r t] obtain okk where "only i b b1"
      and b1: "find_obj i b1 = Some (t\<lparr>currTrans := (currTrans t)\<lparr>tr_success := okk\<rparr>\<rparr>)" by blast
    then have "only i b b'" unfolding b' using only_trans only_upd_trans by blast
    with assms(1) show ?thesis
      by (rule bt_inv_only) (use own id b' b1 in \<open>auto simp: own_ok_def\<close>)
  qed (use assms t in \<open>auto simp: task_done_def then_do_Inr deref_Inr\<close>)
qed

text \<open>Marking a tablet or taking the mark away, in the list of tablets.\<close>

abbreviation set_state :: "bool \<Rightarrow> nat \<Rightarrow> BtTabObj \<Rightarrow> BtTabObj" where
  "set_state v i t \<equiv> if obj_id t = i then t\<lparr>transactionState := v\<rparr> else t"

lemma set_state_ids: "map obj_id (map (set_state v i) ts) = map obj_id ts"
    "map tab_socket (map (set_state v i) ts) = map tab_socket ts"
  by simp_all

lemma marked_ids:
  "obj_id ` {t \<in> set (map (set_state v i) ts). transactionState t} =
     (if v \<and> i \<in> set (map obj_id ts) then {i} else {}) \<union>
     (obj_id ` {t \<in> set ts. transactionState t} - {i})"
proof -
  have "{t \<in> set (map (set_state v i) ts). transactionState t} =
      set_state v i ` {t \<in> set ts. transactionState (set_state v i t)}"
    unfolding set_map by blast
  moreover have "obj_id ` set_state v i ` A = obj_id ` A" for A
    unfolding image_image by (intro image_cong) simp_all
  moreover have "transactionState (set_state v i t) = (if obj_id t = i then v else transactionState t)" for t
    by simp
  ultimately have "obj_id ` {t \<in> set (map (set_state v i) ts). transactionState t} =
      obj_id ` {t \<in> set ts. if obj_id t = i then v else transactionState t}"
    by (simp only:)
  also have "\<dots> = (if v \<and> i \<in> set (map obj_id ts) then {i} else {}) \<union>
     (obj_id ` {t \<in> set ts. transactionState t} - {i})"
    by (cases v) (auto simp: image_iff)
  finally show ?thesis .
qed

lemma bt_inv_mark:
  assumes "bt_inv_but i b" and "find_obj i b = Some t" and "i \<notin> set (runningTransactions b)"
    and "tr_parent (currTrans t) = Some i" and "own_running i (tr_data (currTrans t))"
  shows "bt_inv (upd_obj i (\<lambda>o'. o'\<lparr>transactionState := True\<rparr>)
    (b\<lparr>runningTransactions := runningTransactions b @ [i]\<rparr>))" (is "bt_inv ?b")
proof -
  let ?ts = "connectedTablets b"
  have t: "t \<in> set ?ts" "obj_id t = i" using find_obj_mem [OF assms(2)] by auto
  have inv: "distinct (map obj_id ?ts)" "\<forall>t\<in>set ?ts. obj_id t < next_id b"
      "distinct (runningTransactions b)" "\<forall>t\<in>set ?ts. obj_id t \<noteq> i \<longrightarrow> own_ok t"
      "set (runningTransactions b) = obj_id ` {t \<in> set ?ts. transactionState t}"
    using assms(1) by (simp_all add: bt_inv_but_def shape_inv_def)
  have uniq: "t' = t" if "t' \<in> set ?ts" "obj_id t' = i" for t'
    using find_obj_in [OF inv(1) that(1)] that(2) assms(2) by simp
  have ct: "connectedTablets ?b = map (set_state True i) ?ts" and rt: "runningTransactions ?b = runningTransactions b @ [i]"
    and ni: "next_id ?b = next_id b"
    by (simp_all add: upd_obj_def)
  have "set (runningTransactions ?b) = obj_id ` {t \<in> set (connectedTablets ?b). transactionState t}"
    unfolding ct marked_ids rt using t inv(5) assms(3) by auto
  moreover have "\<forall>t'\<in>set (connectedTablets ?b). own_ok t'"
  proof -
    have "own_ok (set_state True i t')" if "t' \<in> set ?ts" for t'
      using inv(4) uniq [OF that] that assms(4,5) t(2) by (cases "obj_id t' = i") (simp_all add: own_ok_def)
    then show ?thesis unfolding ct set_map by blast
  qed
  moreover have "\<forall>t'\<in>set (connectedTablets ?b). obj_id t' < next_id b"
    unfolding ct using inv(2) by auto
  moreover have "distinct (map obj_id (connectedTablets ?b))" unfolding ct set_state_ids(1) by (rule inv(1))
  moreover have "distinct (map tab_socket (connectedTablets ?b))"
    unfolding ct set_state_ids(2) using assms(1) by (simp add: bt_inv_but_def shape_inv_def)
  moreover have "distinct (runningTransactions ?b)" unfolding rt using inv(3) assms(3) by simp
  ultimately show ?thesis by (simp add: bt_inv_def shape_inv_def ni)
qed

lemma bt_inv_unmark:
  assumes "bt_inv_but i b" and "find_obj i b = Some t" and "k < length (runningTransactions b)"
    and "runningTransactions b ! k = i" and "async_free (tr_data (currTrans t))"
  shows "bt_inv ((upd_obj i (\<lambda>o'. o'\<lparr>transactionState := False\<rparr>) b)
    \<lparr>runningTransactions := erase_at k (runningTransactions b)\<rparr>)" (is "bt_inv ?b")
proof -
  let ?ts = "connectedTablets b"
  have t: "t \<in> set ?ts" "obj_id t = i" using find_obj_mem [OF assms(2)] by auto
  have inv: "distinct (map obj_id ?ts)" "\<forall>t\<in>set ?ts. obj_id t < next_id b"
      "distinct (runningTransactions b)" "\<forall>t\<in>set ?ts. obj_id t \<noteq> i \<longrightarrow> own_ok t"
      "set (runningTransactions b) = obj_id ` {t \<in> set ?ts. transactionState t}"
    using assms(1) by (simp_all add: bt_inv_but_def shape_inv_def)
  have uniq: "t' = t" if "t' \<in> set ?ts" "obj_id t' = i" for t'
    using find_obj_in [OF inv(1) that(1)] that(2) assms(2) by simp
  have ct: "connectedTablets ?b = map (set_state False i) ?ts"
    and rt: "runningTransactions ?b = erase_at k (runningTransactions b)" and ni: "next_id ?b = next_id b"
    by (simp_all add: upd_obj_def)
  have er: "distinct (runningTransactions ?b)" "set (runningTransactions ?b) = set (runningTransactions b) - {i}"
    using set_erase_at_distinct [OF inv(3) assms(3)] assms(4) by (simp_all add: rt)
  have "set (runningTransactions ?b) = obj_id ` {t \<in> set (connectedTablets ?b). transactionState t}"
    unfolding ct marked_ids er(2) inv(5) by simp
  moreover have "\<forall>t'\<in>set (connectedTablets ?b). own_ok t'"
  proof -
    have "own_ok (set_state False i t')" if "t' \<in> set ?ts" for t'
      using inv(4) uniq [OF that] that assms(5) t(2) by (cases "obj_id t' = i") (simp_all add: own_ok_def)
    then show ?thesis unfolding ct set_map by blast
  qed
  moreover have "\<forall>t'\<in>set (connectedTablets ?b). obj_id t' < next_id b"
    unfolding ct using inv(2) by auto
  moreover have "distinct (map obj_id (connectedTablets ?b))" unfolding ct set_state_ids(1) by (rule inv(1))
  moreover have "distinct (map tab_socket (connectedTablets ?b))"
    unfolding ct set_state_ids(2) using assms(1) by (simp add: bt_inv_but_def shape_inv_def)
  ultimately show ?thesis using er(1) by (simp add: bt_inv_def shape_inv_def ni)
qed

text \<open>The tablet of a running transaction.\<close>

lemma running_tablet:
  assumes "bt_inv b" and "k < length (runningTransactions b)"
  obtains t where "find_obj (runningTransactions b ! k) b = Some t" and "transactionState t"
    and "tr_parent (currTrans t) = Some (runningTransactions b ! k)"
    and "own_running (runningTransactions b ! k) (tr_data (currTrans t))"
proof -
  have "runningTransactions b ! k \<in> set (runningTransactions b)" using assms(2) by simp
  then obtain t where "t \<in> set (connectedTablets b)" "transactionState t" "obj_id t = runningTransactions b ! k"
    using assms(1) by (auto simp: bt_inv_parts)
  with assms(1) that [of t] find_obj_in [of b t] show ?thesis by (auto simp: bt_inv_parts own_ok_def)
qed

lemma parse_match_lines_errors: "parse_match_lines ls = Inl e \<Longrightarrow> e = OutOfRange"
proof (induction ls)
  case Nil
  then show ?case by simp
next
  case (Cons l ls)
  have "parse_match_line l = Inl e' \<Longrightarrow> e' = OutOfRange" for e'
    by (auto simp: parse_match_line_def Let_def substr_def then_do_def split: sum.splits if_splits)
  with Cons show ?case by (auto simp: then_do_def split: sum.splits)
qed

text \<open>How handling a finished transaction can fail: with an exception, or in the database.\<close>

definition handling_error :: "'db env \<Rightarrow> bt_error \<Rightarrow> bool" where
  "handling_error S e \<longleftrightarrow> e = BadOptionalAccess \<or> e = OutOfRange \<or>
    (e = Undefined \<and> (\<exists>ds d. addMatchDatapoints (e_srv S) (e_cset S) ds (e_open S d) = None))"

lemma handleTransResult_errors:
  assumes "handleTransResult S c1 c2 i b = Inl e" and "find_obj i b = Some t"
    and "tr_parent (currTrans t) = Some i" and "tr_data (currTrans t) = Ready r"
  shows "handling_error S e"
proof -
  define b1 where "b1 = upd_trans i (\<lambda>tr. tr\<lparr>tr_data := NoState\<rparr>) b"
  have g: "fut_get S i c1 c2 b = then_do (rethrow r) (\<lambda>x. Inr (x, b1))"
    using assms(2,4) by (simp add: fut_get_def deref_def b1_def)
  have b1: "find_obj i b1 = Some (t\<lparr>currTrans := (currTrans t)\<lparr>tr_data := NoState\<rparr>\<rparr>)" (is "_ = Some ?t")
    using assms(2) by (simp add: b1_def)
  have p: "tr_parent (currTrans ?t) = Some i" using assms(3) by simp
  show ?thesis
  proof (cases r)
    case (Inl ex)
    with g have "fut_get S i c1 c2 b = Inl OutOfRange" by simp
    with assms(1) show ?thesis
      unfolding handleTransResult_def deref_own [OF assms(2,3)] Let_def
      by (auto simp: handling_error_def deref_own(2) [OF assms(2,3)] split: if_splits)
  next
  case (Inr v)
  with g have g: "fut_get S i c1 c2 b = Inr (v, b1)" by simp
  note run = assms(1) [unfolded handleTransResult_def deref_own [OF assms(2,3)] g then_do_simps Let_def prod.case
      deref_own(1) [OF b1 p]]
  show ?thesis
  proof (cases "tr_type (currTrans t) = TRANS_RECV_MATCH")
    case True
    with run show ?thesis
      by (cases v) (auto simp: opt_value_def handling_error_def split: if_splits option.splits)
  next
    case no_match: False
    show ?thesis
    proof (cases "tr_type (currTrans t) = TRANS_RECV_TABLET_INFO")
      case True
      with run no_match deref_own(2) [OF b1 p] show ?thesis by (auto split: if_splits option.splits)
    next
      case False
      with run no_match show ?thesis
        by (cases v) (auto simp: opt_value_def handling_error_def then_do_def dest: parse_match_lines_errors
            split: if_splits sum.splits)
    qed
  qed
  qed
qed

text \<open>One turn of the loop over the running transactions: it goes on, it fails, or a finished
  transaction is taken off the list.\<close>

lemma running_step:
  assumes "bt_inv b" and lt: "k < length (runningTransactions b)"
  shows "running_loop S clk k b = running_loop S clk (Suc k) b \<or>
    (\<exists>e. running_loop S clk k b = Inl e \<and> handling_error S e) \<or>
    (\<exists>b2. bt_inv b2 \<and> Suc (length (runningTransactions b2)) = length (runningTransactions b) \<and>
      running_loop S clk k b = running_loop S clk (Suc k) b2)"
proof -
  define i where "i = runningTransactions b ! k"
  note run = running_loop.simps [of S clk k b, unfolded Let_def, folded i_def]
  from running_tablet [OF assms] obtain t where t: "find_obj i b = Some t"
    and ok: "tr_parent (currTrans t) = Some i" "own_running i (tr_data (currTrans t))"
    unfolding i_def by blast
  show ?thesis
  proof (cases "tr_data (currTrans t)")
    case (Async p j tsk)
    with run lt t show ?thesis by (simp add: deref_def isReady_def)
  next
    case (Ready r)
    show ?thesis
    proof (cases "handleTransResult S (fst (clk i)) (snd (clk i)) i b")
      case (Inl e)
      with run lt t Ready have "running_loop S clk k b = Inl e" by (simp add: deref_def isReady_def)
      with handleTransResult_errors [OF Inl t ok(1) Ready] show ?thesis by simp
    next
      case h: (Inr b1)
      have "own_future i (tr_data (currTrans t))" using Ready by simp
      with handleTransResult_kept [OF h t ok(1)] obtain t1 where o1: "only i b b1"
        and t1: "find_obj i b1 = Some t1" "tr_parent (currTrans t1) = Some i"
          "tr_data (currTrans t1) = tr_data (currTrans t) \<or> tr_data (currTrans t1) = NoState"
        by blast
      define b2 where "b2 = (upd_obj i (\<lambda>o'. o'\<lparr>transactionState := False\<rparr>) b1)
        \<lparr>runningTransactions := erase_at k (runningTransactions b1)\<rparr>"
      have rt: "runningTransactions b1 = runningTransactions b" by (rule handleTransResult_running [OF h])
      have par: "then_do (deref i b1) (\<lambda>t1. deref_parent (currTrans t1) b1) = Inr t1"
        using deref_own [OF t1(1,2)] by simp
      from run lt t Ready h par deref_own(3) [OF t1(1,2)]
      have "running_loop S clk k b = running_loop S clk (Suc k) b2"
        by (simp add: deref_def isReady_def b2_def)
      moreover have "bt_inv b2" unfolding b2_def
      proof (rule bt_inv_unmark)
        show "bt_inv_but i b1" using bt_inv_but_only [OF bt_inv_all_but [OF assms(1)] o1] .
      qed (use t1 lt rt Ready in \<open>auto simp: i_def\<close>)
      moreover have "Suc (length (runningTransactions b2)) = length (runningTransactions b)"
        using lt by (simp add: b2_def rt)
      ultimately show ?thesis by blast
    qed
  next
    case NoState
    with ok show ?thesis by simp
  next
    case (Deferred p j tsk)
    with ok show ?thesis by simp
  qed
qed

lemma running_loop_outcome:
  assumes "bt_inv b"
  shows "case running_loop S clk k b of Inl e \<Rightarrow> handling_error S e | Inr b' \<Rightarrow> bt_inv b'"
  using assms
proof (induction "2 * length (runningTransactions b) - k" arbitrary: b k rule: less_induct)
  case less
  show ?case
  proof (cases "k < length (runningTransactions b)")
    case False
    with less.prems show ?thesis by (simp add: running_loop.simps [of S clk k b])
  next
    case True
    from running_step [OF less.prems True, of S clk] show ?thesis
    proof (elim disjE exE conjE)
      assume "running_loop S clk k b = running_loop S clk (Suc k) b"
      with less.hyps [of b "Suc k"] less.prems True show ?thesis by simp
    next
      fix e assume "running_loop S clk k b = Inl e" "handling_error S e"
      then show ?thesis by simp
    next
      fix b2 assume "bt_inv b2" "Suc (length (runningTransactions b2)) = length (runningTransactions b)"
        "running_loop S clk k b = running_loop S clk (Suc k) b2"
      with less.hyps [of b2 "Suc k"] True show ?thesis by simp
    qed
  qed
qed

lemma running_loop_inv: "running_loop S clk k b = Inr b' \<Longrightarrow> bt_inv b \<Longrightarrow> bt_inv b'"
  using running_loop_outcome [of b S clk k] by simp

lemma readTransactionData_only:
  assumes "readTransactionData S inp i b = Inr b1" and "find_obj i b = Some t"
  shows "only i b b1 \<and> (\<exists>t1. find_obj i b1 = Some t1 \<and> tr_parent (currTrans t1) = Some i \<and>
    transactionState t1 = transactionState t \<and> tr_data (currTrans t1) = tr_data (currTrans t))"
proof -
  let ?p = "\<lambda>tr. tr\<lparr>tr_parent := Some i\<rparr>"
  from assms consider (notready) f where "b1 = upd_trans i f (upd_trans i ?p b)"
      "f = (\<lambda>tr. tr\<lparr>tr_success := False, tr_type := TRANS_CLOSE_SOCKET, writeTransaction := False\<rparr>)"
    | (code) c n g where "b1 = upd_trans i g (upd_trans i (\<lambda>tr. tr\<lparr>tr_type := c\<rparr>) ((upd_trans i ?p b)\<lparr>net := n\<rparr>))"
      "g = (\<lambda>tr. tr\<lparr>tr_success := False, writeTransaction := False\<rparr>) \<or>
       g = (\<lambda>tr. tr\<lparr>writeTransaction := sint c < 0\<rparr>)"
    by (auto simp: readTransactionData_def then_do_Inr deref_Inr Let_def split: if_splits option.splits sum.splits)
  then show ?thesis
  proof cases
    case notready
    have "only i b b1" unfolding notready(1) by (intro only_trans [OF only_upd_trans only_upd_trans])
    with notready assms(2) show ?thesis by auto
  next
    case code
    have "only i b b1" unfolding code(1)
      by (intro only_trans [OF only_trans [OF only_trans [OF only_upd_trans only_outside(1)] only_upd_trans] only_upd_trans])
    with code assms(2) show ?thesis by auto
  qed
qed

lemma only_length: "only i b b' \<Longrightarrow> length (connectedTablets b') = length (connectedTablets b)"
  by (auto simp: only_def dest: list_all2_lengthD)

lemma only_states:
  fixes b b' :: "'db Bluetooth"
  assumes "only i b b'"
  shows "map transactionState (connectedTablets b') = map transactionState (connectedTablets b)"
    and "runningTransactions b' = runningTransactions b"
proof -
  have "map (snd \<circ> snd) (fst (shape c)) = map transactionState (connectedTablets c)" for c :: "'db Bluetooth"
    by (simp add: shape_def)
  then show "map transactionState (connectedTablets b') = map transactionState (connectedTablets b)"
    using assms by (metis only_def)
  show "runningTransactions b' = runningTransactions b" using assms by (simp add: only_def shape_def)
qed

lemma only_idle:
  fixes b b' :: "'db Bluetooth"
  assumes "only i b b'" and "\<forall>t\<in>set (drop k (connectedTablets b)). \<not> transactionState t"
  shows "\<forall>t\<in>set (drop k (connectedTablets b')). \<not> transactionState t"
proof -
  have "map transactionState (drop k (connectedTablets b')) = map transactionState (drop k (connectedTablets b))"
    using only_states(1) [OF assms(1)] by (simp flip: drop_map)
  then have "transactionState ` set (drop k (connectedTablets b')) = transactionState ` set (drop k (connectedTablets b))"
    by (metis set_map)
  with assms(2) show ?thesis by blast
qed

lemma erase_tablet_inv:
  assumes "erase_tablet S clk k b = Inr b'" and "bt_inv_but i b" and "k < length (connectedTablets b)"
    and "obj_id (connectedTablets b ! k) = i"
    and idle: "\<forall>t\<in>set (drop k (connectedTablets b)). \<not> transactionState t"
    and own: "own_future i (tr_data (currTrans (connectedTablets b ! k)))
      \<or> async_free (tr_data (currTrans (connectedTablets b ! k)))"
  shows "bt_inv b' \<and> Suc (length (connectedTablets b')) = length (connectedTablets b)"
proof -
  let ?t = "connectedTablets b ! k"
  have len: "length (connectedTablets (relocate k (c\<lparr>connectedTablets := erase_at k (connectedTablets c)\<rparr>))) =
      length (connectedTablets c) - 1" if "k < length (connectedTablets c)" for c :: "'a Bluetooth"
    using that by (simp add: relocate_def Let_def erase_at_def min_def)
  show ?thesis
  proof (cases "async_free (tr_data (currTrans ?t))")
    case True
    with assms(1) have "b' = relocate k (b\<lparr>connectedTablets := erase_at k (connectedTablets b)\<rparr>)"
      by (simp add: erase_tablet_idle)
    with erase_inv [OF assms(2-4) idle] len [OF assms(3)] assms(3) show ?thesis by simp
  next
    case False
    with own obtain tsk where d: "tr_data (currTrans ?t) = Async i i tsk"
      by (cases "tr_data (currTrans ?t)") auto
    with assms(1) have last: "Suc k = length (connectedTablets b)"
      by (auto simp: erase_tablet_def Let_def split: if_splits)
    with assms(1) d obtain r b1 where r: "run_task S i i tsk (fst clk) (snd clk) b = Inr (r, b1)"
      and b': "b' = relocate k (b1\<lparr>connectedTablets := erase_at k (connectedTablets b1)\<rparr>)"
      by (auto simp: erase_tablet_def release_def Let_def then_do_Inr)
    have "distinct (map obj_id (connectedTablets b))" using assms(2) by (simp add: bt_inv_but_def shape_inv_def)
    with assms(3,4) have t: "find_obj i b = Some ?t" using find_obj_in [of b ?t] by simp
    have o1: "only i b b1" using run_task_only(1) [OF r t] .
    have k1: "k < length (connectedTablets b1)" using assms(3) only_length [OF o1] by simp
    have "obj_id (connectedTablets b1 ! k) = i"
      using shape_ids [of b1 b] o1 assms(3,4) k1 by (metis nth_map only_def)
    from erase_inv [OF bt_inv_but_only [OF assms(2) o1] k1 this only_idle [OF o1 idle]] len [OF k1] b'
    show ?thesis using k1 only_length [OF o1] by simp
  qed
qed

lemma run_task_length:
  "run_task S p j tsk t1 t2 b = Inr (r, b') \<Longrightarrow> length (connectedTablets b') = length (connectedTablets b)"
  by (drule run_task_shape, drule arg_cong [of _ _ "\<lambda>x. length (fst x)"]) (simp add: shape_def)

lemma erase_tablet_shorter:
  assumes "erase_tablet S clk k b = Inr b'" and "k < length (connectedTablets b)"
  shows "length (connectedTablets b') < length (connectedTablets b)"
proof -
  from assms(1) obtain b1 where "length (connectedTablets b1) = length (connectedTablets b)"
    "b' = relocate k (b1\<lparr>connectedTablets := erase_at k (connectedTablets b1)\<rparr>)"
    by (auto simp: erase_tablet_def release_def Let_def then_do_Inr
        dest: run_task_length split: if_splits future.splits)
  with assms(2) show ?thesis by (simp add: relocate_def Let_def erase_at_def min_def)
qed

lemma start_transaction_inv:
  assumes "start_transaction S inp i b = Inr b'" and "bt_inv b" and "k < length (connectedTablets b)"
    and "connectedTablets b ! k = t" and "obj_id t = i" and "\<not> transactionState t"
    and keep: "(\<forall>t\<in>set (drop k (connectedTablets b)). \<not> transactionState t) \<or>
      length (connectedTablets b') = length (connectedTablets b)"
  shows "bt_inv b'"
proof -
  have t_in: "t \<in> set (connectedTablets b)" using assms(3,4) by auto
  with assms(2,5) have t: "find_obj i b = Some t" using find_obj_in [of b t] by (simp add: bt_inv_parts)
  have free: "async_free (tr_data (currTrans t))" using bt_inv_idle [OF assms(2) t_in assms(6)] .
  have i_run: "i \<notin> set (runningTransactions b)"
  proof
    assume "i \<in> set (runningTransactions b)"
    with assms(2) obtain t' where "t' \<in> set (connectedTablets b)" "transactionState t'" "obj_id t' = i"
      by (auto simp: bt_inv_parts)
    with find_obj_in [of b t'] assms(2,6) t show False by (simp add: bt_inv_parts)
  qed
  from assms(1) obtain b1 b2 where rd: "readTransactionData S inp i b = Inr b1"
    and init: "initReadyTransaction S (how inp) (fst (t_task inp)) (snd (t_task inp)) i b1 = Inr b2"
    by (auto simp: start_transaction_def then_do_Inr)
  from readTransactionData_only [OF rd t] obtain t1 where o1: "only i b b1"
    and t1: "find_obj i b1 = Some t1" "tr_parent (currTrans t1) = Some i" "\<not> transactionState t1"
      "tr_data (currTrans t1) = tr_data (currTrans t)"
    using assms(6) by auto
  from initReadyTransaction_kept [OF init t1(1,2)] obtain t2 where o2: "only i b b2"
    and t2: "find_obj i b2 = Some t2" "tr_parent (currTrans t2) = Some i" "\<not> transactionState t2"
      "tr_data (currTrans t2) = tr_data (currTrans t) \<or> own_future i (tr_data (currTrans t2))"
      "batmanTrans (currTrans t2) \<or> writeTransaction (currTrans t2) \<or> own_future i (tr_data (currTrans t2))"
    using only_trans [OF o1] t1(3,4) unfolding kept_def by auto
  have but2: "bt_inv_but i b2" using bt_inv_but_only [OF bt_inv_all_but [OF assms(2)] o2] .
  note rest = assms(1) [unfolded start_transaction_def rd init deref_own [OF t2(1,2)] then_do_simps]
  show ?thesis
  proof (cases "batmanTrans (currTrans t2) \<or> \<not> tr_success (currTrans t2)")
    case True
    have k2: "k < length (connectedTablets b2)" using assms(3) only_length [OF o2] by simp
    have id2: "obj_id (connectedTablets b2 ! k) = i"
      using shape_ids [of b2 b] o2 assms(3-5) k2 by (metis nth_map only_def)
    have sh2: "shape_inv b2" using but2 by (simp add: bt_inv_but_def)
    then have at2: "connectedTablets b2 ! k = t2"
      using find_obj_in [of b2 "connectedTablets b2 ! k"] k2 id2 t2(1) by (simp add: shape_inv_def)
    from rest True obtain r where "killSocket S (t_task inp) (tab_socket t2) b2 = Inr (r, b')"
      by (auto simp: then_do_Inr)
    then have er: "erase_tablet S (t_task inp) k (sockSuicide t2 b2) = Inr b'"
      using killSocket_at [OF sh2 k2] at2 by (simp add: then_do_Inr)
    have ct: "connectedTablets (sockSuicide t2 b2) = connectedTablets b2"
      and butS: "bt_inv_but i (sockSuicide t2 b2)"
      using but2 by (simp_all add: sockSuicide_def bt_inv_but_def shape_inv_def)
    have "length (connectedTablets b') \<noteq> length (connectedTablets b)"
    proof -
      have "length (connectedTablets b') < length (connectedTablets b2)"
        using erase_tablet_shorter [OF er] k2 ct by simp
      then show ?thesis using only_length [OF o2] by simp
    qed
    with keep have "\<forall>t\<in>set (drop k (connectedTablets b)). \<not> transactionState t" by simp
    note idle = only_idle [OF o2 this]
    from erase_tablet_inv [OF er butS] k2 id2 idle t2(4) free at2 ct show ?thesis by auto
  next
    case nokill: False
    show ?thesis
    proof (cases "tr_data (currTrans t2)")
      case (Async p j tsk)
      then have "tr_data (currTrans t2) \<noteq> tr_data (currTrans t)" using free by (metis async_free.simps(1))
      with t2(4) Async have own: "own_running i (tr_data (currTrans t2))" by simp
      from rest nokill Async deref_own(3) [OF t2(1,2)] have b': "b' = upd_obj i (\<lambda>o'. o'\<lparr>transactionState := True\<rparr>)
          (b2\<lparr>runningTransactions := runningTransactions b2 @ [i]\<rparr>)"
        by (simp add: isReady_def)
      have "i \<notin> set (runningTransactions b2)" using i_run only_states(2) [OF o2] by simp
      from bt_inv_mark [OF but2 t2(1) this t2(2) own] show ?thesis unfolding b' .
    next
      case NoState
      with rest nokill show ?thesis by (simp add: isReady_def)
    next
      case (Deferred p j tsk)
      with rest nokill have h: "handleTransResult S (fst (t_task inp)) (snd (t_task inp)) i b2 = Inr b'"
        by (simp add: isReady_def)
      from handleTransResult_kept [OF h t2(1,2)] t2(5) nokill obtain t3 where "only i b2 b'"
        "find_obj i b' = Some t3" "transactionState t3 = transactionState t2"
        "tr_data (currTrans t3) = tr_data (currTrans t2) \<or> tr_data (currTrans t3) = NoState"
        by auto
      then have o3: "only i b2 b'" and "own_ok t3" and t3: "find_obj i b' = Some t3"
        using t2(3) Deferred by (auto simp: own_ok_def)
      show ?thesis
        by (rule bt_inv_but_one [OF bt_inv_but_only [OF but2 o3]]) (use t3 \<open>own_ok t3\<close> in simp)
    next
      case (Ready r)
      with rest nokill have h: "handleTransResult S (fst (t_task inp)) (snd (t_task inp)) i b2 = Inr b'"
        by (simp add: isReady_def)
      from handleTransResult_kept [OF h t2(1,2)] t2(5) nokill obtain t3 where "only i b2 b'"
        "find_obj i b' = Some t3" "transactionState t3 = transactionState t2"
        "tr_data (currTrans t3) = tr_data (currTrans t2) \<or> tr_data (currTrans t3) = NoState"
        by auto
      then have o3: "only i b2 b'" and "own_ok t3" and t3: "find_obj i b' = Some t3"
        using t2(3) Ready by (auto simp: own_ok_def)
      show ?thesis
        by (rule bt_inv_but_one [OF bt_inv_but_only [OF but2 o3]]) (use t3 \<open>own_ok t3\<close> in simp)
    qed
  qed
qed

section \<open>Reachable states\<close>

definition bt_init :: "(nat \<Rightarrow> sock) \<Rightarrow> 'db \<Rightarrow> 'db Bluetooth" where
  "bt_init n d = \<lparr>connectedTablets = [], runningTransactions = [], tab_capacity = 0, next_id = 0,
     net = n, closed = [], dbase = d, bt_toasts = []\<rparr>"

text \<open>The steps of the manager, each under the condition that objects with a running transaction are
  not moved: a tablet is accepted into a full vector only while nothing runs, and a tablet is
  removed only when nothing runs in it or after it.\<close>

inductive bt_reach :: "'db env \<Rightarrow> 'db Bluetooth \<Rightarrow> bool" for S :: "'db env" where
  Init: "bt_reach S (bt_init n d)"
| Accept: "bt_reach S b \<Longrightarrow> length (connectedTablets b) < tab_capacity b \<or> runningTransactions b = [] \<Longrightarrow>
    peer_new peer b \<Longrightarrow> acceptConn S peer b = Inr b' \<Longrightarrow> bt_reach S b'"
| Start: "bt_reach S b \<Longrightarrow> k < length (connectedTablets b) \<Longrightarrow> connectedTablets b ! k = t \<Longrightarrow>
    \<not> transactionState t \<Longrightarrow> start_transaction S inp (obj_id t) b = Inr b' \<Longrightarrow>
    (\<forall>t\<in>set (drop k (connectedTablets b)). \<not> transactionState t) \<or>
      length (connectedTablets b') = length (connectedTablets b) \<Longrightarrow> bt_reach S b'"
| Done: "bt_reach S b \<Longrightarrow> task_done S clk i b = Inr b' \<Longrightarrow> bt_reach S b'"
| Running: "bt_reach S b \<Longrightarrow> handleRunningTransactions S ck b = Inr b' \<Longrightarrow> bt_reach S b'"
| Kill: "bt_reach S b \<Longrightarrow> k < length (connectedTablets b) \<Longrightarrow> connectedTablets b ! k = t \<Longrightarrow>
    \<forall>t\<in>set (drop k (connectedTablets b)). \<not> transactionState t \<Longrightarrow>
    killSocket S clk (tab_socket t) b = Inr (r, b') \<Longrightarrow> bt_reach S b'"
| Kill_all: "bt_reach S b \<Longrightarrow> killAllSockets S ck b = Inr b' \<Longrightarrow> bt_reach S b'"
| Buttons: "bt_reach S b \<Longrightarrow>
    bt_reach S (b\<lparr>connectedTablets := map (press ms hov) (connectedTablets b)\<rparr>)"

lemma killSocket_inv:
  assumes "killSocket S clk (tab_socket t) b = Inr (r, b')" and "bt_inv b"
    and "k < length (connectedTablets b)" and "connectedTablets b ! k = t"
    and "\<forall>t\<in>set (drop k (connectedTablets b)). \<not> transactionState t"
  shows "bt_inv b'"
proof -
  have sh: "shape_inv b" using assms(2) by (simp add: bt_inv_def)
  have "t \<in> set (drop k (connectedTablets b))"
    using assms(3,4) by (metis Cons_nth_drop_Suc list.set_intros(1))
  with assms(5) have "\<not> transactionState t" by blast
  moreover have "t \<in> set (connectedTablets b)" using assms(3,4) by auto
  ultimately have free: "async_free (tr_data (currTrans t))" using bt_inv_idle [OF assms(2)] by blast
  have er: "erase_tablet S clk k (sockSuicide t b) = Inr b'"
    using assms(1) killSocket_at [OF sh assms(3)] assms(4) by (simp add: then_do_Inr)
  have ct: "connectedTablets (sockSuicide t b) = connectedTablets b" by (simp add: sockSuicide_def)
  have "bt_inv_but (obj_id t) (sockSuicide t b)"
    using bt_inv_all_but assms(2) bt_inv_outside(3) by blast
  from erase_tablet_inv [OF er this] free assms(3-5) ct show ?thesis by simp
qed

lemma press_simps [simp]:
  "obj_id (press ms hov t) = obj_id t" "tab_socket (press ms hov t) = tab_socket t"
  "transactionState (press ms hov t) = transactionState t" "currTrans (press ms hov t) = currTrans t"
  "tabScoutingName (press ms hov t) = tabScoutingName t"
  by (simp_all add: press_def)

lemma press_inv:
  assumes "bt_inv b"
  shows "bt_inv (b\<lparr>connectedTablets := map (press ms hov) (connectedTablets b)\<rparr>)"
proof -
  have "{t \<in> press ms hov ` A. transactionState t} = press ms hov ` {t \<in> A. transactionState t}" for A
    by auto
  moreover have "map obj_id (map (press ms hov) ts) = map obj_id ts"
    "map tab_socket (map (press ms hov) ts) = map tab_socket ts" for ts
    by simp_all
  ultimately show ?thesis using assms
    by (simp add: bt_inv_parts image_image own_ok_def del: map_map)
qed

lemma bt_reach_inv: "bt_reach S b \<Longrightarrow> bt_inv b"
proof (induction rule: bt_reach.induct)
  case (Init n d)
  then show ?case by (simp add: bt_inv_parts bt_init_def)
next
  case (Accept b peer b')
  then show ?case using acceptConn_inv by blast
next
  case (Start b k t inp b')
  then show ?case using start_transaction_inv [OF Start.hyps(5) Start.IH Start.hyps(2,3) refl] by blast
next
  case (Done b clk i b')
  then show ?case using task_done_inv by blast
next
  case (Running b ck b')
  then show ?case using running_loop_inv unfolding handleRunningTransactions_def by blast
next
  case (Kill b k t clk r b')
  then show ?case using killSocket_inv [OF Kill.hyps(5) Kill.IH] by blast
next
  case (Kill_all b ck b')
  then show ?case by (auto simp: killAllSockets_def then_do_Inr bt_inv_parts)
next
  case (Buttons b ms hov)
  show ?case by (rule press_inv [OF Buttons.IH])
qed

section \<open>Properties\<close>

definition example_env :: "unit env" where
  "example_env = \<lparr>e_srv = \<lambda>_ d. ([], d), e_cset = mariadb_compiled_charsets ! 5,
     e_open = \<lambda>_. example_conn\<lparr>connected := False\<rparr>, e_parse = \<lambda>_. None, e_malloc = \<lambda>_. True,
     e_files = \<lambda>_. [], e_grow = \<lambda>n. 2 * n + 1\<rparr>"

text \<open>A tablet that announces a match and then sends an empty one.\<close>

definition example_sock :: sock where
  "example_sock = \<lparr>rx = [\<lparr>ev = RecvBytes [1, 0, 0, 0, 0], clk_upd = 1, clk_chk = 1\<rparr>],
     tx = replicate 6 (SendTaken 3), sent = []\<rparr>"

definition example_in :: tab_in where
  "example_in = \<lparr>sel_loop = 1, sel_read = 1, sel_write = 1, how = Not_started, t_code = 0, t_task = (0, 0)\<rparr>"

definition ioctl_ok :: winsock_call where
  "ioctl_ok = \<lparr>ret = 0, last_error = 0\<rparr>"

definition example_start :: "unit Bluetooth" where
  "example_start = bt_init (\<lambda>_. \<lparr>rx = [], tx = [], sent = []\<rparr>) ()"

definition example_bt :: "unit Bluetooth" where
  "example_bt = push_tablet example_env 7 (getMacStr (replicate 6 0xAB))
     (example_start\<lparr>net := (net example_start)(7 := example_sock)\<rparr>)"

lemma example_reach: "bt_reach example_env example_bt"
proof (rule bt_reach.Accept)
  show "bt_reach example_env example_start" unfolding example_start_def by (rule bt_reach.Init)
  show "acceptConn example_env (Some (7, replicate 6 0xAB, example_sock, ioctl_ok)) example_start = Inr example_bt"
    by (simp add: acceptConn_def checkSuccessWinsock_def ioctl_ok_def example_bt_def)
qed (simp_all add: example_start_def bt_init_def peer_new_def)

lemma example_bt_tablets:
  "length (connectedTablets example_bt) = 1" "map obj_id (connectedTablets example_bt) = [0]"
  "map transactionState (connectedTablets example_bt) = [False]"
  by code_simp+

lemma example_running:
  obtains b where "start_transaction example_env example_in 0 example_bt = Inr b"
    and "bt_reach example_env b" and "runningTransactions b = [0]"
    and "length (connectedTablets b) = 1" and "tab_capacity b = 1"
proof -
  have "case start_transaction example_env example_in 0 example_bt of
      Inl _ \<Rightarrow> False
    | Inr b \<Rightarrow> runningTransactions b = [0] \<and> length (connectedTablets b) = 1 \<and> tab_capacity b = 1"
    by code_simp
  then obtain b where b: "start_transaction example_env example_in 0 example_bt = Inr b"
      "runningTransactions b = [0]" "length (connectedTablets b) = 1" "tab_capacity b = 1"
    by (auto split: sum.splits)
  obtain t where t: "connectedTablets example_bt = [t]"
    using example_bt_tablets(1) by (auto simp: length_Suc_conv)
  have "bt_reach example_env b"
  proof (rule bt_reach.Start [OF example_reach, of 0 t example_in])
    show "start_transaction example_env example_in (obj_id t) example_bt = Inr b"
      using b(1) example_bt_tablets(2) t by simp
  qed (use t example_bt_tablets b in simp_all)
  with b that show thesis by blast
qed

text \<open>
  C22. As long as no tablet whose transaction is running is moved to another address, every
  transaction in the list belongs to a tablet that is connected and marked, each tablet is in the
  list at most once, and its task works on that tablet: handling the running transactions never
  follows a dangling pointer and never asks a future without state. It can only fail with the
  exceptions of a missing or malformed message or of a read that an unknown error ended, or inside
  the database library.
\<close>

theorem running_transactions_safe:
  assumes "bt_reach S b"
  shows "bt_inv b \<and>
    (case handleRunningTransactions S ck b of Inl e \<Rightarrow> handling_error S e | Inr b' \<Rightarrow> bt_inv b')"
  using bt_reach_inv [OF assms] running_loop_outcome [of b S ck 0]
  by (simp add: handleRunningTransactions_def)

lemma running_transactions_safe_witness:
  "\<exists>b. runningTransactions b = [0] \<and> bt_inv b \<and>
    (case handleRunningTransactions example_env (\<lambda>_. (0, 0)) b of
       Inl e \<Rightarrow> handling_error example_env e | Inr b' \<Rightarrow> bt_inv b')"
proof -
  obtain b where "bt_reach example_env b" "runningTransactions b = [0]" by (rule example_running)
  with running_transactions_safe [of example_env b "\<lambda>_. (0, 0)"] show ?thesis by blast
qed

text \<open>A list of running transactions whose first tablet has moved.\<close>

lemma moved_undefined:
  assumes "runningTransactions b = i # is" and "i \<notin> obj_id ` set (connectedTablets b)"
  shows "handleRunningTransactions S ck b = Inl Undefined"
proof -
  have "find_obj i b = None"
    using assms(2) by (auto simp: find_obj_def find_None_iff image_iff)
  with assms(1) show ?thesis
    by (simp add: handleRunningTransactions_def running_loop.simps [of S ck 0 b] deref_def)
qed

text \<open>
  C25. A tablet that connects while another's transaction is running can crash the program: when the
  vector of tablets is full it moves to a larger buffer, the list of running transactions still
  points into the old one, and the next pass over it is undefined behaviour. The tablet is accepted
  whenever its socket could be made non-blocking, or the failure to do so has a known code.
\<close>

theorem accept_moves_running:
  assumes "bt_reach S b" and "runningTransactions b \<noteq> []"
    and "tab_capacity b \<le> length (connectedTablets b)"
    and "ret ioctl = 0 \<or> last_error ioctl \<in> set known_codes"
  shows "then_do (acceptConn S (Some (sck, rgBytes, s, ioctl)) b) (handleRunningTransactions S ck) = Inl Undefined"
proof -
  let ?c = "b\<lparr>net := (net b)(sck := s)\<rparr>"
  let ?r = "relocate 0 (?c\<lparr>tab_capacity := e_grow S (tab_capacity ?c)\<rparr>)"
  let ?a = "?r\<lparr>connectedTablets := connectedTablets ?r @ [mk_BtTabObj (next_id ?r) sck (getMacStr rgBytes)],
    next_id := Suc (next_id ?r)\<rparr>"
  obtain i "is" where r: "runningTransactions b = i # is" using assms(2) by (cases "runningTransactions b") auto
  have inv: "bt_inv b" by (rule bt_reach_inv [OF assms(1)])
  then have "i \<in> obj_id ` set (connectedTablets b)" using r by (auto simp: bt_inv_parts)
  then have old: "i < next_id b" using inv by (auto simp: bt_inv_parts)
  have "map obj_id (connectedTablets ?r) = [next_id b..<next_id b + length (connectedTablets b)]"
    by (simp add: relocate_def Let_def map_ids_relocated del: map_map)
  then have "obj_id ` set (connectedTablets ?r) = {next_id b..<next_id b + length (connectedTablets b)}"
    by (metis set_map set_upt)
  moreover have "acceptConn S (Some (sck, rgBytes, s, ioctl)) b = Inr ?a"
    using assms(3) accept_checked [OF assms(4), of "''Failed to make new connected port non-blocking.''"]
    by (auto simp add: acceptConn_def push_tablet_def Let_def)
  moreover have "next_id ?r = next_id b + length (connectedTablets b)" "runningTransactions ?r = i # is"
    using r by (simp_all add: relocate_def Let_def)
  moreover from calculation have "handleRunningTransactions S ck ?a = Inl Undefined"
    using old by (intro moved_undefined [of _ i "is"]) (auto simp: mk_BtTabObj_def)
  ultimately show ?thesis by simp
qed

lemma accept_moves_running_witness:
  "\<exists>b. bt_reach example_env b \<and>
    then_do (acceptConn example_env (Some (8, replicate 6 1, example_sock, ioctl_ok)) b)
      (handleRunningTransactions example_env (\<lambda>_. (0, 0))) = Inl Undefined"
proof -
  obtain b where "bt_reach example_env b" "runningTransactions b = [0]"
    "length (connectedTablets b) = 1" "tab_capacity b = 1" by (rule example_running)
  with accept_moves_running [of example_env b ioctl_ok] show ?thesis by (auto simp: ioctl_ok_def)
qed

end
