(* ===== verification/Bt_Frames.thy ===== *)
theory Bt_Frames
  imports Bt_Manager Db_Statements
begin

text \<open>
  What the exchanges with a tablet come to over several frames of the manager of \<open>bluetooth.hpp\<close>:
  a match that is sent, a tablet that leaves, a message that fails, and the list of names with the
  buttons that remove a tablet.
\<close>

section \<open>Selectors after an update\<close>

lemma upd_obj_outside [simp]:
  "net (upd_obj i f b) = net b" "dbase (upd_obj i f b) = dbase b"
  "runningTransactions (upd_obj i f b) = runningTransactions b"
  "bt_toasts (upd_obj i f b) = bt_toasts b" "closed (upd_obj i f b) = closed b"
  by (simp_all add: upd_obj_def)

lemma upd_trans_outside [simp]:
  "net (upd_trans i f b) = net b" "dbase (upd_trans i f b) = dbase b"
  "runningTransactions (upd_trans i f b) = runningTransactions b"
  "bt_toasts (upd_trans i f b) = bt_toasts b" "closed (upd_trans i f b) = closed b"
  by (simp_all add: upd_trans_def)

section \<open>A match is sent\<close>

lemma getTransactionType_good:
  assumes "link_ok T k s" and "T \<le> t0" and "malloc 1" and "stream (rx s) = c # rest"
  shows "\<exists>s'. getTransactionType malloc t0 s = Some (Inr c, s') \<and> link_ok T k s' \<and>
    stream (rx s') = rest \<and> sent s' = sent s"
proof -
  have "\<exists>s'. readAllSocketData malloc 1 t0 s = Some (Inr [c], s') \<and> link_ok T k s' \<and>
      stream (rx s') = rest \<and> sent s' = sent s"
    using tab.rd_ok [of T k s t0 malloc 1] assms by simp
  then show ?thesis by (auto simp: getTransactionType_def BT_EXPECTED_DATA_INITIAL_def)
qed

text \<open>The state in which a tablet's read runs in its thread.\<close>

definition reading :: "nat \<Rightarrow> nat \<Rightarrow> byte \<Rightarrow> 'db Bluetooth \<Rightarrow> bool" where
  "reading i sck c b \<longleftrightarrow> runningTransactions b = [i] \<and>
     (\<exists>t. find_obj i b = Some t \<and> tab_socket t = sck \<and> tr_parent (currTrans t) = Some i \<and>
       tr_type (currTrans t) = c \<and> tr_data (currTrans t) = Async i i ReadTask \<and>
       \<not> writeTransaction (currTrans t))"

lemma start_read:
  fixes b :: "'db Bluetooth"
  assumes t: "find_obj i b = Some t" and no_other: "runningTransactions b = []"
    and "readyToRead (sel_read inp)" and "readyToWrite (sel_write inp)" and "how inp = Not_started"
    and c: "getTransactionType (e_malloc S) (t_code inp) (net b (tab_socket t)) = Some (Inr c, s')"
    and read: "0 < sint c"
  shows "\<exists>b1. start_transaction S inp i b = Inr b1 \<and> reading i (tab_socket t) c b1 \<and>
    net b1 = (net b)(tab_socket t := s') \<and> dbase b1 = dbase b"
proof -
  have i: "obj_id t = i" using t by (rule find_obj_id)
  have "c \<noteq> TRANS_SOCKET_ERROR" "c \<noteq> TRANS_CLOSE_SOCKET" "\<not> sint c < 0"
    using read by (auto simp: TRANS_SOCKET_ERROR_def TRANS_CLOSE_SOCKET_def)
  with assms show ?thesis
    by (simp add: start_transaction_def readTransactionData_def initReadyTransaction_def Let_def
        deref_def deref_parent_def std_async_def isReady_def reading_def i find_upd_obj)
qed

lemma task_done_read:
  fixes b :: "'db Bluetooth"
  assumes "reading i sck c b"
    and "internalRead (e_malloc S) (fst ck) (snd ck) (net b sck) = Some (Inr (r, ok), s')"
  shows "\<exists>b1 t. task_done S ck i b = Inr b1 \<and> runningTransactions b1 = [i] \<and>
    find_obj i b1 = Some t \<and> tr_parent (currTrans t) = Some i \<and> tr_type (currTrans t) = c \<and>
    tr_data (currTrans t) = Ready (Inr r) \<and> tr_success (currTrans t) = ok \<and>
    \<not> writeTransaction (currTrans t) \<and> net b1 = (net b)(sck := s') \<and> dbase b1 = dbase b"
proof -
  obtain t where "find_obj i b = Some t" "tab_socket t = sck" "tr_parent (currTrans t) = Some i"
    "tr_type (currTrans t) = c" "tr_data (currTrans t) = Async i i ReadTask"
    "\<not> writeTransaction (currTrans t)" "runningTransactions b = [i]"
    using assms(1) by (auto simp: reading_def)
  with assms(2) show ?thesis by (simp add: task_done_def run_task_def deref_def)
qed

lemma internalRead_failed:
  assumes "internalRead malloc t1 t2 s = Some (Inr (r, False), s')"
  shows "r = None"
  using assms
  by (auto simp: internalRead_def Let_def split: bind_splits if_splits sum.split_asm read_end.split_asm)

text \<open>Handling a read that has its result, when it is the only one.\<close>

lemma handle_single:
  fixes b :: "'db Bluetooth"
  assumes "runningTransactions b = [i]" and "find_obj i b = Some t"
    and "tr_data (currTrans t) = Ready r"
    and "handleTransResult S (fst (ck i)) (snd (ck i)) i b = Inr b1"
    and "find_obj i b1 = Some t1" and "tr_parent (currTrans t1) = Some i"
  shows "handleRunningTransactions S ck b =
    Inr ((upd_obj i (\<lambda>o'. o'\<lparr>transactionState := False\<rparr>) b1)\<lparr>runningTransactions := []\<rparr>)"
proof -
  have "runningTransactions b1 = [i]" "obj_id t1 = i"
    using handleTransResult_running [OF assms(4)] assms(1) find_obj_id [OF assms(5)] by simp_all
  with assms show ?thesis
    by (simp add: handleRunningTransactions_def running_loop.simps [of S ck 0 b] deref_def isReady_def
        deref_parent_def erase_at_def running_loop.simps [of S ck "Suc 0"])
qed

lemma handle_single_error:
  fixes b :: "'db Bluetooth"
  assumes "runningTransactions b = [i]" and "find_obj i b = Some t"
    and "tr_data (currTrans t) = Ready r"
    and "handleTransResult S (fst (ck i)) (snd (ck i)) i b = Inl e"
  shows "handleRunningTransactions S ck b = Inl e"
  using assms
  by (simp add: handleRunningTransactions_def running_loop.simps [of S ck 0 b] deref_def isReady_def)

text \<open>What a match becomes in the database: its data points, as far as they parse, each inserted.\<close>

definition store_match :: "'db env \<Rightarrow> byte list \<Rightarrow> 'db \<Rightarrow> 'db MYSQL option" where
  "store_match S d db =
     addMatchDatapoints (e_srv S) (e_cset S)
       (fst (parseMatch (mk_JsonParser (e_parse S) (string_of d)))) (e_open S db)"

lemma handle_match:
  fixes b :: "'db Bluetooth"
  assumes "find_obj i b = Some t" and "tr_type (currTrans t) = TRANS_RECV_MATCH"
    and "\<not> writeTransaction (currTrans t)" and "tr_data (currTrans t) = Ready (Inr (Some d))"
    and "tr_success (currTrans t)" and "store_match S d (dbase b) = Some m"
    and "tr_parent (currTrans t) = Some i"
  shows "\<exists>b1 t1. handleTransResult S c1 c2 i b = Inr b1 \<and> find_obj i b1 = Some t1 \<and>
    tr_parent (currTrans t1) = Some i \<and> dbase b1 = server (mysql_close_slow_part (e_srv S) m) \<and> net b1 = net b"
  using assms
  by (simp add: handleTransResult_def deref_def Let_def fut_get_def opt_value_def store_match_def)

section \<open>A tablet leaves\<close>

text \<open>The tablet is not ready, or it sends the code of leaving.\<close>

definition leaves :: "'db env \<Rightarrow> tab_in \<Rightarrow> sock \<Rightarrow> bool" where
  "leaves S inp s \<longleftrightarrow> \<not> readyToRead (sel_read inp) \<or> \<not> readyToWrite (sel_write inp) \<or>
     (\<exists>s'. getTransactionType (e_malloc S) (t_code inp) s = Some (Inr TRANS_CLOSE_SOCKET, s'))"

lemma closed_outside [simp]:
  "find_obj i (b\<lparr>closed := hs\<rparr>) = find_obj i b"
  by (simp add: find_obj_def)

lemma only_sockets:
  fixes b b' :: "'db Bluetooth"
  assumes "only i b b'"
  shows "map tab_socket (connectedTablets b') = map tab_socket (connectedTablets b)"
proof -
  have "map (fst \<circ> snd) (fst (shape c)) = map tab_socket (connectedTablets c)" for c :: "'db Bluetooth"
    by (simp add: shape_def)
  then show ?thesis using assms by (metis only_def)
qed

lemma leaving_read:
  fixes b :: "'db Bluetooth"
  assumes t: "find_obj i b = Some t" and "leaves S inp (net b (tab_socket t))"
  shows "\<exists>b1 t1. readTransactionData S inp i b = Inr b1 \<and> find_obj i b1 = Some t1 \<and>
    tr_parent (currTrans t1) = Some i \<and> tr_type (currTrans t1) = TRANS_CLOSE_SOCKET \<and>
    tr_data (currTrans t1) = tr_data (currTrans t) \<and> tab_socket t1 = tab_socket t \<and>
    transactionState t1 = transactionState t \<and> closed b1 = closed b"
  using assms
  by (auto simp: leaves_def readTransactionData_def Let_def deref_def TRANS_SOCKET_ERROR_def
      TRANS_CLOSE_SOCKET_def)

lemma leaving_init:
  fixes b :: "'db Bluetooth"
  assumes "find_obj i b = Some t" and "tr_parent (currTrans t) = Some i"
    and "tr_type (currTrans t) = TRANS_CLOSE_SOCKET"
  shows "\<exists>b1 t1. initReadyTransaction S l c1 c2 i b = Inr b1 \<and> find_obj i b1 = Some t1 \<and>
    tr_parent (currTrans t1) = Some i \<and> batmanTrans (currTrans t1) \<and>
    tr_data (currTrans t1) = tr_data (currTrans t) \<and> tab_socket t1 = tab_socket t \<and>
    transactionState t1 = transactionState t \<and> closed b1 = closed b @ [tab_socket t]"
  using assms
  by (simp add: initReadyTransaction_def Let_def deref_def deref_parent_def sockSuicide_def
      TRANS_SOCKET_ERROR_def TRANS_CLOSE_SOCKET_def)

lemma leaving:
  fixes b :: "'db Bluetooth"
  assumes t: "find_obj i b = Some t" and "leaves S inp (net b (tab_socket t))"
  shows "\<exists>b2 t2. start_transaction S inp i b =
      then_do (killSocket S (t_task inp) (tab_socket t) b2) (\<lambda>(_, b3). Inr b3) \<and>
    only i b b2 \<and> find_obj i b2 = Some t2 \<and> tr_data (currTrans t2) = tr_data (currTrans t) \<and>
    tab_socket t2 = tab_socket t \<and> transactionState t2 = transactionState t \<and>
    closed b2 = closed b @ [tab_socket t]"
proof -
  obtain b1 t1 where r: "readTransactionData S inp i b = Inr b1" and t1: "find_obj i b1 = Some t1"
    "tr_parent (currTrans t1) = Some i" "tr_type (currTrans t1) = TRANS_CLOSE_SOCKET"
    and same: "tr_data (currTrans t1) = tr_data (currTrans t)" "tab_socket t1 = tab_socket t"
    "transactionState t1 = transactionState t" "closed b1 = closed b"
    using leaving_read [OF assms] by blast
  obtain b2 t2 where i: "initReadyTransaction S (how inp) (fst (t_task inp)) (snd (t_task inp)) i b1 = Inr b2"
    and t2: "find_obj i b2 = Some t2" "tr_parent (currTrans t2) = Some i" "batmanTrans (currTrans t2)"
    "tr_data (currTrans t2) = tr_data (currTrans t1)" "tab_socket t2 = tab_socket t1"
    "transactionState t2 = transactionState t1" "closed b2 = closed b1 @ [tab_socket t1]"
    using leaving_init [OF t1] by blast
  have "only i b b2"
    using only_trans [OF conjunct1 [OF readTransactionData_only [OF r t]]]
      initReadyTransaction_kept [OF i t1(1,2)] by (simp add: kept_def)
  moreover have "start_transaction S inp i b =
      then_do (killSocket S (t_task inp) (tab_socket t) b2) (\<lambda>(_, b3). Inr b3)"
    using t2 same by (simp add: start_transaction_def r i deref_def deref_parent_def)
  ultimately show ?thesis using t2 same by auto
qed

section \<open>The list of names\<close>

text \<open>The loop of \<open>getNameList\<close>: the names, the tablets with their buttons asked, and the index of
  the last button that was released.\<close>

fun name_loop :: "mouse \<Rightarrow> (nat \<Rightarrow> bool) \<Rightarrow> nat \<Rightarrow> BtTabObj list \<Rightarrow> int \<Rightarrow>
    string list \<times> BtTabObj list \<times> int" where
  "name_loop ms hov i [] killIndex = ([], [], killIndex)"
| "name_loop ms hov i (t # ts) killIndex =
     (let (names, ts', k) = name_loop ms hov (Suc i) ts (if released ms hov t then int i else killIndex) in
      (tabScoutingName t # names, press ms hov t # ts', k))"

lemma name_loop_names:
  "fst (name_loop ms hov i ts k) = map tabScoutingName ts"
  "fst (snd (name_loop ms hov i ts k)) = map (press ms hov) ts"
  by (induction ts arbitrary: i k) (auto simp: Let_def case_prod_beta)

lemma name_loop_none: "\<forall>t\<in>set ts. \<not> released ms hov t \<Longrightarrow> snd (snd (name_loop ms hov i ts k)) = k"
  by (induction ts arbitrary: i k) (auto simp: Let_def case_prod_beta)

lemma name_loop_last:
  "n < length ts \<Longrightarrow> released ms hov (ts ! n) \<Longrightarrow> \<forall>j. n < j \<and> j < length ts \<longrightarrow> \<not> released ms hov (ts ! j) \<Longrightarrow>
   snd (snd (name_loop ms hov i ts k)) = int (i + n)"
proof (induction ts arbitrary: i k n)
  case Nil
  then show ?case by simp
next
  case (Cons t ts)
  show ?case
  proof (cases n)
    case 0
    have "\<not> released ms hov u" if u: "u \<in> set ts" for u
    proof -
      obtain j where "j < length ts" "u = ts ! j" using u by (auto simp: in_set_conv_nth)
      with Cons.prems(3) 0 show ?thesis by (metis Suc_less_eq length_Cons nth_Cons_Suc zero_less_Suc)
    qed
    then have "snd (snd (name_loop ms hov (Suc i) ts (int i))) = int i" by (intro name_loop_none) blast
    with 0 Cons.prems(2) show ?thesis by (simp add: Let_def case_prod_beta)
  next
    case (Suc m)
    have "\<forall>j. m < j \<and> j < length ts \<longrightarrow> \<not> released ms hov (ts ! j)"
      using Cons.prems(3) Suc by (metis Suc_less_eq length_Cons nth_Cons_Suc)
    with Cons.IH [of m "Suc i" "if released ms hov t then int i else k"] Cons.prems Suc
    show ?thesis by (simp add: Let_def case_prod_beta)
  qed
qed

text \<open>Either no button was released, or there is a last one.\<close>

lemma released_cases:
  obtains (none) "\<forall>t\<in>set ts. \<not> released ms hov t"
  | (last) n where "n < length ts" and "released ms hov (ts ! n)"
      and "\<forall>j. n < j \<and> j < length ts \<longrightarrow> \<not> released ms hov (ts ! j)"
proof (cases "\<exists>t\<in>set ts. released ms hov t")
  case False
  with none show thesis by blast
next
  case True
  let ?A = "{n. n < length ts \<and> released ms hov (ts ! n)}"
  have A: "finite ?A" "?A \<noteq> {}" using True by (auto simp: in_set_conv_nth)
  then have "Max ?A \<in> ?A" by (rule Max_in)
  moreover have "\<forall>j\<in>?A. j \<le> Max ?A" using A by simp
  ultimately show thesis using last [of "Max ?A"] by (metis (mono_tags, lifting) mem_Collect_eq not_less)
qed

function getNameList :: "'db env \<Rightarrow> int \<times> int \<Rightarrow> mouse \<Rightarrow> (nat \<Rightarrow> bool) \<Rightarrow> 'db Bluetooth \<Rightarrow>
    bt_error + (string list \<times> 'db Bluetooth)" where
  "getNameList S clk ms hov b =
     (let (names, ts, killIndex) = name_loop ms hov 0 (connectedTablets b) (- 1);
          b1 = b\<lparr>connectedTablets := ts\<rparr> in
      if killIndex \<noteq> - 1 then
        case killSocket S clk (tab_socket (ts ! nat killIndex)) b1 of
          Inl e \<Rightarrow> Inl e
        | Inr (_, b2) \<Rightarrow> getNameList S clk ms hov b2
      else Inr (names, b1))"
  by pat_completeness auto

lemma killSocket_shorter:
  assumes "killSocket S clk (tab_socket (connectedTablets b ! k)) b = Inr (r, b')"
    and "k < length (connectedTablets b)"
  shows "length (connectedTablets b') < length (connectedTablets b)"
proof -
  have "k < length ts \<Longrightarrow> \<exists>j < length ts. socket_index (tab_socket (ts ! k)) ts = Some j" for ts and k
  proof (induction ts arbitrary: k)
    case Nil
    then show ?case by simp
  next
    case (Cons t ts)
    then show ?case by (cases k) fastforce+
  qed
  then obtain j where j: "j < length (connectedTablets b)"
      "socket_index (tab_socket (connectedTablets b ! k)) (connectedTablets b) = Some j"
    using assms(2) by blast
  then have "erase_tablet S clk j (sockSuicide (connectedTablets b ! j) b) = Inr b'"
    using assms(1) by (auto simp: killSocket_def then_do_Inr)
  from erase_tablet_shorter [OF this] j(1) show ?thesis by (simp add: sockSuicide_def)
qed

lemma name_loop_index:
  assumes "name_loop ms hov 0 ts (- 1) = (names, ts', k)" and "k \<noteq> - 1"
  shows "nat k < length ts" and "ts' = map (press ms hov) ts"
proof -
  show "ts' = map (press ms hov) ts" using name_loop_names(2) [of ms hov 0 ts "- 1"] assms(1) by simp
  show "nat k < length ts"
  proof (cases rule: released_cases [of ts ms hov])
    case none
    with name_loop_none [of ts ms hov 0 "- 1"] assms show ?thesis by simp
  next
    case (last n)
    with name_loop_last [OF last, of 0 "- 1"] assms show ?thesis by simp
  qed
qed

termination getNameList
proof (relation "measure (\<lambda>(S, clk, ms, hov, b). length (connectedTablets b))", goal_cases)
  case (2 S clk ms hov b x names y ts killIndex b1 z u b2)
  then have "name_loop ms hov 0 (connectedTablets b) (- 1) = (names, ts, killIndex)" "killIndex \<noteq> - 1"
    by auto
  from name_loop_index [OF this] 2
  show ?case using killSocket_shorter [of S clk "b\<lparr>connectedTablets := ts\<rparr>" "nat killIndex"] by auto
qed simp

declare getNameList.simps [simp del]

section \<open>A match that is sent\<close>

lemma match_frames:
  fixes b :: "'db Bluetooth"
  assumes "find_obj i b = Some t" and "runningTransactions b = []"
    and "readyToRead (sel_read inp)" and "readyToWrite (sel_write inp)" and "how inp = Not_started"
    and "link_ok T 6 (net b (tab_socket t))" and "T \<le> t_code inp" and "T \<le> fst ck" and "T \<le> snd ck"
    and "\<And>n. n < 2 ^ 31 \<Longrightarrow> e_malloc S n" and "length d < 2 ^ 31"
    and "stream (rx (net b (tab_socket t))) = [1] @ size_header d @ d @ rest"
    and "store_match S d (dbase b) = Some m"
  shows "\<exists>b1 b2 b3. start_transaction S inp i b = Inr b1 \<and> task_done S ck i b1 = Inr b2 \<and>
    handleRunningTransactions S ck' b2 = Inr b3 \<and> dbase b3 = server (mysql_close_slow_part (e_srv S) m) \<and>
    runningTransactions b3 = [] \<and> stream (rx (net b3 (tab_socket t))) = rest \<and>
    sent (net b3 (tab_socket t)) = sent (net b (tab_socket t)) @ ack_data @ ack_data"
proof -
  let ?h = "tab_socket t"
  obtain s1 where c: "getTransactionType (e_malloc S) (t_code inp) (net b ?h) = Some (Inr TRANS_RECV_MATCH, s1)"
    and s1: "link_ok T (6 + 0) s1" "stream (rx s1) = size_header d @ d @ rest" "sent s1 = sent (net b ?h)"
    using getTransactionType_good [OF assms(6,7), of "e_malloc S" TRANS_RECV_MATCH] assms(10,12)
    by (auto simp: TRANS_RECV_MATCH_def)
  have "0 < sint TRANS_RECV_MATCH" by (simp add: TRANS_RECV_MATCH_def)
  from start_read [OF assms(1-5) c this] obtain b1 where b1: "start_transaction S inp i b = Inr b1"
      "reading i ?h TRANS_RECV_MATCH b1" "net b1 = (net b)(?h := s1)" "dbase b1 = dbase b"
    by blast
  obtain s2 where s2: "internalRead (e_malloc S) (fst ck) (snd ck) s1 = Some (Inr (Some d, True), s2)"
      "stream (rx s2) = rest" "sent s2 = sent s1 @ ack_data @ ack_data"
    using internalRead_good [OF s1(1) assms(8,9) _ _ _ assms(11) s1(2), of "e_malloc S"] assms(10,11)
    by auto
  then obtain b2 t2 where b2: "task_done S ck i b1 = Inr b2" "runningTransactions b2 = [i]"
      "find_obj i b2 = Some t2" "tr_parent (currTrans t2) = Some i" "tr_type (currTrans t2) = TRANS_RECV_MATCH"
      "tr_data (currTrans t2) = Ready (Inr (Some d))" "tr_success (currTrans t2)"
      "\<not> writeTransaction (currTrans t2)" "net b2 = (net b1)(?h := s2)" "dbase b2 = dbase b1"
    using task_done_read [OF b1(2), of S ck "Some d" True s2] b1(3) by auto
  have "store_match S d (dbase b2) = Some m" using b2(10) b1(4) assms(13) by simp
  from handle_match [OF b2(3,5,8,6,7) this b2(4)] obtain b3 t3 where
      "handleTransResult S (fst (ck' i)) (snd (ck' i)) i b2 = Inr b3" "find_obj i b3 = Some t3"
      "tr_parent (currTrans t3) = Some i" "dbase b3 = server (mysql_close_slow_part (e_srv S) m)" "net b3 = net b2"
    by blast
  with handle_single [OF b2(2,3,6)] b1 b2 s1 s2 show ?thesis by simp
qed

section \<open>Properties\<close>

text \<open>A tablet that sends one byte, and a program whose parser finds one data point in it.\<close>

definition log_env :: "byte list list env" where
  "log_env = \<lparr>e_srv = log_srv, e_cset = mariadb_compiled_charsets ! 5,
     e_open = \<lambda>db. log_conn\<lparr>server := db\<rparr>,
     e_parse = \<lambda>_. Some (JObj [(''scoutingData'', JArr [encode_datapoint example_datapoint])]),
     e_malloc = \<lambda>_. True, e_files = \<lambda>_. [], e_grow = \<lambda>n. 2 * n + 1\<rparr>"

definition log_sock :: "recv_ev list \<Rightarrow> sock" where
  "log_sock es = \<lparr>rx = map (\<lambda>e. \<lparr>ev = e, clk_upd = 1, clk_chk = 1\<rparr>) es, tx = replicate 9 (SendTaken 3), sent = []\<rparr>"

definition log_start :: "byte list list Bluetooth" where
  "log_start = bt_init (\<lambda>_. \<lparr>rx = [], tx = [], sent = []\<rparr>) []"

definition log_bt :: "recv_ev list \<Rightarrow> byte list list Bluetooth" where
  "log_bt es = push_tablet log_env 7 (getMacStr (replicate 6 0xAB)) (log_start\<lparr>net := (net log_start)(7 := log_sock es)\<rparr>)"

lemma log_bt_tablet:
  "\<exists>t. find_obj 0 (log_bt es) = Some t \<and> connectedTablets (log_bt es) = [t] \<and> obj_id t = 0 \<and>
    tab_socket t = 7 \<and> \<not> transactionState t \<and> net (log_bt es) 7 = log_sock es \<and>
    runningTransactions (log_bt es) = [] \<and> dbase (log_bt es) = []"
  by (simp add: log_bt_def log_start_def push_tablet_def bt_init_def relocate_def Let_def
      mk_BtTabObj_def find_obj_def)

lemma log_bt_reach: "bt_reach log_env (log_bt es)"
proof (rule bt_reach.Accept)
  show "bt_reach log_env log_start" unfolding log_start_def by (rule bt_reach.Init)
  show "acceptConn log_env (Some (7, replicate 6 0xAB, log_sock es, ioctl_ok)) log_start = Inr (log_bt es)"
    by (simp add: acceptConn_def checkSuccessWinsock_def ioctl_ok_def log_bt_def)
qed (simp_all add: log_start_def bt_init_def peer_new_def)

definition log_in :: tab_in where
  "log_in = \<lparr>sel_loop = 1, sel_read = 1, sel_write = 1, how = Not_started, t_code = 0, t_task = (0, 0)\<rparr>"

lemma log_in_ready: "readyToRead (sel_read log_in)" "readyToWrite (sel_write log_in)" "how log_in = Not_started"
    "t_code log_in = 0"
  by (simp_all add: log_in_def readyToRead_def readyToWrite_def SOCKET_ERROR_def)

lemma close_ready: "conn_ready m \<Longrightarrow> server (mysql_close_slow_part srv m) = snd (srv [COM_QUIT] (server m))"
  by (auto simp: mysql_close_slow_part_def conn_ready_def mthd_my_send_cmd_def transmit_def free_old_query_def
      end_server_def split: prod.split)

lemma log_store:
  "\<exists>m q. store_match log_env d [] = Some m \<and> server (mysql_close_slow_part (e_srv log_env) m) = [COM_QUERY # cstr q, [COM_QUIT]]"
proof -
  obtain q where q: "filled (mariadb_compiled_charsets ! 5) (no_backslash_escapes log_conn)
      (bytes_of insert_matchtransaction) (match_args example_datapoint) = Some q"
    unfolding example_filled by blast
  have "conn_ready log_conn" by code_simp
  from run_queries_plain [where srv = log_srv and ass = "[match_args example_datapoint]" and qs = "[q]",
      OF this _ log_srv_plain] q
  obtain m where "run_queries log_srv (mariadb_compiled_charsets ! 5) (bytes_of insert_matchtransaction)
      [match_args example_datapoint] log_conn = Some m" "server m = [COM_QUERY # cstr q]" "conn_ready m"
    by (auto simp: log_srv_def log_conn_def)
  moreover from this(2,3) have "server (mysql_close_slow_part log_srv m) = [COM_QUERY # cstr q, [COM_QUIT]]"
    by (simp add: close_ready log_srv_def)
  moreover have "log_conn\<lparr>server := []\<rparr> = log_conn" by (simp add: log_conn_def)
  moreover have "fst (parseMatch (mk_JsonParser (e_parse log_env) s)) = [example_datapoint]" for s
    by (simp add: parseMatch_data mk_JsonParser_def log_env_def)
  moreover have "e_srv log_env = log_srv" "e_cset log_env = mariadb_compiled_charsets ! 5"
    "e_open log_env [] = log_conn\<lparr>server := []\<rparr>"
    by (simp_all add: log_env_def)
  ultimately show ?thesis
    by (auto simp: store_match_def addMatchDatapoints_def simp del: run_queries.simps)
qed

text \<open>
  C5. A match that a tablet sends ends up in the database. On a working link the tablet sends the
  code 1, the size and the data, cut as it may be; the manager starts the read in one frame, its
  task runs, and a later frame handles the result: the tablet has been acknowledged twice, the
  bytes after the message are still to be read, the list of running transactions is empty again,
  and the database server is in the state that inserting the data points of the message over the
  connection made for them, and then closing that connection, brings it to.
\<close>

theorem match_message_stored:
  fixes b :: "'db Bluetooth"
  assumes "find_obj i b = Some t" and "runningTransactions b = []"
    and "readyToRead (sel_read inp)" and "readyToWrite (sel_write inp)" and "how inp = Not_started"
    and "link_ok T 6 (net b (tab_socket t))" and "T \<le> t_code inp" and "T \<le> fst ck" and "T \<le> snd ck"
    and "\<And>n. n < 2 ^ 31 \<Longrightarrow> e_malloc S n" and "length d < 2 ^ 31"
    and "stream (rx (net b (tab_socket t))) = [1] @ size_header d @ d @ rest"
    and "store_match S d (dbase b) = Some m"
  shows "\<exists>b1 b2 b3. start_transaction S inp i b = Inr b1 \<and> task_done S ck i b1 = Inr b2 \<and>
    handleRunningTransactions S ck' b2 = Inr b3 \<and> dbase b3 = server (mysql_close_slow_part (e_srv S) m) \<and>
    runningTransactions b3 = [] \<and> stream (rx (net b3 (tab_socket t))) = rest \<and>
    sent (net b3 (tab_socket t)) = sent (net b (tab_socket t)) @ ack_data @ ack_data"
  by (rule match_frames [OF assms])

lemma match_message_stored_witness:
  "\<exists>b1 b2 b3 q. start_transaction log_env log_in 0 (log_bt [RecvBytes [1, 1, 0, 0, 0, 65]]) = Inr b1 \<and>
    task_done log_env (0, 0) 0 b1 = Inr b2 \<and>
    handleRunningTransactions log_env (\<lambda>_. (0, 0)) b2 = Inr b3 \<and> dbase b3 = [COM_QUERY # cstr q, [COM_QUIT]]"
proof -
  let ?b = "log_bt [RecvBytes [1, 1, 0, 0, 0, 65]]"
  obtain t where t: "find_obj 0 ?b = Some t" "tab_socket t = 7" "net ?b 7 = log_sock [RecvBytes [1, 1, 0, 0, 0, 65]]"
    "runningTransactions ?b = []" "dbase ?b = []"
    using log_bt_tablet by blast
  obtain m q where m: "store_match log_env [65] [] = Some m"
      "server (mysql_close_slow_part (e_srv log_env) m) = [COM_QUERY # cstr q, [COM_QUIT]]"
    using log_store by blast
  have l: "link_ok 0 6 (net ?b (tab_socket t))" unfolding t(2,3) by code_simp
  have s: "stream (rx (net ?b (tab_socket t))) = [1] @ size_header [65] @ [65] @ []" unfolding t(2,3) by code_simp
  have "store_match log_env [65] (dbase ?b) = Some m" using m(1) t(5) by simp
  moreover have "e_malloc log_env n" if "n < 2 ^ 31" for n using that by (simp add: log_env_def)
  ultimately show ?thesis
    using match_message_stored [OF t(1,4) log_in_ready(1-3) l, of "(0, 0)" log_env "[65]" "[]" m "\<lambda>_. (0, 0)"]
      s log_in_ready(4) m(2) by simp blast
qed

text \<open>
  C26. When reading a match or a match list fails, for example because the tablet announces a
  negative size or falls silent, the program stops on an exception: the frame that handles the
  result asks the empty result for its value before it looks at the flag of success.
\<close>

theorem failed_read_throws:
  fixes b :: "'db Bluetooth"
  assumes "find_obj i b = Some t" and "runningTransactions b = []"
    and "readyToRead (sel_read inp)" and "readyToWrite (sel_write inp)" and "how inp = Not_started"
    and "getTransactionType (e_malloc S) (t_code inp) (net b (tab_socket t)) = Some (Inr c, s1)"
    and "c = TRANS_RECV_MATCH \<or> c = TRANS_RECV_TAB_MATCH_LIST"
    and "internalRead (e_malloc S) (fst ck) (snd ck) s1 = Some (Inr (r, False), s2)"
  shows "\<exists>b1 b2. start_transaction S inp i b = Inr b1 \<and> task_done S ck i b1 = Inr b2 \<and>
    handleRunningTransactions S ck' b2 = Inl BadOptionalAccess"
proof -
  have "0 < sint c" using assms(7) by (auto simp: TRANS_RECV_MATCH_def TRANS_RECV_TAB_MATCH_LIST_def)
  from start_read [OF assms(1-6) this] obtain b1 where b1: "start_transaction S inp i b = Inr b1"
      "reading i (tab_socket t) c b1" "net b1 = (net b)(tab_socket t := s1)"
    by blast
  obtain b2 t2 where b2: "task_done S ck i b1 = Inr b2" "runningTransactions b2 = [i]"
      "find_obj i b2 = Some t2" "tr_parent (currTrans t2) = Some i" "tr_type (currTrans t2) = c"
      "tr_data (currTrans t2) = Ready (Inr r)" "\<not> writeTransaction (currTrans t2)"
    using task_done_read [OF b1(2), of S ck r False s2] b1(3) assms(8) by auto
  have "r = None" by (rule internalRead_failed [OF assms(8)])
  then have "handleTransResult S (fst (ck' i)) (snd (ck' i)) i b2 = Inl BadOptionalAccess"
    using b2(3-7) assms(7)
    by (auto simp: handleTransResult_def deref_def deref_parent_def Let_def fut_get_def opt_value_def
        TRANS_RECV_MATCH_def TRANS_RECV_TABLET_INFO_def TRANS_RECV_TAB_MATCH_LIST_def)
  with handle_single_error [OF b2(2,3,6)] b1 b2 show ?thesis by blast
qed

lemma failed_read_throws_witness:
  "\<exists>b1 b2. start_transaction log_env log_in 0 (log_bt [RecvBytes [1], RecvErr 10054]) = Inr b1 \<and>
    task_done log_env (0, 0) 0 b1 = Inr b2 \<and>
    handleRunningTransactions log_env (\<lambda>_. (0, 0)) b2 = Inl BadOptionalAccess"
proof -
  let ?b = "log_bt [RecvBytes [1], RecvErr 10054]"
  obtain t where t: "find_obj 0 ?b = Some t" "tab_socket t = 7" "net ?b 7 = log_sock [RecvBytes [1], RecvErr 10054]"
    "runningTransactions ?b = []"
    using log_bt_tablet by blast
  let ?s = "snd (the (getTransactionType (e_malloc log_env) 0 (log_sock [RecvBytes [1], RecvErr 10054])))"
  have c: "getTransactionType (e_malloc log_env) (t_code log_in) (net ?b (tab_socket t)) = Some (Inr TRANS_RECV_MATCH, ?s)"
    unfolding t(2,3) log_in_ready(4) by code_simp
  have "case internalRead (e_malloc log_env) 0 0 ?s of Some (Inr (r, ok), s2) \<Rightarrow> \<not> ok | _ \<Rightarrow> False"
    by code_simp
  then obtain r s2 where "internalRead (e_malloc log_env) 0 0 ?s = Some (Inr (r, False), s2)"
    by (auto split: option.splits prod.splits sum.splits)
  then show ?thesis
    by (intro failed_read_throws [OF t(1,4) log_in_ready(1-3) c]) simp_all
qed

text \<open>
  C23. When no transaction of a tablet or of one after it in the list is running, and the tablet
  sends the code of leaving or is not ready for the exchange, it is taken out of the list in the same
  frame; the others stay, in their order, no transaction is started, and the invariant of the manager
  holds. Its socket is closed twice.
\<close>

theorem leaving_tablet_removed:
  fixes b :: "'db Bluetooth"
  assumes "bt_reach S b" and k: "k < length (connectedTablets b)"
    and idle: "\<forall>t\<in>set (drop k (connectedTablets b)). \<not> transactionState t"
    and leave: "leaves S inp (net b (tab_socket (connectedTablets b ! k)))"
  shows "\<exists>b'. start_transaction S inp (obj_id (connectedTablets b ! k)) b = Inr b' \<and> bt_inv b' \<and>
    runningTransactions b' = runningTransactions b \<and>
    map tab_socket (connectedTablets b') = erase_at k (map tab_socket (connectedTablets b)) \<and>
    closed b' = closed b @ [tab_socket (connectedTablets b ! k), tab_socket (connectedTablets b ! k)]"
proof -
  define t where "t = connectedTablets b ! k"
  let ?h = "tab_socket t"
  have inv: "bt_inv b" by (rule bt_reach_inv [OF assms(1)])
  have t_in: "t \<in> set (connectedTablets b)" using k by (simp add: t_def)
  have t: "find_obj (obj_id t) b = Some t" using find_obj_in [of b t] t_in inv by (simp add: bt_inv_parts)
  have "t \<in> set (drop k (connectedTablets b))" using k by (simp add: t_def flip: Cons_nth_drop_Suc)
  then have free: "async_free (tr_data (currTrans t))" using bt_inv_idle [OF inv t_in] idle by blast
  obtain b2 t2 where st: "start_transaction S inp (obj_id t) b =
      then_do (killSocket S (t_task inp) ?h b2) (\<lambda>(_, b3). Inr b3)"
    and o2: "only (obj_id t) b b2" and t2: "find_obj (obj_id t) b2 = Some t2"
      "tr_data (currTrans t2) = tr_data (currTrans t)" "tab_socket t2 = ?h"
    and cl: "closed b2 = closed b @ [?h]"
    using leaving [OF t] leave [folded t_def] by blast
  have len: "length (connectedTablets b2) = length (connectedTablets b)" by (rule only_length [OF o2])
  have ids: "map obj_id (connectedTablets b2) = map obj_id (connectedTablets b)"
    using o2 by (intro shape_ids) (simp add: only_def)
  have so: "map tab_socket (connectedTablets b2) = map tab_socket (connectedTablets b)" by (rule only_sockets [OF o2])
  have but2: "bt_inv_but (obj_id t) b2" by (rule bt_inv_but_only [OF bt_inv_all_but [OF inv] o2])
  then have sh2: "shape_inv b2" by (simp add: bt_inv_but_def)
  have at2: "connectedTablets b2 ! k = t2"
    using find_obj_in [of b2 "connectedTablets b2 ! k"] t2(1) k len sh2 arg_cong [OF ids, of "\<lambda>l. l ! k"]
    by (simp add: shape_inv_def t_def)
  let ?c = "sockSuicide t2 b2"
  let ?b' = "relocate k (?c\<lparr>connectedTablets := erase_at k (connectedTablets ?c)\<rparr>)"
  have ct: "connectedTablets ?c = connectedTablets b2" by (simp add: sockSuicide_def)
  have er: "erase_tablet S (t_task inp) k ?c = Inr ?b'"
    using free t2(2) at2 by (intro erase_tablet_idle) (simp add: ct)
  then have "start_transaction S inp (obj_id t) b = Inr ?b'"
    using killSocket_at [OF sh2, of k] k len at2 t2(3) by (simp add: st)
  moreover have "bt_inv ?b'"
    using start_transaction_inv [OF calculation inv k t_def [symmetric] refl] idle t_in
      \<open>t \<in> set (drop k (connectedTablets b))\<close> by blast
  moreover have "map tab_socket (connectedTablets ?b') = erase_at k (map tab_socket (connectedTablets b))"
    unfolding relocate_sockets by (simp add: ct map_erase_at so)
  moreover have "runningTransactions ?b' = runningTransactions b"
    using only_states(2) [OF o2] by (simp add: relocate_def Let_def sockSuicide_def)
  moreover have "closed ?b' = closed b @ [?h, ?h]"
    using cl t2(3) by (simp add: relocate_def Let_def sockSuicide_def)
  ultimately show ?thesis unfolding t_def by blast
qed

lemma leaving_tablet_removed_witness:
  "\<exists>b'. start_transaction log_env log_in 0 (log_bt [RecvBytes [0]]) = Inr b' \<and> connectedTablets b' = [] \<and>
    closed b' = [7, 7]"
proof -
  let ?b = "log_bt [RecvBytes [0]]"
  obtain t where t: "connectedTablets ?b = [t]" "obj_id t = 0" "tab_socket t = 7" "\<not> transactionState t"
    "net ?b 7 = log_sock [RecvBytes [0]]"
    using log_bt_tablet by blast
  have "getTransactionType (e_malloc log_env) 0 (log_sock [RecvBytes [0]]) =
      Some (Inr TRANS_CLOSE_SOCKET, snd (the (getTransactionType (e_malloc log_env) 0 (log_sock [RecvBytes [0]]))))"
    by code_simp
  then have "leaves log_env log_in (net ?b (tab_socket (connectedTablets ?b ! 0)))"
    using t log_in_ready by (auto simp: leaves_def)
  moreover have "closed ?b = []"
    by (simp add: log_bt_def log_start_def push_tablet_def bt_init_def relocate_def Let_def)
  ultimately show ?thesis
    using leaving_tablet_removed [OF log_bt_reach [of "[RecvBytes [0]]"], of 0 log_in] t by (auto simp: erase_at_def)
qed

text \<open>
  C27. In a frame in which the kill button of a tablet is released while no transaction of this tablet
  or of one after it in the list is running, exactly this tablet leaves: if several buttons were
  released it is the last one. The list that is shown has the names of the others in their order, the
  handle is closed once, and the manager stays in a reachable state. The list is built again after
  the removal; this ends because asking a button a second time in a frame never finds it released.
\<close>

theorem released_tablet_removed:
  fixes b :: "'db Bluetooth"
  assumes "bt_reach S b" and "\<not> (m_down ms \<and> m_released ms)"
    and n: "n < length (connectedTablets b)" "released ms hov (connectedTablets b ! n)"
    and last: "\<forall>j. n < j \<and> j < length (connectedTablets b) \<longrightarrow> \<not> released ms hov (connectedTablets b ! j)"
    and idle: "\<forall>t\<in>set (drop n (connectedTablets b)). \<not> transactionState t"
  shows "\<exists>b'. getNameList S clk ms hov b = Inr (erase_at n (map tabScoutingName (connectedTablets b)), b') \<and>
    bt_reach S b' \<and> map tab_socket (connectedTablets b') = erase_at n (map tab_socket (connectedTablets b)) \<and>
    closed b' = closed b @ [tab_socket (connectedTablets b ! n)]"
proof -
  let ?ts = "connectedTablets b"
  let ?b1 = "b\<lparr>connectedTablets := map (press ms hov) ?ts\<rparr>"
  let ?t = "press ms hov (?ts ! n)"
  have loop: "name_loop ms hov 0 ?ts (- 1) = (map tabScoutingName ?ts, map (press ms hov) ?ts, int n)"
    using name_loop_names [of ms hov 0 ?ts "- 1"] name_loop_last [OF n last, of 0 "- 1"]
    by (metis add_0 prod.collapse)
  have r1: "bt_reach S ?b1" by (rule bt_reach.Buttons [OF assms(1)])
  then have inv1: "bt_inv ?b1" by (rule bt_reach_inv)
  have at1: "connectedTablets ?b1 ! n = ?t" "n < length (connectedTablets ?b1)" using n(1) by simp_all
  have idle1: "\<forall>t\<in>set (drop n (connectedTablets ?b1)). \<not> transactionState t"
    using idle by (auto simp: drop_map)
  have "?t \<in> set (drop n (connectedTablets ?b1))" using at1 by (metis Cons_nth_drop_Suc list.set_intros(1))
  then have "async_free (tr_data (currTrans ?t))"
    using bt_inv_idle [OF inv1] idle1 by (meson in_set_dropD)
  define b2 where "b2 = relocate n ((sockSuicide ?t ?b1)\<lparr>connectedTablets := erase_at n (map (press ms hov) ?ts)\<rparr>)"
  have "erase_tablet S clk n (sockSuicide ?t ?b1) = Inr b2"
    using erase_tablet_idle [of "sockSuicide ?t ?b1" n S clk] \<open>async_free _\<close> n(1)
    by (simp add: sockSuicide_def b2_def)
  then have kill: "killSocket S clk (tab_socket ?t) ?b1 = Inr (True, b2)"
    using killSocket_at [of ?b1 n S clk] inv1 at1 by (simp add: bt_inv_def)
  have r2: "bt_reach S b2" by (rule bt_reach.Kill [OF r1 at1(2,1) idle1 kill])
  have fields: "map f (connectedTablets b2) = erase_at n (map f (map (press ms hov) ?ts))"
    if "\<And>t i. f (t\<lparr>obj_id := i\<rparr>) = f t" for f :: "BtTabObj \<Rightarrow> 'x"
    unfolding b2_def relocate_map [of f, OF that] by (simp add: map_erase_at)
  have "\<not> released ms hov t" if "t \<in> set (connectedTablets b2)" for t
  proof -
    have "map (released ms hov) (connectedTablets b2) = erase_at n (map (released ms hov) (map (press ms hov) ?ts))"
      by (rule fields) (simp add: released_def)
    moreover have "\<not> released ms hov (press ms hov u)" for u
      using isReleased_once [OF assms(2), of "hov (tab_socket u)" "killButton u"] by (simp add: released_def press_def)
    ultimately have "True \<notin> set (map (released ms hov) (connectedTablets b2))"
      using set_erase_at [of n "map (released ms hov) (map (press ms hov) ?ts)"] by auto
    with that show ?thesis by (auto simp: image_iff)
  qed
  then have loop2: "name_loop ms hov 0 (connectedTablets b2) (- 1) =
      (map tabScoutingName (connectedTablets b2), map (press ms hov) (connectedTablets b2), - 1)"
    using name_loop_names [of ms hov 0 "connectedTablets b2" "- 1"] name_loop_none [of "connectedTablets b2" ms hov 0 "- 1"]
    by (metis prod.collapse)
  let ?b3 = "b2\<lparr>connectedTablets := map (press ms hov) (connectedTablets b2)\<rparr>"
  have "map tabScoutingName (connectedTablets b2) = erase_at n (map tabScoutingName ?ts)"
    using fields [of tabScoutingName] by (simp add: comp_def)
  then have "getNameList S clk ms hov b = Inr (erase_at n (map tabScoutingName ?ts), ?b3)"
    using kill n(1) by (simp add: getNameList.simps [of S clk ms hov b] loop getNameList.simps [of S clk ms hov b2] loop2)
  moreover have "bt_reach S ?b3" by (rule bt_reach.Buttons [OF r2])
  moreover have "map tab_socket (connectedTablets ?b3) = erase_at n (map tab_socket ?ts)"
    using fields [of tab_socket] by (simp add: comp_def)
  moreover have "closed ?b3 = closed b @ [tab_socket (?ts ! n)]"
    by (simp add: b2_def relocate_def Let_def sockSuicide_def)
  ultimately show ?thesis by blast
qed

lemma released_tablet_removed_witness:
  "\<exists>b b'. bt_reach log_env b \<and> length (connectedTablets b) = 1 \<and>
    getNameList log_env (0, 0) \<lparr>m_down = False, m_released = True\<rparr> (\<lambda>_. True) b = Inr ([], b') \<and> closed b' = closed b @ [7]"
proof -
  let ?ms = "\<lparr>m_down = False, m_released = True\<rparr>"
  define b where "b = (log_bt [])\<lparr>connectedTablets :=
    map (press \<lparr>m_down = True, m_released = False\<rparr> (\<lambda>_. True)) (connectedTablets (log_bt []))\<rparr>"
  have r: "bt_reach log_env b" unfolding b_def by (rule bt_reach.Buttons [OF log_bt_reach])
  have ct: "map (\<lambda>t. (tab_socket t, transactionState t, killButton t)) (connectedTablets b) =
      [(7, False, \<lparr>lastClickState = True, disabled = False\<rparr>)]"
    unfolding b_def by code_simp
  then obtain t where t: "connectedTablets b = [t]" "tab_socket t = 7" "\<not> transactionState t"
      "killButton t = \<lparr>lastClickState = True, disabled = False\<rparr>"
    by (cases "connectedTablets b") auto
  have "released ?ms (\<lambda>_. True) t" by (simp add: released_def isReleased_def t(4) Let_def)
  then have "\<exists>b'. getNameList log_env (0, 0) ?ms (\<lambda>_. True) b =
      Inr (erase_at 0 (map tabScoutingName (connectedTablets b)), b') \<and> bt_reach log_env b' \<and>
      map tab_socket (connectedTablets b') = erase_at 0 (map tab_socket (connectedTablets b)) \<and>
      closed b' = closed b @ [tab_socket (connectedTablets b ! 0)]"
    using t by (intro released_tablet_removed [OF r]) (simp_all, presburger)
  with r t show ?thesis by (auto simp: erase_at_def)
qed

end
