(* ===== verification/Main_Loop.thy ===== *)
theory Main_Loop
  imports Main_Actions Bt_Frames Win_Error
begin

text \<open>
  \<open>main.cpp\<close>: one turn of its loop over the scenes, without the drawing, and that the buttons at the
  top always show the scene the program is in.
\<close>

section \<open>The scenes\<close>

datatype SCENES = SCANNING | DATABASE | BLUETOOTH | PONG

datatype widget =
    MainTab | DatabaseTab | BluetoothTab
  | AmplifyBlue | AmplifyRed
  | Rest | DB | ScouterUpdate | UploadBatchButton | TbaDataUpdate
  | DisconnectAllTabs | PongButton | Pongback | Pongreset

datatype text_field = MatchBoxMain | UploadBatchNum | TbaDataEvent

record 'db Program =
  currentScene :: SCENES
  button :: "widget \<Rightarrow> Button"
  box :: "text_field \<Rightarrow> TextBox"
  app :: "'db App"
  btConn :: "'db Bluetooth"
  notices :: toastHandler
  winsock :: WinsockErrorDesc

text \<open>What happens in a frame: the mouse and what it is over, the keys, what Windows and the tablets
  do, the time.\<close>

record frame_in =
  f_keyE :: bool
  f_mouse :: mouse
  f_hover :: "widget \<Rightarrow> bool"
  f_box_hover :: "text_field \<Rightarrow> bool"
  f_keys :: "text_field \<Rightarrow> key_in"
  f_kill_hover :: "nat \<Rightarrow> bool"
  f_peer :: "peer option"
  f_tabs :: "nat \<Rightarrow> tab_in"
  f_clk :: "nat \<Rightarrow> int \<times> int"
  f_task :: "int \<times> int"
  f_now :: int

definition box_text :: "'db Program \<Rightarrow> text_field \<Rightarrow> string" where
  "box_text p w = string_of (getText (box p w))"

definition set_button :: "widget \<Rightarrow> (Button \<Rightarrow> Button) \<Rightarrow> 'db Program \<Rightarrow> 'db Program" where
  "set_button w f p = p\<lparr>button := (button p)(w := f (button p w))\<rparr>"

definition pressed :: "frame_in \<Rightarrow> widget \<Rightarrow> 'db Program \<Rightarrow> bool \<times> 'db Program" where
  "pressed F w p =
     (let (r, b) = isPressed (f_mouse F) (f_hover F w) (button p w) in (r, set_button w (\<lambda>_. b) p))"

definition on_press :: "frame_in \<Rightarrow> widget \<Rightarrow> ('db Program \<Rightarrow> bt_error + 'db Program) \<Rightarrow> 'db Program \<Rightarrow>
    bt_error + 'db Program" where
  "on_press F w act p = (let (r, p1) = pressed F w p in if r then act p1 else Inr p1)"

definition lift_app :: "('db App \<Rightarrow> 'db App option) \<Rightarrow> 'db Program \<Rightarrow> bt_error + 'db Program" where
  "lift_app f p = (case f (app p) of None \<Rightarrow> Inl Undefined | Some a \<Rightarrow> Inr (p\<lparr>app := a\<rparr>))"

text \<open>An operation of the Bluetooth manager works on the program's database and shows its toasts.\<close>

definition lift_bt :: "('db Bluetooth \<Rightarrow> bt_error + 'db Bluetooth) \<Rightarrow> 'db Program \<Rightarrow> bt_error + 'db Program" where
  "lift_bt f p =
     then_do (f ((btConn p)\<lparr>dbase := app_db (app p), bt_toasts := []\<rparr>)) (\<lambda>b.
       Inr (p\<lparr>btConn := b,
         app := (app p)\<lparr>app_db := dbase b, app_toasts := app_toasts (app p) @ bt_toasts b\<rparr>\<rparr>))"

text \<open>Drawing a text box reads its keys. That it stays inside its buffer is shown with the box, so
  a failure here is undefined behaviour.\<close>

fun draw_boxes :: "frame_in \<Rightarrow> text_field list \<Rightarrow> 'db Program \<Rightarrow> bt_error + 'db Program" where
  "draw_boxes F [] p = Inr p"
| "draw_boxes F (w # ws) p =
     (case updateText (f_mouse F) (f_box_hover F w) (f_keys F w) (box p w) of
        None \<Rightarrow> Inl Undefined
      | Some t \<Rightarrow> draw_boxes F ws (p\<lparr>box := (box p)(w := t)\<rparr>))"

definition choose_tab :: "frame_in \<Rightarrow> 'db Program \<Rightarrow> 'db Program" where
  "choose_tab F p =
     (let (r1, p1) = pressed F MainTab p in
      if r1 then
        set_button BluetoothTab enable (set_button DatabaseTab enable (set_button MainTab disable
          (p1\<lparr>currentScene := SCANNING\<rparr>)))
      else
        let (r2, p2) = pressed F DatabaseTab p1 in
        if r2 then
          set_button BluetoothTab enable (set_button DatabaseTab disable (set_button MainTab enable
            (p2\<lparr>currentScene := DATABASE\<rparr>)))
        else
          let (r3, p3) = pressed F BluetoothTab p2 in
          if r3 then
            set_button BluetoothTab disable (set_button DatabaseTab enable (set_button MainTab enable
              (p3\<lparr>currentScene := BLUETOOTH\<rparr>)))
          else p3)"

definition scanning_scene :: "'db env \<Rightarrow> frame_in \<Rightarrow> 'db Program \<Rightarrow> bt_error + 'db Program" where
  "scanning_scene S F p =
     then_do (on_press F AmplifyBlue (lift_app (amplify_blue S)) p) (\<lambda>p.
     then_do (on_press F AmplifyRed (\<lambda>p. lift_app (amplify_red S (box_text p MatchBoxMain)) p) p)
       (draw_boxes F [MatchBoxMain]))"

definition upload_scene :: "'db env \<Rightarrow> curl \<Rightarrow> (json \<Rightarrow> string) \<Rightarrow> frame_in \<Rightarrow> 'db Program \<Rightarrow>
    bt_error + (bool \<times> 'db Program)" where
  "upload_scene S C dump F p =
     (case pressed F UploadBatchButton p of
        (True, p1) \<Rightarrow>
          then_do (upload_batch S C dump (box_text p1 UploadBatchNum) (app p1)) (\<lambda>(skip, a).
            Inr (skip, p1\<lparr>app := a\<rparr>))
      | (False, p1) \<Rightarrow> Inr (False, p1))"

definition database_scene :: "'db env \<Rightarrow> curl \<Rightarrow> (json \<Rightarrow> string) \<Rightarrow> frame_in \<Rightarrow> 'db Program \<Rightarrow>
    bt_error + (bool \<times> 'db Program)" where
  "database_scene S C dump F p =
     then_do (on_press F Rest (lift_app (refresh_teams S C)) p) (\<lambda>p.
     then_do (on_press F DB (lift_app (exec_all S test_rows)) p) (\<lambda>p.
     then_do (on_press F ScouterUpdate (lift_app (scouter_update S)) p) (\<lambda>p.
     then_do (upload_scene S C dump F p) (\<lambda>(skip, p).
       if skip then Inr (True, p)
       else
         then_do (on_press F TbaDataUpdate
           (\<lambda>p. lift_app (\<lambda>a. Some (tbaDataUpdate S C (box_text p TbaDataEvent) a)) p) p) (\<lambda>p.
         then_do (draw_boxes F [UploadBatchNum, TbaDataEvent] p) (\<lambda>p. Inr (False, p)))))))"

definition bluetooth_scene :: "'db env \<Rightarrow> frame_in \<Rightarrow> 'db Program \<Rightarrow> bt_error + 'db Program" where
  "bluetooth_scene S F p =
     then_do (on_press F DisconnectAllTabs (lift_bt (killAllSockets S (f_clk F))) p) (\<lambda>p.
     then_do (on_press F PongButton (\<lambda>p. Inr (p\<lparr>currentScene := PONG\<rparr>)) p) (\<lambda>p.
       lift_bt (\<lambda>b. then_do (getNameList S (f_task F) (f_mouse F) (f_kill_hover F) b) (\<lambda>(_, b). Inr b)) p))"

definition pong_scene :: "frame_in \<Rightarrow> 'db Program \<Rightarrow> bt_error + 'db Program" where
  "pong_scene F p =
     then_do (on_press F Pongback
         (\<lambda>p. Inr (set_button BluetoothTab disable (set_button DatabaseTab enable (set_button MainTab enable
           (p\<lparr>currentScene := BLUETOOTH\<rparr>)))))
         (set_button BluetoothTab disable (set_button DatabaseTab disable (set_button MainTab disable p))))
       (on_press F Pongreset Inr)"

text \<open>The toasts of a frame go into the handler's queue.\<close>

definition flush_toasts :: "'db Program \<Rightarrow> 'db Program" where
  "flush_toasts p =
     p\<lparr>notices := foldl (\<lambda>h t. toast_add t h) (notices p) (app_toasts (app p)), app := (app p)\<lparr>app_toasts := []\<rparr>\<rparr>"

definition key_toast :: "frame_in \<Rightarrow> 'db Program \<Rightarrow> bt_error + 'db Program" where
  "key_toast F p =
     (if f_keyE F then
        case get 6 (winsock p) of
          (None, _) \<Rightarrow> Inl OutOfRange
        | (Some d, w) \<Rightarrow>
            Inr (p\<lparr>winsock := w,
              app := (app p)\<lparr>app_toasts := app_toasts (app p) @ [mk_Toast (errorNameDesc d) LENGTH_LONG]\<rparr>\<rparr>)
      else Inr p)"

definition scene :: "'db env \<Rightarrow> curl \<Rightarrow> (json \<Rightarrow> string) \<Rightarrow> frame_in \<Rightarrow> 'db Program \<Rightarrow>
    bt_error + (bool \<times> 'db Program)" where
  "scene S C dump F p =
     (case currentScene p of
        SCANNING \<Rightarrow> then_do (scanning_scene S F p) (\<lambda>p. Inr (False, p))
      | DATABASE \<Rightarrow> database_scene S C dump F p
      | BLUETOOTH \<Rightarrow> then_do (bluetooth_scene S F p) (\<lambda>p. Inr (False, p))
      | PONG \<Rightarrow> then_do (pong_scene F p) (\<lambda>p. Inr (False, p)))"

definition frame :: "'db env \<Rightarrow> curl \<Rightarrow> (json \<Rightarrow> string) \<Rightarrow> frame_in \<Rightarrow> 'db Program \<Rightarrow> bt_error + 'db Program" where
  "frame S C dump F p =
     then_do (key_toast F p) (\<lambda>p.
     then_do (lift_bt (updateAllBt (with_files S (app p)) (f_peer F) (f_tabs F) (f_clk F)) (choose_tab F p)) (\<lambda>p.
     then_do (scene S C dump F p) (\<lambda>(skip, p).
       let p1 = flush_toasts p in
       Inr (if skip then p1 else p1\<lparr>notices := toast_update (f_now F) (notices p1)\<rparr>))))"

text \<open>The state before the first frame.\<close>

definition program_start :: "'db App \<Rightarrow> 'db Bluetooth \<Rightarrow> 'db Program" where
  "program_start a b = \<lparr>currentScene = SCANNING, button = (\<lambda>_. mk_Button)(MainTab := disable mk_Button),
     box = (\<lambda>w. mk_TextBox (case w of MatchBoxMain \<Rightarrow> 10 | UploadBatchNum \<Rightarrow> 10 | TbaDataEvent \<Rightarrow> 15)),
     app = a, btConn = b, notices = toast_start, winsock = winsock_start\<rparr>"

text \<open>After the loop the sockets are closed and the table of errors is emptied.\<close>

definition program_end :: "'db env \<Rightarrow> (nat \<Rightarrow> int \<times> int) \<Rightarrow> 'db Program \<Rightarrow> bt_error + 'db Program" where
  "program_end S clk p =
     then_do (lift_bt (killAllSockets S clk) p) (\<lambda>p. Inr (p\<lparr>winsock := destroy (winsock p)\<rparr>))"

text \<open>The states of the program at the start of a frame. Between two frames a task of a tablet may
  come to its end.\<close>

inductive prog_reach :: "'db env \<Rightarrow> curl \<Rightarrow> (json \<Rightarrow> string) \<Rightarrow> 'db Program \<Rightarrow> bool"
  for S :: "'db env" and C :: curl and dump :: "json \<Rightarrow> string" where
  Start: "prog_reach S C dump (program_start a b)"
| Frame: "prog_reach S C dump p \<Longrightarrow> frame S C dump F p = Inr p' \<Longrightarrow> prog_reach S C dump p'"
| Task: "prog_reach S C dump p \<Longrightarrow> lift_bt (task_done (with_files S (app p)) clk i) p = Inr p' \<Longrightarrow>
    prog_reach S C dump p'"

section \<open>What the scenes leave alone\<close>

text \<open>The result of an operation, if there is one, satisfies a predicate.\<close>

definition after :: "('a \<Rightarrow> bool) \<Rightarrow> bt_error + 'a \<Rightarrow> bool" where
  "after R m = (case m of Inl _ \<Rightarrow> True | Inr x \<Rightarrow> R x)"

named_theorems keeps_intros \<open>operations of a scene that keep the tabs and the text boxes in order\<close>

lemma after_simps [simp]: "after R (Inl e)" "after R (Inr x) = R x"
  by (simp_all add: after_def)

lemma afterD: "after R m \<Longrightarrow> m = Inr x \<Longrightarrow> R x"
  by simp

lemma after_then_do: "after Q m \<Longrightarrow> (\<And>x. Q x \<Longrightarrow> after R (f x)) \<Longrightarrow> after R (then_do m f)"
  by (cases m) simp_all

definition box_limit :: "text_field \<Rightarrow> nat" where
  "box_limit w = (case w of MatchBoxMain \<Rightarrow> 10 | UploadBatchNum \<Rightarrow> 10 | TbaDataEvent \<Rightarrow> 15)"

definition boxes_ok :: "'db Program \<Rightarrow> bool" where
  "boxes_ok p \<longleftrightarrow> (\<forall>w. tb_ok (box p w) \<and> sizeLimit (box p w) = int (box_limit w))"

definition tab_flags :: "'db Program \<Rightarrow> bool \<times> bool \<times> bool" where
  "tab_flags p = (disabled (button p MainTab), disabled (button p DatabaseTab), disabled (button p BluetoothTab))"

text \<open>The tab of the current scene is the one that cannot be pressed; in the game none can be, from
  its first frame on.\<close>

definition shown_tabs :: "SCENES \<Rightarrow> (bool \<times> bool \<times> bool) set" where
  "shown_tabs s =
     (case s of
        SCANNING \<Rightarrow> {(True, False, False)}
      | DATABASE \<Rightarrow> {(False, True, False)}
      | BLUETOOTH \<Rightarrow> {(False, False, True)}
      | PONG \<Rightarrow> {(False, False, True), (True, True, True)})"

definition scene_ok :: "'db Program \<Rightarrow> bool" where
  "scene_ok p \<longleftrightarrow> tab_flags p \<in> shown_tabs (currentScene p)"

definition keeps :: "'db Program \<Rightarrow> 'db Program \<Rightarrow> bool" where
  "keeps p q \<longleftrightarrow> currentScene q = currentScene p \<and> tab_flags q = tab_flags p \<and>
     boxes_ok q \<and> w_init (winsock q) = w_init (winsock p)"

lemma keeps_refl: "boxes_ok p \<Longrightarrow> keeps p p"
  by (simp add: keeps_def)

lemma keeps_trans: "keeps p q \<Longrightarrow> keeps q r \<Longrightarrow> keeps p r"
  by (simp add: keeps_def)

lemma keeps_boxes: "keeps p q \<Longrightarrow> boxes_ok q"
  by (simp add: keeps_def)

lemma keeps_outside [simp]:
  "keeps p (q\<lparr>app := a\<rparr>) = keeps p q" "keeps p (q\<lparr>btConn := b\<rparr>) = keeps p q"
  "keeps p (q\<lparr>notices := h\<rparr>) = keeps p q"
  by (simp_all add: keeps_def tab_flags_def boxes_ok_def)

lemma keeps_pressed [keeps_intros]: "keeps p q \<Longrightarrow> keeps p (snd (pressed F w q))"
  by (auto simp: pressed_def keeps_def tab_flags_def boxes_ok_def set_button_def isPressed_disabled
      split: prod.splits) (metis isPressed_disabled snd_conv)+

lemma keeps_on_press [keeps_intros]:
  assumes "keeps p q" and "\<And>q. keeps p q \<Longrightarrow> after (keeps p) (act q)"
  shows "after (keeps p) (on_press F w act q)"
  using keeps_pressed [OF assms(1), of F w] assms(2) by (simp add: on_press_def split_beta)

lemma keeps_lift_app [keeps_intros]: "keeps p q \<Longrightarrow> after (keeps p) (lift_app f q)"
  by (simp add: lift_app_def split: option.splits)

lemma keeps_lift_bt [keeps_intros]: "keeps p q \<Longrightarrow> after (keeps p) (lift_bt f q)"
  unfolding lift_bt_def by (rule after_then_do [of "\<lambda>_. True"]) (simp_all add: after_def split: sum.splits)

lemma keeps_draw_boxes [keeps_intros]: "keeps p q \<Longrightarrow> after (keeps p) (draw_boxes F ws q)"
proof (induction ws arbitrary: q)
  case Nil
  then show ?case by simp
next
  case (Cons w ws)
  have ok: "tb_ok (box q w)" "sizeLimit (box q w) = int (box_limit w)"
    using Cons.prems by (simp_all add: keeps_def boxes_ok_def)
  define t where "t = updateText (f_mouse F) (f_box_hover F w) (f_keys F w) (box q w)"
  show ?case
  proof (cases t)
    case None
    then show ?thesis by (simp add: t_def [symmetric])
  next
    case (Some u)
    then have "tb_ok u \<and> sizeLimit u = int (box_limit w)"
      using updateText_spec [OF ok(1), of "f_mouse F" "f_box_hover F w" "f_keys F w"] ok(2)
      unfolding t_def by auto
    then have "keeps p (q\<lparr>box := (box q)(w := u)\<rparr>)"
      using Cons.prems by (simp add: keeps_def boxes_ok_def tab_flags_def)
    from Cons.IH [OF this] Some show ?thesis by (simp add: t_def [symmetric])
  qed
qed

section \<open>The scenes\<close>

text \<open>What may become of the program in a scene: the invariant of the tabs and of the boxes holds
  again.\<close>

definition prog_inv :: "'db Program \<Rightarrow> bool" where
  "prog_inv p \<longleftrightarrow> scene_ok p \<and> boxes_ok p \<and> \<not> w_init (winsock p)"

lemma keeps_inv: "keeps p q \<Longrightarrow> prog_inv p \<Longrightarrow> prog_inv q"
  by (simp add: keeps_def prog_inv_def scene_ok_def)

lemma prog_inv_keeps: "prog_inv p \<Longrightarrow> keeps p p"
  by (simp add: prog_inv_def keeps_refl)

lemma after_mono: "after Q m \<Longrightarrow> (\<And>x. Q x \<Longrightarrow> R x) \<Longrightarrow> after R m"
  by (cases m) simp_all

lemma prog_inv_outside [simp]:
  "prog_inv (q\<lparr>app := a\<rparr>) = prog_inv q" "prog_inv (q\<lparr>btConn := b\<rparr>) = prog_inv q"
  "prog_inv (q\<lparr>notices := h\<rparr>) = prog_inv q"
  by (simp_all add: prog_inv_def scene_ok_def tab_flags_def boxes_ok_def)

lemma keeps_winsock:
  "keeps p q \<Longrightarrow> w_init w = w_init (winsock p) \<Longrightarrow> keeps p (q\<lparr>winsock := w\<rparr>)"
  by (simp add: keeps_def tab_flags_def boxes_ok_def)

lemma key_toast_keeps:
  assumes "keeps p q" and "\<not> w_init (winsock p)"
  shows "after (keeps p) (key_toast F q)"
proof -
  have "\<not> w_init (winsock q)" using assms by (simp add: keeps_def)
  from get_known(2) [OF this, of 6] assms show ?thesis
    by (auto simp: key_toast_def keeps_def tab_flags_def boxes_ok_def split: prod.splits option.splits)
qed

lemma scanning_scene_keeps: "keeps p q \<Longrightarrow> after (keeps p) (scanning_scene S F q)"
  unfolding scanning_scene_def by (intro after_then_do [where Q = "keeps p"] keeps_intros)

lemma upload_scene_keeps: "keeps p q \<Longrightarrow> after (\<lambda>(_, r). keeps p r) (upload_scene S C dump F q)"
  using keeps_pressed [of p q F UploadBatchButton]
  by (auto simp: upload_scene_def split: prod.splits bool.splits intro!: after_then_do [of "\<lambda>_. True"])
    (simp add: after_def split: sum.splits)

lemma database_scene_keeps: "keeps p q \<Longrightarrow> after (\<lambda>(_, r). keeps p r) (database_scene S C dump F q)"
  unfolding database_scene_def
proof (intro after_then_do [where Q = "keeps p"] keeps_intros)
  fix r :: "'a Program"
  assume r: "keeps p r"
  show "after (\<lambda>(_, r). keeps p r) (then_do (upload_scene S C dump F r) (\<lambda>(skip, p).
       if skip then Inr (True, p)
       else
         then_do (on_press F TbaDataUpdate
           (\<lambda>p. lift_app (\<lambda>a. Some (tbaDataUpdate S C (box_text p TbaDataEvent) a)) p) p) (\<lambda>p.
         then_do (draw_boxes F [UploadBatchNum, TbaDataEvent] p) (\<lambda>p. Inr (False, p)))))"
    by (rule after_then_do [OF upload_scene_keeps [OF r]])
      (auto intro!: after_then_do [where Q = "keeps p"] keeps_intros simp del: draw_boxes.simps)
qed

lemma bluetooth_scene_inv:
  assumes "prog_inv p" and "currentScene p = BLUETOOTH"
  shows "after prog_inv (bluetooth_scene S F p)"
proof -
  have inv: "prog_inv q" if "keeps p q" for q using keeps_inv [OF that assms(1)] .
  have pong: "prog_inv (q\<lparr>currentScene := PONG\<rparr>)" if "keeps p q" for q
    using inv [OF that] that assms(2)
    by (simp add: prog_inv_def scene_ok_def keeps_def tab_flags_def boxes_ok_def shown_tabs_def)
  have press: "after prog_inv (on_press F PongButton (\<lambda>p. Inr (p\<lparr>currentScene := PONG\<rparr>)) q)" if "keeps p q" for q
    using keeps_pressed [OF that, of F PongButton] inv pong by (simp add: on_press_def split_beta)
  show ?thesis
    unfolding bluetooth_scene_def
  proof (rule after_then_do [where Q = "keeps p"])
    show "after (keeps p) (on_press F DisconnectAllTabs (lift_bt (killAllSockets S (f_clk F))) p)"
      using prog_inv_keeps [OF assms(1)] by (intro keeps_intros)
  next
    fix q assume "keeps p q"
    then show "after prog_inv (then_do (on_press F PongButton (\<lambda>p. Inr (p\<lparr>currentScene := PONG\<rparr>)) q)
        (\<lambda>p. lift_bt (\<lambda>b. then_do (getNameList S (f_task F) (f_mouse F) (f_kill_hover F) b) (\<lambda>(_, b). Inr b)) p))"
    proof (rule after_then_do [OF press])
      fix r :: "'a Program"
      assume r: "prog_inv r"
      show "after prog_inv (lift_bt (\<lambda>b. then_do (getNameList S (f_task F) (f_mouse F) (f_kill_hover F) b)
          (\<lambda>(_, b). Inr b)) r)"
        by (rule after_mono [OF keeps_lift_bt [OF prog_inv_keeps [OF r]]]) (rule keeps_inv [OF _ r])
    qed
  qed
qed

text \<open>The three buttons of the tabs as a scene sets them.\<close>

lemma set_tabs_inv [simp]:
  "prog_inv (set_button BluetoothTab h (set_button DatabaseTab g (set_button MainTab f p))) \<longleftrightarrow>
     boxes_ok p \<and> \<not> w_init (winsock p) \<and>
     (disabled (f (button p MainTab)), disabled (g (button p DatabaseTab)), disabled (h (button p BluetoothTab)))
       \<in> shown_tabs (currentScene p)"
  by (auto simp: prog_inv_def scene_ok_def boxes_ok_def tab_flags_def set_button_def)

lemma pong_scene_inv:
  assumes "prog_inv p" and "currentScene p = PONG"
  shows "after prog_inv (pong_scene F p)"
proof -
  have b: "boxes_ok p" "\<not> w_init (winsock p)" using assms(1) by (simp_all add: prog_inv_def)
  define q where "q = set_button BluetoothTab disable (set_button DatabaseTab disable (set_button MainTab disable p))"
  have q: "prog_inv q" unfolding q_def
    using b assms(2) by (simp add: shown_tabs_def)
  define leave :: "'a Program \<Rightarrow> bt_error + 'a Program" where "leave = (\<lambda>p. Inr (set_button BluetoothTab disable
    (set_button DatabaseTab enable (set_button MainTab enable (p\<lparr>currentScene := BLUETOOTH\<rparr>)))))"
  have p1: "prog_inv (snd (pressed F w r))" if "prog_inv r" for w and r :: "'a Program"
    by (rule keeps_inv [OF keeps_pressed [OF prog_inv_keeps [OF that]] that])
  have "after prog_inv (leave r)" if "prog_inv r" for r
  proof -
    have "boxes_ok r" "\<not> w_init (winsock r)" using that by (simp_all add: prog_inv_def)
    then show ?thesis by (simp add: leave_def shown_tabs_def boxes_ok_def)
  qed
  with q have "after prog_inv (on_press F Pongback leave q)"
    using p1 by (simp add: on_press_def split_beta)
  then show ?thesis
    unfolding pong_scene_def leave_def [symmetric] q_def [symmetric]
    by (rule after_then_do) (use p1 in \<open>simp add: on_press_def split_beta\<close>)
qed

lemma choose_tab_inv:
  assumes "prog_inv p"
  shows "prog_inv (choose_tab F p)"
proof -
  define p1 where "p1 = snd (pressed F MainTab p)"
  define p2 where "p2 = snd (pressed F DatabaseTab p1)"
  define p3 where "p3 = snd (pressed F BluetoothTab p2)"
  have k: "keeps p p1" "keeps p p2" "keeps p p3"
    unfolding p3_def p2_def p1_def by (intro keeps_pressed prog_inv_keeps [OF assms])+
  then have b: "boxes_ok p1" "boxes_ok p2" "boxes_ok p3"
    and w: "\<not> w_init (winsock p1)" "\<not> w_init (winsock p2)" "\<not> w_init (winsock p3)"
    using assms by (auto simp: keeps_def prog_inv_def)
  have sc: "boxes_ok (q\<lparr>currentScene := s\<rparr>) = boxes_ok q" for q :: "'a Program" and s
    by (simp add: boxes_ok_def)
  have "choose_tab F p =
     (if fst (pressed F MainTab p) then
        set_button BluetoothTab enable (set_button DatabaseTab enable (set_button MainTab disable
          (p1\<lparr>currentScene := SCANNING\<rparr>)))
      else if fst (pressed F DatabaseTab p1) then
        set_button BluetoothTab enable (set_button DatabaseTab disable (set_button MainTab enable
          (p2\<lparr>currentScene := DATABASE\<rparr>)))
      else if fst (pressed F BluetoothTab p2) then
        set_button BluetoothTab disable (set_button DatabaseTab enable (set_button MainTab enable
          (p3\<lparr>currentScene := BLUETOOTH\<rparr>)))
      else p3)"
    by (simp add: choose_tab_def split_beta Let_def p1_def p2_def p3_def)
  moreover have "prog_inv p3" by (rule keeps_inv [OF k(3) assms])
  ultimately show ?thesis
    using b w by (simp add: sc shown_tabs_def)
qed

lemma scene_inv:
  assumes "prog_inv p"
  shows "after (\<lambda>(_, q). prog_inv q) (scene S C dump F p)"
proof -
  have k: "keeps p p" by (rule prog_inv_keeps [OF assms])
  have lift: "after (\<lambda>(_, q). prog_inv q) (then_do m (\<lambda>p. Inr (False, p)))" if "after prog_inv m" for m :: "bt_error + 'a Program"
    by (rule after_then_do [OF that]) simp
  show ?thesis
  proof (cases "currentScene p")
    case SCANNING
    then show ?thesis
      using lift [OF after_mono [OF scanning_scene_keeps [OF k] keeps_inv [OF _ assms]]]
      by (simp add: scene_def)
  next
    case DATABASE
    then show ?thesis
      using after_mono [OF database_scene_keeps [OF k], of "\<lambda>(_, q). prog_inv q"] keeps_inv [OF _ assms]
      by (force simp: scene_def)
  next
    case BLUETOOTH
    then show ?thesis using lift [OF bluetooth_scene_inv [OF assms]] by (simp add: scene_def)
  next
    case PONG
    then show ?thesis using lift [OF pong_scene_inv [OF assms]] by (simp add: scene_def)
  qed
qed

lemma frame_inv:
  assumes "prog_inv p"
  shows "after prog_inv (frame S C dump F p)"
  unfolding frame_def
proof (rule after_then_do)
  show "after (keeps p) (key_toast F p)"
    using key_toast_keeps [OF prog_inv_keeps [OF assms]] assms by (simp add: prog_inv_def)
next
  fix q assume "keeps p q"
  then have q: "prog_inv q" using keeps_inv assms by blast
  let ?u = "lift_bt (updateAllBt (with_files S (app q)) (f_peer F) (f_tabs F) (f_clk F)) (choose_tab F q)"
  have "after prog_inv ?u"
    using choose_tab_inv [OF q, of F]
    by (intro after_mono [OF keeps_lift_bt [OF prog_inv_keeps]]) (auto intro: keeps_inv)
  then show "after prog_inv (then_do ?u (\<lambda>p. then_do (scene S C dump F p) (\<lambda>(skip, p).
       let p1 = flush_toasts p in
       Inr (if skip then p1 else p1\<lparr>notices := toast_update (f_now F) (notices p1)\<rparr>))))"
  proof (rule after_then_do)
    fix r :: "'a Program"
    assume r: "prog_inv r"
    show "after prog_inv (then_do (scene S C dump F r) (\<lambda>(skip, p).
       let p1 = flush_toasts p in
       Inr (if skip then p1 else p1\<lparr>notices := toast_update (f_now F) (notices p1)\<rparr>)))"
      by (rule after_then_do [OF scene_inv [OF r]]) (auto simp: flush_toasts_def Let_def)
  qed
qed

lemma tb_ok_fresh: "tb_ok (mk_TextBox n)"
  by (intro tb_okI(1) [of _ "[]" "replicate n 0"]) (simp_all add: mk_TextBox_def nat_add_distrib)

lemma program_start_inv: "prog_inv (program_start a b)"
proof -
  have "boxes_ok (program_start a b)"
    unfolding boxes_ok_def
  proof
    fix w
    show "tb_ok (box (program_start a b) w) \<and> sizeLimit (box (program_start a b) w) = int (box_limit w)"
      by (cases w) (simp_all add: program_start_def box_limit_def tb_ok_fresh, simp_all add: mk_TextBox_def)
  qed
  then show ?thesis
    by (simp add: prog_inv_def program_start_def scene_ok_def shown_tabs_def tab_flags_def winsock_start_def mk_Button_def)
qed

lemma prog_reach_inv: "prog_reach S C dump p \<Longrightarrow> prog_inv p"
proof (induction rule: prog_reach.induct)
  case (Start a b)
  show ?case by (rule program_start_inv)
next
  case (Frame p F p')
  show ?case by (rule afterD [OF frame_inv [OF Frame.IH] Frame.hyps(2)])
next
  case (Task p clk i p')
  show ?case
    by (rule keeps_inv [OF afterD [OF keeps_lift_bt [OF prog_inv_keeps [OF Task.IH]] Task.hyps(2)] Task.IH])
qed

section \<open>Properties\<close>

text \<open>
  C12. The tabs always tell where the program is: at the start of every frame the tab of the scene
  the program is in is the one that cannot be pressed and the other two can, and in the game either
  the Bluetooth tab is still the marked one or none can be pressed. Every text box holds at most
  its limit of characters and none of its writes leaves its buffer. The next frame starts from such
  a state again unless it throws or runs into undefined behaviour.
\<close>

theorem tabs_show_the_scene:
  assumes "prog_reach S C dump p"
  shows "tab_flags p \<in> shown_tabs (currentScene p) \<and>
    (\<forall>w. length (getText (box p w)) \<le> box_limit w \<and>
      (\<exists>t. updateText (f_mouse F) (f_box_hover F w) (f_keys F w) (box p w) = Some t)) \<and>
    (case frame S C dump F p of Inl _ \<Rightarrow> True | Inr p' \<Rightarrow> tab_flags p' \<in> shown_tabs (currentScene p'))"
proof -
  have inv: "prog_inv p" by (rule prog_reach_inv [OF assms])
  have len: "length (getText (box p w)) \<le> box_limit w" for w
  proof -
    have t: "tb_ok (box p w)" "sizeLimit (box p w) = int (box_limit w)"
      using inv by (simp_all add: prog_inv_def boxes_ok_def)
    then show ?thesis using tb_ok_text [OF t(1)] unfolding tb_ok_def by (metis of_nat_le_iff)
  qed
  have "\<exists>t. updateText (f_mouse F) (f_box_hover F w) (f_keys F w) (box p w) = Some t" for w
    using updateText_spec [of "box p w" "f_mouse F" "f_box_hover F w" "f_keys F w"] inv
    by (auto simp: prog_inv_def boxes_ok_def)
  moreover have "after (\<lambda>p'. tab_flags p' \<in> shown_tabs (currentScene p')) (frame S C dump F p)"
    by (rule after_mono [OF frame_inv [OF inv]]) (simp add: prog_inv_def scene_ok_def)
  ultimately show ?thesis using inv len by (simp add: prog_inv_def scene_ok_def after_def)
qed

text \<open>A frame in which the mouse is pressed on the Bluetooth tab.\<close>

definition example_frame :: "widget \<Rightarrow> frame_in" where
  "example_frame w = \<lparr>f_keyE = False, f_mouse = \<lparr>m_down = True, m_released = False\<rparr>, f_hover = (\<lambda>v. v = w),
     f_box_hover = (\<lambda>_. False), f_keys = (\<lambda>_. \<lparr>k_chars = [52], k_backspace = False\<rparr>),
     f_kill_hover = (\<lambda>_. False), f_peer = None, f_tabs = (\<lambda>_. example_in), f_clk = (\<lambda>_. (0, 0)),
     f_task = (0, 0), f_now = 10\<rparr>"

definition example_program :: "unit Program" where
  "example_program = program_start tba_app (bt_init (\<lambda>_. \<lparr>rx = [], tx = [], sent = []\<rparr>) ())"

lemma no_tablets:
  assumes "connectedTablets b = []" and "runningTransactions b = []"
  shows "updateAllBt S None tabs clk b = Inr b" and "getNameList S clk2 ms hov b = Inr ([], b)"
  using assms
  by (simp_all add: updateAllBt_def acceptConn_def handleReadyConnections_def
      handleRunningTransactions_def running_loop.simps
      getNameList.simps [of S clk2])

lemma example_second_frame:
  "\<exists>p. frame example_env tba_curl (\<lambda>_. []) (example_frame BluetoothTab) example_program = Inr p \<and>
     currentScene p = BLUETOOTH"
  by (simp add: frame_def key_toast_def example_frame_def example_program_def choose_tab_def pressed_def
      isPressed_def program_start_def mk_Button_def disable_def enable_def set_button_def lift_bt_def
      no_tablets bt_init_def scene_def bluetooth_scene_def on_press_def flush_toasts_def Let_def)

lemma tabs_show_the_scene_witness:
  "\<exists>p. frame example_env tba_curl (\<lambda>_. []) (example_frame BluetoothTab) example_program = Inr p \<and>
    currentScene p = BLUETOOTH \<and> tab_flags p \<in> shown_tabs BLUETOOTH \<and> length (getText (box p TbaDataEvent)) \<le> 15"
proof -
  obtain p where p: "frame example_env tba_curl (\<lambda>_. []) (example_frame BluetoothTab) example_program = Inr p"
    and s: "currentScene p = BLUETOOTH"
    using example_second_frame by (auto split: sum.splits)
  have "prog_reach example_env tba_curl (\<lambda>_. []) p"
    by (rule prog_reach.Frame [OF _ p]) (simp add: example_program_def prog_reach.Start)
  from tabs_show_the_scene [OF this, of "example_frame DB"] p s show ?thesis
    by (auto simp: box_limit_def dest!: spec [of _ TbaDataEvent])
qed

end
