(* ===== verification/Ma_Net.thy ===== *)
theory Ma_Net
  imports Prelude
begin

text \<open>
  \<open>libmariadb/ma_net.c\<close> without compression, and the read-ahead cache of \<open>ma_pvio.c\<close> under it:
  packets with a three-byte length and a sequence number over a byte stream. The transport below
  \<open>MARIADB_PVIO\<close> is a script: the chunks that reads find, and how many bytes each write takes.
  Memory allocation succeeds; the read and write halves of \<open>net->buff\<close>, which the program never
  uses at once, are two lists.
\<close>

section \<open>The transport and its cache\<close>

record PVIO =
  has_cache :: bool
  cache :: "byte list"
  sock_in :: "byte list list"
  sock_out :: "byte list"
  write_ev :: "int list"

definition PVIO_READ_AHEAD_CACHE_SIZE :: nat where
  "PVIO_READ_AHEAD_CACHE_SIZE = 16384"

definition PVIO_READ_AHEAD_CACHE_MIN_SIZE :: nat where
  "PVIO_READ_AHEAD_CACHE_MIN_SIZE = 2048"

text \<open>A read takes at most \<open>n\<close> bytes of the chunk that is there; \<open>[]\<close> stands for a result
  \<open>\<le> 0\<close>: an empty chunk is a failed read, no chunk the end of the stream.\<close>

definition ma_pvio_read :: "nat \<Rightarrow> PVIO \<Rightarrow> byte list \<times> PVIO" where
  "ma_pvio_read n p =
     (case sock_in p of
        [] \<Rightarrow> ([], p)
      | c # cs \<Rightarrow>
          (take n c, p\<lparr>sock_in := (if length c \<le> n then cs else drop n c # cs)\<rparr>))"

definition ma_pvio_cache_read :: "nat \<Rightarrow> PVIO \<Rightarrow> byte list \<times> PVIO" where
  "ma_pvio_cache_read len p =
     (if \<not> has_cache p then ma_pvio_read len p
      else if cache p \<noteq> [] then (take len (cache p), p\<lparr>cache := drop len (cache p)\<rparr>)
      else if len \<ge> PVIO_READ_AHEAD_CACHE_MIN_SIZE then ma_pvio_read len p
      else
        let (r, p') = ma_pvio_read PVIO_READ_AHEAD_CACHE_SIZE p in
        if length r > len then (take len r, p'\<lparr>cache := drop len r\<rparr>) else (r, p'))"

text \<open>One write: the event is the transport's answer, which never exceeds what it was offered.\<close>

definition ma_pvio_write :: "byte list \<Rightarrow> PVIO \<Rightarrow> int \<times> PVIO" where
  "ma_pvio_write d p =
     (case write_ev p of
        [] \<Rightarrow> (- 1, p)
      | n # es \<Rightarrow>
          if n \<le> 0 then (n, p\<lparr>write_ev := es\<rparr>)
          else let k = min (nat n) (length d) in
            (int k, p\<lparr>write_ev := es, sock_out := sock_out p @ take k d\<rparr>))"

section \<open>The packet layer\<close>

definition MAX_PACKET_LENGTH :: nat where
  "MAX_PACKET_LENGTH = 256 * 256 * 256 - 1"

definition NET_HEADER_SIZE :: nat where
  "NET_HEADER_SIZE = 4"

definition IO_SIZE :: nat where
  "IO_SIZE = 4096"

definition ER_NET_PACKET_TOO_LARGE :: nat where
  "ER_NET_PACKET_TOO_LARGE = 1153"

definition ER_NET_ERROR_ON_WRITE :: nat where
  "ER_NET_ERROR_ON_WRITE = 1160"

record NET =
  pvio :: PVIO
  wbuf :: "byte list"
  rbuf :: "byte list"
  max_packet :: nat
  max_packet_size :: nat
  pkt_nr :: u32
  net_error :: nat
  last_errno :: nat
  where_b :: nat

definition ma_net_init :: "nat \<Rightarrow> nat \<Rightarrow> PVIO \<Rightarrow> NET" where
  "ma_net_init net_buffer_length max_allowed_packet p =
     \<lparr>pvio = p, wbuf = [], rbuf = [], max_packet = net_buffer_length,
      max_packet_size = max net_buffer_length max_allowed_packet, pkt_nr = 0, net_error = 0,
      last_errno = 0, where_b = 0\<rparr>"

definition net_realloc :: "nat \<Rightarrow> NET \<Rightarrow> bool \<times> NET" where
  "net_realloc len net =
     (if len \<ge> max_packet_size net
      then (True, net\<lparr>net_error := 1, last_errno := ER_NET_PACKET_TOO_LARGE\<rparr>)
      else (False, net\<lparr>wbuf := [], max_packet := (len + IO_SIZE - 1) div IO_SIZE * IO_SIZE\<rparr>))"

definition ma_net_clear :: "NET \<Rightarrow> NET" where
  "ma_net_clear net = net\<lparr>pkt_nr := 0, wbuf := []\<rparr>"

subsection \<open>Writing\<close>

text \<open>The loop over \<open>ma_pvio_write\<close>; it ends because every turn uses up an event.\<close>

function real_write_loop :: "byte list \<Rightarrow> PVIO \<Rightarrow> bool \<times> PVIO" where
  "real_write_loop d p =
     (if d = [] then (False, p)
      else
        let (n, p') = ma_pvio_write d p in
        if n \<le> 0 then (True, p') else real_write_loop (drop (nat n) d) p')"
  by pat_completeness auto
termination
  by (relation "measure (\<lambda>(_, p). length (write_ev p))")
    (auto simp: ma_pvio_write_def Let_def split: list.splits if_splits)

declare real_write_loop.simps [simp del]

definition ma_net_real_write :: "byte list \<Rightarrow> NET \<Rightarrow> bool \<times> NET" where
  "ma_net_real_write d net =
     (if net_error net = 2 then (True, net)
      else
        let (err, p) = real_write_loop d (pvio net) in
        if err then (True, net\<lparr>pvio := p, net_error := 2, last_errno := ER_NET_ERROR_ON_WRITE\<rparr>)
        else (False, net\<lparr>pvio := p\<rparr>))"

definition ma_net_flush :: "NET \<Rightarrow> bool \<times> NET" where
  "ma_net_flush net =
     (if wbuf net \<noteq> [] then
        let (err, net') = ma_net_real_write (wbuf net) net in (err, net'\<lparr>wbuf := []\<rparr>)
      else (False, net))"

text \<open>Buffered writing: fill the buffer and send it when the data does not fit, send what is
  larger than a buffer directly, keep the rest.\<close>

definition ma_net_write_buff :: "byte list \<Rightarrow> NET \<Rightarrow> bool \<times> NET" where
  "ma_net_write_buff packet net =
     (let left_length = max_packet net - length (wbuf net) in
      if length packet > left_length then
        let (err, net1, rest) =
          (if wbuf net \<noteq> [] then
             let (e, n1) = ma_net_real_write (wbuf net @ take left_length packet) net in
             if e then (True, n1, packet)
             else (False, n1\<lparr>wbuf := []\<rparr>, drop left_length packet)
           else (False, net, packet)) in
        if err then (True, net1)
        else if length rest > max_packet net1 then ma_net_real_write rest net1
        else (False, net1\<lparr>wbuf := wbuf net1 @ rest\<rparr>)
      else (False, net\<lparr>wbuf := wbuf net @ packet\<rparr>))"

definition write_two :: "byte list \<Rightarrow> byte list \<Rightarrow> NET \<Rightarrow> bool \<times> NET" where
  "write_two a b net =
     (let (e, net1) = ma_net_write_buff a net in
      if e then (True, net1) else ma_net_write_buff b net1)"

definition header :: "nat \<Rightarrow> u32 \<Rightarrow> byte list" where
  "header len nr = le_store 3 len @ [ucast nr]"

function ma_net_write :: "byte list \<Rightarrow> NET \<Rightarrow> bool \<times> NET" where
  "ma_net_write packet net =
     (if length packet \<ge> MAX_PACKET_LENGTH then
        let (e, net1) = write_two (header MAX_PACKET_LENGTH (pkt_nr net))
          (take MAX_PACKET_LENGTH packet) (net\<lparr>pkt_nr := pkt_nr net + 1\<rparr>) in
        if e then (True, net1) else ma_net_write (drop MAX_PACKET_LENGTH packet) net1
      else write_two (header (length packet) (pkt_nr net)) packet (net\<lparr>pkt_nr := pkt_nr net + 1\<rparr>))"
  by pat_completeness auto
termination
  by (relation "measure (\<lambda>(packet, _). length packet)") (auto simp: MAX_PACKET_LENGTH_def)

declare ma_net_write.simps [simp del]

text \<open>\<open>ma_net_write_command\<close>: \<open>buff\<close> ends in the command byte, which \<open>buff_size\<close> includes in
  the first header only; \<open>len\<close> is the part of \<open>packet\<close> in the next frame, \<open>length\<close> what is left
  of the payload, the command byte counted.\<close>

function write_command_loop ::
    "byte list \<Rightarrow> byte list \<Rightarrow> nat \<Rightarrow> nat \<Rightarrow> NET \<Rightarrow> bool \<times> byte list \<times> byte list \<times> nat \<times> NET" where
  "write_command_loop cmd packet len plen net =
     (let (e, net1) = write_two (header MAX_PACKET_LENGTH (pkt_nr net) @ cmd) (take len packet)
        (net\<lparr>pkt_nr := pkt_nr net + 1\<rparr>) in
      if e then (True, cmd, packet, plen, net1)
      else
        let packet' = drop len packet; plen' = plen - MAX_PACKET_LENGTH in
        if plen' \<ge> MAX_PACKET_LENGTH
        then write_command_loop [] packet' MAX_PACKET_LENGTH plen' net1
        else (False, [], packet', plen', net1))"
  by pat_completeness auto
termination
  by (relation "measure (\<lambda>(_, _, _, plen, _). plen)") (auto simp: MAX_PACKET_LENGTH_def)

declare write_command_loop.simps [simp del]

definition ma_net_write_command :: "byte \<Rightarrow> byte list \<Rightarrow> bool \<Rightarrow> NET \<Rightarrow> bool \<times> NET" where
  "ma_net_write_command command packet disable_flush net =
     (let plen = 1 + length packet;
          (e, cmd, packet', plen', net1) =
            (if plen \<ge> MAX_PACKET_LENGTH
             then write_command_loop [command] packet (MAX_PACKET_LENGTH - 1) plen net
             else (False, [command], packet, plen, net)) in
      if e then (True, net1)
      else
        let (rc, net2) = write_two (header plen' (pkt_nr net1) @ cmd) packet'
          (net1\<lparr>pkt_nr := pkt_nr net1 + 1\<rparr>) in
        if \<not> rc \<and> \<not> disable_flush then ma_net_flush net2 else (rc, net2))"

subsection \<open>Reading\<close>

text \<open>The inner loop of \<open>ma_real_read\<close>, over any way to read.\<close>

function read_exact :: "(nat \<Rightarrow> 'p \<Rightarrow> byte list \<times> 'p) \<Rightarrow> nat \<Rightarrow> 'p \<Rightarrow> byte list \<Rightarrow> byte list option \<times> 'p" where
  "read_exact rd remain p acc =
     (if remain = 0 then (Some acc, p)
      else
        let (d, p') = rd remain p in
        if d = [] then (None, p') else read_exact rd (remain - length d) p' (acc @ d))"
  by pat_completeness auto
termination
  by (relation "measure (\<lambda>(_, n, _, _). n)") auto

declare read_exact.simps [simp del]

text \<open>\<open>ma_real_read\<close>: a header, then its payload at \<open>where_b\<close>. \<open>None\<close> is \<open>packet_error\<close>.\<close>

definition ma_real_read :: "NET \<Rightarrow> nat option \<times> NET" where
  "ma_real_read net =
     (case read_exact ma_pvio_cache_read NET_HEADER_SIZE (pvio net) [] of
        (None, p) \<Rightarrow> (None, net\<lparr>pvio := p, net_error := 2\<rparr>)
      | (Some h, p) \<Rightarrow>
          let net1 = net\<lparr>pvio := p, pkt_nr := ucast (h ! 3) + 1,
                rbuf := take (where_b net) (rbuf net) @ h\<rparr>;
              len = le_load (take 3 h) in
          if len = 0 then (Some 0, net1)
          else
            let helping = len + where_b net;
                (e, net2) = (if helping \<ge> max_packet net1 then net_realloc helping net1 else (False, net1)) in
            if e then (None, net2)
            else
              case read_exact ma_pvio_cache_read len (pvio net2) [] of
                (None, p2) \<Rightarrow> (None, net2\<lparr>pvio := p2, net_error := 2\<rparr>)
              | (Some d, p2) \<Rightarrow>
                  (Some len, net2\<lparr>pvio := p2, rbuf := take (where_b net) (rbuf net) @ d\<rparr>))"

section \<open>Reading from any byte source\<close>

text \<open>A source of bytes: every read returns a prefix of what is pending, and something as long
  as the source is good and not empty.\<close>

locale byte_source =
  fixes rd :: "nat \<Rightarrow> 'p \<Rightarrow> byte list \<times> 'p"
    and pending :: "'p \<Rightarrow> byte list"
    and good :: "'p \<Rightarrow> bool"
  assumes rd_prefix: "rd n p = (d, p') \<Longrightarrow> 0 < n \<Longrightarrow> d @ pending p' = pending p \<and> length d \<le> n"
    and rd_good: "rd n p = (d, p') \<Longrightarrow> good p \<Longrightarrow> 0 < n \<Longrightarrow> good p'"
    and rd_progress: "rd n p = (d, p') \<Longrightarrow> good p \<Longrightarrow> 0 < n \<Longrightarrow> pending p \<noteq> [] \<Longrightarrow> d \<noteq> []"
begin

lemma read_exact_sound:
  "read_exact rd n p acc = (r, p') \<Longrightarrow>
     \<exists>d. d @ pending p' = pending p \<and> (\<forall>x. r = Some x \<longrightarrow> x = acc @ d \<and> length d = n)"
proof (induction n arbitrary: p acc rule: less_induct)
  case (less n)
  show ?case
  proof (cases "n = 0")
    case True
    with less.prems show ?thesis by (auto simp: read_exact.simps)
  next
    case False
    obtain d p1 where rd: "rd n p = (d, p1)" by fastforce
    with False have d: "d @ pending p1 = pending p" "length d \<le> n" using rd_prefix by auto
    show ?thesis
    proof (cases "d = []")
      case True
      with less.prems False rd d show ?thesis by (auto simp: read_exact.simps)
    next
      case ne: False
      have "read_exact rd (n - length d) p1 (acc @ d) = (r, p')"
        using less.prems False rd ne by (subst (asm) read_exact.simps) simp
      from less.IH [OF _ this] ne False obtain d' where "d' @ pending p' = pending p1"
        "\<forall>x. r = Some x \<longrightarrow> x = (acc @ d) @ d' \<and> length d' = n - length d"
        by auto
      with d show ?thesis by (intro exI [of _ "d @ d'"]) auto
    qed
  qed
qed

lemma read_exact_complete:
  "good p \<Longrightarrow> n \<le> length (pending p) \<Longrightarrow>
     \<exists>p'. read_exact rd n p acc = (Some (acc @ take n (pending p)), p') \<and> good p' \<and>
       pending p' = drop n (pending p)"
proof (induction n arbitrary: p acc rule: less_induct)
  case (less n)
  show ?case
  proof (cases "n = 0")
    case True
    with less.prems show ?thesis by (auto simp: read_exact.simps)
  next
    case False
    obtain d p1 where rd: "rd n p = (d, p1)" by fastforce
    with False have d: "d @ pending p1 = pending p" "length d \<le> n" using rd_prefix by auto
    have "pending p \<noteq> []" using less.prems(2) False by auto
    then have "good p1" "d \<noteq> []" using rd_good [OF rd] rd_progress [OF rd] less.prems False by auto
    moreover have "n - length d \<le> length (pending p1)" using less.prems(2) d
      by (metis diff_le_mono length_append diff_add_inverse)
    ultimately obtain p' where "read_exact rd (n - length d) p1 (acc @ d) =
        (Some ((acc @ d) @ take (n - length d) (pending p1)), p')" "good p'"
        "pending p' = drop (n - length d) (pending p1)"
      using less.IH [of "n - length d" p1 "acc @ d"] False by fastforce
    moreover have "take n (pending p) = d @ take (n - length d) (pending p1)"
      "drop n (pending p) = drop (n - length d) (pending p1)"
      using d by (metis take_append take_all, metis append.left_neutral drop_all drop_append)
    ultimately show ?thesis using rd False \<open>d \<noteq> []\<close>
      by (subst read_exact.simps) simp
  qed
qed

end

definition pvio_pending :: "PVIO \<Rightarrow> byte list" where
  "pvio_pending p = (if has_cache p then cache p else []) @ concat (sock_in p)"

definition pvio_good :: "PVIO \<Rightarrow> bool" where
  "pvio_good p \<longleftrightarrow> [] \<notin> set (sock_in p)"

lemma ma_pvio_read_law:
  assumes "ma_pvio_read n p = (d, p')"
  shows "d @ concat (sock_in p') = concat (sock_in p) \<and> length d \<le> n \<and> has_cache p' = has_cache p \<and>
    cache p' = cache p \<and> (pvio_good p \<longrightarrow> pvio_good p') \<and>
    (0 < n \<longrightarrow> pvio_good p \<longrightarrow> concat (sock_in p) \<noteq> [] \<longrightarrow> d \<noteq> [])"
  using assms
  by (cases "sock_in p") (auto simp: ma_pvio_read_def pvio_good_def split: if_splits)

lemma ma_pvio_cache_read_law:
  assumes "ma_pvio_cache_read n p = (d, p')" and "0 < n"
  shows "d @ pvio_pending p' = pvio_pending p \<and> length d \<le> n \<and> (pvio_good p \<longrightarrow> pvio_good p') \<and>
    (pvio_good p \<longrightarrow> pvio_pending p \<noteq> [] \<longrightarrow> d \<noteq> [])"
proof -
  consider "\<not> has_cache p" | "has_cache p" "cache p \<noteq> []"
    | "has_cache p" "cache p = []" "n \<ge> PVIO_READ_AHEAD_CACHE_MIN_SIZE"
    | "has_cache p" "cache p = []" "\<not> n \<ge> PVIO_READ_AHEAD_CACHE_MIN_SIZE"
    by blast
  then show ?thesis
  proof cases
    case 1
    with assms(1) have "ma_pvio_read n p = (d, p')" by (simp add: ma_pvio_cache_read_def)
    from ma_pvio_read_law [OF this] 1 assms(2) show ?thesis by (simp add: pvio_pending_def)
  next
    case 2
    with assms show ?thesis by (auto simp: ma_pvio_cache_read_def pvio_pending_def pvio_good_def)
  next
    case 3
    with assms(1) have "ma_pvio_read n p = (d, p')" by (simp add: ma_pvio_cache_read_def)
    from ma_pvio_read_law [OF this] 3 assms(2) show ?thesis by (simp add: pvio_pending_def)
  next
    case 4
    obtain r q where q: "ma_pvio_read PVIO_READ_AHEAD_CACHE_SIZE p = (r, q)" by fastforce
    have *: "d = take n r \<and> p' = (if n < length r then q\<lparr>cache := drop n r\<rparr> else q)"
      using assms(1) 4 q by (auto simp: ma_pvio_cache_read_def Let_def split: if_splits)
    have 0: "0 < PVIO_READ_AHEAD_CACHE_SIZE" by (simp add: PVIO_READ_AHEAD_CACHE_SIZE_def)
    note q' = ma_pvio_read_law [OF q]
    have "d @ pvio_pending p' = r @ concat (sock_in q)"
      using * 4 q' by (cases "n < length r") (simp_all add: pvio_pending_def flip: append_assoc)
    moreover have p: "pvio_pending p = concat (sock_in p)" using 4 by (simp add: pvio_pending_def)
    ultimately have "d @ pvio_pending p' = pvio_pending p" using q' by simp
    moreover have "length d \<le> n" using * by simp
    moreover have "pvio_good p'" if "pvio_good p"
    proof -
      have "pvio_good q" using q' that by simp
      then show ?thesis using * by (simp add: pvio_good_def)
    qed
    moreover have "d \<noteq> []" if "pvio_good p" "pvio_pending p \<noteq> []"
    proof -
      have "r \<noteq> []" using q' 0 that p by metis
      then show ?thesis using * assms(2) by simp
    qed
    ultimately show ?thesis by blast
  qed
qed

text \<open>The read-ahead cache is invisible: through it the transport is a byte source.\<close>

interpretation cached: byte_source ma_pvio_cache_read pvio_pending pvio_good
proof
  fix n p d p'
  assume rd: "ma_pvio_cache_read n p = (d, p')" and n: "0 < n"
  note law = ma_pvio_cache_read_law [OF rd n]
  show "d @ pvio_pending p' = pvio_pending p \<and> length d \<le> n" using law by simp
  show "pvio_good p'" if "pvio_good p" using law that by simp
  show "d \<noteq> []" if "pvio_good p" "pvio_pending p \<noteq> []" using law that by simp
qed

section \<open>Reading a packet\<close>

lemma ma_real_read_consumes:
  "ma_real_read net = (Some len, net') \<Longrightarrow>
     length (pvio_pending (pvio net')) + 4 \<le> length (pvio_pending (pvio net))"
proof -
  assume r: "ma_real_read net = (Some len, net')"
  obtain o1 p1 where h: "read_exact ma_pvio_cache_read NET_HEADER_SIZE (pvio net) [] = (o1, p1)"
    by fastforce
  with r obtain hd where o1: "o1 = Some hd"
    by (cases o1) (auto simp: ma_real_read_def)
  from cached.read_exact_sound [OF h] o1
  have 1: "length (pvio_pending p1) + 4 = length (pvio_pending (pvio net))"
    by (auto simp: NET_HEADER_SIZE_def) (metis add.commute length_append)
  obtain o2 p2 where d: "read_exact ma_pvio_cache_read (le_load (take 3 hd)) p1 [] = (o2, p2)"
    by fastforce
  from cached.read_exact_sound [OF d]
  have 2: "length (pvio_pending p2) \<le> length (pvio_pending p1)"
    by (metis le_add2 length_append)
  have "pvio net' = p1 \<or> pvio net' = p2"
    using r h o1 d
    by (cases o2) (auto simp: ma_real_read_def net_realloc_def Let_def split: if_splits)
  with 1 2 show ?thesis by auto
qed

function ma_net_read_loop :: "NET \<Rightarrow> nat \<Rightarrow> nat option \<times> NET" where
  "ma_net_read_loop net got =
     (case ma_real_read net of
        (None, net1) \<Rightarrow> (None, net1)
      | (Some len, net1) \<Rightarrow>
          if len = MAX_PACKET_LENGTH
          then ma_net_read_loop (net1\<lparr>where_b := where_b net1 + len\<rparr>) (got + len)
          else (Some (got + len), net1))"
  by pat_completeness auto
termination
  by (relation "measure (\<lambda>(net, _). length (pvio_pending (pvio net)))")
    (auto dest: ma_real_read_consumes [OF sym])

declare ma_net_read_loop.simps [simp del]

text \<open>\<open>ma_net_read\<close>: a packet of the maximal length is continued by the next one.\<close>

definition ma_net_read :: "NET \<Rightarrow> byte list option \<times> NET" where
  "ma_net_read net =
     (let last_pos = where_b net;
          (r, net1) = ma_net_read_loop net 0;
          net2 = net1\<lparr>where_b := last_pos\<rparr> in
      (map_option (\<lambda>len. take len (drop last_pos (rbuf net2))) r, net2))"

section \<open>The format\<close>

text \<open>The specification: what a payload looks like on the wire, from sequence number \<open>nr\<close> on.\<close>

function frames :: "u32 \<Rightarrow> byte list \<Rightarrow> byte list" where
  "frames nr payload =
     (if length payload \<ge> MAX_PACKET_LENGTH
      then header MAX_PACKET_LENGTH nr @ take MAX_PACKET_LENGTH payload @
        frames (nr + 1) (drop MAX_PACKET_LENGTH payload)
      else header (length payload) nr @ payload)"
  by pat_completeness auto
termination
  by (relation "measure (\<lambda>(_, payload). length payload)") (auto simp: MAX_PACKET_LENGTH_def)

declare frames.simps [simp del]

lemma length_header [simp]: "length (header len nr) = 4"
  by (simp add: header_def)

lemma header_len: "len \<le> MAX_PACKET_LENGTH \<Longrightarrow> le_load (take 3 (header len nr)) = len"
proof -
  assume "len \<le> MAX_PACKET_LENGTH"
  then have "len < 256 ^ 3" by (simp add: MAX_PACKET_LENGTH_def)
  then show ?thesis by (simp add: header_def wire_simps)
qed

lemma ma_real_read_frame:
  assumes "pvio_good (pvio net)" and "pvio_pending (pvio net) = header (length d) nr @ d @ rest"
    and "length d \<le> MAX_PACKET_LENGTH" and "length d + where_b net < max_packet_size net"
    and "where_b net \<le> length (rbuf net)"
  shows "\<exists>net'. ma_real_read net = (Some (length d), net') \<and> pvio_good (pvio net') \<and>
    pvio_pending (pvio net') = rest \<and> where_b net' = where_b net \<and>
    max_packet_size net' = max_packet_size net \<and>
    where_b net + length d \<le> length (rbuf net') \<and>
    take (where_b net + length d) (rbuf net') = take (where_b net) (rbuf net) @ d"
proof -
  let ?h = "header (length d) nr"
  have "4 \<le> length (pvio_pending (pvio net))" using assms(2) by simp
  from cached.read_exact_complete [OF assms(1) this, of "[]"] obtain p1
    where p1: "read_exact ma_pvio_cache_read NET_HEADER_SIZE (pvio net) [] = (Some ?h, p1)"
      "pvio_good p1" "pvio_pending p1 = d @ rest"
    using assms(2) by (auto simp: NET_HEADER_SIZE_def)
  have "length d \<le> length (pvio_pending p1)" using p1(3) by simp
  from cached.read_exact_complete [OF p1(2) this, of "[]"] obtain p2
    where p2: "read_exact ma_pvio_cache_read (length d) p1 [] = (Some d, p2)"
      "pvio_good p2" "pvio_pending p2 = rest"
    using p1(3) by auto
  show ?thesis
    using p1 p2 assms(4,5) header_len [OF assms(3), of nr]
    by (cases "d = []")
      (auto simp: ma_real_read_def net_realloc_def Let_def not_le min_def)
qed

lemma ma_net_read_loop_frames:
  assumes "pvio_good (pvio net)" and "pvio_pending (pvio net) = frames nr payload @ rest"
    and "length payload + where_b net < max_packet_size net" and "where_b net \<le> length (rbuf net)"
  shows "\<exists>net'. ma_net_read_loop net got = (Some (got + length payload), net') \<and>
    pvio_good (pvio net') \<and> pvio_pending (pvio net') = rest \<and>
    take (where_b net + length payload) (rbuf net') = take (where_b net) (rbuf net) @ payload"
  using assms
proof (induction nr payload arbitrary: net got rule: frames.induct)
  case (1 nr payload)
  show ?case
  proof (cases "length payload \<ge> MAX_PACKET_LENGTH")
    case False
    then have "pvio_pending (pvio net) = header (length payload) nr @ payload @ rest"
      using "1.prems"(2) by (simp add: frames.simps)
    from ma_real_read_frame [OF "1.prems"(1) this _ "1.prems"(3,4)] False
    show ?thesis by (auto simp: ma_net_read_loop.simps)
  next
    case True
    define d where "d = take MAX_PACKET_LENGTH payload"
    define e where "e = drop MAX_PACKET_LENGTH payload"
    have d: "length d = MAX_PACKET_LENGTH" "payload = d @ e" using True by (auto simp: d_def e_def)
    have "pvio_pending (pvio net) = header (length d) nr @ d @ (frames (nr + 1) e @ rest)"
      using "1.prems"(2) True d(1) by (simp add: frames.simps [of nr] d_def e_def)
    from ma_real_read_frame [OF "1.prems"(1) this] d "1.prems"(3,4) obtain net1
      where net1: "ma_real_read net = (Some (length d), net1)" "pvio_good (pvio net1)"
        "pvio_pending (pvio net1) = frames (nr + 1) e @ rest" "where_b net1 = where_b net"
        "max_packet_size net1 = max_packet_size net" "where_b net + length d \<le> length (rbuf net1)"
        "take (where_b net + length d) (rbuf net1) = take (where_b net) (rbuf net) @ d"
      by auto
    let ?net2 = "net1\<lparr>where_b := where_b net1 + length d\<rparr>"
    have "\<exists>net'. ma_net_read_loop ?net2 (got + length d) = (Some (got + length d + length e), net') \<and>
        pvio_good (pvio net') \<and> pvio_pending (pvio net') = rest \<and>
        take (where_b ?net2 + length e) (rbuf net') = take (where_b ?net2) (rbuf ?net2) @ e"
      unfolding e_def
    proof (rule "1.IH" [OF True])
      show "pvio_good (pvio ?net2)" using net1(2) by simp
      show "pvio_pending (pvio ?net2) = frames (nr + 1) (drop MAX_PACKET_LENGTH payload) @ rest"
        using net1(3) by (simp add: e_def)
      have "length payload = length d + length e" using d(2) by simp
      then show "length (drop MAX_PACKET_LENGTH payload) + where_b ?net2 < max_packet_size ?net2"
        using "1.prems"(3) net1(4,5) unfolding e_def [symmetric] by simp
      show "where_b ?net2 \<le> length (rbuf ?net2)" using net1(4,6) by simp
    qed
    then obtain net' where n': "ma_net_read_loop ?net2 (got + length d) = (Some (got + length d + length e), net')"
        "pvio_good (pvio net')" "pvio_pending (pvio net') = rest"
        "take (where_b ?net2 + length e) (rbuf net') = take (where_b ?net2) (rbuf ?net2) @ e"
      by blast
    have "ma_net_read_loop net got = ma_net_read_loop ?net2 (got + length d)"
      using net1(1) d(1) by (subst ma_net_read_loop.simps) simp
    moreover have "take (where_b net + length payload) (rbuf net') = take (where_b net) (rbuf net) @ payload"
      using n'(4) net1(4,7) d(2) by (simp add: add.assoc)
    moreover have "got + length d + length e = got + length payload" using d(2) by simp
    ultimately show ?thesis using n' by auto
  qed
qed

lemma ma_net_read_frames:
  assumes "pvio_good (pvio net)" and "pvio_pending (pvio net) = frames nr payload @ rest"
    and "length payload + where_b net < max_packet_size net" and "where_b net \<le> length (rbuf net)"
  shows "\<exists>net'. ma_net_read net = (Some payload, net') \<and> pvio_good (pvio net') \<and>
    pvio_pending (pvio net') = rest \<and> where_b net' = where_b net"
proof -
  from ma_net_read_loop_frames [OF assms, of 0] obtain net'
    where "ma_net_read_loop net 0 = (Some (length payload), net')" "pvio_good (pvio net')"
      "pvio_pending (pvio net') = rest"
      and t: "take (where_b net + length payload) (rbuf net') = take (where_b net) (rbuf net) @ payload"
    by auto
  moreover have "take (length payload) (drop (where_b net) (rbuf net')) = payload"
  proof -
    have "take (length payload) (drop (where_b net) (rbuf net')) =
        drop (where_b net) (take (where_b net + length payload) (rbuf net'))"
      by (simp add: drop_take)
    then show ?thesis using t assms(4) by simp
  qed
  ultimately show ?thesis by (simp add: ma_net_read_def)
qed

section \<open>Writing a packet\<close>

text \<open>What has been written: the bytes the transport took, then the buffered ones.\<close>

definition written :: "NET \<Rightarrow> byte list" where
  "written net = sock_out (pvio net) @ wbuf net"

lemma real_write_loop_sound:
  "real_write_loop d p = (err, p') \<Longrightarrow>
     \<exists>a b. d = a @ b \<and> sock_out p' = sock_out p @ a \<and> (\<not> err \<longrightarrow> b = []) \<and>
       sock_in p' = sock_in p \<and> has_cache p' = has_cache p \<and> cache p' = cache p"
proof (induction d p rule: real_write_loop.induct)
  case (1 d p)
  show ?case
  proof (cases "d = []")
    case True
    with 1(2) show ?thesis by (auto simp: real_write_loop.simps)
  next
    case False
    obtain n p1 where w: "ma_pvio_write d p = (n, p1)" by fastforce
    show ?thesis
    proof (cases "n \<le> 0")
      case True
      with 1(2) False w have "p' = p1" "err" by (auto simp: real_write_loop.simps)
      moreover have "sock_out p1 = sock_out p \<and> sock_in p1 = sock_in p \<and> has_cache p1 = has_cache p \<and> cache p1 = cache p"
        using w True False by (auto simp: ma_pvio_write_def Let_def split: list.splits if_splits)
      ultimately show ?thesis by (intro exI [of _ "[]"] exI [of _ d]) simp
    next
      case pos: False
      then have p1: "sock_out p1 = sock_out p @ take (nat n) d \<and> sock_in p1 = sock_in p \<and>
          has_cache p1 = has_cache p \<and> cache p1 = cache p"
        using w by (auto simp: ma_pvio_write_def Let_def split: list.splits if_splits)
      have "real_write_loop (drop (nat n) d) p1 = (err, p')"
        using 1(2) False w pos by (subst (asm) real_write_loop.simps) simp
      from 1(1) [OF False w [symmetric] refl pos this] obtain a b where "drop (nat n) d = a @ b"
        "sock_out p' = sock_out p1 @ a" "\<not> err \<longrightarrow> b = []"
        "sock_in p' = sock_in p1" "has_cache p' = has_cache p1" "cache p' = cache p1"
        by blast
      moreover have "d = (take (nat n) d @ a) @ b"
        using append_take_drop_id [of "nat n" d] \<open>drop (nat n) d = a @ b\<close> by simp
      ultimately show ?thesis using p1
        by (intro exI [of _ "take (nat n) d @ a"] exI [of _ b]) simp
    qed
  qed
qed

lemma ma_net_real_write_sent:
  "ma_net_real_write d net = (False, net') \<Longrightarrow>
     sock_out (pvio net') = sock_out (pvio net) @ d \<and> wbuf net' = wbuf net \<and>
     pkt_nr net' = pkt_nr net \<and> max_packet net' = max_packet net"
  by (auto simp: ma_net_real_write_def split: if_splits prod.splits dest!: real_write_loop_sound)

lemma ma_net_write_buff_written:
  assumes "ma_net_write_buff d net = (False, net')"
  shows "written net' = written net @ d \<and> pkt_nr net' = pkt_nr net \<and> max_packet net' = max_packet net"
proof -
  let ?left = "max_packet net - length (wbuf net)"
  consider "length d \<le> ?left" | "?left < length d" "wbuf net = []"
    | "?left < length d" "wbuf net \<noteq> []" by linarith
  then show ?thesis
  proof cases
    case 1
    with assms show ?thesis by (auto simp: ma_net_write_buff_def written_def)
  next
    case 2
    then have "if length d > max_packet net then ma_net_real_write d net = (False, net')
        else net' = net\<lparr>wbuf := d\<rparr>"
      using assms by (auto simp: ma_net_write_buff_def)
    with 2 show ?thesis
      by (auto simp: written_def dest!: ma_net_real_write_sent split: if_splits)
  next
    case 3
    obtain e n1 where r: "ma_net_real_write (wbuf net @ take ?left d) net = (e, n1)" by fastforce
    with 3 assms have "\<not> e" by (auto simp: ma_net_write_buff_def)
    with r have n1: "sock_out (pvio n1) = sock_out (pvio net) @ wbuf net @ take ?left d"
      "pkt_nr n1 = pkt_nr net" "max_packet n1 = max_packet net"
      by (auto dest: ma_net_real_write_sent)
    let ?rest = "drop ?left d" and ?n2 = "n1\<lparr>wbuf := []\<rparr>"
    have "if length ?rest > max_packet net then ma_net_real_write ?rest ?n2 = (False, net')
        else net' = n1\<lparr>wbuf := ?rest\<rparr>"
      using 3 assms r \<open>\<not> e\<close> n1 by (auto simp: ma_net_write_buff_def)
    then have "written net' = sock_out (pvio n1) @ ?rest \<and> pkt_nr net' = pkt_nr n1 \<and>
        max_packet net' = max_packet n1"
      by (auto simp: written_def dest!: ma_net_real_write_sent split: if_splits)
    with n1 show ?thesis by (simp add: written_def)
  qed
qed

text \<open>The buffer is never filled beyond \<open>max_packet\<close> bytes, whatever the transport does.\<close>

lemma ma_net_write_buff_room:
  assumes "ma_net_write_buff d net = (err, net')" and "length (wbuf net) \<le> max_packet net"
  shows "length (wbuf net') \<le> max_packet net' \<and> max_packet net' = max_packet net"
proof -
  have rw: "wbuf n' = wbuf n \<and> max_packet n' = max_packet n"
    if "ma_net_real_write x n = (e, n')" for x n e n'
    using that by (auto simp: ma_net_real_write_def split: if_splits prod.splits)
  let ?left = "max_packet net - length (wbuf net)"
  obtain e n1 where r: "ma_net_real_write (wbuf net @ take ?left d) net = (e, n1)" by fastforce
  note n1 = rw [OF r]
  obtain e2 n2 where r2: "ma_net_real_write (drop ?left d) (n1\<lparr>wbuf := []\<rparr>) = (e2, n2)" by fastforce
  note n2 = rw [OF r2]
  obtain e3 n3 where r3: "ma_net_real_write d net = (e3, n3)" by fastforce
  note n3 = rw [OF r3]
  show ?thesis
  proof (cases "length d \<le> ?left")
    case True
    with assms show ?thesis by (auto simp: ma_net_write_buff_def)
  next
    case False
    then show ?thesis
      using assms r r2 r3 n1 n2 n3
      by (auto simp: ma_net_write_buff_def Let_def split: if_splits)
  qed
qed

lemma write_two_written:
  assumes "write_two a b net = (False, net')"
  shows "written net' = written net @ a @ b \<and> pkt_nr net' = pkt_nr net"
proof -
  obtain e n1 where 1: "ma_net_write_buff a net = (e, n1)" by fastforce
  with assms have "\<not> e" "ma_net_write_buff b n1 = (False, net')"
    by (auto simp: write_two_def split: if_splits)
  then show ?thesis using 1 ma_net_write_buff_written [of a net n1] ma_net_write_buff_written [of b n1 net']
    by auto
qed

lemma written_pkt_nr [simp]: "written (net\<lparr>pkt_nr := k\<rparr>) = written net"
  by (simp add: written_def)

lemma write_command_loop_written:
  assumes "write_command_loop cmd packet len plen net = (False, cmd', packet', plen', net')"
    and "len = MAX_PACKET_LENGTH - length cmd" and "length cmd \<le> 1"
    and "plen = length cmd + length packet" and "plen \<ge> MAX_PACKET_LENGTH"
  shows "cmd' = [] \<and> plen' = length packet' \<and> length packet' < MAX_PACKET_LENGTH \<and>
    written net' @ frames (pkt_nr net') packet' = written net @ frames (pkt_nr net) (cmd @ packet)"
  using assms
proof (induction cmd packet len plen net rule: write_command_loop.induct)
  case (1 cmd packet len plen net)
  let ?n0 = "net\<lparr>pkt_nr := pkt_nr net + 1\<rparr>"
  obtain e n1 where w: "write_two (header MAX_PACKET_LENGTH (pkt_nr net) @ cmd) (take len packet) ?n0 = (e, n1)"
    by fastforce
  with "1.prems"(1) have ne: "\<not> e" by (subst (asm) write_command_loop.simps) auto
  with w have n1: "written n1 = written net @ (header MAX_PACKET_LENGTH (pkt_nr net) @ cmd) @ take len packet"
    "pkt_nr n1 = pkt_nr net + 1"
    using write_two_written [of _ _ ?n0 n1] by auto
  have M: "MAX_PACKET_LENGTH > 1" by (simp add: MAX_PACKET_LENGTH_def)
  have len: "len \<le> length packet" using "1.prems"(2,4,5) M by simp
  have split: "take MAX_PACKET_LENGTH (cmd @ packet) = cmd @ take len packet"
    "drop MAX_PACKET_LENGTH (cmd @ packet) = drop len packet"
    using "1.prems"(2,3) M by simp_all
  have frames: "frames (pkt_nr net) (cmd @ packet) =
      header MAX_PACKET_LENGTH (pkt_nr net) @ (cmd @ take len packet) @ frames (pkt_nr net + 1) (drop len packet)"
    using "1.prems"(4,5) split by (subst frames.simps) simp
  have plen: "plen - MAX_PACKET_LENGTH = length (drop len packet)"
    using "1.prems"(2,3,4) M by simp
  show ?case
  proof (cases "plen - MAX_PACKET_LENGTH \<ge> MAX_PACKET_LENGTH")
    case True
    then have rec: "write_command_loop [] (drop len packet) MAX_PACKET_LENGTH (plen - MAX_PACKET_LENGTH) n1 =
        (False, cmd', packet', plen', net')"
      using "1.prems"(1) w ne by (subst (asm) write_command_loop.simps) simp
    have "cmd' = [] \<and> plen' = length packet' \<and> length packet' < MAX_PACKET_LENGTH \<and>
      written net' @ frames (pkt_nr net') packet' = written n1 @ frames (pkt_nr n1) ([] @ drop len packet)"
      by (rule "1.IH" [OF refl w [symmetric] ne refl refl True rec]) (use plen True in simp_all)
    with frames n1 show ?thesis by simp
  next
    case False
    then have "cmd' = []" "packet' = drop len packet" "plen' = plen - MAX_PACKET_LENGTH" "net' = n1"
      using "1.prems"(1) w ne by (auto simp: write_command_loop.simps)
    with False plen frames n1 show ?thesis by simp
  qed
qed

lemma ma_net_flush_written:
  "ma_net_flush net = (False, net') \<Longrightarrow> written net' = written net \<and> wbuf net' = []"
  by (auto simp: ma_net_flush_def written_def split: if_splits prod.splits dest!: ma_net_real_write_sent)

lemma ma_net_write_command_written:
  assumes "ma_net_write_command command packet no_flush net = (False, net')"
  shows "written net' = written net @ frames (pkt_nr net) (command # packet) \<and>
    (\<not> no_flush \<longrightarrow> wbuf net' = [])"
proof -
  have M: "MAX_PACKET_LENGTH > 1" by (simp add: MAX_PACKET_LENGTH_def)
  obtain e cmd' packet' plen' net1 where l:
    "(if 1 + length packet \<ge> MAX_PACKET_LENGTH
      then write_command_loop [command] packet (MAX_PACKET_LENGTH - 1) (1 + length packet) net
      else (False, [command], packet, 1 + length packet, net)) = (e, cmd', packet', plen', net1)"
    by (metis prod_cases5)
  let ?n0 = "net1\<lparr>pkt_nr := pkt_nr net1 + 1\<rparr>"
  obtain rc net2 where w: "write_two (header plen' (pkt_nr net1) @ cmd') packet' ?n0 = (rc, net2)" by fastforce
  have "(if e then (True, net1)
      else case write_two (header plen' (pkt_nr net1) @ cmd') packet' ?n0 of
        (rc, net2) \<Rightarrow> if \<not> rc \<and> \<not> no_flush then ma_net_flush net2 else (rc, net2)) = (False, net')"
    using assms unfolding ma_net_write_command_def Let_def l by simp
  then have "\<not> e" and "(if \<not> rc \<and> \<not> no_flush then ma_net_flush net2 else (rc, net2)) = (False, net')"
    unfolding w by (cases e; simp)+
  then have "\<not> rc" and fl: "if no_flush then net' = net2 else ma_net_flush net2 = (False, net')"
    by (cases rc; cases no_flush; simp)+
  with w have n2: "written net2 = written net1 @ header plen' (pkt_nr net1) @ cmd' @ packet'"
    using write_two_written [of _ _ ?n0 net2] by auto
  have "written net1 @ header plen' (pkt_nr net1) @ cmd' @ packet' =
      written net @ frames (pkt_nr net) (command # packet)"
  proof (cases "1 + length packet \<ge> MAX_PACKET_LENGTH")
    case True
    with l \<open>\<not> e\<close> have "write_command_loop [command] packet (MAX_PACKET_LENGTH - 1) (1 + length packet) net =
        (False, cmd', packet', plen', net1)" by simp
    from write_command_loop_written [OF this] True
    have "cmd' = []" "plen' = length packet'" "length packet' < MAX_PACKET_LENGTH"
      "written net1 @ frames (pkt_nr net1) packet' = written net @ frames (pkt_nr net) (command # packet)"
      by auto
    then show ?thesis by (simp add: frames.simps [of "pkt_nr net1"])
  next
    case False
    with l have "cmd' = [command]" "packet' = packet" "plen' = 1 + length packet" "net1 = net" by auto
    with False show ?thesis by (simp add: frames.simps)
  qed
  with n2 fl show ?thesis
    by (auto split: if_splits dest: ma_net_flush_written)
qed

section \<open>Properties\<close>

text \<open>
  C1. A command written with \<open>ma_net_write_command\<close> arrives: whatever the sizes of the writes
  the transport takes, and however the bytes are cut into chunks on the way and held back by the
  read-ahead cache, \<open>ma_net_read\<close> on the other side returns the command byte followed by its
  argument, packets longer than the maximal frame included, and leaves what follows unread.
\<close>

theorem packet_roundtrip:
  assumes "ma_net_write_command command packet False net = (False, net')" and "wbuf net = []"
    and "pvio_good (pvio peer)"
    and "pvio_pending (pvio peer) = drop (length (sock_out (pvio net))) (sock_out (pvio net')) @ rest"
    and "Suc (length packet) + where_b peer < max_packet_size peer"
    and "where_b peer \<le> length (rbuf peer)"
  shows "\<exists>peer'. ma_net_read peer = (Some (command # packet), peer') \<and>
    pvio_good (pvio peer') \<and> pvio_pending (pvio peer') = rest"
proof -
  from ma_net_write_command_written [OF assms(1)] assms(2)
  have "sock_out (pvio net') = sock_out (pvio net) @ frames (pkt_nr net) (command # packet)"
    by (auto simp: written_def)
  then have "pvio_pending (pvio peer) = frames (pkt_nr net) (command # packet) @ rest"
    using assms(4) by simp
  from ma_net_read_frames [OF assms(3) this] assms(5,6) show ?thesis by auto
qed

definition example_net :: NET where
  "example_net = ma_net_init 8192 1073741824
     \<lparr>has_cache = False, cache = [], sock_in = [], sock_out = [], write_ev = [4, 100]\<rparr>"

definition example_peer :: NET where
  "example_peer = ma_net_init 8192 1073741824
     \<lparr>has_cache = True, cache = [], sock_in = [[2, 0, 0], [0, 3], [0x41, 7]], sock_out = [],
      write_ev = []\<rparr>"

lemma packet_roundtrip_witness:
  "\<exists>peer'. ma_net_read example_peer = (Some [3, 0x41], peer') \<and>
    pvio_good (pvio peer') \<and> pvio_pending (pvio peer') = [7]"
proof (rule packet_roundtrip [of 3 "[0x41]" example_net])
  show "ma_net_write_command 3 [0x41] False example_net =
      (False, example_net\<lparr>pkt_nr := 1, wbuf := [], pvio := (pvio example_net)
        \<lparr>sock_out := [2, 0, 0, 0, 3, 0x41], write_ev := []\<rparr>\<rparr>)"
    by (simp add: ma_net_write_command_def example_net_def ma_net_init_def write_two_def
        ma_net_write_buff_def ma_net_flush_def ma_net_real_write_def MAX_PACKET_LENGTH_def
        header_def real_write_loop.simps ma_pvio_write_def numeral_3_eq_3)
qed (simp_all add: example_net_def example_peer_def ma_net_init_def pvio_good_def pvio_pending_def)

text \<open>
  C38. The write buffer is never filled beyond its \<open>max_packet\<close> bytes, for data of any length and
  any behaviour of the transport, failures included.
\<close>

theorem write_buffer_never_overflows:
  assumes "ma_net_write_buff d net = (err, net')" and "length (wbuf net) \<le> max_packet net"
  shows "length (wbuf net') \<le> max_packet net'"
  using ma_net_write_buff_room [OF assms] by simp

lemma write_buffer_never_overflows_witness:
  "length (wbuf (snd (ma_net_write_buff [1, 2, 3] (example_net\<lparr>max_packet := 2, wbuf := [9]\<rparr>)))) \<le> 2"
proof -
  let ?n = "example_net\<lparr>max_packet := 2, wbuf := [9]\<rparr>"
  have m: "max_packet (snd (ma_net_write_buff [1, 2, 3] ?n)) = 2"
    using ma_net_write_buff_room [of "[1, 2, 3]" ?n] by (cases "ma_net_write_buff [1, 2, 3] ?n") simp
  show ?thesis
    using write_buffer_never_overflows [of "[1, 2, 3]" ?n] m
    by (cases "ma_net_write_buff [1, 2, 3] ?n") simp
qed

end
