(* ===== verification/Ma_Hash.thy ===== *)
theory Ma_Hash
  imports Prelude
begin

text \<open>
  \<open>libmariadb/ma_hash.c\<close>: the client library's hash table, which keeps connection attributes and
  user data. Linear hashing in one array: a record's home is its hash number masked with the
  next power of two, or with half of it while that slot does not exist yet; colliding records
  hang on links between array elements. A record is an abstract value with a key; pointer
  equality is equality of records, links are indices (\<open>NO_RECORD\<close> is \<open>None\<close>).
  Loops over links take fuel; running out of it (\<open>None\<close>) is a loop that does not end. The numbers of
  the table are \<open>uint\<close>s: \<open>records\<close> and \<open>blength\<close> are kept as naturals, with \<open>wrap32\<close> where the code
  adds to them, the sizes of the array as words; writing past the bytes of the array is \<open>None\<close> too.
  Allocations succeed.
\<close>

section \<open>Hash numbers\<close>

text \<open>\<open>calc_hashnr\<close> and \<open>calc_hashnr_caseup\<close>; \<open>up\<close> is the identity or \<open>toupper\<close>.\<close>

fun calc_loop :: "(byte \<Rightarrow> byte) \<Rightarrow> byte list \<Rightarrow> u32 \<Rightarrow> u32 \<Rightarrow> u32" where
  "calc_loop up [] nr nr2 = nr"
| "calc_loop up (k # ks) nr nr2 =
     calc_loop up ks (nr XOR ((((nr AND 63) + nr2) * ucast (up k)) + push_bit 8 nr)) (nr2 + 3)"

definition calc_hashnr :: "byte list \<Rightarrow> u32" where
  "calc_hashnr key = calc_loop id key 1 4"

definition toupper_byte :: "byte \<Rightarrow> byte" where
  "toupper_byte b = (if 0x61 \<le> b \<and> b \<le> 0x7A then b - 0x20 else b)"

definition calc_hashnr_caseup :: "byte list \<Rightarrow> u32" where
  "calc_hashnr_caseup key = calc_loop toupper_byte key 1 4"

text \<open>Masking with \<open>buffmax - 1\<close>, a power of two less one, is \<open>mod\<close>; for 0 the mask has all bits, and so
  has \<open>mod 0\<close>.\<close>

definition hash_mask :: "u32 \<Rightarrow> nat \<Rightarrow> nat \<Rightarrow> nat" where
  "hash_mask hashnr buffmax maxlength =
     (if unat hashnr mod buffmax < maxlength then unat hashnr mod buffmax
      else unat hashnr mod (buffmax div 2))"

text \<open>To evaluate, the arithmetic on hash numbers is done on integers.\<close>

lemma hash_mask_code [code]:
  "hash_mask hashnr buffmax maxlength =
     (let m = nat (uint hashnr mod int buffmax) in
      if m < maxlength then m else nat (uint hashnr mod int (buffmax div 2)))"
proof -
  have "nat (uint x mod int k) = unat x mod k" for x :: u32 and k
    by (simp add: nat_mod_distrib flip: nat_uint_eq)
  then show ?thesis by (simp only: hash_mask_def Let_def)
qed

section \<open>The table\<close>

record 'r HASH_LINK =
  next_link :: "nat option"
  link_data :: 'r

text \<open>\<open>get_key\<close> is the program's callback, \<open>hash_freed\<close> the records passed to \<open>free\<close>. Of the dynamic array
  there are its elements (\<open>links\<close>), how many it has room for and by how many it grows, and
  \<open>array_bytes\<close>, the size of the block that was allocated for it.\<close>

definition sizeof_HASH_LINK :: u32 where "sizeof_HASH_LINK = 16"

record 'r HASH =
  key_length :: nat
  records :: nat
  blength :: nat
  current_record :: "nat option"
  links :: "'r HASH_LINK list"
  array_max :: u32
  array_inc :: u32
  array_bytes :: u32
  get_key :: "'r \<Rightarrow> byte list"
  calc :: "byte list \<Rightarrow> u32"
  hash_freed :: "'r list"

definition HASH_CASE_INSENSITIVE :: nat where "HASH_CASE_INSENSITIVE = 1"

text \<open>\<open>ma_init_dynamic_array\<close> for elements of that size, called without an increment.\<close>

definition array_increment :: "u32 \<Rightarrow> u32" where
  "array_increment init_alloc =
     (let inc = max ((8192 - 8) div sizeof_HASH_LINK) 16 in
      if 8 < init_alloc \<and> init_alloc * 2 < inc then init_alloc * 2 else inc)"

definition array_start :: "u32 \<Rightarrow> u32" where
  "array_start init_alloc = (if init_alloc = 0 then array_increment init_alloc else init_alloc)"

definition hash_init :: "u32 \<Rightarrow> nat \<Rightarrow> ('r \<Rightarrow> byte list) \<Rightarrow> nat \<Rightarrow> 'r HASH" where
  "hash_init init_alloc klen getk flags =
     \<lparr>key_length = klen, records = 0, blength = 1, current_record = None, links = [],
      array_max = array_start init_alloc, array_inc = array_increment init_alloc,
      array_bytes = sizeof_HASH_LINK * array_start init_alloc,
      get_key = getk, calc = (if bit flags 0 then calc_hashnr_caseup else calc_hashnr),
      hash_freed = []\<rparr>"

definition hash_free :: "'r HASH \<Rightarrow> 'r HASH" where
  "hash_free h = h\<lparr>hash_freed := hash_freed h @ map link_data (take (records h) (links h)),
     links := [], array_max := 0, array_bytes := 0, records := 0\<rparr>"

definition rec_hashnr :: "'r HASH \<Rightarrow> 'r \<Rightarrow> u32" where
  "rec_hashnr h r = calc h (get_key h r)"

definition hash_rec_mask :: "'r HASH \<Rightarrow> 'r \<Rightarrow> nat \<Rightarrow> nat \<Rightarrow> nat" where
  "hash_rec_mask h r buffmax maxlength = hash_mask (rec_hashnr h r) buffmax maxlength"

text \<open>\<open>hashcmp\<close>: 0 (here \<open>False\<close>) when the keys are the same; \<open>len\<close> 0 stands for any length.\<close>

definition hashcmp :: "'r HASH \<Rightarrow> 'r \<Rightarrow> byte list \<Rightarrow> nat \<Rightarrow> bool" where
  "hashcmp h r key len \<longleftrightarrow>
     (let rec_key = get_key h r in
      (len \<noteq> 0 \<and> len \<noteq> length rec_key) \<or> take (length rec_key) key \<noteq> rec_key)"

subsection \<open>Search\<close>

fun search_loop :: "'r HASH \<Rightarrow> byte list \<Rightarrow> nat \<Rightarrow> bool \<Rightarrow> nat \<Rightarrow> nat \<Rightarrow> (nat \<times> 'r) option option" where
  "search_loop h key len flag idx 0 = None"
| "search_loop h key len flag idx (Suc fuel) =
     (let pos = links h ! idx in
      if \<not> hashcmp h (link_data pos) key len then Some (Some (idx, link_data pos))
      else if flag \<and> hash_rec_mask h (link_data pos) (blength h) (records h) \<noteq> idx then Some None
      else
        case next_link pos of
          None \<Rightarrow> Some None
        | Some n \<Rightarrow> search_loop h key len False n fuel)"

definition hash_search :: "'r HASH \<Rightarrow> byte list \<Rightarrow> nat \<Rightarrow> ('r option \<times> 'r HASH) option" where
  "hash_search h key len =
     (if records h = 0 then Some (None, h\<lparr>current_record := None\<rparr>)
      else
        case search_loop h key len True
            (hash_mask (calc h (take (if len \<noteq> 0 then len else key_length h) key)) (blength h) (records h))
            (records h) of
          None \<Rightarrow> None
        | Some None \<Rightarrow> Some (None, h\<lparr>current_record := None\<rparr>)
        | Some (Some (idx, r)) \<Rightarrow> Some (Some r, h\<lparr>current_record := Some idx\<rparr>))"

fun next_loop :: "'r HASH \<Rightarrow> byte list \<Rightarrow> nat \<Rightarrow> nat option \<Rightarrow> nat \<Rightarrow> (nat \<times> 'r) option option" where
  "next_loop h key len None fuel = Some None"
| "next_loop h key len (Some idx) 0 = None"
| "next_loop h key len (Some idx) (Suc fuel) =
     (let pos = links h ! idx in
      if \<not> hashcmp h (link_data pos) key len then Some (Some (idx, link_data pos))
      else next_loop h key len (next_link pos) fuel)"

definition hash_next :: "'r HASH \<Rightarrow> byte list \<Rightarrow> nat \<Rightarrow> ('r option \<times> 'r HASH) option" where
  "hash_next h key len =
     (case current_record h of
        None \<Rightarrow> Some (None, h)
      | Some cur \<Rightarrow>
          (case next_loop h key len (next_link (links h ! cur)) (records h) of
             None \<Rightarrow> None
           | Some None \<Rightarrow> Some (None, h\<lparr>current_record := None\<rparr>)
           | Some (Some (idx, r)) \<Rightarrow> Some (Some r, h\<lparr>current_record := Some idx\<rparr>)))"

subsection \<open>Changing links\<close>

text \<open>\<open>movelink\<close>: from \<open>next_link\<close> on, find the element that links to \<open>find\<close> and relink it.\<close>

fun movelink :: "'r HASH_LINK list \<Rightarrow> nat option \<Rightarrow> nat \<Rightarrow> nat option \<Rightarrow> nat \<Rightarrow> 'r HASH_LINK list option" where
  "movelink a fnd nxt newlink 0 = None"
| "movelink a fnd nxt newlink (Suc fuel) =
     (if next_link (a ! nxt) = fnd then Some (a[nxt := (a ! nxt)\<lparr>next_link := newlink\<rparr>])
      else
        case next_link (a ! nxt) of
          None \<Rightarrow> None
        | Some n \<Rightarrow> movelink a fnd n newlink fuel)"

subsection \<open>Insert\<close>

text \<open>The state of the loop that splits the chain at \<open>first_index\<close>: the four flag bits, the free
  place, and for the keys that stay (low) and those that move (high) the place of the last key
  and its record, whose link is written when the chain of its kind goes on.\<close>

record 'r split =
  lowfind :: bool
  lowused :: bool
  highfind :: bool
  highused :: bool
  gpos :: nat
  ptr_to_rec :: "'r option"
  gpos2 :: nat
  ptr_to_rec2 :: "'r option"
  empty_pos :: nat
  arr :: "'r HASH_LINK list"

definition put_link :: "nat \<Rightarrow> 'r option \<Rightarrow> nat option \<Rightarrow> 'r HASH_LINK list \<Rightarrow> 'r HASH_LINK list" where
  "put_link i r n a =
     (case r of None \<Rightarrow> a | Some r \<Rightarrow> a[i := \<lparr>next_link = n, link_data = r\<rparr>])"

definition split_low :: "nat \<Rightarrow> 'r split \<Rightarrow> 'r split" where
  "split_low pos s =
     (let r = Some (link_data (arr s ! pos)) in
      if \<not> lowfind s then
        if highfind s then
          s\<lparr>lowfind := True, highfind := True, lowused := False, highused := False,
            gpos := empty_pos s, ptr_to_rec := r, empty_pos := pos\<rparr>
        else
          s\<lparr>lowfind := True, lowused := True, highfind := False, highused := False,
            gpos := pos, ptr_to_rec := r\<rparr>
      else
        let s' = (if \<not> lowused s
                  then s\<lparr>arr := put_link (gpos s) (ptr_to_rec s) (Some pos) (arr s),
                    lowfind := True, lowused := True, highused := False\<rparr>
                  else s) in
        s'\<lparr>gpos := pos, ptr_to_rec := r\<rparr>)"

definition split_high :: "nat \<Rightarrow> 'r split \<Rightarrow> 'r split" where
  "split_high pos s =
     (let r = Some (link_data (arr s ! pos)) in
      if \<not> highfind s then
        s\<lparr>highfind := True, lowused := False, highused := False,
          gpos2 := empty_pos s, empty_pos := pos, ptr_to_rec2 := r\<rparr>
      else
        let s' = (if \<not> highused s
                  then s\<lparr>arr := put_link (gpos2 s) (ptr_to_rec2 s) (Some pos) (arr s),
                    highfind := True, highused := True, lowused := False\<rparr>
                  else s) in
        s'\<lparr>gpos2 := pos, ptr_to_rec2 := r\<rparr>)"

definition split_step :: "'r HASH \<Rightarrow> nat \<Rightarrow> nat \<Rightarrow> 'r split \<Rightarrow> 'r split" where
  "split_step h halfbuff idx s =
     (if unat (rec_hashnr h (link_data (arr s ! idx))) div halfbuff mod 2 = 0
      then split_low idx s else split_high idx s)"

lemma split_step_code [code]:
  "split_step h halfbuff idx s =
     (if uint (rec_hashnr h (link_data (arr s ! idx))) div int halfbuff mod 2 = 0
      then split_low idx s else split_high idx s)"
proof -
  have "uint x div int k mod 2 = int (unat x div k mod 2)" for x :: u32 and k
    by (simp add: zdiv_int zmod_int)
  then show ?thesis by (simp only: split_step_def) (simp flip: of_nat_eq_0_iff)
qed

text \<open>The loop. \<open>first\<close> marks the first turn, which stops if the element is not at its home.\<close>

fun split_loop :: "'r HASH \<Rightarrow> nat \<Rightarrow> nat \<Rightarrow> bool \<Rightarrow> nat \<Rightarrow> nat \<Rightarrow> 'r split \<Rightarrow> 'r split option" where
  "split_loop h halfbuff first_index first idx 0 s = None"
| "split_loop h halfbuff first_index first idx (Suc fuel) s =
     (if first \<and> hash_rec_mask h (link_data (arr s ! idx)) (blength h) (records h) \<noteq> first_index
      then Some s
      else
        case next_link (arr (split_step h halfbuff idx s) ! idx) of
          None \<Rightarrow> Some (split_step h halfbuff idx s)
        | Some n \<Rightarrow> split_loop h halfbuff first_index False n fuel (split_step h halfbuff idx s))"

definition split_end :: "'r split \<Rightarrow> 'r split" where
  "split_end s =
     (let s1 = (if lowfind s \<and> \<not> lowused s
                then s\<lparr>arr := put_link (gpos s) (ptr_to_rec s) None (arr s)\<rparr> else s) in
      if highfind s1 \<and> \<not> highused s1
      then s1\<lparr>arr := put_link (gpos2 s1) (ptr_to_rec2 s1) None (arr s1)\<rparr> else s1)"

text \<open>The first half of \<open>hash_insert\<close>. The new last element of the array is \<open>empty\<close>; its content
  before it is written is whatever \<open>ma_alloc_dynamic\<close> returns, here the new record.\<close>

definition split_chain :: "'r HASH \<Rightarrow> 'r \<Rightarrow> 'r split option" where
  "split_chain info record =
     (let n = records info;
          halfbuff = blength info div 2;
          first_index = n - halfbuff;
          s0 = \<lparr>lowfind = False, lowused = False, highfind = False, highused = False,
                gpos = 0, ptr_to_rec = None, gpos2 = 0, ptr_to_rec2 = None, empty_pos = n,
                arr = links info @ [\<lparr>next_link = None, link_data = record\<rparr>]\<rparr> in
      if first_index \<noteq> n
      then map_option split_end (split_loop info halfbuff first_index True first_index (Suc n) s0)
      else Some s0)"

text \<open>The second half: put the record at its home, whose element moves to the free place \<open>e\<close>.\<close>

definition place_record :: "'r HASH \<Rightarrow> 'r \<Rightarrow> nat \<Rightarrow> 'r HASH_LINK list \<Rightarrow> 'r HASH_LINK list option" where
  "place_record info record e a =
     (let n = records info;
          idx = hash_rec_mask info record (blength info) (n + 1) in
      if idx = e then Some (a[idx := \<lparr>next_link = None, link_data = record\<rparr>])
      else
        let a1 = a[e := a ! idx];
            g = hash_rec_mask info (link_data (a ! idx)) (blength info) (n + 1) in
        if idx = g then Some (a1[idx := \<lparr>next_link = Some e, link_data = record\<rparr>])
        else movelink (a1[idx := \<lparr>next_link = None, link_data = record\<rparr>])
               (Some idx) g (Some e) (Suc (Suc n)))"

text \<open>The block of the array when one element more is asked for, in \<open>ma_alloc_dynamic\<close>.\<close>

definition grow_array :: "'r HASH \<Rightarrow> 'r HASH" where
  "grow_array h =
     (if int (length (links h)) = uint (array_max h) then
        h\<lparr>array_max := array_max h + array_inc h,
          array_bytes := (array_max h + array_inc h) * sizeof_HASH_LINK\<rparr>
      else h)"

definition wrap32 :: "nat \<Rightarrow> nat" where
  "wrap32 n = n mod 2 ^ 32"

definition hash_insert :: "'r HASH \<Rightarrow> 'r \<Rightarrow> 'r HASH option" where
  "hash_insert h record =
     (let info = grow_array h in
      if uint (array_bytes info) < uint sizeof_HASH_LINK * int (Suc (length (links info))) then None
      else
        case split_chain info record of
          None \<Rightarrow> None
        | Some s \<Rightarrow>
            case place_record info record (empty_pos s) (arr s) of
              None \<Rightarrow> None
            | Some a \<Rightarrow>
                let n = wrap32 (records info + 1) in
                Some (info\<lparr>links := a, current_record := None, records := n,
                  blength := (if n = blength info then wrap32 (blength info + blength info) else blength info)\<rparr>))"

lemma wrap32_code [code]:
  "wrap32 n = (let i = int n in if i < 0x100000000 then n else nat (i mod 0x100000000))"
  by (auto simp: wrap32_def Let_def nat_mod_distrib)

lemma wrap32_small [simp]: "n < 2 ^ 32 \<Longrightarrow> wrap32 n = n"
  by (simp add: wrap32_def)

subsection \<open>Delete and update\<close>

text \<open>The search of \<open>hash_delete\<close> by identity: the element before and the element.\<close>

fun find_loop :: "'r HASH_LINK list \<Rightarrow> 'r \<Rightarrow> nat option \<Rightarrow> nat \<Rightarrow> nat \<Rightarrow> (nat option \<times> nat) option option" where
  "find_loop a r prev pos 0 = None"
| "find_loop a r prev pos (Suc fuel) =
     (if link_data (a ! pos) = r then Some (Some (prev, pos))
      else
        case next_link (a ! pos) of
          None \<Rightarrow> Some None
        | Some n \<Rightarrow> find_loop a r (Some pos) n fuel)"

text \<open>The second half of \<open>hash_delete\<close>: move the last element to the freed place \<open>e\<close>. \<open>n\<close> is the
  decremented number of records, \<open>bl\<close> the new \<open>blength\<close>, \<open>old_bl\<close> the one before.\<close>

definition move_last ::
    "'r HASH \<Rightarrow> 'r HASH_LINK list \<Rightarrow> nat \<Rightarrow> nat \<Rightarrow> nat \<Rightarrow> nat \<Rightarrow> 'r HASH_LINK list option" where
  "move_last h a n bl old_bl e =
     (if e = n then Some a
      else
        let lasth = rec_hashnr h (link_data (a ! n));
            pos = hash_mask lasth bl n in
        if pos = e then Some (a[e := a ! n])
        else
          let posh = rec_hashnr h (link_data (a ! pos));
              pos3 = hash_mask posh bl n in
          if pos \<noteq> pos3
          then movelink (a[e := a ! pos, pos := a ! n]) (Some pos) pos3 (Some e) (Suc n)
          else
            let pos2 = hash_mask lasth old_bl (n + 1) in
            if pos2 = hash_mask posh old_bl (n + 1) \<and> pos2 \<noteq> n
            then movelink (a[e := a ! n]) (Some n) pos (Some e) (Suc n)
            else
              let idx = (if pos2 = hash_mask posh old_bl (n + 1) then Some pos else None);
                  a1 = a[e := a ! n] in
              map_option (\<lambda>a2. a2[pos := (a2 ! pos)\<lparr>next_link := Some e\<rparr>])
                (movelink a1 idx e (next_link (a1 ! pos)) (Suc n)))"

text \<open>The result of \<open>hash_delete\<close> is whether it failed.\<close>

definition hash_delete :: "'r HASH \<Rightarrow> 'r \<Rightarrow> (bool \<times> 'r HASH) option" where
  "hash_delete h r =
     (if records h = 0 then Some (True, h)
      else
        let bl = blength h; n = records h - 1 in
        case find_loop (links h) r None (hash_rec_mask h r bl (records h)) (records h) of
          None \<Rightarrow> None
        | Some None \<Rightarrow> Some (True, h)
        | Some (Some (prev, pos)) \<Rightarrow>
            let new_bl = (if n < bl div 2 then bl div 2 else bl);
                a = links h;
                (a1, e) =
                  (case prev of
                     Some g \<Rightarrow> (a[g := (a ! g)\<lparr>next_link := next_link (a ! pos)\<rparr>], pos)
                   | None \<Rightarrow>
                       (case next_link (a ! pos) of
                          None \<Rightarrow> (a, pos)
                        | Some q \<Rightarrow> (a[pos := a ! q], q))) in
            case move_last h a1 n new_bl bl e of
              None \<Rightarrow> None
            | Some a2 \<Rightarrow>
                Some (False, h\<lparr>links := butlast a2, records := n, blength := new_bl,
                  current_record := None, hash_freed := hash_freed h @ [r]\<rparr>))"

definition hash_update :: "'r HASH \<Rightarrow> 'r \<Rightarrow> byte list \<Rightarrow> nat \<Rightarrow> (bool \<times> 'r HASH) option" where
  "hash_update h r old_key old_len =
     (let bl = blength h; n = records h;
          idx0 = hash_mask (calc h (take (if old_len \<noteq> 0 then old_len else key_length h) old_key)) bl n;
          new_index = hash_rec_mask h r bl n in
      if idx0 = new_index then Some (False, h)
      else
        case find_loop (links h) r None idx0 n of
          None \<Rightarrow> None
        | Some None \<Rightarrow> Some (True, h)
        | Some (Some (prev, idx)) \<Rightarrow>
            let a = links h;
                org_link = a ! idx;
                (a1, e) =
                  (case prev of
                     Some p \<Rightarrow> (a[p := (a ! p)\<lparr>next_link := next_link (a ! idx)\<rparr>], idx)
                   | None \<Rightarrow>
                       (case next_link (a ! idx) of
                          None \<Rightarrow> (a, idx)
                        | Some q \<Rightarrow> (a[idx := a ! q], q)));
                new_pos_index = hash_rec_mask h (link_data (a1 ! new_index)) bl n in
            map_option (\<lambda>a2. (False, h\<lparr>links := a2, current_record := None\<rparr>))
              (if new_index \<noteq> new_pos_index then
                 map_option (\<lambda>a2. a2[new_index := org_link\<lparr>next_link := None\<rparr>])
                   (movelink (a1[e := a1 ! new_index]) (Some new_index) new_pos_index (Some e) (Suc n))
               else
                 let a2 = a1[e := org_link\<lparr>next_link := next_link (a1 ! new_index)\<rparr>] in
                 Some (a2[new_index := (a2 ! new_index)\<lparr>next_link := Some e\<rparr>])))"

definition hash_element :: "'r HASH \<Rightarrow> nat \<Rightarrow> 'r option" where
  "hash_element h idx = (if idx < records h then Some (link_data (links h ! idx)) else None)"

section \<open>The shape of the table\<close>

definition hash_sizes :: "'r HASH \<Rightarrow> bool" where
  "hash_sizes h \<longleftrightarrow> length (links h) = records h \<and> (\<exists>k. blength h = 2 ^ k) \<and>
     blength h div 2 \<le> records h \<and> records h < blength h"

lemma hash_mask_less: "0 < n \<Longrightarrow> b div 2 \<le> n \<Longrightarrow> 0 < b div 2 \<or> b = 1 \<Longrightarrow> hash_mask x b n < n"
  by (auto simp: hash_mask_def intro: less_le_trans [OF mod_less_divisor])

lemma length_put_link [simp]: "length (put_link i r n a) = length a"
  by (simp add: put_link_def split: option.splits)

lemma length_split_low [simp]: "length (arr (split_low p s)) = length (arr s)"
  by (simp add: split_low_def Let_def)

lemma length_split_high [simp]: "length (arr (split_high p s)) = length (arr s)"
  by (simp add: split_high_def Let_def)

lemma length_split_end [simp]: "length (arr (split_end s)) = length (arr s)"
  by (simp add: split_end_def Let_def)

lemma length_split_step [simp]: "length (arr (split_step h hb p s)) = length (arr s)"
  by (simp add: split_step_def)

lemma length_split_loop:
  "split_loop h hb fi first idx fuel s = Some s' \<Longrightarrow> length (arr s') = length (arr s)"
  by (induction fuel arbitrary: first idx s) (auto split: if_splits option.splits)

lemma length_movelink: "movelink a f n l fuel = Some a' \<Longrightarrow> length a' = length a"
  by (induction fuel arbitrary: n) (auto split: if_splits option.splits)

declare movelink.simps(2) [simp del] split_loop.simps(2) [simp del] search_loop.simps(2) [simp del]

lemma length_split_chain: "split_chain h r = Some s \<Longrightarrow> length (arr s) = Suc (length (links h))"
  by (auto simp: split_chain_def Let_def dest!: length_split_loop split: if_splits)

lemma length_place_record: "place_record h r e a = Some a' \<Longrightarrow> length a' = length a"
  by (auto simp: place_record_def Let_def dest!: length_movelink split: if_splits)

text \<open>The array has its bytes, and they can be counted in 32 bits: so it is as long as the table holds
  fewer than \<open>hash_limit\<close> records whenever one is inserted.\<close>

definition hash_limit :: nat where "hash_limit = 2 ^ 28 - 512"

definition hash_room :: "'r HASH \<Rightarrow> bool" where
  "hash_room h \<longleftrightarrow> length (links h) \<le> unat (array_max h) \<and> unat (array_max h) < 2 ^ 28 \<and>
     unat (array_bytes h) = 16 * unat (array_max h) \<and> 0 < unat (array_inc h) \<and> unat (array_inc h) < 512"

lemma array_increment_bounds: "0 < unat (array_increment n) \<and> unat (array_increment n) < 512" if "unat n < 2 ^ 28"
proof -
  have "unat (n * 2) = unat n * 2" using that by (simp add: unat_word_ariths)
  then show ?thesis
    by (auto simp: array_increment_def Let_def sizeof_HASH_LINK_def word_less_nat_alt dest: less_trans)
qed

lemma unat_small_mult: "unat (16 * w :: u32) = 16 * unat w" if "unat w < 2 ^ 28"
  using that by (simp add: unat_word_ariths)

lemma hash_init_room: "hash_room (hash_init n klen getk flags)" if "unat n < 2 ^ 28"
proof -
  have "unat (array_start n) < 2 ^ 28"
    using that array_increment_bounds [OF that] by (cases "n = 0") (simp_all add: array_start_def)
  then show ?thesis using unat_small_mult array_increment_bounds [OF that]
    by (simp add: hash_room_def hash_init_def sizeof_HASH_LINK_def)
qed

lemma grow_array_outside [simp]:
  "links (grow_array h) = links h" "records (grow_array h) = records h" "blength (grow_array h) = blength h"
  "get_key (grow_array h) = get_key h" "calc (grow_array h) = calc h"
  by (simp_all add: grow_array_def)

lemma grow_array_room:
  assumes "hash_room h" and "length (links h) < hash_limit"
  shows "hash_room (grow_array h) \<and> length (links h) < unat (array_max (grow_array h))"
proof (cases "int (length (links h)) = uint (array_max h)")
  case True
  then have len: "length (links h) = unat (array_max h)" by (simp flip: nat_uint_eq)
  then have lt: "unat (array_max h) + unat (array_inc h) < 2 ^ 28"
    using assms by (simp add: hash_room_def hash_limit_def)
  then have w: "unat (array_max h + array_inc h) = unat (array_max h) + unat (array_inc h)"
    by (intro unat_add_lem [THEN iffD1]) simp
  have "unat ((array_max h + array_inc h) * 16) = 16 * unat (array_max h + array_inc h)"
    using unat_small_mult [of "array_max h + array_inc h"] lt w by (simp add: mult.commute)
  with True len lt w assms(1) show ?thesis
    by (simp add: hash_room_def grow_array_def sizeof_HASH_LINK_def)
next
  case False
  moreover from this have "length (links h) \<noteq> unat (array_max h)" by (metis uint_nat)
  ultimately show ?thesis using assms(1) by (auto simp: hash_room_def grow_array_def)
qed

section \<open>Well-formed chains\<close>

text \<open>\<open>link_path a i xs\<close>: following the links from \<open>i\<close> visits exactly the places \<open>xs\<close>.\<close>

fun link_path :: "'r HASH_LINK list \<Rightarrow> nat option \<Rightarrow> nat list \<Rightarrow> bool" where
  "link_path a None xs \<longleftrightarrow> xs = []"
| "link_path a (Some i) [] \<longleftrightarrow> False"
| "link_path a (Some i) (j # js) \<longleftrightarrow> i = j \<and> i < length a \<and> link_path a (next_link (a ! i)) js"

definition home :: "'r HASH \<Rightarrow> nat \<Rightarrow> nat" where
  "home h i = hash_rec_mask h (link_data (links h ! i)) (blength h) (records h)"

text \<open>Every element lies on the chain that starts at its home, and such a chain holds elements of
  that home only.\<close>

definition hash_wf :: "'r HASH \<Rightarrow> bool" where
  "hash_wf h \<longleftrightarrow> hash_sizes h \<and>
     (\<forall>i < records h. \<exists>xs. link_path (links h) (Some (home h i)) xs \<and> distinct xs \<and>
        i \<in> set xs \<and> (\<forall>j \<in> set xs. home h j = home h i))"

lemma link_path_bound: "link_path a o1 xs \<Longrightarrow> set xs \<subseteq> {..<length a}"
  by (induction a o1 xs rule: link_path.induct) auto

lemma length_le_card_path:
  "link_path a o1 xs \<Longrightarrow> distinct xs \<Longrightarrow> length xs \<le> length a"
proof -
  assume "link_path a o1 xs" "distinct xs"
  then have "card (set xs) \<le> card {..<length a}"
    using link_path_bound [of a o1 xs] by (intro card_mono) auto
  with \<open>distinct xs\<close> show ?thesis by (simp add: distinct_card)
qed

text \<open>The loop of \<open>hash_search\<close> along a chain finds the first record with the key, if any.\<close>

lemma search_loop_path:
  assumes "link_path (links h) (Some idx) xs" and "length xs \<le> fuel"
    and "flag \<Longrightarrow> home h idx = idx"
  shows "\<exists>res. search_loop h key len flag idx fuel = Some res \<and>
    (case res of
       None \<Rightarrow> \<forall>j \<in> set xs. hashcmp h (link_data (links h ! j)) key len
     | Some (j, r) \<Rightarrow> j \<in> set xs \<and> r = link_data (links h ! j) \<and> \<not> hashcmp h r key len)"
  using assms
proof (induction xs arbitrary: idx flag fuel)
  case Nil
  then show ?case by simp
next
  case (Cons j xs)
  from Cons.prems(2) obtain fuel' where fuel: "fuel = Suc fuel'" "length xs \<le> fuel'"
    by (cases fuel) auto
  have j: "idx = j" "link_path (links h) (next_link (links h ! j)) xs" using Cons.prems(1) by auto
  show ?case
  proof (cases "hashcmp h (link_data (links h ! j)) key len")
    case False
    with fuel j show ?thesis by (simp add: search_loop.simps(2) Let_def)
  next
    case True
    show ?thesis
    proof (cases "next_link (links h ! j)")
      case None
      with True fuel j Cons.prems(3) show ?thesis
        by (auto simp: search_loop.simps(2) home_def Let_def)
    next
      case (Some n)
      have "\<exists>res. search_loop h key len False n fuel' = Some res \<and>
          (case res of
             None \<Rightarrow> \<forall>j \<in> set xs. hashcmp h (link_data (links h ! j)) key len
           | Some (j, r) \<Rightarrow> j \<in> set xs \<and> r = link_data (links h ! j) \<and> \<not> hashcmp h r key len)"
        by (rule Cons.IH) (use j Some fuel in simp_all)
      with True fuel j Some Cons.prems(3) show ?thesis
        by (auto simp: search_loop.simps(2) home_def Let_def split: option.splits)
    qed
  qed
qed

lemma hash_mask_bound: "hash_sizes h \<Longrightarrow> 0 < records h \<Longrightarrow> hash_mask x (blength h) (records h) < records h"
  by (intro hash_mask_less) (auto simp: hash_sizes_def)

lemma hash_wf_path:
  "hash_wf h \<Longrightarrow> i < records h \<Longrightarrow> \<exists>xs. link_path (links h) (Some (home h i)) xs \<and> distinct xs \<and>
     i \<in> set xs \<and> (\<forall>j \<in> set xs. home h j = home h i)"
  by (simp add: hash_wf_def)

lemma link_path_unique: "link_path a o1 xs \<Longrightarrow> link_path a o1 ys \<Longrightarrow> xs = ys"
proof (induction a o1 xs arbitrary: ys rule: link_path.induct)
  case (3 a i j js)
  then show ?case by (cases ys) auto
qed auto

lemma link_path_hd: "link_path a (Some i) xs \<Longrightarrow> i \<in> set xs"
  by (cases xs) auto

section \<open>Search in a well-formed table\<close>

text \<open>The search ends; it returns a record with the key if there is one, and \<open>None\<close> only otherwise.\<close>

lemma hash_search_correct:
  assumes "hash_wf h" and "0 < length key"
  shows "\<exists>res h'. hash_search h key (length key) = Some (res, h') \<and>
    (case res of
       None \<Rightarrow> \<forall>i < records h. get_key h (link_data (links h ! i)) \<noteq> key
     | Some r \<Rightarrow> (\<exists>i < records h. r = link_data (links h ! i)) \<and> get_key h r = key)"
proof (cases "records h = 0")
  case True
  then show ?thesis by (simp add: hash_search_def)
next
  case False
  define hm where "hm = hash_mask (calc h key) (blength h) (records h)"
  have len: "length (links h) = records h" and hm: "hm < records h"
    using assms(1) False hash_mask_bound unfolding hm_def by (auto simp: hash_wf_def hash_sizes_def)
  have cmp: "hashcmp h r key (length key) \<longleftrightarrow> get_key h r \<noteq> key" for r
    using assms(2) by (auto simp: hashcmp_def Let_def)
  have hm_of: "home h i = hm" if "get_key h (link_data (links h ! i)) = key" for i
    using that by (simp add: home_def hm_def hash_rec_mask_def rec_hashnr_def)
  have search: "hash_search h key (length key) =
      (case search_loop h key (length key) True hm (records h) of
          None \<Rightarrow> None
        | Some None \<Rightarrow> Some (None, h\<lparr>current_record := None\<rparr>)
        | Some (Some (idx, r)) \<Rightarrow> Some (Some r, h\<lparr>current_record := Some idx\<rparr>))"
    using False assms(2) by (simp add: hash_search_def hm_def)
  show ?thesis
  proof (cases "home h hm = hm")
    case True
    from hash_wf_path [OF assms(1) hm] True obtain xs
      where xs: "link_path (links h) (Some hm) xs" "distinct xs" by auto
    have all: "i \<in> set xs" if "i < records h" "get_key h (link_data (links h ! i)) = key" for i
      using hash_wf_path [OF assms(1) that(1)] hm_of [OF that(2)] link_path_unique [OF xs(1)] by auto
    have "length xs \<le> records h" using length_le_card_path [OF xs] len by simp
    from search_loop_path [OF xs(1) this, of True key "length key"] True obtain res
      where res: "search_loop h key (length key) True hm (records h) = Some res"
        "case res of
           None \<Rightarrow> \<forall>j \<in> set xs. hashcmp h (link_data (links h ! j)) key (length key)
         | Some (j, r) \<Rightarrow> j \<in> set xs \<and> r = link_data (links h ! j) \<and> \<not> hashcmp h r key (length key)"
      by auto
    show ?thesis
    proof (cases res)
      case None
      with res search all cmp show ?thesis by auto
    next
      case (Some jr)
      obtain j r where jr: "jr = (j, r)" by fastforce
      with res Some have "j \<in> set xs" "r = link_data (links h ! j)" "get_key h r = key"
        using cmp by auto
      moreover have "j < records h" using link_path_bound [OF xs(1)] \<open>j \<in> set xs\<close> len by auto
      ultimately show ?thesis using search res Some jr by auto
    qed
  next
    case wrong: False
    have "get_key h (link_data (links h ! i)) \<noteq> key" if "i < records h" for i
    proof
      assume "get_key h (link_data (links h ! i)) = key"
      with hash_wf_path [OF assms(1) that] hm_of obtain xs where
        "link_path (links h) (Some hm) xs" "\<forall>j \<in> set xs. home h j = hm" by auto
      with link_path_hd wrong show False by blast
    qed
    moreover from this [OF hm] have "search_loop h key (length key) True hm (records h) = Some None"
      using wrong False cmp by (cases "records h") (auto simp: search_loop.simps(2) home_def Let_def)
    ultimately show ?thesis using search by simp
  qed
qed

text \<open>A table made by \<open>hash_insert\<close>: four one-letter records, three of which share a home.\<close>

definition letters :: "byte HASH" where
  "letters = foldl (\<lambda>h r. the (hash_insert h r)) (hash_init 0 0 (\<lambda>b. [b]) 0) [0x61, 0x65, 0x69, 0x62]"

lemma letters_table:
  "map next_link (links letters) = [Some 2, None, Some 1, None]"
  by code_simp

lemma letters_next:
  "length (links letters) = 4" "next_link (links letters ! 0) = Some 2"
  "next_link (links letters ! Suc 0) = None" "next_link (links letters ! 2) = Some 1"
  "next_link (links letters ! 3) = None"
proof -
  show len: "length (links letters) = 4" using arg_cong [OF letters_table, of length] by simp
  have "next_link (links letters ! i) = [Some 2, None, Some 1, None] ! i" if "i < 4" for i
    using that len letters_table by (metis nth_map)
  from this [of 0] this [of 1] this [of 2] this [of 3]
  show "next_link (links letters ! 0) = Some 2" "next_link (links letters ! Suc 0) = None"
    "next_link (links letters ! 2) = Some 1" "next_link (links letters ! 3) = None" by simp_all
qed

lemma letters_sizes: "records letters = 4" "blength letters = 8" "map (home letters) [0, 1, 2, 3] = [0, 0, 0, 3]"
  "get_key letters 0x65 = [0x65]"
  by code_simp+

lemma letters_wf: "hash_wf letters"
proof -
  have home: "home letters 0 = 0" "home letters 1 = 0" "home letters 2 = 0" "home letters 3 = 3"
    using letters_sizes(3) by simp_all
  have "\<exists>xs. link_path (links letters) (Some (home letters i)) xs \<and> distinct xs \<and> i \<in> set xs \<and>
      (\<forall>j \<in> set xs. home letters j = home letters i)" if "i < 4" for i
  proof -
    from that consider "i = 0 \<or> i = 1 \<or> i = 2" | "i = 3" by linarith
    then show ?thesis
    proof cases
      case 1
      with home show ?thesis
        by (intro exI [of _ "[0, 2, 1]"]) (auto simp: letters_next)
    next
      case 2
      with home show ?thesis
        by (intro exI [of _ "[3]"]) (simp add: letters_next)
    qed
  qed
  moreover have "blength letters = 2 ^ 3" by (simp add: letters_sizes)
  ultimately show ?thesis
    by (auto simp: hash_wf_def hash_sizes_def letters_next letters_sizes(1,2) intro: exI [of _ 3])
qed

end
