(* ===== verification/Ma_Hash_Chains.thy ===== *)
theory Ma_Hash_Chains
  imports Ma_Hash "HOL-Library.Multiset"
begin

text \<open>
  The array of \<open>ma_hash.c\<close> as chains: segments of links, and the buckets of a table, one list of
  places for every home. The second half of \<open>hash_insert\<close>, putting a record at its home, keeps the
  buckets and adds the record.
\<close>

section \<open>Segments of chains\<close>

lemma nth_update: "xs[i := x] ! j = (if j = i \<and> i < length xs then x else xs ! j)"
  by (cases "i < length xs") (auto simp: nth_list_update list_update_beyond)

fun lseg :: "'r HASH_LINK list \<Rightarrow> nat option \<Rightarrow> nat list \<Rightarrow> nat option \<Rightarrow> bool" where
  "lseg a p [] q \<longleftrightarrow> p = q"
| "lseg a p (j # js) q \<longleftrightarrow> p = Some j \<and> j < length a \<and> lseg a (next_link (a ! j)) js q"

lemma link_path_lseg: "link_path a p xs \<longleftrightarrow> lseg a p xs None"
  by (induction a p xs rule: link_path.induct) (auto elim: lseg.elims)

lemma lseg_append: "lseg a p (us @ vs) q \<longleftrightarrow> (\<exists>m. lseg a p us m \<and> lseg a m vs q)"
  by (induction us arbitrary: p) auto

lemma lseg_cong:
  "length a' = length a \<Longrightarrow> (\<And>j. j \<in> set xs \<Longrightarrow> next_link (a' ! j) = next_link (a ! j)) \<Longrightarrow>
     lseg a' p xs q = lseg a p xs q"
  by (induction xs arbitrary: p) auto

lemma lseg_bound: "lseg a p xs q \<Longrightarrow> set xs \<subseteq> {..<length a}"
  by (induction xs arbitrary: p) auto

lemma lseg_start: "lseg a (Some b) xs None \<Longrightarrow> \<exists>ys. xs = b # ys"
  by (cases xs) auto

lemma lseg_last: "lseg a p xs q \<Longrightarrow> xs \<noteq> [] \<Longrightarrow> next_link (a ! last xs) = q"
  by (induction xs arbitrary: p) auto

lemma lseg_set_last:
  "lseg a p us q \<Longrightarrow> us \<noteq> [] \<Longrightarrow> distinct us \<Longrightarrow> lseg (a[last us := l]) p us (next_link l)"
proof (induction us arbitrary: p)
  case (Cons u us)
  show ?case
  proof (cases us)
    case Nil
    with Cons.prems show ?thesis by simp
  next
    case (Cons v vs)
    then have ne: "us \<noteq> []" by simp
    with Cons.prems have "u \<noteq> last us" using last_in_set [of us] by auto
    with Cons.IH [of "next_link (a ! u)"] Cons.prems ne show ?thesis by simp
  qed
qed simp

lemma movelink_seg:
  "lseg a (Some s) us fnd \<Longrightarrow> us \<noteq> [] \<Longrightarrow> (\<And>i. fnd = Some i \<Longrightarrow> i \<notin> set us) \<Longrightarrow> length us \<le> fuel \<Longrightarrow>
     movelink a fnd s nl fuel = Some (a[last us := (a ! last us)\<lparr>next_link := nl\<rparr>])"
proof (induction us arbitrary: s fuel)
  case (Cons u us)
  then obtain fuel' where fuel: "fuel = Suc fuel'" by (cases fuel) auto
  show ?case
  proof (cases us)
    case Nil
    with Cons.prems fuel show ?thesis by (simp add: movelink.simps(2))
  next
    case (Cons v vs)
    have "next_link (a ! u) = Some v" using Cons.prems(1) Cons by simp
    moreover have "fnd \<noteq> Some v" using Cons.prems(3) Cons by auto
    ultimately show ?thesis using Cons.IH [of v fuel'] Cons.prems Cons fuel
      by (simp add: movelink.simps(2))
  qed
qed simp

section \<open>Buckets\<close>

text \<open>\<open>P\<close> are the places in use, \<open>hm\<close> gives a record's home, \<open>B b\<close> the places of the chain of home \<open>b\<close>.\<close>

definition buckets :: "'r HASH_LINK list \<Rightarrow> ('r \<Rightarrow> nat) \<Rightarrow> nat set \<Rightarrow> (nat \<Rightarrow> nat list) \<Rightarrow> bool" where
  "buckets a hm P B \<longleftrightarrow> P \<subseteq> {..<length a} \<and>
     (\<forall>b. distinct (B b) \<and> (\<forall>i. i \<in> set (B b) \<longleftrightarrow> i \<in> P \<and> hm (link_data (a ! i)) = b) \<and>
        (B b = [] \<or> lseg a (Some b) (B b) None))"

definition recs :: "'r HASH_LINK list \<Rightarrow> nat set \<Rightarrow> 'r multiset" where
  "recs a P = image_mset (\<lambda>i. link_data (a ! i)) (mset_set P)"

lemma bucketsD:
  assumes "buckets a hm P B"
  shows "P \<subseteq> {..<length a}" and "distinct (B b)" and "i \<in> set (B b) \<longleftrightarrow> i \<in> P \<and> hm (link_data (a ! i)) = b"
    and "B b \<noteq> [] \<Longrightarrow> lseg a (Some b) (B b) None" and "finite P"
  using assms finite_subset [of P "{..<length a}"] by (auto simp: buckets_def)

lemma bucket_hd: "buckets a hm P B \<Longrightarrow> B b \<noteq> [] \<Longrightarrow> \<exists>ys. B b = b # ys"
  by (blast dest: bucketsD(4) lseg_start)

text \<open>A bucket is empty unless the record at its home is at home.\<close>

lemma bucket_empty:
  assumes "buckets a hm P B" and "\<not> (b \<in> P \<and> hm (link_data (a ! b)) = b)"
  shows "B b = []"
proof (rule ccontr)
  assume "B b \<noteq> []"
  with bucket_hd [OF assms(1)] have "b \<in> set (B b)" by fastforce
  with bucketsD(3) [OF assms(1)] assms(2) show False by blast
qed

lemma recs_cong: "(\<And>i. i \<in> P \<Longrightarrow> link_data (a' ! i) = link_data (a ! i)) \<Longrightarrow> finite P \<Longrightarrow> recs a' P = recs a P"
  unfolding recs_def by (intro image_mset_cong) simp

lemma recs_insert: "finite P \<Longrightarrow> i \<notin> P \<Longrightarrow> recs a (insert i P) = add_mset (link_data (a ! i)) (recs a P)"
  by (simp add: recs_def)

section \<open>A record at its place\<close>

lemma bucketsI:
  assumes "P \<subseteq> {..<length a}" and "\<And>b. distinct (B b)"
    and "\<And>b i. i \<in> set (B b) \<longleftrightarrow> i \<in> P \<and> hm (link_data (a ! i)) = b"
    and "\<And>b. B b \<noteq> [] \<Longrightarrow> lseg a (Some b) (B b) None"
  shows "buckets a hm P B"
  using assms unfolding buckets_def by blast

text \<open>A bucket none of whose places changes stays a chain.\<close>

lemma lseg_kept:
  assumes "buckets a hm P B" and "B b \<noteq> []" and "length a' = length a" and "\<And>j. j \<in> set (B b) \<Longrightarrow> a' ! j = a ! j"
  shows "lseg a' (Some b) (B b) None"
  using bucketsD(4) [OF assms(1,2)] lseg_cong [of a' a "B b"] assms(3,4) by simp

text \<open>The home of the record is free.\<close>

lemma place_free:
  assumes B: "buckets a hm P B" and e: "e < length a" "e \<notin> P" and r: "hm r = e"
  shows "buckets (a[e := \<lparr>next_link = None, link_data = r\<rparr>]) hm (insert e P) (B(e := [e]))"
proof -
  have empty: "B e = []" by (rule bucket_empty [OF B]) (use e in blast)
  then have none: "i \<in> P \<Longrightarrow> hm (link_data (a ! i)) \<noteq> e" for i using bucketsD(3) [OF B, of i e] by auto
  have "e \<notin> set (B b)" for b using bucketsD(3) [OF B] e by blast
  then have "lseg (a[e := \<lparr>next_link = None, link_data = r\<rparr>]) (Some b) (B b) None" if "B b \<noteq> []" for b
    using that by (intro lseg_kept [OF B]) (auto simp: nth_update)
  then show ?thesis
    using bucketsD(1-3) [OF B] e r empty none
    by (intro bucketsI) (auto simp: nth_update split: if_splits)
qed

text \<open>The place at the record's home has a record that is at home: the new one goes in front.\<close>

lemma place_front:
  assumes B: "buckets a hm P B" and e: "e < length a" "e \<notin> P" and x: "x \<in> P" "hm (link_data (a ! x)) = x"
    and r: "hm r = x"
  shows "\<exists>B'. buckets (a[e := a ! x, x := \<lparr>next_link = Some e, link_data = r\<rparr>]) hm (insert e P) B'"
proof -
  let ?a = "a[e := a ! x, x := \<lparr>next_link = Some e, link_data = r\<rparr>]"
  have "x \<in> set (B x)" using bucketsD(3) [OF B] x by blast
  with bucket_hd [OF B, of x] obtain ys where ys: "B x = x # ys" by fastforce
  have ex: "e \<noteq> x" "x < length a" using e x bucketsD(1) [OF B] by auto
  have no_e: "e \<notin> set (B b)" for b using bucketsD(3) [OF B] e by blast
  have yse: "e \<notin> set ys" "x \<notin> set ys" "distinct ys" using no_e [of x] bucketsD(2) [OF B, of x] ys by auto
  have "lseg a (next_link (a ! x)) ys None" using bucketsD(4) [OF B, of x] ys by simp
  then have "lseg ?a (next_link (a ! x)) ys None"
    by (rule lseg_cong [THEN iffD2, rotated 2]) (use yse in \<open>auto simp: nth_update\<close>)
  then have "lseg ?a (Some x) (x # e # ys) None" using e ex by simp
  moreover have "lseg ?a (Some b) (B b) None" if "B b \<noteq> []" "b \<noteq> x" for b
  proof -
    have "x \<notin> set (B b)" using bucketsD(3) [OF B, of x b] x that(2) by auto
    then show ?thesis using no_e [of b] that(1) by (intro lseg_kept [OF B]) (auto simp: nth_update)
  qed
  moreover have "i \<in> set ys \<longleftrightarrow> i \<in> P \<and> hm (link_data (a ! i)) = x \<and> i \<noteq> x" for i
    using bucketsD(3) [OF B, of i x] ys yse by auto
  ultimately have "buckets ?a hm (insert e P) (B(x := x # e # ys))"
    using bucketsD(1-3) [OF B] e ex r x yse
    by (intro bucketsI) (auto simp: nth_update split: if_splits)
  then show ?thesis by blast
qed

text \<open>A place that is not at the start of its chain can be moved: its record goes to the free place,
  and the one before it is relinked.\<close>

lemma move_place:
  assumes B: "buckets a hm P B" and e: "e < length a" "e \<notin> P" and x: "x \<in> P" "hm (link_data (a ! x)) = g" "g \<noteq> x"
  obtains us vs where "B g = us @ x # vs" "us \<noteq> []" "lseg a (Some g) us (Some x)" "lseg a (next_link (a ! x)) vs None"
    "distinct (us @ x # vs)" "e \<notin> set (us @ x # vs)" "set us \<subseteq> P"
    "lseg (a[e := a ! x, last us := (a ! last us)\<lparr>next_link := Some e\<rparr>]) (Some g) (us @ e # vs) None"
proof -
  have "x \<in> set (B g)" using bucketsD(3) [OF B] x by blast
  then obtain us vs where us: "B g = us @ x # vs" by (meson split_list)
  have d: "distinct (us @ x # vs)" using bucketsD(2) [OF B, of g] us by simp
  have ne: "e \<notin> set (us @ x # vs)" using bucketsD(3) [OF B, of e g] us e by auto
  have "lseg a (Some g) (us @ x # vs) None" using bucketsD(4) [OF B, of g] us by simp
  then have seg: "lseg a (Some g) us (Some x)" "lseg a (next_link (a ! x)) vs None" "x < length a"
    by (auto simp: lseg_append)
  have un: "us \<noteq> []" using seg(1) x(3) by auto
  have sub: "set us \<subseteq> P" using bucketsD(3) [OF B, of _ g] us by auto
  let ?l = "(a ! last us)\<lparr>next_link := Some e\<rparr>"
  have lu: "last us \<in> set us" using un by simp
  have "lseg (a[e := a ! x]) (Some g) us (Some x)"
    by (rule lseg_cong [THEN iffD2, OF _ _ seg(1)]) (use ne in \<open>auto simp: nth_update\<close>)
  from lseg_set_last [OF this un, of ?l] d have "lseg (a[e := a ! x, last us := ?l]) (Some g) us (Some e)" by simp
  moreover have "lseg (a[e := a ! x, last us := ?l]) (next_link (a ! x)) vs None"
    by (rule lseg_cong [THEN iffD2, OF _ _ seg(2)]) (use ne d lu in \<open>auto simp: nth_update\<close>)
  moreover have "last us \<noteq> e" using ne lu by auto
  ultimately have "lseg (a[e := a ! x, last us := ?l]) (Some g) (us @ e # vs) None"
    using e by (auto simp: lseg_append nth_update)
  with us un seg d ne sub that show thesis by blast
qed

text \<open>The place at the record's home has a record that is not at home: it is moved away.\<close>

lemma place_evict:
  assumes B: "buckets a hm P B" and e: "e < length a" "e \<notin> P" and x: "x \<in> P" "hm (link_data (a ! x)) = g" "g \<noteq> x"
    and r: "hm r = x" and fuel: "length a \<le> fuel"
  shows "\<exists>a' B'. movelink (a[e := a ! x, x := \<lparr>next_link = None, link_data = r\<rparr>]) (Some x) g (Some e) fuel = Some a' \<and>
    length a' = length a \<and> link_data (a' ! x) = r \<and> link_data (a' ! e) = link_data (a ! x) \<and>
    (\<forall>i. i \<noteq> x \<longrightarrow> i \<noteq> e \<longrightarrow> link_data (a' ! i) = link_data (a ! i)) \<and> buckets a' hm (insert e P) B'"
proof -
  obtain us vs where us: "B g = us @ x # vs" "us \<noteq> []" "lseg a (Some g) us (Some x)" "lseg a (next_link (a ! x)) vs None"
    "distinct (us @ x # vs)" "e \<notin> set (us @ x # vs)" "set us \<subseteq> P"
    "lseg (a[e := a ! x, last us := (a ! last us)\<lparr>next_link := Some e\<rparr>]) (Some g) (us @ e # vs) None"
    using move_place [OF B e x] by blast
  let ?n = "\<lparr>next_link = None, link_data = r\<rparr>"
  let ?a = "a[e := a ! x, x := ?n]" and ?p = "last us"
  let ?a' = "?a[?p := (?a ! ?p)\<lparr>next_link := Some e\<rparr>]"
  have p: "?p \<in> set us" using us(2) by simp
  then have pne: "?p \<noteq> e" "?p \<noteq> x" "?p < length a" using us(5,6,7) bucketsD(1) [OF B] by auto
  have ex: "e \<noteq> x" "x < length a" using e x bucketsD(1) [OF B] by auto
  have "lseg ?a (Some g) us (Some x)"
    by (rule lseg_cong [THEN iffD2, OF _ _ us(3)]) (use us(5,6) in \<open>auto simp: nth_update\<close>)
  moreover have "length us \<le> fuel"
    using distinct_card [of us] card_mono [of "{..<length a}" "set us"] us(5) lseg_bound [OF us(3)] fuel by simp
  ultimately have "movelink ?a (Some x) g (Some e) fuel = Some ?a'"
    using us(2,5) by (intro movelink_seg) auto
  moreover have "lseg ?a' (Some g) (us @ e # vs) None"
    by (rule lseg_cong [THEN iffD2, OF _ _ us(8)]) (use us(5,6) pne ex in \<open>auto simp: nth_update\<close>)
  moreover have empty: "B x = []" by (rule bucket_empty [OF B]) (use x in simp)
  moreover have "lseg ?a' (Some b) (B b) None" if "B b \<noteq> []" "b \<noteq> g" for b
  proof -
    have "j \<noteq> e" "j \<noteq> x" "j \<noteq> ?p" if "j \<in> set (B b)" for j
      using that bucketsD(3) [OF B, of j b] bucketsD(3) [OF B, of ?p g] e x us(1) p \<open>b \<noteq> g\<close> by auto
    then show ?thesis using that(1) by (intro lseg_kept [OF B]) (auto simp: nth_update)
  qed
  moreover have "i \<in> set us \<or> i \<in> set vs \<longleftrightarrow> i \<in> P \<and> hm (link_data (a ! i)) = g \<and> i \<noteq> x" for i
    using bucketsD(3) [OF B, of i g] us(1,5) by auto
  moreover have "hm (link_data (a ! i)) \<noteq> x" if "i \<in> P" for i
    using bucketsD(3) [OF B, of i x] empty that by auto
  ultimately have "buckets ?a' hm (insert e P) (B(g := us @ e # vs, x := [x]))"
    using bucketsD(1-3) [OF B] e ex r x us(5,6) pne
    by (intro bucketsI) (auto simp: nth_update split: if_splits)
  moreover have "movelink ?a (Some x) g (Some e) fuel = Some ?a'" by fact
  ultimately show ?thesis using ex pne e by (intro exI conjI) (assumption | auto simp: nth_update)+
qed

lemma recs_moved:
  assumes "finite P" and "e \<notin> P" and "x \<in> P" and "link_data (a' ! e) = link_data (a ! x)" and "link_data (a' ! x) = r"
    and "\<And>i. i \<in> P \<Longrightarrow> i \<noteq> x \<Longrightarrow> link_data (a' ! i) = link_data (a ! i)"
  shows "recs a' (insert e P) = add_mset r (recs a P)"
proof -
  obtain Q where Q: "P = insert x Q" "x \<notin> Q" using assms(3) by (meson mk_disjoint_insert)
  have "recs a' Q = recs a Q" using assms(1,6) Q by (intro recs_cong) auto
  with assms Q show ?thesis by (simp add: recs_insert)
qed

lemma place_record_bag:
  fixes h :: "'r HASH"
  defines "hm \<equiv> \<lambda>r. hash_rec_mask h r (blength h) (Suc (records h))"
  assumes B: "buckets a hm P B" and len: "length a = Suc (records h)" and e: "e \<notin> P" "insert e P = {..records h}"
    and r: "hm r \<le> records h"
  shows "\<exists>a' B'. place_record h r e a = Some a' \<and> length a' = length a \<and> buckets a' hm (insert e P) B' \<and>
    recs a' (insert e P) = add_mset r (recs a P)"
proof -
  have "e \<in> {..records h}" using e(2) by blast
  then have el: "e < length a" by (simp add: len)
  have fin: "finite P" by (rule bucketsD(5) [OF B])
  show ?thesis
  proof (cases "hm r = e")
    case True
    then have "place_record h r e a = Some (a[e := \<lparr>next_link = None, link_data = r\<rparr>])"
      by (simp add: place_record_def hm_def)
    moreover have "recs (a[e := \<lparr>next_link = None, link_data = r\<rparr>]) (insert e P) = add_mset r (recs a P)"
    proof -
      have "recs (a[e := \<lparr>next_link = None, link_data = r\<rparr>]) P = recs a P"
        using e fin by (intro recs_cong) (auto simp: nth_update)
      then show ?thesis using el by (simp add: recs_insert [OF fin e(1)])
    qed
    ultimately show ?thesis using place_free [OF B el e(1) True] by (intro exI conjI) auto
  next
    case False
    moreover have "hm r \<in> insert e P" using r by (simp add: e(2))
    ultimately have x: "hm r \<in> P" by blast
    then have xl: "hm r < length a" using bucketsD(1) [OF B] by auto
    show ?thesis
    proof (cases "hm (link_data (a ! hm r)) = hm r")
      case True
      let ?a' = "a[e := a ! hm r, hm r := \<lparr>next_link = Some e, link_data = r\<rparr>]"
      have "place_record h r e a = Some ?a'"
        using False True by (simp add: place_record_def hm_def Let_def)
      moreover have "recs ?a' (insert e P) = add_mset r (recs a P)"
        using fin e x xl el False by (intro recs_moved [where x = "hm r"]) (auto simp: nth_update)
      ultimately show ?thesis using place_front [OF B el e(1) x True refl] by auto
    next
      case out: False
      from place_evict [OF B el e(1) x refl out refl, of "Suc (Suc (records h))"] len obtain a' B' where
        mv: "movelink (a[e := a ! hm r, hm r := \<lparr>next_link = None, link_data = r\<rparr>]) (Some (hm r))
            (hm (link_data (a ! hm r))) (Some e) (Suc (Suc (records h))) = Some a'"
        and a': "length a' = length a" "link_data (a' ! hm r) = r" "link_data (a' ! e) = link_data (a ! hm r)"
          "\<And>i. i \<noteq> hm r \<Longrightarrow> i \<noteq> e \<Longrightarrow> link_data (a' ! i) = link_data (a ! i)" "buckets a' hm (insert e P) B'"
        by auto
      have "place_record h r e a = Some a'"
        using False out mv by (auto simp: place_record_def hm_def Let_def)
      moreover have "recs a' (insert e P) = add_mset r (recs a P)"
        using fin e x a' by (intro recs_moved [where x = "hm r"]) auto
      ultimately show ?thesis using a'(1,5) by auto
    qed
  qed
qed

end
