(* ===== verification/Ma_Hash_Insert.thy ===== *)
theory Ma_Hash_Insert
  imports Ma_Hash_Chains
begin

text \<open>
  The first half of \<open>hash_insert\<close>: the loop that splits the chain of one home when the array grows,
  with its invariant on the two chains under construction; and the whole of \<open>hash_insert\<close>.
\<close>

section \<open>Splitting a chain\<close>

text \<open>One of the two chains under construction: it starts at \<open>st\<close>, holds the records \<open>rs\<close> at the
  places \<open>lp\<close>; the last of them, \<open>r\<close>, has the place \<open>g\<close> and is not yet written there.\<close>

definition pen :: "'r HASH_LINK list \<Rightarrow> nat \<Rightarrow> 'r list \<Rightarrow> nat list \<Rightarrow> bool \<Rightarrow> nat \<Rightarrow> 'r option \<Rightarrow> bool" where
  "pen a st rs lp f g r \<longleftrightarrow> f = (lp \<noteq> []) \<and>
     (if lp = [] then rs = []
      else \<exists>us x. lp = us @ [g] \<and> r = Some x \<and> rs = map (\<lambda>p. link_data (a ! p)) us @ [x] \<and>
        lseg a (Some st) us (Some g))"

text \<open>While the chain goes on as the old one, its last element \<^emph>\<open>is\<close> written.\<close>

definition wrote :: "bool \<Rightarrow> 'r HASH_LINK list \<Rightarrow> 'r HASH_LINK list \<Rightarrow> nat list \<Rightarrow> nat list \<Rightarrow> nat \<Rightarrow> 'r option \<Rightarrow> bool" where
  "wrote u a0 a ys lp g r \<longleftrightarrow>
     (u \<longrightarrow> lp \<noteq> [] \<and> ys \<noteq> [] \<and> g = last ys \<and> a ! g = a0 ! g \<and> r = Some (link_data (a0 ! g)))"

lemma wrote_False [simp]: "wrote False a0 a ys lp g r"
  by (simp add: wrote_def)

lemma pen_Nil [simp]: "pen a st rs [] f g r \<longleftrightarrow> \<not> f \<and> rs = []"
  by (auto simp: pen_def)

lemma pen_start: "pen a st [x] [st] True st (Some x)"
  by (simp add: pen_def)

lemma pen_find: "pen a st rs lp f g r \<Longrightarrow> f = (lp \<noteq> [])"
  by (simp add: pen_def)

lemma pen_rs: "pen a st rs lp f g r \<Longrightarrow> (rs = []) = (lp = [])"
  by (auto simp: pen_def split: if_splits)

lemma pen_last: "pen a st rs lp f g r \<Longrightarrow> lp \<noteq> [] \<Longrightarrow> g \<in> set lp \<and> g \<notin> set (butlast lp) \<or> \<not> distinct lp"
  by (auto simp: pen_def)

lemma pen_stable:
  assumes "pen a st rs lp f g r" and "length a' = length a" and "\<And>p. p \<in> set (butlast lp) \<Longrightarrow> a' ! p = a ! p"
  shows "pen a' st rs lp f g r"
proof (cases "lp = []")
  case False
  with assms obtain us x where us: "lp = us @ [g]" "r = Some x" "rs = map (\<lambda>p. link_data (a ! p)) us @ [x]"
      "lseg a (Some st) us (Some g)" "f"
    by (auto simp: pen_def)
  moreover from us have "a' ! p = a ! p" if "p \<in> set us" for p using assms(3) that by simp
  moreover from this have "lseg a' (Some st) us (Some g)"
    using lseg_cong [of a' a us] assms(2) us(4) by simp
  ultimately show ?thesis by (simp add: pen_def)
qed (use assms in simp)

text \<open>The last element is written with a link to the next one, or has that link already.\<close>

lemma pen_write:
  assumes P: "pen a st rs lp f g r" and ne: "lp \<noteq> []" and d: "distinct lp" and g: "g < length a"
    and u: "u \<Longrightarrow> next_link (a ! g) = nl \<and> r = Some (link_data (a ! g))"
  shows "lseg (if u then a else put_link g r nl a) (Some st) lp nl"
    and "map (\<lambda>p. link_data ((if u then a else put_link g r nl a) ! p)) lp = rs"
proof -
  let ?a = "if u then a else put_link g r nl a"
  obtain us x where us: "lp = us @ [g]" "r = Some x" "rs = map (\<lambda>p. link_data (a ! p)) us @ [x]"
    "lseg a (Some st) us (Some g)" using P ne by (auto simp: pen_def)
  have gu: "g \<notin> set us" using d us(1) by auto
  have kept: "?a ! p = a ! p" if "p \<in> set us" for p using gu that us(2) by (auto simp: put_link_def nth_update)
  have "length ?a = length a" by (simp add: put_link_def us(2))
  then have "lseg ?a (Some st) us (Some g)" using lseg_cong [of ?a a us] kept us(4) by simp
  moreover have "next_link (?a ! g) = nl" "link_data (?a ! g) = x" "g < length ?a"
    using u g us(2) by (auto simp: put_link_def)
  ultimately show "lseg ?a (Some st) lp nl" and "map (\<lambda>p. link_data (?a ! p)) lp = rs"
    using kept by (simp_all add: us(1,3) lseg_append)
qed

lemma pen_grow:
  assumes "pen a st rs lp f g r" and "lp \<noteq> []" and "distinct lp" and "g < length a"
    and "u \<Longrightarrow> next_link (a ! g) = Some z \<and> r = Some (link_data (a ! g))"
  shows "pen (if u then a else put_link g r (Some z) a) st (rs @ [x]) (lp @ [z]) True z (Some x)"
  using pen_write [OF assms] by (simp add: pen_def)

text \<open>After the places \<open>ys\<close> of the old chain: \<open>lp\<close> are the places of the records that stay, from the
  old start \<open>fi\<close> on, \<open>hp\<close> those of the others, from the new place \<open>n\<close> on; one place is free.\<close>

definition rlist :: "'r HASH_LINK list \<Rightarrow> nat list \<Rightarrow> 'r list" where
  "rlist a ys = map (\<lambda>i. link_data (a ! i)) ys"

definition split_places :: "nat \<Rightarrow> nat \<Rightarrow> nat list \<Rightarrow> nat \<Rightarrow> nat list \<Rightarrow> nat list \<Rightarrow> bool" where
  "split_places fi n ys e lp hp \<longleftrightarrow> n \<notin> set ys \<and>
     distinct (e # lp @ hp) \<and> insert e (set lp \<union> set hp) = insert n (set ys) \<and>
     (lp = [] \<longrightarrow> ys \<noteq> [] \<longrightarrow> e = fi) \<and> (hp = [] \<longrightarrow> e = n)"

definition split_inv :: "'r HASH_LINK list \<Rightarrow> ('r \<Rightarrow> bool) \<Rightarrow> nat \<Rightarrow> nat \<Rightarrow> nat list \<Rightarrow> 'r split \<Rightarrow> nat list \<Rightarrow> nat list \<Rightarrow> bool"
  where
  "split_inv a0 low fi n ys s lp hp \<longleftrightarrow>
     length (arr s) = length a0 \<and> (\<forall>j. j \<noteq> n \<and> j \<notin> set ys \<longrightarrow> arr s ! j = a0 ! j) \<and>
     split_places fi n ys (empty_pos s) lp hp \<and>
     pen (arr s) fi (filter low (rlist a0 ys)) lp (lowfind s) (gpos s) (ptr_to_rec s) \<and>
     wrote (lowused s) a0 (arr s) ys lp (gpos s) (ptr_to_rec s) \<and>
     pen (arr s) n (filter (\<lambda>r. \<not> low r) (rlist a0 ys)) hp (highfind s) (gpos2 s) (ptr_to_rec2 s) \<and>
     wrote (highused s) a0 (arr s) ys hp (gpos2 s) (ptr_to_rec2 s)"

lemma split_invD:
  assumes "split_inv a0 low fi n ys s lp hp"
  shows "length (arr s) = length a0" and "j \<noteq> n \<Longrightarrow> j \<notin> set ys \<Longrightarrow> arr s ! j = a0 ! j"
    and "split_places fi n ys (empty_pos s) lp hp"
    and "pen (arr s) fi (filter low (rlist a0 ys)) lp (lowfind s) (gpos s) (ptr_to_rec s)"
    and "wrote (lowused s) a0 (arr s) ys lp (gpos s) (ptr_to_rec s)"
    and "pen (arr s) n (filter (\<lambda>r. \<not> low r) (rlist a0 ys)) hp (highfind s) (gpos2 s) (ptr_to_rec2 s)"
    and "wrote (highused s) a0 (arr s) ys hp (gpos2 s) (ptr_to_rec2 s)"
  using assms by (simp_all add: split_inv_def)

lemma rlist_snoc [simp]: "rlist a (ys @ [z]) = rlist a ys @ [link_data (a ! z)]"
  by (simp add: rlist_def)

lemma split_inv_start:
  "arr s = a0 \<Longrightarrow> empty_pos s = n \<Longrightarrow> \<not> lowfind s \<Longrightarrow> \<not> highfind s \<Longrightarrow> \<not> lowused s \<Longrightarrow> \<not> highused s \<Longrightarrow>
     split_inv a0 low fi n [] s [] []"
  by (simp add: split_inv_def split_places_def rlist_def)

text \<open>The next element \<open>z\<close> of the old chain extends a chain that has begun.\<close>

lemma grow_chain:
  assumes P: "pen a st rs lp f g r" "lp \<noteq> []" and W: "wrote u a0 a ys lp g r" and d: "distinct (e # lp @ hp)"
    and sub: "set lp \<subseteq> {..<length a}" and Q: "pen a st' rs' hp f' g' r'"
    and nxt: "ys \<noteq> []" "next_link (a0 ! last ys) = Some z"
  defines "a' \<equiv> if u then a else put_link g r (Some z) a"
  shows "pen a' st (rs @ [x]) (lp @ [z]) True z (Some x)" and "pen a' st' rs' hp f' g' r'"
    and "length a' = length a" and "j \<notin> set lp \<Longrightarrow> a' ! j = a ! j"
proof -
  have g: "g \<in> set lp" "distinct lp" using pen_last [OF P] d by auto
  then have gl: "g < length a" using sub by auto
  show "pen a' st (rs @ [x]) (lp @ [z]) True z (Some x)"
    unfolding a'_def by (rule pen_grow [OF P g(2) gl]) (use W nxt in \<open>auto simp: wrote_def\<close>)
  show len: "length a' = length a" by (simp add: a'_def put_link_def split: option.split)
  have kept: "a' ! j = a ! j" if "j \<notin> set lp" for j
    using that g(1) by (auto simp: a'_def put_link_def nth_update split: option.split)
  then show "j \<notin> set lp \<Longrightarrow> a' ! j = a ! j" .
  show "pen a' st' rs' hp f' g' r'"
    by (rule pen_stable [OF Q len]) (use kept d in \<open>auto dest: in_set_butlastD\<close>)
qed

lemma split_places_sub: "split_places fi n ys e lp hp \<Longrightarrow> set lp \<union> set hp \<subseteq> insert n (set ys)"
  by (auto simp: split_places_def)

lemma split_places_Nil: "split_places fi n [] e lp hp \<Longrightarrow> lp = [] \<and> hp = []"
  unfolding split_places_def by (cases lp; cases hp) auto

lemma split_places_low:
  "split_places fi n ys e lp hp \<Longrightarrow> ys \<noteq> [] \<Longrightarrow> lp \<noteq> [] \<Longrightarrow> z \<noteq> n \<Longrightarrow> z \<notin> set ys \<Longrightarrow> split_places fi n (ys @ [z]) e (lp @ [z]) hp"
  unfolding split_places_def by auto

lemma split_places_high:
  "split_places fi n ys e lp hp \<Longrightarrow> ys \<noteq> [] \<Longrightarrow> hp \<noteq> [] \<Longrightarrow> z \<noteq> n \<Longrightarrow> z \<notin> set ys \<Longrightarrow> split_places fi n (ys @ [z]) e lp (hp @ [z])"
  unfolding split_places_def by auto

lemma split_low_inv:
  assumes I: "split_inv a0 low fi n ys s lp hp" and z: "z \<noteq> n" "z \<notin> set ys" "insert n (set ys) \<subseteq> {..<length a0}"
    and fst: "ys = [] \<Longrightarrow> z = fi" and nxt: "ys \<noteq> [] \<Longrightarrow> next_link (a0 ! last ys) = Some z" and low: "low (link_data (a0 ! z))"
  shows "\<exists>lp'. split_inv a0 low fi n (ys @ [z]) (split_low z s) lp' hp \<and> arr (split_low z s) ! z = a0 ! z"
proof -
  note J = split_invD [OF I]
  have az: "arr s ! z = a0 ! z" by (rule J(2) [OF z(1,2)])
  have f: "lowfind s = (lp \<noteq> [])" "highfind s = (hp \<noteq> [])" using pen_find [OF J(4)] pen_find [OF J(6)] by simp_all
  show ?thesis
  proof (cases "lp = []")
    case True
    then have none: "filter low (rlist a0 ys) = []" using pen_rs [OF J(4)] by simp
    show ?thesis
    proof (cases "hp = []")
      case hp: True
      then have ys: "ys = []" using J(3) True by (cases ys) (auto simp: split_places_def)
      then have "split_inv a0 low fi n (ys @ [z]) (split_low z s) [z] hp"
        using J(1,2,3,6) True hp f low z fst az pen_start [of "arr s" z]
        by (simp add: split_inv_def split_low_def split_places_def Let_def rlist_def wrote_def)
      moreover have "arr (split_low z s) ! z = a0 ! z" using True f az by (simp add: split_low_def Let_def)
      ultimately show ?thesis by blast
    next
      case hp: False
      then have ys: "ys \<noteq> []" using J(3) split_places_Nil by blast
      have e: "empty_pos s = fi" using J(3) True ys by (simp add: split_places_def)
      have "split_places fi n (ys @ [z]) z [fi] hp" using J(3) e True z hp by (auto simp: split_places_def)
      then have "split_inv a0 low fi n (ys @ [z]) (split_low z s) [fi] hp"
        using J(1,2,6) True hp f low az e none pen_start [of "arr s" fi]
        by (simp add: split_inv_def split_low_def Let_def)
      moreover have "arr (split_low z s) ! z = a0 ! z" using True f az by (simp add: split_low_def Let_def)
      ultimately show ?thesis by blast
    qed
  next
    case False
    have d: "distinct (empty_pos s # lp @ hp)" using J(3) by (simp add: split_places_def)
    have sub: "set lp \<subseteq> {..<length (arr s)}" using split_places_sub [OF J(3)] z(3) J(1) by auto
    have ys: "ys \<noteq> []" using J(3) False split_places_Nil by blast
    define a' where "a' = (if lowused s then arr s else put_link (gpos s) (ptr_to_rec s) (Some z) (arr s))"
    note G = grow_chain [OF J(4) False J(5) d sub J(6) ys nxt [OF ys], folded a'_def]
    have hu: "\<not> (lowused s \<and> highused s)"
      using J(5,7) d pen_last [OF J(4) False] pen_last [OF J(6)] by (auto simp: wrote_def)
    define s' where "s' = split_low z s"
    have s': "arr s' = a'" "lowfind s'" "highfind s' = highfind s" "lowused s'" "\<not> highused s'" "gpos s' = z"
      "ptr_to_rec s' = Some (link_data (a0 ! z))" "empty_pos s' = empty_pos s" "gpos2 s' = gpos2 s" "ptr_to_rec2 s' = ptr_to_rec2 s"
      using f False az hu unfolding s'_def a'_def split_low_def by (auto simp: Let_def)
    have "z \<notin> set lp" using split_places_sub [OF J(3)] z by auto
    then have az': "a' ! z = a0 ! z" using G(4) az by simp
    moreover have "a' ! j = a0 ! j" if "j \<noteq> n" "j \<notin> set (ys @ [z])" for j
    proof -
      have "j \<notin> set lp" using that split_places_sub [OF J(3)] by auto
      then show ?thesis using that G(4) J(2) by simp
    qed
    ultimately have "split_inv a0 low fi n (ys @ [z]) s' (lp @ [z]) hp"
      using split_places_low [OF J(3) ys False z(1,2)] G(1-3) J(1) low f(2)
      by (simp add: split_inv_def s' wrote_def)
    then show ?thesis using az' s'(1) unfolding s'_def by auto
  qed
qed

lemma split_high_inv:
  assumes I: "split_inv a0 low fi n ys s lp hp" and z: "z \<noteq> n" "z \<notin> set ys" "insert n (set ys) \<subseteq> {..<length a0}"
    and fst: "ys = [] \<Longrightarrow> z = fi" and nxt: "ys \<noteq> [] \<Longrightarrow> next_link (a0 ! last ys) = Some z" and high: "\<not> low (link_data (a0 ! z))"
  shows "\<exists>hp'. split_inv a0 low fi n (ys @ [z]) (split_high z s) lp hp' \<and> arr (split_high z s) ! z = a0 ! z"
proof -
  note J = split_invD [OF I]
  have az: "arr s ! z = a0 ! z" by (rule J(2) [OF z(1,2)])
  have f: "lowfind s = (lp \<noteq> [])" "highfind s = (hp \<noteq> [])" using pen_find [OF J(4)] pen_find [OF J(6)] by simp_all
  show ?thesis
  proof (cases "hp = []")
    case True
    then have none: "filter (\<lambda>r. \<not> low r) (rlist a0 ys) = []" using pen_rs [OF J(6)] by simp
    have e: "empty_pos s = n" using J(3) True by (simp add: split_places_def)
    have "lp = [] \<Longrightarrow> ys = []" using J(3) True by (cases ys) (auto simp: split_places_def)
    then have "split_places fi n (ys @ [z]) z lp [n]" using J(3) e True z fst by (auto simp: split_places_def)
    then have "split_inv a0 low fi n (ys @ [z]) (split_high z s) lp [n]"
      using J(1,2,4) True f high az e none pen_start [of "arr s" n]
      by (simp add: split_inv_def split_high_def Let_def)
    moreover have "arr (split_high z s) ! z = a0 ! z" using True f az by (simp add: split_high_def Let_def)
    ultimately show ?thesis by blast
  next
    case False
    have d: "distinct (empty_pos s # hp @ lp)" using J(3) by (auto simp: split_places_def)
    have sub: "set hp \<subseteq> {..<length (arr s)}" using split_places_sub [OF J(3)] z(3) J(1) by auto
    have ys: "ys \<noteq> []" using J(3) False split_places_Nil by blast
    define a' where "a' = (if highused s then arr s else put_link (gpos2 s) (ptr_to_rec2 s) (Some z) (arr s))"
    note G = grow_chain [OF J(6) False J(7) d sub J(4) ys nxt [OF ys], folded a'_def]
    have lu: "\<not> (lowused s \<and> highused s)"
      using J(5,7) d pen_last [OF J(6) False] pen_last [OF J(4)] by (auto simp: wrote_def)
    define s' where "s' = split_high z s"
    have s': "arr s' = a'" "lowfind s' = lowfind s" "highfind s'" "highused s'" "\<not> lowused s'" "gpos2 s' = z"
      "ptr_to_rec2 s' = Some (link_data (a0 ! z))" "empty_pos s' = empty_pos s" "gpos s' = gpos s" "ptr_to_rec s' = ptr_to_rec s"
      using f False az lu unfolding s'_def a'_def split_high_def by (auto simp: Let_def)
    have "z \<notin> set hp" using split_places_sub [OF J(3)] z by auto
    then have az': "a' ! z = a0 ! z" using G(4) az by simp
    moreover have "a' ! j = a0 ! j" if "j \<noteq> n" "j \<notin> set (ys @ [z])" for j
    proof -
      have "j \<notin> set hp" using that split_places_sub [OF J(3)] by auto
      then show ?thesis using that G(4) J(2) by simp
    qed
    ultimately have "split_inv a0 low fi n (ys @ [z]) s' lp (hp @ [z])"
      using split_places_high [OF J(3) ys False z(1,2)] G(1-3) J(1) high f(1)
      by (simp add: split_inv_def s' wrote_def)
    then show ?thesis using az' s'(1) unfolding s'_def by auto
  qed
qed

lemma split_step_inv:
  assumes "split_inv a0 low fi n ys s lp hp" and "z \<noteq> n" "z \<notin> set ys" "insert n (set ys) \<subseteq> {..<length a0}"
    and "ys = [] \<Longrightarrow> z = fi" and "ys \<noteq> [] \<Longrightarrow> next_link (a0 ! last ys) = Some z"
    and low: "\<And>r. low r \<longleftrightarrow> unat (rec_hashnr h r) div half mod 2 = 0"
  shows "\<exists>lp hp. split_inv a0 low fi n (ys @ [z]) (split_step h half z s) lp hp \<and> arr (split_step h half z s) ! z = a0 ! z"
proof -
  have "arr s ! z = a0 ! z" by (rule split_invD(2) [OF assms(1-3)])
  then have "split_step h half z s = (if low (link_data (a0 ! z)) then split_low z s else split_high z s)"
    by (simp add: split_step_def low)
  then show ?thesis
    using split_low_inv [OF assms(1-6)] split_high_inv [OF assms(1-6)] by (cases "low (link_data (a0 ! z))") (simp_all, blast+)
qed

lemma split_loop_inv:
  assumes "split_inv a0 low fi n ys s lp hp" and "lseg a0 (Some z) (z # zs) None" and "distinct (n # ys @ z # zs)"
    and "insert n (set ys) \<subseteq> {..<length a0}" and "ys = [] \<Longrightarrow> z = fi" and "ys \<noteq> [] \<Longrightarrow> next_link (a0 ! last ys) = Some z"
    and "\<And>r. low r \<longleftrightarrow> unat (rec_hashnr h r) div half mod 2 = 0" and "length zs < fuel"
    and "first \<Longrightarrow> hash_rec_mask h (link_data (a0 ! z)) (blength h) (records h) = fi"
  shows "\<exists>s' lp hp. split_loop h half fi first z fuel s = Some s' \<and> split_inv a0 low fi n (ys @ z # zs) s' lp hp"
  using assms
proof (induction zs arbitrary: z ys s lp hp fuel first)
  case (Cons y zs)
  obtain fuel' where fuel: "fuel = Suc fuel'" "length zs < fuel'" using Cons.prems(8) by (cases fuel) auto
  have z: "z \<noteq> n" "z \<notin> set ys" and y: "next_link (a0 ! z) = Some y" using Cons.prems(2,3) by auto
  have az: "arr s ! z = a0 ! z" by (rule split_invD(2) [OF Cons.prems(1) z])
  from split_step_inv [OF Cons.prems(1) z Cons.prems(4-7)] obtain lp' hp' where
    I': "split_inv a0 low fi n (ys @ [z]) (split_step h half z s) lp' hp'" and az': "arr (split_step h half z s) ! z = a0 ! z"
    by blast
  have "\<exists>s' lp hp. split_loop h half fi False y fuel' (split_step h half z s) = Some s' \<and>
      split_inv a0 low fi n ((ys @ [z]) @ y # zs) s' lp hp"
    by (rule Cons.IH [OF I']) (use Cons.prems y fuel in auto)
  then show ?case using Cons.prems(9) az az' y by (auto simp: fuel split_loop.simps(2))
next
  case Nil
  obtain fuel' where fuel: "fuel = Suc fuel'" using Nil.prems(8) by (cases fuel) auto
  have z: "z \<noteq> n" "z \<notin> set ys" using Nil.prems(3) by auto
  have az: "arr s ! z = a0 ! z" by (rule split_invD(2) [OF Nil.prems(1) z])
  from split_step_inv [OF Nil.prems(1) z Nil.prems(4-7)] Nil.prems(2,9) az show ?case
    by (auto simp: fuel split_loop.simps(2))
qed

text \<open>At the end the last element of each chain is written, if it is not the last of the old one.\<close>

lemma write_chain:
  assumes P: "pen a st rs lp f g r" and W: "wrote u a0 a zs lp g r" and d: "distinct (lp @ hp)"
    and sub: "set lp \<subseteq> {..<length a}" and Q: "pen a st' rs' hp f' g' r'"
    and nxt: "next_link (a0 ! last zs) = None"
  defines "a' \<equiv> if f \<and> \<not> u then put_link g r None a else a"
  shows "lp \<noteq> [] \<Longrightarrow> lseg a' (Some st) lp None" and "rlist a' lp = rs" and "pen a' st' rs' hp f' g' r'"
    and "length a' = length a" and "j \<notin> set lp \<Longrightarrow> a' ! j = a ! j"
proof -
  have f: "f = (lp \<noteq> [])" by (rule pen_find [OF P])
  have a': "a' = (if u then a else put_link g r None a)" if "lp \<noteq> []" using f that unfolding a'_def by simp
  have g: "g \<in> set lp" "g < length a" if "lp \<noteq> []" using pen_last [OF P that] d sub by auto
  have u: "next_link (a ! g) = None \<and> r = Some (link_data (a ! g))" if u
    using W nxt that unfolding wrote_def by metis
  note pw = pen_write [OF P _ _ _ u]
  show "lp \<noteq> [] \<Longrightarrow> lseg a' (Some st) lp None" using pw(1) g(2) d a' by simp
  show "rlist a' lp = rs"
    using pw(2) g(2) d a' P by (cases "lp = []") (simp_all add: rlist_def)
  show len: "length a' = length a" by (simp add: a'_def put_link_def split: option.split)
  have kept: "a' ! j = a ! j" if "j \<notin> set lp" for j
    using that g(1) f by (auto simp: a'_def put_link_def nth_update split: option.split)
  then show "j \<notin> set lp \<Longrightarrow> a' ! j = a ! j" .
  show "pen a' st' rs' hp f' g' r'"
    by (rule pen_stable [OF Q len]) (use kept d in \<open>auto dest: in_set_butlastD\<close>)
qed

lemma split_end_chains:
  assumes I: "split_inv a0 low fi n zs s lp hp" and nxt: "next_link (a0 ! last zs) = None"
    and sub: "insert n (set zs) \<subseteq> {..<length a0}"
  defines "a \<equiv> arr (split_end s)"
  shows "length a = length a0" and "j \<noteq> n \<Longrightarrow> j \<notin> set zs \<Longrightarrow> a ! j = a0 ! j" and "empty_pos (split_end s) = empty_pos s"
    and "lp \<noteq> [] \<Longrightarrow> lseg a (Some fi) lp None" and "rlist a lp = filter low (rlist a0 zs)"
    and "hp \<noteq> [] \<Longrightarrow> lseg a (Some n) hp None" and "rlist a hp = filter (\<lambda>r. \<not> low r) (rlist a0 zs)"
proof -
  note J = split_invD [OF I]
  have d: "distinct (lp @ hp)" "distinct (hp @ lp)" and ls: "set lp \<subseteq> {..<length a0}" "set hp \<subseteq> {..<length a0}"
    using J(3) split_places_sub [OF J(3)] sub by (auto simp: split_places_def)
  define a1 where "a1 = (if lowfind s \<and> \<not> lowused s then put_link (gpos s) (ptr_to_rec s) None (arr s) else arr s)"
  note L = write_chain [OF J(4,5) d(1) _ J(6) nxt, folded a1_def]
  have a: "a = (if highfind s \<and> \<not> highused s then put_link (gpos2 s) (ptr_to_rec2 s) None a1 else a1)"
    unfolding a_def a1_def by (cases "lowfind s \<and> \<not> lowused s") (auto simp: split_end_def Let_def)
  have "wrote (highused s) a0 a1 zs hp (gpos2 s) (ptr_to_rec2 s)"
  proof (cases "highused s")
    case True
    with J(7) have "gpos2 s \<notin> set lp" using pen_last [OF J(6)] d by (auto simp: wrote_def)
    then have "a1 ! gpos2 s = arr s ! gpos2 s" using L(5) ls J(1) by simp
    with J(7) show ?thesis unfolding wrote_def by metis
  qed simp
  moreover have "pen a1 n (filter (\<lambda>r. \<not> low r) (rlist a0 zs)) hp (highfind s) (gpos2 s) (ptr_to_rec2 s)"
    using L(3) ls J(1) by simp
  ultimately have HP: "pen a1 n (filter (\<lambda>r. \<not> low r) (rlist a0 zs)) hp (highfind s) (gpos2 s) (ptr_to_rec2 s)"
    "wrote (highused s) a0 a1 zs hp (gpos2 s) (ptr_to_rec2 s)" by simp_all
  have len1: "length a1 = length a0" using L(4) ls J(1) by simp
  have "pen a1 0 [] [] False 0 None" by simp
  from write_chain [OF HP _ _ this nxt, folded a] d ls len1
  have H: "hp \<noteq> [] \<Longrightarrow> lseg a (Some n) hp None" "rlist a hp = filter (\<lambda>r. \<not> low r) (rlist a0 zs)"
    "length a = length a1" "\<And>j. j \<notin> set hp \<Longrightarrow> a ! j = a1 ! j" by auto
  show "hp \<noteq> [] \<Longrightarrow> lseg a (Some n) hp None" "rlist a hp = filter (\<lambda>r. \<not> low r) (rlist a0 zs)"
    "length a = length a0" using H len1 by simp_all
  show "empty_pos (split_end s) = empty_pos s" by (simp add: split_end_def Let_def)
  have disj: "a ! j = a1 ! j" if "j \<in> set lp" for j using H(4) d(1) that by auto
  then have "rlist a lp = rlist a1 lp" by (simp add: rlist_def)
  then show "rlist a lp = filter low (rlist a0 zs)" using L(2) ls J(1) by simp
  show "lseg a (Some fi) lp None" if "lp \<noteq> []"
    using L(1) that ls J(1) lseg_cong [OF H(3), of lp] disj by simp
  show "a ! j = a0 ! j" if "j \<noteq> n" "j \<notin> set zs"
  proof -
    have "j \<notin> set lp" "j \<notin> set hp" using that split_places_sub [OF J(3)] by auto
    then show ?thesis using that H(4) L(5) J(1,2) ls by simp
  qed
qed

section \<open>Homes while the table grows\<close>

lemma hash_mask_parts:
  fixes x :: u32
  assumes "0 < half" and "half \<le> n" and "n < 2 * half"
  shows "hash_mask x (2 * half) n \<noteq> n - half \<Longrightarrow> hash_mask x (2 * half) (Suc n) = hash_mask x (2 * half) n"
    and "hash_mask x (2 * half) n = n - half \<Longrightarrow>
      hash_mask x (2 * half) (Suc n) = (if unat x div half mod 2 = 0 then n - half else n)"
proof -
  define m q where "m = unat x mod half" and "q = unat x div half mod 2"
  have split: "unat x mod (2 * half) = half * q + m"
    unfolding m_def q_def by (metis mod_mult2_eq mult.commute)
  have "unat x mod (2 * half div 2) = m" by (simp add: m_def)
  with split have hm: "hash_mask x (2 * half) k = (if half * q + m < k then half * q + m else m)" for k
    by (simp only: hash_mask_def)
  have m: "m < half" using assms(1) by (simp add: m_def)
  have "q = 0 \<or> q = 1" unfolding q_def by linarith
  with m assms(2,3) show "hash_mask x (2 * half) n \<noteq> n - half \<Longrightarrow> hash_mask x (2 * half) (Suc n) = hash_mask x (2 * half) n"
    and "hash_mask x (2 * half) n = n - half \<Longrightarrow>
      hash_mask x (2 * half) (Suc n) = (if unat x div half mod 2 = 0 then n - half else n)"
    unfolding hm q_def [symmetric] by (auto split: if_splits)
qed

lemma buckets_append: "buckets a hm P B \<Longrightarrow> buckets (a @ xs) hm P B"
proof (rule bucketsI)
  assume B: "buckets a hm P B"
  show "P \<subseteq> {..<length (a @ xs)}" using bucketsD(1) [OF B] by auto
  have at: "(a @ xs) ! i = a ! i" if "i \<in> P" for i using bucketsD(1) [OF B] that by (auto simp: nth_append)
  show "distinct (B b)" for b by (rule bucketsD(2) [OF B])
  show "i \<in> set (B b) \<longleftrightarrow> i \<in> P \<and> hm (link_data ((a @ xs) ! i)) = b" for b i
    using bucketsD(3) [OF B, of i b] at by auto
  have grow: "lseg a p ys q \<Longrightarrow> lseg (a @ xs) p ys q" for p ys q
    by (induction ys arbitrary: p) (auto simp: nth_append)
  show "B b \<noteq> [] \<Longrightarrow> lseg (a @ xs) (Some b) (B b) None" for b using grow bucketsD(4) [OF B] by blast
qed

lemma recs_list: "distinct xs \<Longrightarrow> recs a (set xs) = mset (rlist a xs)"
  by (simp add: recs_def rlist_def mset_set_set)

lemma recs_Un: "finite P \<Longrightarrow> finite Q \<Longrightarrow> P \<inter> Q = {} \<Longrightarrow> recs a (P \<union> Q) = recs a P + recs a Q"
  by (simp add: recs_def mset_set_Union)

text \<open>What the split leaves: the two chains in the place of the old one.\<close>

lemma buckets_split:
  assumes B: "buckets a0 hm0 {..<n} B" and zs: "B fi = zs" and n: "n < length a0"
    and hm0: "\<And>i. i < n \<Longrightarrow> hm0 (link_data (a0 ! i)) < n" and fi: "fi < n"
    and same: "\<And>x. hm0 x \<noteq> fi \<Longrightarrow> hm1 x = hm0 x" and new: "\<And>x. hm0 x = fi \<Longrightarrow> hm1 x = (if low x then fi else n)"
    and places: "split_places fi n zs e lp hp" and len: "length a = length a0"
    and frame: "\<And>j. j \<noteq> n \<Longrightarrow> j \<notin> set zs \<Longrightarrow> a ! j = a0 ! j"
    and lp: "lp \<noteq> [] \<Longrightarrow> lseg a (Some fi) lp None" "rlist a lp = filter low (rlist a0 zs)"
    and hp: "hp \<noteq> [] \<Longrightarrow> lseg a (Some n) hp None" "rlist a hp = filter (\<lambda>r. \<not> low r) (rlist a0 zs)"
  shows "buckets a hm1 ({..n} - {e}) (B(fi := lp, n := hp))" and "recs a ({..n} - {e}) = recs a0 {..<n}"
proof -
  note D = bucketsD [OF B]
  have zsP: "i \<in> set zs \<longleftrightarrow> i < n \<and> hm0 (link_data (a0 ! i)) = fi" for i using D(3) [of i fi] zs by simp
  have pl: "e \<notin> set lp" "e \<notin> set hp" "set lp \<inter> set hp = {}" "distinct lp" "distinct hp"
    "insert e (set lp \<union> set hp) = insert n (set zs)"
    using places by (auto simp: split_places_def)
  have old: "hm0 x = fi" if "x \<in> set (rlist a0 zs)" for x
  proof -
    from that obtain j where "j \<in> set zs" "x = link_data (a0 ! j)" by (auto simp: rlist_def)
    with zsP [of j] show ?thesis by simp
  qed
  have low: "hm1 (link_data (a ! i)) = fi" if "i \<in> set lp" for i
  proof -
    have "link_data (a ! i) \<in> set (rlist a lp)" using that by (simp add: rlist_def)
    then show ?thesis unfolding lp(2) using old new by simp
  qed
  have high: "hm1 (link_data (a ! i)) = n" if "i \<in> set hp" for i
  proof -
    have "link_data (a ! i) \<in> set (rlist a hp)" using that by (simp add: rlist_def)
    then show ?thesis unfolding hp(2) using old new by simp
  qed
  have rest: "a ! i = a0 ! i \<and> hm1 (link_data (a ! i)) = hm0 (link_data (a0 ! i)) \<and> hm0 (link_data (a0 ! i)) \<noteq> fi"
    if "i < n" "i \<notin> set zs" for i using that frame [of i] zsP [of i] same by auto
  have Bn: "B n = []" by (rule bucket_empty [OF B]) simp
  have other: "i \<in> set (B b) \<longleftrightarrow> i < n \<and> i \<notin> set zs \<and> hm1 (link_data (a ! i)) = b" if "b \<noteq> fi" "b \<noteq> n" for i b
    using D(3) [of i b] rest [of i] zsP [of i] that by auto
  have zsn: "set zs \<subseteq> {..<n}" using zsP by auto
  then have "{..n} = insert n (set zs) \<union> ({..<n} - set zs)" by (auto simp: less_le)
  then have all: "{..n} - {e} = set lp \<union> set hp \<union> ({..<n} - set zs)" using pl(1,2,6) by auto
  show "buckets a hm1 ({..n} - {e}) (B(fi := lp, n := hp))"
  proof (rule bucketsI)
    show "{..n} - {e} \<subseteq> {..<length a}" using n len by auto
    show "distinct ((B(fi := lp, n := hp)) b)" for b using pl D(2) by simp
    show "i \<in> set ((B(fi := lp, n := hp)) b) \<longleftrightarrow> i \<in> {..n} - {e} \<and> hm1 (link_data (a ! i)) = b" for b i
    proof -
      consider (l) "i \<in> set lp" | (h) "i \<in> set hp" | (r) "i < n" "i \<notin> set zs" "i \<notin> set lp" "i \<notin> set hp" |
        (no) "i \<notin> {..n} - {e}" using all by auto
      then show ?thesis
      proof cases
        case l
        have "i \<in> {..n} - {e}" "i \<notin> set hp" unfolding all using l pl(3) by auto
        moreover have "i \<notin> set (B b)" if "b \<noteq> fi" "b \<noteq> n" using low [OF l] other [OF that, of i] that by simp
        ultimately show ?thesis using low [OF l] l fi by (cases "b = fi"; cases "b = n") simp_all
      next
        case h
        have "i \<in> {..n} - {e}" "i \<notin> set lp" unfolding all using h pl(3) by auto
        moreover have "i \<notin> set (B b)" if "b \<noteq> fi" "b \<noteq> n" using high [OF h] other [OF that, of i] that by simp
        ultimately show ?thesis using high [OF h] h fi by (cases "b = fi"; cases "b = n") simp_all
      next
        case r
        have "i \<in> {..n} - {e}" unfolding all using r(1,2) by simp
        moreover have "hm1 (link_data (a ! i)) \<noteq> fi" "hm1 (link_data (a ! i)) \<noteq> n"
          using rest [OF r(1,2)] hm0 [OF r(1)] by auto
        moreover have "i \<in> set (B b) \<longleftrightarrow> hm1 (link_data (a ! i)) = b" if "b \<noteq> fi" "b \<noteq> n"
          using other [OF that, of i] r(1,2) by simp
        ultimately show ?thesis using r(3,4) by (cases "b = fi"; cases "b = n") simp_all
      next
        case no
        then have "i \<notin> set (B b)" if "b \<noteq> fi" "b \<noteq> n"
          using other [OF that, of i] unfolding all by auto
        moreover have "i \<notin> set lp" "i \<notin> set hp" using no unfolding all by auto
        ultimately show ?thesis using no by simp
      qed
    qed
    show "(B(fi := lp, n := hp)) b \<noteq> [] \<Longrightarrow> lseg a (Some b) ((B(fi := lp, n := hp)) b) None" for b
      using lp(1) hp(1) lseg_kept [OF B _ len, of b] other [of b] frame by (auto split: if_splits)
  qed
  have dz: "distinct zs" using zsn D(2) [of fi] zs by auto
  have "set lp \<union> set hp \<subseteq> insert n (set zs)" using pl(6) by auto
  then have "recs a ({..n} - {e}) = mset (rlist a lp) + mset (rlist a hp) + recs a ({..<n} - set zs)"
    unfolding all using pl by (subst recs_Un) (auto simp: recs_Un recs_list)
  also have "mset (rlist a lp) + mset (rlist a hp) = mset (rlist a0 zs)"
    by (simp add: lp hp mset_filter flip: multiset_partition)
  also have "recs a ({..<n} - set zs) = recs a0 ({..<n} - set zs)"
    by (rule recs_cong) (use rest in auto)
  also have "mset (rlist a0 zs) + recs a0 ({..<n} - set zs) = recs a0 {..<n}"
    using recs_Un [of "set zs" "{..<n} - set zs" a0] zsn by (simp add: recs_list [OF dz] Un_absorb1)
  finally show "recs a ({..n} - {e}) = recs a0 {..<n}" .
qed

section \<open>Insert\<close>

text \<open>A well-formed table is one that has buckets for the homes of its records.\<close>

definition hash_hm :: "'r HASH \<Rightarrow> 'r \<Rightarrow> nat" where
  "hash_hm h r = hash_rec_mask h r (blength h) (records h)"

definition hash_recs :: "'r HASH \<Rightarrow> 'r multiset" where
  "hash_recs h = mset (map link_data (links h))"

lemma recs_all: "length a = n \<Longrightarrow> recs a {..<n} = mset (map link_data a)"
proof -
  assume "length a = n"
  then have "rlist a [0..<n] = map link_data a" by (intro nth_equalityI) (simp_all add: rlist_def)
  with recs_list [of "[0..<n]" a] show ?thesis by (simp add: atLeast0LessThan)
qed

lemma hash_wf_buckets:
  "hash_wf h \<longleftrightarrow> hash_sizes h \<and> (\<exists>B. buckets (links h) (hash_hm h) {..<records h} B)"
proof
  assume wf: "hash_wf h"
  then have sizes: "hash_sizes h" "length (links h) = records h" by (auto simp: hash_wf_def hash_sizes_def)
  define B where "B b = (if \<exists>i<records h. home h i = b then (SOME xs. link_path (links h) (Some b) xs) else [])" for b
  have B: "link_path (links h) (Some b) (B b) \<and> distinct (B b) \<and> (\<forall>j. j \<in> set (B b) \<longleftrightarrow> j < records h \<and> home h j = b)"
    if "i < records h" "home h i = b" for i b
  proof -
    from hash_wf_path [OF wf that(1)] that(2) obtain xs where
      xs: "link_path (links h) (Some b) xs" "distinct xs" "\<forall>j \<in> set xs. home h j = b" by auto
    have "B b = xs"
      using that link_path_unique [OF xs(1)] someI [of "link_path (links h) (Some b)", OF xs(1)] by (auto simp: B_def)
    moreover have "j \<in> set xs" if "j < records h" "home h j = b" for j
      using hash_wf_path [OF wf that(1)] that(2) link_path_unique [OF xs(1)] by auto
    moreover have "j < records h" if "j \<in> set xs" for j using link_path_bound [OF xs(1)] that sizes(2) by auto
    ultimately show ?thesis using xs by auto
  qed
  have none: "B b = []" if "\<not> (\<exists>i<records h. home h i = b)" for b
    by (simp only: B_def if_not_P [OF that])
  have "buckets (links h) (hash_hm h) {..<records h} B"
  proof (rule bucketsI)
    show "distinct (B b)" for b using B none [of b] by (cases "\<exists>i<records h. home h i = b") auto
    show "i \<in> set (B b) \<longleftrightarrow> i \<in> {..<records h} \<and> hash_hm h (link_data (links h ! i)) = b" for b i
      using B [of _ b] none [of b] by (cases "\<exists>i<records h. home h i = b") (auto simp: home_def hash_hm_def)
    show "B b \<noteq> [] \<Longrightarrow> lseg (links h) (Some b) (B b) None" for b
      using B [of _ b] none [of b] by (auto simp: link_path_lseg)
  qed (use sizes in simp)
  with sizes show "hash_sizes h \<and> (\<exists>B. buckets (links h) (hash_hm h) {..<records h} B)" by blast
next
  assume "hash_sizes h \<and> (\<exists>B. buckets (links h) (hash_hm h) {..<records h} B)"
  then obtain B where sizes: "hash_sizes h" and B: "buckets (links h) (hash_hm h) {..<records h} B" by blast
  have "\<exists>xs. link_path (links h) (Some (home h i)) xs \<and> distinct xs \<and> i \<in> set xs \<and> (\<forall>j \<in> set xs. home h j = home h i)"
    if "i < records h" for i
  proof -
    have m: "j \<in> set (B (home h i)) \<longleftrightarrow> j < records h \<and> home h j = home h i" for j
      using bucketsD(3) [OF B, of j "home h i"] by (simp add: home_def hash_hm_def)
    then have i: "i \<in> set (B (home h i))" using that by simp
    then have "B (home h i) \<noteq> []" by auto
    then show ?thesis
      using bucketsD(2,4) [OF B, of "home h i"] m i by (intro exI [of _ "B (home h i)"]) (auto simp: link_path_lseg)
  qed
  with sizes show "hash_wf h" by (simp add: hash_wf_def)
qed

lemma hash_hm_less: "hash_sizes h \<Longrightarrow> 0 < records h \<Longrightarrow> hash_hm h r < records h"
  using hash_mask_bound by (simp add: hash_hm_def hash_rec_mask_def)

lemma blength_half:
  "hash_sizes h \<Longrightarrow> 0 < records h \<Longrightarrow>
     blength h = 2 * (blength h div 2) \<and> 0 < blength h div 2 \<and> blength h div 2 \<le> records h"
proof -
  assume S: "hash_sizes h" and n: "0 < records h"
  then obtain k where "blength h = 2 ^ k" by (auto simp: hash_sizes_def)
  moreover from this S n have "k \<noteq> 0" by (cases k) (auto simp: hash_sizes_def)
  ultimately show ?thesis using S by (cases k) (auto simp: hash_sizes_def)
qed

text \<open>The home of a record once the table has one element more.\<close>

definition grown_hm :: "'r HASH \<Rightarrow> 'r \<Rightarrow> nat" where
  "grown_hm h r = hash_rec_mask h r (blength h) (Suc (records h))"

lemma grown_hm_less: "hash_sizes h \<Longrightarrow> grown_hm h r \<le> records h"
proof -
  assume S: "hash_sizes h"
  have "hash_mask (rec_hashnr h r) (blength h) (Suc (records h)) < Suc (records h)"
  proof (rule hash_mask_less)
    obtain k where "blength h = 2 ^ k" using S by (auto simp: hash_sizes_def)
    then show "0 < blength h div 2 \<or> blength h = 1" by (cases k) simp_all
  qed (use S in \<open>simp_all add: hash_sizes_def\<close>)
  then show ?thesis by (simp add: grown_hm_def hash_rec_mask_def)
qed

lemma split_chain_bag:
  assumes wf: "hash_wf h"
  shows "\<exists>s B. split_chain h r = Some s \<and> length (arr s) = Suc (records h) \<and> empty_pos s \<le> records h \<and>
    buckets (arr s) (grown_hm h) ({..records h} - {empty_pos s}) B \<and> recs (arr s) ({..records h} - {empty_pos s}) = hash_recs h"
proof -
  define n where "n = records h"
  define a0 where "a0 = links h @ [\<lparr>next_link = None, link_data = r\<rparr>]"
  define s0 where "s0 = \<lparr>lowfind = False, lowused = False, highfind = False, highused = False,
    gpos = 0, ptr_to_rec = None, gpos2 = 0, ptr_to_rec2 = None, empty_pos = n, arr = a0\<rparr>"
  define half where "half = blength h div 2"
  define fi where "fi = n - half"
  obtain B where S: "hash_sizes h" and B0: "buckets (links h) (hash_hm h) {..<n} B"
    using wf by (auto simp: hash_wf_buckets n_def)
  have len: "length (links h) = n" "length a0 = Suc n" using S by (auto simp: hash_sizes_def n_def a0_def)
  have B: "buckets a0 (hash_hm h) {..<n} B" unfolding a0_def by (rule buckets_append [OF B0])
  have recs0: "recs a0 {..<n} = hash_recs h"
  proof -
    have "recs a0 {..<n} = recs (links h) {..<n}" by (rule recs_cong) (simp_all add: a0_def nth_append len)
    then show ?thesis using recs_all [OF len(1)] by (simp add: hash_recs_def)
  qed
  have chain: "split_chain h r =
      (if fi \<noteq> n then map_option split_end (split_loop h half fi True fi (Suc n) s0) else Some s0)"
    by (simp add: split_chain_def Let_def n_def fi_def half_def s0_def a0_def)
  show ?thesis
  proof (cases "n = 0")
    case True
    have "buckets a0 (grown_hm h) {} (\<lambda>_. [])" by (simp add: buckets_def)
    with True chain recs0 len show ?thesis
      by (intro exI [of _ s0] exI [of _ "\<lambda>_. []"]) (auto simp: n_def fi_def s0_def recs_def)
  next
    case False
    then have half: "0 < half" "half \<le> n" "blength h = 2 * half" "n < 2 * half"
      using blength_half [OF S] S by (auto simp: half_def n_def hash_sizes_def)
    then have fi: "fi < n" "fi \<noteq> n" by (auto simp: fi_def)
    have hm0: "hash_hm h x < n" for x using hash_hm_less [OF S] False by (simp add: n_def)
    define low where "low x \<longleftrightarrow> unat (rec_hashnr h x) div half mod 2 = 0" for x
    have same: "hash_hm h x \<noteq> fi \<Longrightarrow> grown_hm h x = hash_hm h x"
      and new: "hash_hm h x = fi \<Longrightarrow> grown_hm h x = (if low x then fi else n)" for x
      using hash_mask_parts [OF half(1,2,4), of "rec_hashnr h x"]
      by (simp_all add: hash_hm_def grown_hm_def hash_rec_mask_def fi_def low_def flip: half(3) n_def)
    show ?thesis
    proof (cases "hash_hm h (link_data (a0 ! fi)) = fi")
      case out: False
      have "B fi = []" by (rule bucket_empty [OF B]) (use out in simp)
      then have "grown_hm h (link_data (a0 ! i)) = hash_hm h (link_data (a0 ! i))" if "i < n" for i
        using bucketsD(3) [OF B, of i fi] that same by auto
      then have "buckets a0 (grown_hm h) {..<n} B"
        using bucketsD(1-4) [OF B] by (intro bucketsI) auto
      moreover have "split_chain h r = Some s0"
        using chain fi out by (auto simp: split_loop.simps(2) s0_def hash_hm_def split_end_def)
      moreover have "{..n} - {n} = {..<n}" by auto
      ultimately show ?thesis
        using recs0 len by (intro exI [of _ s0] exI [of _ B]) (simp add: s0_def flip: n_def)
    next
      case True
      have "fi \<in> set (B fi)" using bucketsD(3) [OF B, of fi fi] True fi by simp
      then obtain zs where zs: "B fi = fi # zs" using bucket_hd [OF B, of fi] by fastforce
      have seg: "lseg a0 (Some fi) (fi # zs) None" and dist: "distinct (fi # zs)"
        using bucketsD(2,4) [OF B, of fi] zs by auto
      have sub: "set (fi # zs) \<subseteq> {..<n}" using bucketsD(3) [OF B, of _ fi] zs by auto
      then have subn: "insert n (set (fi # zs)) \<subseteq> {..<length a0}" and nin: "n \<notin> set (fi # zs)" using len by auto
      have "card (set (fi # zs)) \<le> n" using card_mono [OF _ sub] by simp
      then have fuel: "length zs < Suc n" using distinct_card [OF dist] by simp
      have start: "split_inv a0 low fi n [] s0 [] []" by (rule split_inv_start) (simp_all add: s0_def)
      from split_loop_inv [OF start seg _ _ _ _ _ fuel, of h half True] obtain s' lp hp where
        s': "split_loop h half fi True fi (Suc n) s0 = Some s'" and I: "split_inv a0 low fi n (fi # zs) s' lp hp"
        using dist nin len True by (auto simp: low_def hash_hm_def)
      have "next_link (a0 ! last (fi # zs)) = None"
        by (rule lseg_last [OF seg]) simp
      note E = split_end_chains [OF I this subn]
      have P: "split_places fi n (fi # zs) (empty_pos s') lp hp" by (rule split_invD(3) [OF I])
      have n: "n < length a0" using len by simp
      note S' = buckets_split [OF B zs n hm0 fi(1) same new P E(1,2,4,5,6,7)]
      have "empty_pos s' \<in> insert n (set (fi # zs))" using P unfolding split_places_def by blast
      then have "empty_pos (split_end s') \<le> n" unfolding E(3) using sub by auto
      moreover have "split_chain h r = Some (split_end s')" using chain s' fi(2) by simp
      moreover have "length (arr (split_end s')) = Suc n" using E(1) len by simp
      moreover have "buckets (arr (split_end s')) (grown_hm h) ({..n} - {empty_pos (split_end s')}) (B(fi := lp, n := hp))"
        unfolding E(3) by (rule S'(1))
      moreover have "recs (arr (split_end s')) ({..n} - {empty_pos (split_end s')}) = hash_recs h"
        unfolding E(3) using S'(2) recs0 by (rule trans)
      ultimately show ?thesis unfolding n_def by blast
    qed
  qed
qed

text \<open>When the mask doubles, no record changes its home.\<close>

lemma hash_mask_double: "0 < b \<Longrightarrow> hash_mask x (2 * b) b = hash_mask x b b"
  using mod_mod_cancel [of b "2 * b" "unat x"] by (auto simp: hash_mask_def)

definition blength_double :: "nat \<Rightarrow> nat \<Rightarrow> nat" where
  "blength_double n b = (if n = b then b + b else b)"

lemma hash_mask_double_if: "0 < b \<Longrightarrow> hash_mask x (blength_double n b) n = hash_mask x b n"
  using hash_mask_double [of b x] by (simp add: blength_double_def mult_2)

lemma double_sizes:
  assumes "\<exists>k. b = (2 :: nat) ^ k" and "b div 2 \<le> n" and "n < b"
  shows "(\<exists>k. blength_double (Suc n) b = 2 ^ k) \<and> blength_double (Suc n) b div 2 \<le> Suc n \<and>
    Suc n < blength_double (Suc n) b"
proof -
  obtain k where k: "b = 2 ^ k" using assms(1) by blast
  show ?thesis
  proof (cases "Suc n = b")
    case True
    with k have "blength_double (Suc n) b = 2 ^ Suc k" by (simp add: blength_double_def)
    with True k show ?thesis by (auto intro: exI [of _ "Suc k"])
  next
    case False
    with assms k show ?thesis by (auto simp: blength_double_def)
  qed
qed

lemma hash_wfI:
  assumes "hash_sizes h" and "buckets (links h) hm {..<records h} B" and "\<And>r. hm r = hash_hm h r"
  shows "hash_wf h"
proof -
  have "hm = hash_hm h" using assms(3) by blast
  with assms(1,2) show ?thesis by (auto simp: hash_wf_buckets)
qed

lemma hash_wf_grow [simp]: "hash_wf (grow_array h) = hash_wf h"
  by (simp add: hash_wf_def hash_sizes_def home_def hash_rec_mask_def rec_hashnr_def)

text \<open>An insert, once the array has room for the new element.\<close>

definition insert_result :: "'r HASH \<Rightarrow> 'r HASH_LINK list \<Rightarrow> 'r HASH" where
  "insert_result h a = h\<lparr>links := a, current_record := None, records := Suc (records h),
     blength := blength_double (Suc (records h)) (blength h)\<rparr>"

lemma hash_insert_place:
  assumes wf: "hash_wf h"
  shows "\<exists>s a. split_chain h r = Some s \<and> place_record h r (empty_pos s) (arr s) = Some a \<and>
    length a = Suc (records h) \<and> hash_wf (insert_result h a) \<and>
    hash_recs (insert_result h a) = add_mset r (hash_recs h)"
proof -
  have S: "hash_sizes h" using wf by (simp add: hash_wf_def)
  let ?n = "records h"
  from split_chain_bag [OF wf, of r] obtain s B where
    s: "split_chain h r = Some s" "length (arr s) = Suc ?n" "empty_pos s \<le> ?n"
    and B: "buckets (arr s) (grown_hm h) ({..?n} - {empty_pos s}) B" "recs (arr s) ({..?n} - {empty_pos s}) = hash_recs h"
    by blast
  have P: "empty_pos s \<notin> {..?n} - {empty_pos s}" "insert (empty_pos s) ({..?n} - {empty_pos s}) = {..?n}"
    using s(3) by auto
  have "grown_hm h r \<le> ?n" by (rule grown_hm_less [OF S])
  from place_record_bag [OF B(1) [unfolded grown_hm_def [abs_def]] s(2) P this [unfolded grown_hm_def]]
  obtain a' B' where a': "place_record h r (empty_pos s) (arr s) = Some a'" "length a' = Suc ?n"
    and B': "buckets a' (grown_hm h) {..?n} B'" "recs a' {..?n} = add_mset r (hash_recs h)"
    unfolding P(2) B(2) s(2) grown_hm_def [abs_def] by blast
  let ?h' = "insert_result h a'"
  have "0 < blength h" using S by (auto simp: hash_sizes_def)
  then have hm: "grown_hm h x = hash_hm ?h' x" for x
    by (simp add: grown_hm_def hash_hm_def hash_rec_mask_def rec_hashnr_def insert_result_def hash_mask_double_if)
  have "hash_sizes ?h'"
    using S double_sizes [of "blength h" ?n] a'(2) by (simp add: hash_sizes_def insert_result_def)
  then have "hash_wf ?h'"
    using B'(1) hm by (intro hash_wfI [of ?h' "grown_hm h" B']) (simp_all add: insert_result_def lessThan_Suc_atMost)
  moreover have "hash_recs ?h' = add_mset r (hash_recs h)"
    using recs_all [OF a'(2)] B'(2) by (simp add: hash_recs_def insert_result_def lessThan_Suc_atMost)
  ultimately show ?thesis using s(1) a' by blast
qed

lemma hash_insert_bag:
  assumes wf: "hash_wf h" and room: "hash_room h" and lim: "size (hash_recs h) < hash_limit"
  shows "\<exists>h'. hash_insert h r = Some h' \<and> hash_wf h' \<and> hash_room h' \<and> hash_recs h' = add_mset r (hash_recs h) \<and>
    get_key h' = get_key h \<and> calc h' = calc h"
proof -
  let ?g = "grow_array h"
  have sz: "length (links h) = records h" "blength h div 2 \<le> records h"
    using wf by (simp_all add: hash_wf_def hash_sizes_def)
  have len: "length (links h) < hash_limit" using lim by (simp add: hash_recs_def)
  have g: "hash_room ?g" "length (links h) < unat (array_max ?g)" using grow_array_room [OF room len] by simp_all
  then have "16 * Suc (length (links ?g)) \<le> unat (array_bytes ?g)" by (simp add: hash_room_def)
  then have "int (16 * Suc (length (links ?g))) \<le> uint (array_bytes ?g)"
    unfolding uint_nat of_nat_le_iff .
  moreover have "uint sizeof_HASH_LINK * int (Suc k) = int (16 * Suc k)" for k
    by (simp add: sizeof_HASH_LINK_def)
  ultimately have fits: "\<not> uint (array_bytes ?g) < uint sizeof_HASH_LINK * int (Suc (length (links ?g)))"
    by (simp only: linorder_not_less)
  from hash_insert_place [of ?g r] wf obtain s a where
    sa: "split_chain ?g r = Some s" "place_record ?g r (empty_pos s) (arr s) = Some a" "length a = Suc (records h)"
      "hash_wf (insert_result ?g a)" "hash_recs (insert_result ?g a) = add_mset r (hash_recs ?g)" by auto
  have n: "wrap32 (records h + 1) = Suc (records h)" "wrap32 (blength h + blength h) = blength h + blength h"
    using sz len by (auto simp: hash_limit_def intro!: wrap32_small)
  have "hash_insert h r = Some (insert_result ?g a)"
    unfolding hash_insert_def Let_def if_not_P [OF fits] sa(1,2) option.case unfolding grow_array_outside n
    by (simp add: insert_result_def blength_double_def)
  moreover have "hash_room (insert_result ?g a)"
    using g sa(3) sz by (simp add: hash_room_def insert_result_def)
  ultimately show ?thesis using sa(4,5) by (simp add: hash_recs_def insert_result_def)
qed

end
