(* ===== verification/Ma_Hash_Delete.thy ===== *)
theory Ma_Hash_Delete
  imports Ma_Hash_Insert
begin

text \<open>
  \<open>hash_delete\<close>: the record is found, its place is freed, and the last element of the array is moved
  to the free place, which joins two chains.
\<close>

section \<open>Delete\<close>

lemma find_loop_none:
  "lseg a (Some p) xs None \<Longrightarrow> length xs \<le> fuel \<Longrightarrow> r \<notin> set (rlist a xs) \<Longrightarrow> find_loop a r prev p fuel = Some None"
proof (induction xs arbitrary: prev p fuel)
  case (Cons x xs)
  obtain fuel' where fuel: "fuel = Suc fuel'" using Cons.prems(2) by (cases fuel) auto
  show ?case
  proof (cases xs)
    case Nil
    with Cons.prems fuel show ?thesis by (simp add: rlist_def)
  next
    case (Cons y ys)
    with Cons.prems fuel Cons.IH [of y fuel' "Some x"] show ?thesis by (auto simp: rlist_def)
  qed
qed simp

lemma find_loop_found:
  "lseg a (Some p) (us @ i # vs) None \<Longrightarrow> length us < fuel \<Longrightarrow> link_data (a ! i) = r \<Longrightarrow> r \<notin> set (rlist a us) \<Longrightarrow>
     find_loop a r prev p fuel = Some (Some (if us = [] then prev else Some (last us), i))"
proof (induction us arbitrary: prev p fuel)
  case Nil
  then show ?case by (cases fuel) auto
next
  case (Cons u us)
  obtain fuel' where fuel: "fuel = Suc fuel'" using Cons.prems(2) by (cases fuel) auto
  obtain y where y: "next_link (a ! u) = Some y" using Cons.prems(1) by (cases us) auto
  with Cons.prems fuel Cons.IH [of y fuel' "Some u"] show ?case by (auto simp: rlist_def)
qed

text \<open>Taking a place out of its chain: the record before it is linked to the one after it.\<close>

lemma buckets_unlink:
  assumes B: "buckets a hm P B" and us: "B b = us @ i # vs" "us \<noteq> []"
  defines "a' \<equiv> a[last us := (a ! last us)\<lparr>next_link := next_link (a ! i)\<rparr>]"
  shows "buckets a' hm (P - {i}) (B(b := us @ vs))" and "add_mset (link_data (a ! i)) (recs a' (P - {i})) = recs a P"
proof -
  note D = bucketsD [OF B]
  have d: "distinct (us @ i # vs)" using D(2) [of b] us by simp
  have seg: "lseg a (Some b) us (Some i)" "lseg a (next_link (a ! i)) vs None"
    using D(4) [of b] us by (auto simp: lseg_append)
  have lu: "last us \<in> set us" using us(2) by simp
  have data: "link_data (a' ! j) = link_data (a ! j)" for j by (simp add: a'_def nth_update)
  have len: "length a' = length a" by (simp add: a'_def)
  have "lseg a' (Some b) us (next_link (a ! i))"
    using lseg_set_last [OF seg(1) us(2), of "(a ! last us)\<lparr>next_link := next_link (a ! i)\<rparr>"] d by (simp add: a'_def)
  moreover have "lseg a' (next_link (a ! i)) vs None"
    by (rule lseg_cong [THEN iffD2, OF _ _ seg(2)]) (use d lu in \<open>auto simp: a'_def nth_update\<close>)
  ultimately have new: "lseg a' (Some b) (us @ vs) None" by (auto simp: lseg_append)
  have "lseg a' (Some c) (B c) None" if "B c \<noteq> []" "c \<noteq> b" for c
  proof (rule lseg_kept [OF B that(1)])
    fix j assume "j \<in> set (B c)"
    with D(3) [of j c] D(3) [of "last us" b] us(1) lu that(2) have "j \<noteq> last us" by auto
    then show "a' ! j = a ! j" by (simp add: a'_def nth_update)
  qed (simp add: a'_def)
  moreover have "j \<in> set us \<or> j \<in> set vs \<longleftrightarrow> j \<in> P - {i} \<and> hm (link_data (a ! j)) = b" for j
    using D(3) [of j b] us d by auto
  moreover have "hm (link_data (a ! i)) = b" using D(3) [of i b] us by simp
  ultimately show "buckets a' hm (P - {i}) (B(b := us @ vs))"
    using D(1-3) d new len by (intro bucketsI) (auto simp: data split: if_splits)
  have "i \<in> P" using D(3) [of i b] us by simp
  then have "recs a P = add_mset (link_data (a ! i)) (recs a (P - {i}))"
    using recs_insert [of "P - {i}" i a] D(5) by (simp add: insert_absorb)
  moreover have "recs a' (P - {i}) = recs a (P - {i})" using D(5) by (intro recs_cong) (simp_all add: data)
  ultimately show "add_mset (link_data (a ! i)) (recs a' (P - {i})) = recs a P" by simp
qed

text \<open>The start of a chain is freed: a chain of one vanishes, otherwise the second moves to the start.\<close>

lemma buckets_single:
  assumes B: "buckets a hm P B" and b: "B b = [b]"
  shows "buckets a hm (P - {b}) (B(b := []))" and "add_mset (link_data (a ! b)) (recs a (P - {b})) = recs a P"
proof -
  note D = bucketsD [OF B]
  have b': "b \<in> P" "hm (link_data (a ! b)) = b" using D(3) [of b b] b by auto
  have "j \<in> P \<and> hm (link_data (a ! j)) = b \<longleftrightarrow> j = b" for j using D(3) [of j b] b by auto
  with b' show "buckets a hm (P - {b}) (B(b := []))"
    using D(1-4) by (intro bucketsI) (auto split: if_splits)
  show "add_mset (link_data (a ! b)) (recs a (P - {b})) = recs a P"
    using recs_insert [of "P - {b}" b a] D(5) b'(1) by (simp add: insert_absorb)
qed

lemma buckets_second:
  assumes B: "buckets a hm P B" and b: "B b = b # q # vs"
  shows "buckets (a[b := a ! q]) hm (P - {q}) (B(b := b # vs))"
    and "add_mset (link_data (a ! b)) (recs (a[b := a ! q]) (P - {q})) = recs a P"
proof -
  note D = bucketsD [OF B]
  let ?a = "a[b := a ! q]"
  have d: "distinct (b # q # vs)" using D(2) [of b] b by simp
  have q: "j \<in> P \<and> hm (link_data (a ! j)) = b \<longleftrightarrow> j \<in> set (b # q # vs)" for j using D(3) [of j b] b by simp
  have bl: "b < length a" using q [of b] D(1) by auto
  have "lseg a (next_link (a ! q)) vs None" using D(4) [of b] b by simp
  then have "lseg ?a (next_link (a ! q)) vs None"
    by (rule lseg_cong [THEN iffD2, rotated 2]) (use d in \<open>auto simp: nth_update\<close>)
  then have new: "lseg ?a (Some b) (b # vs) None" using bl by simp
  have "lseg ?a (Some c) (B c) None" if "B c \<noteq> []" "c \<noteq> b" for c
  proof (rule lseg_kept [OF B that(1)])
    fix j assume "j \<in> set (B c)"
    with D(3) [of j c] q [of b] that(2) have "j \<noteq> b" by auto
    then show "?a ! j = a ! j" by (simp add: nth_update)
  qed simp
  moreover have "j \<in> set (b # vs) \<longleftrightarrow> j \<in> P - {q} \<and> hm (link_data (?a ! j)) = b" for j
    using q [of j] q [of q] d bl by (auto simp: nth_update)
  moreover have "j \<in> set (B c) \<longleftrightarrow> j \<in> P - {q} \<and> hm (link_data (?a ! j)) = c" if "c \<noteq> b" for j c
    using D(3) [of j c] q [of j] q [of q] that bl by (auto simp: nth_update)
  ultimately show "buckets ?a hm (P - {q}) (B(b := b # vs))"
    using D(1,2) d new by (intro bucketsI) (auto split: if_splits)
  have P: "b \<in> P" "q \<in> P" "b \<noteq> q" using q [of b] q [of q] d by auto
  define Q where "Q = P - {b, q}"
  have Q: "P = insert b (insert q Q)" "P - {q} = insert b Q" "b \<notin> Q" "q \<notin> Q" "finite Q"
    using P D(5) by (auto simp: Q_def)
  have "recs ?a Q = recs a Q" using Q by (intro recs_cong) (auto simp: nth_update)
  then show "add_mset (link_data (a ! b)) (recs ?a (P - {q})) = recs a P"
    unfolding Q(2) unfolding Q(1) using Q(3-5) P(3) bl by (simp add: recs_insert)
qed

subsection \<open>Moving the last record to the free place\<close>

lemma buckets_hm_cong:
  "buckets a hm P B \<Longrightarrow> (\<And>i. i \<in> P \<Longrightarrow> hm' (link_data (a ! i)) = hm (link_data (a ! i))) \<Longrightarrow> buckets a hm' P B"
  unfolding buckets_def by (metis (no_types, lifting))

text \<open>A place that is not the start of its chain is renamed to the free place.\<close>

lemma buckets_relocate:
  assumes B: "buckets a hm P B" and e: "e < length a" "e \<notin> P" and x: "x \<in> P" "hm (link_data (a ! x)) = g" "g \<noteq> x"
  obtains us vs where "B g = us @ x # vs" "us \<noteq> []" "lseg a (Some g) us (Some x)" "distinct (us @ x # vs)"
    "e \<notin> set us" "set us \<subseteq> P" "length us \<le> length a"
    "buckets (a[e := a ! x, last us := (a ! last us)\<lparr>next_link := Some e\<rparr>]) hm (insert e (P - {x})) (B(g := us @ e # vs))"
    "recs (a[e := a ! x, last us := (a ! last us)\<lparr>next_link := Some e\<rparr>]) (insert e (P - {x})) = recs a P"
proof -
  obtain us vs where us: "B g = us @ x # vs" "us \<noteq> []" "lseg a (Some g) us (Some x)" "lseg a (next_link (a ! x)) vs None"
    "distinct (us @ x # vs)" "e \<notin> set (us @ x # vs)" "set us \<subseteq> P"
    "lseg (a[e := a ! x, last us := (a ! last us)\<lparr>next_link := Some e\<rparr>]) (Some g) (us @ e # vs) None"
    using move_place [OF B e x] by blast
  define a' where "a' = a[e := a ! x, last us := (a ! last us)\<lparr>next_link := Some e\<rparr>]"
  note D = bucketsD [OF B]
  have lu: "last us \<in> set us" using us(2) by simp
  have len: "length a' = length a" by (simp add: a'_def)
  have data: "link_data (a' ! j) = (if j = e then link_data (a ! x) else link_data (a ! j))" for j
    using e(1) lu us(6) by (auto simp: a'_def nth_update)
  have "lseg a' (Some c) (B c) None" if "B c \<noteq> []" "c \<noteq> g" for c
  proof (rule lseg_kept [OF B that(1) len])
    fix j assume "j \<in> set (B c)"
    with D(3) [of j c] D(3) [of "last us" g] us(1) lu that(2) e(2) have "j \<noteq> last us" "j \<noteq> e" by auto
    then show "a' ! j = a ! j" by (simp add: a'_def nth_update)
  qed
  moreover have g: "j \<in> set us \<or> j \<in> set vs \<longleftrightarrow> j \<in> P - {x} \<and> hm (link_data (a ! j)) = g" for j
    using D(3) [of j g] us(1,5) by auto
  moreover have "j \<in> set (B c) \<longleftrightarrow> j \<in> insert e (P - {x}) \<and> hm (link_data (a' ! j)) = c" if "c \<noteq> g" for j c
    using D(3) [of j c] that e(2) x by (auto simp: data)
  moreover have "j \<in> set (us @ e # vs) \<longleftrightarrow> j \<in> insert e (P - {x}) \<and> hm (link_data (a' ! j)) = g" for j
    using g [of j] x(2) e(2) by (auto simp: data)
  ultimately have new: "buckets a' hm (insert e (P - {x})) (B(g := us @ e # vs))"
    using D(1,2) e(1) us(5,6) us(8) [folded a'_def] by (intro bucketsI) (auto simp: len split: if_splits)
  have "recs a' (P - {x}) = recs a (P - {x})" using D(5) e(2) by (intro recs_cong) (auto simp: data)
  moreover have "recs a P = add_mset (link_data (a ! x)) (recs a (P - {x}))"
    using recs_insert [of "P - {x}" x a] D(5) x(1) by (simp add: insert_absorb)
  ultimately have "recs a' (insert e (P - {x})) = recs a P" using D(5) e(2) by (simp add: recs_insert data)
  moreover have "length us \<le> length a"
    using distinct_card [of us] card_mono [of "{..<length a}" "set us"] us(5) lseg_bound [OF us(3)] by simp
  ultimately show thesis using us new unfolding a'_def by (intro that) auto
qed

text \<open>The home \<open>n\<close> vanishes: its chain is joined with that of \<open>fi\<close>, the new home of its records.\<close>

lemma buckets_join:
  assumes B: "buckets a hm P B" and P: "e \<notin> P" "insert e P = {..n}" and n: "n \<in> set (B n)" and fi: "fi < n"
    and hm': "\<And>x. hm' x = (if hm x = n then fi else hm x)"
    and len: "length a' = length a" and c: "distinct c" "lseg a' (Some fi) c None"
    and places: "set c = insert e (set (B fi) \<union> set (B n) - {n})"
    and recs: "mset (rlist a' c) = mset (rlist a (B fi)) + mset (rlist a (B n))"
    and frame: "\<And>j. j \<notin> set c \<Longrightarrow> j \<noteq> n \<Longrightarrow> a' ! j = a ! j"
  shows "buckets a' hm' {..<n} (B(fi := c, n := []))" and "recs a' {..<n} = recs a P"
proof -
  note D = bucketsD [OF B]
  have nP: "n \<in> P" "e \<noteq> n" "e \<le> n" using D(3) [of n n] n P by auto
  have Pn: "i \<in> P \<longleftrightarrow> i \<le> n \<and> i \<noteq> e" for i using P by auto
  have mem: "i \<in> set (B b) \<longleftrightarrow> i \<le> n \<and> i \<noteq> e \<and> hm (link_data (a ! i)) = b" for i b using D(3) [of i b] Pn by simp
  have hmn: "hm (link_data (a ! n)) = n" using mem [of n n] n by simp
  have cn: "set c \<subseteq> {..<n}"
  proof
    fix i assume "i \<in> set c"
    then have "i = e \<or> (i \<le> n \<and> i \<noteq> n)" unfolding places using mem [of i fi] mem [of i n] by auto
    then show "i \<in> {..<n}" using nP by auto
  qed
  have inc: "hm' (link_data (a' ! i)) = fi" if "i \<in> set c" for i
  proof -
    have "link_data (a' ! i) \<in># mset (rlist a' c)" using that by (simp add: rlist_def)
    then have "link_data (a' ! i) \<in> set (rlist a (B fi)) \<union> set (rlist a (B n))" unfolding recs by simp
    then obtain j where "link_data (a' ! i) = link_data (a ! j)" "j \<in> set (B fi) \<or> j \<in> set (B n)"
      by (auto simp: rlist_def)
    with mem [of j fi] mem [of j n] show ?thesis by (auto simp: hm')
  qed
  have out: "a' ! i = a ! i \<and> hm (link_data (a ! i)) \<noteq> fi \<and> hm (link_data (a ! i)) \<noteq> n \<and> i \<noteq> e"
    if "i < n" "i \<notin> set c" for i
    using that frame [of i] mem [of i fi] mem [of i n] places by auto
  have other: "i \<in> set (B b) \<longleftrightarrow> i < n \<and> i \<notin> set c \<and> hm' (link_data (a' ! i)) = b" if "b \<noteq> fi" "b \<noteq> n" for i b
  proof
    assume i: "i \<in> set (B b)"
    then have l: "i \<le> n" "i \<noteq> e" "hm (link_data (a ! i)) = b" using mem [of i b] by simp_all
    with hmn that have "i \<noteq> n" by auto
    moreover have "i \<notin> set c" unfolding places using l that mem [of i fi] mem [of i n] by auto
    ultimately show "i < n \<and> i \<notin> set c \<and> hm' (link_data (a' ! i)) = b" using l that out [of i] by (simp add: hm')
  next
    assume i: "i < n \<and> i \<notin> set c \<and> hm' (link_data (a' ! i)) = b"
    with out [of i] have "hm (link_data (a ! i)) = b" "i \<noteq> e" by (auto simp: hm')
    with i show "i \<in> set (B b)" using mem [of i b] by simp
  qed
  show "buckets a' hm' {..<n} (B(fi := c, n := []))"
  proof (rule bucketsI)
    show "{..<n} \<subseteq> {..<length a'}" using D(1) nP(1) len by auto
    show "distinct ((B(fi := c, n := [])) b)" for b using c D(2) by simp
    show "i \<in> set ((B(fi := c, n := [])) b) \<longleftrightarrow> i \<in> {..<n} \<and> hm' (link_data (a' ! i)) = b" for b i
    proof (cases "b = fi \<or> b = n")
      case True
      have "hm' x \<noteq> n" for x using fi by (simp add: hm')
      moreover have "hm' (link_data (a' ! i)) \<noteq> fi" if "i < n" "i \<notin> set c" using out [OF that] by (simp add: hm')
      ultimately show ?thesis using True fi inc [of i] cn by auto
    next
      case False
      then show ?thesis using other [of b i] inc [of i] cn by auto
    qed
    show "(B(fi := c, n := [])) b \<noteq> [] \<Longrightarrow> lseg a' (Some b) ((B(fi := c, n := [])) b) None" for b
    proof (cases "b = fi \<or> b = n")
      case True
      then show "(B(fi := c, n := [])) b \<noteq> [] \<Longrightarrow> lseg a' (Some b) ((B(fi := c, n := [])) b) None"
        using c fi by auto
    next
      case False
      then have "a' ! j = a ! j" if "j \<in> set (B b)" for j using other [of b j] frame [of j] that by auto
      with False show "(B(fi := c, n := [])) b \<noteq> [] \<Longrightarrow> lseg a' (Some b) ((B(fi := c, n := [])) b) None"
        using lseg_kept [OF B _ len] by auto
    qed
  qed
  define R where "R = {..<n} - set c"
  have "{..<n} = set c \<union> R" "set c \<inter> R = {}" "finite R" using cn by (auto simp: R_def)
  then have l: "recs a' {..<n} = mset (rlist a' c) + recs a' R" by (simp add: recs_Un recs_list [OF c(1)])
  have "set (B fi) \<inter> set (B n) = {}" using mem fi by auto
  moreover have "(set (B fi) \<union> set (B n)) \<inter> R = {}" unfolding R_def places using fi by auto
  moreover have "P = set (B fi) \<union> set (B n) \<union> R" unfolding R_def places using Pn mem nP n by (auto simp: less_le)
  ultimately have r: "recs a P = mset (rlist a (B fi)) + mset (rlist a (B n)) + recs a R"
    using \<open>finite R\<close> D(2) by (simp add: recs_Un recs_list)
  have "recs a' R = recs a R" by (rule recs_cong) (use out \<open>finite R\<close> in \<open>auto simp: R_def\<close>)
  with l r recs show "recs a' {..<n} = recs a P" by simp
qed

text \<open>The chain of home \<open>n\<close>, \<open>n # us\<close>, is copied to start at \<open>e\<close> and put behind the element \<open>p\<close>.\<close>

lemma movelink_join:
  assumes seg: "lseg a (Some n) (n # us) q" "lseg a (next_link (a ! p)) vs None"
    and d: "distinct (e # n # p # us @ vs)" and l: "e < length a" "p < length a" and fuel: "length us < fuel"
    and q: "\<And>i. q = Some i \<Longrightarrow> i = p"
  shows "\<exists>a2 a'. movelink (a[e := a ! n]) q e (next_link (a[e := a ! n] ! p)) fuel = Some a2 \<and>
    a' = a2[p := (a2 ! p)\<lparr>next_link := Some e\<rparr>] \<and> length a' = length a \<and> lseg a' (Some p) (p # e # us @ vs) None \<and>
    rlist a' (p # e # us @ vs) = link_data (a ! p) # link_data (a ! n) # rlist a us @ rlist a vs \<and>
    (\<forall>j. j \<notin> set (p # e # us @ vs) \<longrightarrow> a' ! j = a ! j)"
proof -
  define a1 where "a1 = a[e := a ! n]"
  define g where "g = last (e # us)"
  define a2 where "a2 = a1[g := (a1 ! g)\<lparr>next_link := next_link (a1 ! p)\<rparr>]"
  define a' where "a' = a2[p := (a2 ! p)\<lparr>next_link := Some e\<rparr>]"
  have len: "length a1 = length a" "length a2 = length a" "length a' = length a" by (simp_all add: a1_def a2_def a'_def)
  have g: "g \<in> insert e (set us)" by (simp add: g_def)
  then have gne: "g \<noteq> p" "g \<notin> set vs" "g \<noteq> n" using d by auto
  have a1: "a1 ! j = (if j = e then a ! n else a ! j)" for j using l by (auto simp: a1_def nth_update)
  have "lseg a1 (next_link (a ! n)) us q"
    by (rule lseg_cong [THEN iffD2, rotated 2]) (use seg(1) d a1 len in auto)
  then have s1: "lseg a1 (Some e) (e # us) q" using a1 l len by simp
  have "movelink a1 q e (next_link (a1 ! p)) fuel = Some a2"
    unfolding a2_def g_def by (rule movelink_seg [OF s1]) (use q d fuel in auto)
  moreover have "lseg a2 (Some e) (e # us) (next_link (a1 ! p))"
    using lseg_set_last [OF s1, of "(a1 ! last (e # us))\<lparr>next_link := next_link (a1 ! p)\<rparr>"] d unfolding a2_def g_def by simp
  moreover have a2: "a2 ! j = a1 ! j" if "j \<noteq> g" for j using that by (simp add: a2_def nth_update)
  moreover have "lseg a2 (next_link (a1 ! p)) vs None"
  proof (rule lseg_cong [THEN iffD2, rotated 2])
    show "lseg a (next_link (a1 ! p)) vs None" using seg(2) a1 d by simp
    fix j assume "j \<in> set vs"
    then have "j \<noteq> g" "j \<noteq> e" using gne(2) d by auto
    then show "next_link (a2 ! j) = next_link (a ! j)" using a2 a1 by simp
  qed (rule len)
  ultimately have s2: "lseg a2 (Some e) (e # us @ vs) None" and mv: "movelink a1 q e (next_link (a1 ! p)) fuel = Some a2"
    using lseg_append [of a2 "Some e" "e # us" vs None] by auto
  have "lseg a' (Some e) (e # us @ vs) None"
    by (rule lseg_cong [THEN iffD2, OF _ _ s2]) (use d in \<open>auto simp: a'_def nth_update\<close>)
  then have "lseg a' (Some p) (p # e # us @ vs) None" using l(2) len by (simp add: a'_def)
  moreover have data: "link_data (a' ! j) = (if j = e then link_data (a ! n) else link_data (a ! j))" for j
    by (auto simp: a'_def a2_def a1 nth_update)
  moreover have "rlist a' (p # e # us @ vs) = link_data (a ! p) # link_data (a ! n) # rlist a us @ rlist a vs"
    using d by (auto simp: rlist_def data)
  moreover have "a' ! j = a ! j" if "j \<notin> set (p # e # us @ vs)" for j
  proof -
    from that g have "j \<noteq> p" "j \<noteq> g" "j \<noteq> e" by auto
    then show ?thesis using a2 a1 by (simp add: a'_def nth_update)
  qed
  ultimately show ?thesis using mv len(3) a'_def unfolding a1_def by blast
qed

text \<open>The new home of the last record is free.\<close>

lemma move_tail:
  assumes B: "buckets a hm P B" and P: "e \<notin> P" "insert e P = {..n}" and len: "length a = Suc n" and e: "e < n"
    and last: "hm (link_data (a ! n)) = n" and hm': "\<And>x. hm' x = (if hm x = n then e else hm x)"
  shows "\<exists>B'. buckets (a[e := a ! n]) hm' {..<n} B' \<and> recs (a[e := a ! n]) {..<n} = recs a P"
proof -
  note D = bucketsD [OF B]
  have nP: "n \<in> P" using P e by auto
  then have n: "n \<in> set (B n)" using D(3) last by simp
  with bucket_hd [OF B, of n] obtain zs where zs: "B n = n # zs" by fastforce
  have Be: "B e = []" by (rule bucket_empty [OF B]) (use P in simp)
  have d: "distinct (e # n # zs)" using D(2) [of n] D(3) [of e n] zs P(1) by simp
  have "lseg a (next_link (a ! n)) zs None" using D(4) [of n] zs by simp
  then have "lseg (a[e := a ! n]) (next_link (a ! n)) zs None"
    by (rule lseg_cong [THEN iffD2, rotated 2]) (use d in \<open>auto simp: nth_update\<close>)
  then have c: "lseg (a[e := a ! n]) (Some e) (e # zs) None" using e len by simp
  have "rlist (a[e := a ! n]) (e # zs) = rlist a (B n)" using d e len by (simp add: rlist_def zs nth_update)
  then have "mset (rlist (a[e := a ! n]) (e # zs)) = mset (rlist a (B e)) + mset (rlist a (B n))"
    by (simp add: Be) (simp add: rlist_def)
  note J = buckets_join [OF B P n e hm' _ _ c _ this]
  show ?thesis using J d by (auto simp: Be zs nth_update)
qed

text \<open>The element at the new home is one of that home: the chains are joined behind it.\<close>

lemma move_join:
  assumes B: "buckets a hm P B" and P: "e \<notin> P" "insert e P = {..n}" and len: "length a = Suc n" and e: "e < n"
    and last: "hm (link_data (a ! n)) = n" and fi: "fi < n" "fi \<noteq> e" and hm': "\<And>x. hm' x = (if hm x = n then fi else hm x)"
    and home: "hm (link_data (a ! fi)) = n \<or> hm (link_data (a ! fi)) = fi"
  shows "\<exists>a2 a' B'. movelink (a[e := a ! n]) (if hm (link_data (a ! fi)) = n then Some fi else None) e
        (next_link (a[e := a ! n] ! fi)) (Suc n) = Some a2 \<and>
      a' = a2[fi := (a2 ! fi)\<lparr>next_link := Some e\<rparr>] \<and> length a' = Suc n \<and>
      buckets a' hm' {..<n} B' \<and> recs a' {..<n} = recs a P"
proof -
  note D = bucketsD [OF B]
  have Pn: "i \<in> P \<longleftrightarrow> i \<le> n \<and> i \<noteq> e" for i using P by auto
  have n: "n \<in> set (B n)" using D(3) last Pn e by simp
  with bucket_hd [OF B, of n] obtain zs where zs: "B n = n # zs" by fastforce
  obtain us vs q where split: "q = (if hm (link_data (a ! fi)) = n then Some fi else None)"
    "lseg a (Some n) (n # us) q" "lseg a (next_link (a ! fi)) vs None" "distinct (e # n # fi # us @ vs)"
    "set (B fi) \<union> set (B n) = insert fi (insert n (set us \<union> set vs))"
    "mset (rlist a (B fi)) + mset (rlist a (B n)) =
       mset (link_data (a ! fi) # link_data (a ! n) # rlist a us @ rlist a vs)" "set us \<subseteq> set zs"
  proof (cases "hm (link_data (a ! fi)) = n")
    case True
    then have "fi \<in> set (B n)" using D(3) [of fi n] Pn fi by simp
    then obtain us vs where us: "zs = us @ fi # vs" using zs fi(1) by (auto dest: split_list)
    have "B fi = []" by (rule bucket_empty [OF B]) (use True fi in simp)
    moreover have "lseg a (Some n) (n # us @ fi # vs) None" using D(4) [of n] zs us by simp
    then have "lseg a (Some n) (n # us) (Some fi)" "lseg a (next_link (a ! fi)) vs None" by (auto simp: lseg_append)
    moreover have "distinct (e # n # fi # us @ vs)"
      using D(2) [of n] D(3) [of e n] zs us fi P(1) by auto
    ultimately show thesis using True by (intro that [of "Some fi" us vs]) (auto simp: zs us rlist_def)
  next
    case False
    then have "fi \<in> set (B fi)" using D(3) [of fi fi] Pn fi home by simp
    with bucket_hd [OF B, of fi] obtain ws where ws: "B fi = fi # ws" by fastforce
    have "lseg a (Some n) (n # zs) None" "lseg a (next_link (a ! fi)) ws None" using D(4) [of n] D(4) [of fi] zs ws by auto
    moreover have "i \<notin> set (B n)" if "i \<in> set (B fi)" for i using D(3) [of i n] D(3) [of i fi] fi(1) that by auto
    then have "distinct (e # n # fi # zs @ ws)"
      using D(2) [of n] D(2) [of fi] D(3) [of e n] D(3) [of e fi] zs ws fi P(1) by auto
    ultimately show thesis using False by (intro that [of None zs ws]) (auto simp: zs ws rlist_def)
  qed
  have "length us \<le> n"
  proof -
    have "set us \<subseteq> {..n}" using split(7) D(3) [of _ n] zs Pn by auto
    then have "card (insert n (set us)) \<le> card {..n}" by (intro card_mono) auto
    then show ?thesis using distinct_card [of us] split(4) by simp
  qed
  then have us: "length us < Suc n" by simp
  have q: "i = fi" if "q = Some i" for i using that split(1) by (simp split: if_splits)
  have l: "e < length a" "fi < length a" using fi(1) e len by simp_all
  obtain a2 a' where
    mv: "movelink (a[e := a ! n]) q e (next_link (a[e := a ! n] ! fi)) (Suc n) = Some a2"
    and a': "a' = a2[fi := (a2 ! fi)\<lparr>next_link := Some e\<rparr>]" "length a' = length a" "lseg a' (Some fi) (fi # e # us @ vs) None"
      "rlist a' (fi # e # us @ vs) = link_data (a ! fi) # link_data (a ! n) # rlist a us @ rlist a vs"
      "\<forall>j. j \<notin> set (fi # e # us @ vs) \<longrightarrow> a' ! j = a ! j"
    using movelink_join [OF split(2,3,4) l us q] by blast
  have "set (fi # e # us @ vs) = insert e (set (B fi) \<union> set (B n) - {n})" unfolding split(5) using split(4) by auto
  note J = buckets_join [OF B P n fi(1) hm' a'(2) _ a'(3) this]
  have d: "distinct (fi # e # us @ vs)" using split(4) by auto
  have m: "mset (rlist a' (fi # e # us @ vs)) = mset (rlist a (B fi)) + mset (rlist a (B n))"
    unfolding split(6) a'(4) ..
  have f: "a' ! j = a ! j" if "j \<notin> set (fi # e # us @ vs)" for j using a'(5) that by blast
  have "length a' = Suc n" using a'(2) len by simp
  with J(1) [OF d m f] J(2) [OF d m f] show ?thesis
    using mv a'(1) unfolding split(1) by blast
qed

text \<open>The four ways in which \<open>move_last\<close> fills the free place.\<close>

lemma move_last_bag:
  fixes h :: "'r HASH" and bl old_bl n :: nat
  defines "hm \<equiv> \<lambda>r. hash_mask (rec_hashnr h r) old_bl (Suc n)" and "hm' \<equiv> \<lambda>r. hash_mask (rec_hashnr h r) bl n"
  assumes B: "buckets a hm P B" and P: "e \<notin> P" "insert e P = {..n}" and len: "length a = Suc n"
    and shrink: "0 < n \<Longrightarrow> \<exists>fi<n. \<forall>x. hm' x = (if hm x = n then fi else hm x)" and small: "0 < n \<Longrightarrow> hm' (link_data (a ! n)) < n"
  shows "\<exists>a' B'. move_last h a n bl old_bl e = Some a' \<and> length a' = Suc n \<and> buckets a' hm' {..<n} B' \<and> recs a' {..<n} = recs a P"
proof (cases "e = n")
  case True
  then have Pn: "P = {..<n}" using P by (auto simp: less_le)
  have "B n = []" by (rule bucket_empty [OF B]) (use P True in simp)
  then have "hm (link_data (a ! i)) \<noteq> n" if "i \<in> P" for i using bucketsD(3) [OF B, of i n] that by auto
  then have "hm' (link_data (a ! i)) = hm (link_data (a ! i))" if "i \<in> P" for i
    using shrink Pn that by (cases "n = 0") auto
  with buckets_hm_cong [OF B] have "buckets a hm' {..<n} B" unfolding Pn by blast
  with True len Pn show ?thesis by (auto simp: move_last_def)
next
  case False
  have "e \<in> {..n}" using P(2) by blast
  then have e: "e < n" "e < length a" "0 < n" and nP: "n \<in> P" using False P len by auto
  then obtain fi where fi: "fi < n" and hm': "\<And>x. hm' x = (if hm x = n then fi else hm x)" using shrink by blast
  define x where "x = hm' (link_data (a ! n))"
  define y where "y = link_data (a ! x)"
  have x: "x < n" unfolding x_def by (rule small [OF e(3)])
  have ml: "move_last h a n bl old_bl e =
     (if x = e then Some (a[e := a ! n])
      else if x \<noteq> hm' y then movelink (a[e := a ! x, x := a ! n]) (Some x) (hm' y) (Some e) (Suc n)
      else if hm (link_data (a ! n)) = hm y \<and> hm (link_data (a ! n)) \<noteq> n
      then movelink (a[e := a ! n]) (Some n) x (Some e) (Suc n)
      else map_option (\<lambda>a2. a2[x := (a2 ! x)\<lparr>next_link := Some e\<rparr>])
        (movelink (a[e := a ! n]) (if hm (link_data (a ! n)) = hm y then Some x else None) e
          (next_link (a[e := a ! n] ! x)) (Suc n)))"
    using False by (simp add: move_last_def Let_def x_def y_def hm_def hm'_def)
  have tail: "hm (link_data (a ! n)) = n \<and> fi = x" if "\<not> (x \<in> P \<and> hm (link_data (a ! x)) = x)"
  proof -
    have "B x = []" by (rule bucket_empty [OF B that])
    then have "hm (link_data (a ! n)) \<noteq> x" using bucketsD(3) [OF B, of n x] nP by auto
    then show ?thesis using hm' [of "link_data (a ! n)"] by (auto simp: x_def split: if_splits)
  qed
  show ?thesis
  proof (cases "x = e")
    case True
    with tail P(1) have t: "hm (link_data (a ! n)) = n" "fi = e" by auto
    from move_tail [OF B P len e(1) t(1) hm' [unfolded t(2)]] ml True len show ?thesis by auto
  next
    case xe: False
    have "x \<in> insert e P" unfolding P(2) using x by simp
    with xe have xP: "x \<in> P" by simp
    show ?thesis
    proof (cases "hm' y = x")
      case out: False
      have hy: "hm y \<noteq> x" using out hm' [of y] x by auto
      with tail have t: "hm (link_data (a ! n)) = n" "fi = x" by (auto simp: y_def)
      have gn: "hm y \<noteq> n" "hm' y = hm y" using hm' [of y] out t(2) by (auto split: if_splits)
      obtain us vs where us: "B (hm y) = us @ x # vs" "us \<noteq> []" "lseg a (Some (hm y)) us (Some x)" "distinct (us @ x # vs)"
        "e \<notin> set us" "set us \<subseteq> P" "length us \<le> length a"
        "buckets (a[e := a ! x, last us := (a ! last us)\<lparr>next_link := Some e\<rparr>]) hm (insert e (P - {x})) (B(hm y := us @ e # vs))"
        "recs (a[e := a ! x, last us := (a ! last us)\<lparr>next_link := Some e\<rparr>]) (insert e (P - {x})) = recs a P"
        using buckets_relocate [OF B e(2) P(1) xP y_def [symmetric, THEN arg_cong] hy] by blast
      define a1 where "a1 = a[e := a ! x, last us := (a ! last us)\<lparr>next_link := Some e\<rparr>]"
      have lu: "last us \<in> set us" using us(2) by simp
      then have lne: "last us \<noteq> e" "last us \<noteq> x" using us(4,5) by auto
      have nus: "n \<noteq> last us" using bucketsD(3) [OF B, of n "hm y"] us(1) lu t(1) gn(1) by auto
      have a1n: "a1 ! n = a ! n" using nus False by (simp add: a1_def nth_update)
      have "insert x (insert e (P - {x})) = insert e P" using xP by auto
      with P(2) xe have P1: "x \<notin> insert e (P - {x})" "insert x (insert e (P - {x})) = {..n}" by simp_all
      have len1: "length a1 = Suc n" and last1: "hm (link_data (a1 ! n)) = n" using len t(1) a1n by (simp_all add: a1_def)
      obtain B' where B': "buckets (a1[x := a1 ! n]) hm' {..<n} B'" "recs (a1[x := a1 ! n]) {..<n} = recs a1 (insert e (P - {x}))"
        using move_tail [OF us(8) [folded a1_def] P1 _ x _ hm' [unfolded t(2)]] len1 last1 by blast
      define a0 where "a0 = a[e := a ! x, x := a ! n]"
      have "lseg a0 (Some (hm y)) us (Some x)"
        by (rule lseg_cong [THEN iffD2, OF _ _ us(3)]) (use us(4,5) in \<open>auto simp: a0_def nth_update\<close>)
      then have "movelink a0 (Some x) (hm y) (Some e) (Suc n) = Some (a0[last us := (a0 ! last us)\<lparr>next_link := Some e\<rparr>])"
        using us(2,4,7) len by (intro movelink_seg) auto
      also have "a0[last us := (a0 ! last us)\<lparr>next_link := Some e\<rparr>] = a1[x := a1 ! n]"
        using lne a1n by (simp add: a0_def a1_def list_update_swap)
      finally have "move_last h a n bl old_bl e = Some (a1[x := a1 ! n])"
        using ml xe out gn(2) by (simp add: a0_def)
      with B' us(9) len show ?thesis by (auto simp: a1_def)
    next
      case home: True
      show ?thesis
      proof (cases "hm (link_data (a ! n)) = hm y \<and> hm (link_data (a ! n)) \<noteq> n")
        case True
        then have g: "hm (link_data (a ! n)) = x" "x \<noteq> n" using hm' [of "link_data (a ! n)"] x by (auto simp: x_def)
        obtain us vs where us: "B x = us @ n # vs" "us \<noteq> []" "lseg a (Some x) us (Some n)" "distinct (us @ n # vs)"
          "e \<notin> set us" "set us \<subseteq> P" "length us \<le> length a"
          "buckets (a[e := a ! n, last us := (a ! last us)\<lparr>next_link := Some e\<rparr>]) hm (insert e (P - {n})) (B(x := us @ e # vs))"
          "recs (a[e := a ! n, last us := (a ! last us)\<lparr>next_link := Some e\<rparr>]) (insert e (P - {n})) = recs a P"
          using buckets_relocate [OF B e(2) P(1) nP g] by blast
        define a1 where "a1 = a[e := a ! n, last us := (a ! last us)\<lparr>next_link := Some e\<rparr>]"
        have lne: "last us \<noteq> e" using us(2,5) last_in_set [of us] by auto
        have "insert e (P - {n}) = insert e P - {n}" using False by auto
        also have "\<dots> = {..<n}" unfolding P(2) by auto
        finally have Pn: "insert e (P - {n}) = {..<n}" .
        note B1 = us(8) [folded a1_def, unfolded Pn]
        have "(B(x := us @ e # vs)) n = []" by (rule bucket_empty [OF B1]) simp
        then have "hm (link_data (a1 ! i)) \<noteq> n" if "i \<in> {..<n}" for i using bucketsD(3) [OF B1, of i n] that by auto
        then have "buckets a1 hm' {..<n} (B(x := us @ e # vs))" by (intro buckets_hm_cong [OF B1]) (simp add: hm')
        moreover have "lseg (a[e := a ! n]) (Some x) us (Some n)"
          by (rule lseg_cong [THEN iffD2, OF _ _ us(3)]) (use us(5) in \<open>auto simp: nth_update\<close>)
        then have "movelink (a[e := a ! n]) (Some n) x (Some e) (Suc n) = Some a1"
          using movelink_seg [of "a[e := a ! n]" x us "Some n" "Suc n" "Some e"] us(2,4,7) len lne by (simp add: a1_def)
        ultimately show ?thesis using ml xe home True us(9) [folded a1_def] len Pn by (auto simp: a1_def)
      next
        case diff: False
        have last: "hm (link_data (a ! n)) = n"
        proof (rule ccontr)
          assume l: "hm (link_data (a ! n)) \<noteq> n"
          with hm' [of "link_data (a ! n)"] have "hm (link_data (a ! n)) = x" by (simp add: x_def)
          with tail x diff l show False by (auto simp: y_def)
        qed
        then have fx: "fi = x" using hm' [of "link_data (a ! n)"] by (simp add: x_def)
        have hy: "hm y = n \<or> hm y = x" using home hm' [of y] by (auto split: if_splits)
        have "(hm (link_data (a ! n)) = hm y) = (hm y = n)" using last by auto
        with move_join [OF B P len e(1) last x xe hm' [unfolded fx] hy [unfolded y_def]] ml xe home diff
        show ?thesis by (auto simp flip: y_def)
      qed
    qed
  qed
qed

lemma buckets_butlast:
  assumes B: "buckets a hm {..<n} B" and len: "length a = Suc n"
  shows "buckets (butlast a) hm {..<n} B" and "recs (butlast a) {..<n} = recs a {..<n}"
proof -
  have at: "butlast a ! i = a ! i" if "i < n" for i using that len by (simp add: nth_butlast)
  have short: "lseg a p xs q \<Longrightarrow> set xs \<subseteq> {..<n} \<Longrightarrow> lseg (butlast a) p xs q" for p xs q
    by (induction xs arbitrary: p) (auto simp: at len)
  have sub: "set (B b) \<subseteq> {..<n}" for b using bucketsD(3) [OF B, of _ b] by blast
  show "buckets (butlast a) hm {..<n} B"
  proof (rule bucketsI)
    show "distinct (B b)" for b by (rule bucketsD(2) [OF B])
    show "i \<in> set (B b) \<longleftrightarrow> i \<in> {..<n} \<and> hm (link_data (butlast a ! i)) = b" for b i
      using bucketsD(3) [OF B, of i b] at by auto
    show "B b \<noteq> [] \<Longrightarrow> lseg (butlast a) (Some b) (B b) None" for b
      using short [OF bucketsD(4) [OF B] sub] .
  qed (simp add: len)
  show "recs (butlast a) {..<n} = recs a {..<n}" by (rule recs_cong) (simp_all add: at)
qed

text \<open>The mask after a record is gone, and what it does to the homes.\<close>

definition blength_half_if :: "nat \<Rightarrow> nat \<Rightarrow> nat" where
  "blength_half_if n b = (if n < b div 2 then b div 2 else b)"

lemma shrink_sizes:
  assumes S: "hash_sizes h" and n: "records h = Suc n"
  defines "nb \<equiv> blength_half_if n (blength h)"
  shows "nb div 2 \<le> n" and "n < nb" and "\<exists>k. nb = 2 ^ k"
    and "hash_mask x (blength h) (Suc n) = hash_mask x nb (Suc n)"
proof -
  obtain k where k: "blength h = 2 ^ k" using S by (auto simp: hash_sizes_def)
  have b: "blength h = 2 * (blength h div 2)" "blength h div 2 \<le> Suc n" "Suc n < blength h"
    using blength_half [OF S] S n by (auto simp: hash_sizes_def)
  then have k': "k = Suc (k - 1)" using k by (cases k) auto
  then have "blength h div 2 = 2 ^ (k - 1)" using k by (metis nonzero_mult_div_cancel_left power_Suc zero_neq_numeral)
  then show "\<exists>k. nb = 2 ^ k" using k unfolding nb_def blength_half_if_def by auto
  show "nb div 2 \<le> n" "n < nb" using b by (auto simp: nb_def blength_half_if_def)
  show "hash_mask x (blength h) (Suc n) = hash_mask x nb (Suc n)"
  proof (cases "n < blength h div 2")
    case True
    then have h: "Suc n = blength h div 2" "nb = Suc n" using b by (auto simp: nb_def blength_half_if_def)
    then have "blength h = 2 * Suc n" using b(1) by simp
    then show ?thesis using hash_mask_double [of "Suc n" x] h(2) by simp
  qed (simp add: nb_def blength_half_if_def)
qed

lemma hash_mask_shrink:
  assumes b: "b div 2 \<le> n" "n < b" "\<exists>k. b = 2 ^ k" and n: "0 < n"
  shows "hash_mask x b n < n" and "hash_mask x b n = (if hash_mask x b (Suc n) = n then n - b div 2 else hash_mask x b (Suc n))"
    and "n - b div 2 < n"
proof -
  obtain k where k: "b = 2 ^ k" using b(3) by blast
  with b n have "k \<noteq> 0" by (cases k) auto
  with k have h: "b = 2 * (b div 2)" "0 < b div 2" by (cases k; simp)+
  show less: "hash_mask x b n < n" using b h(2) n by (intro hash_mask_less) auto
  show "n - b div 2 < n" using h(2) n by simp
  show "hash_mask x b n = (if hash_mask x b (Suc n) = n then n - b div 2 else hash_mask x b (Suc n))"
  proof -
    note parts = hash_mask_parts [OF h(2) b(1), folded h(1), of x, OF b(2)]
    have "n \<noteq> n - b div 2" using h(2) n by simp
    with parts less show ?thesis by (cases "hash_mask x b n = n - b div 2") (simp_all split: if_splits)
  qed
qed

text \<open>The first half: the record is found and its place, or the second of its chain, is freed.\<close>

definition delete_place :: "'r HASH_LINK list \<Rightarrow> nat option \<Rightarrow> nat \<Rightarrow> 'r HASH_LINK list \<times> nat" where
  "delete_place a prev pos =
     (case prev of
        Some g \<Rightarrow> (a[g := (a ! g)\<lparr>next_link := next_link (a ! pos)\<rparr>], pos)
      | None \<Rightarrow>
          (case next_link (a ! pos) of
             None \<Rightarrow> (a, pos)
           | Some q \<Rightarrow> (a[pos := a ! q], q)))"

lemma delete_place_bag:
  assumes B: "buckets a hm P B" and b: "B b = us @ pos # vs"
    and d: "delete_place a (if us = [] then None else Some (last us)) pos = (a1, e)"
  shows "length a1 = length a" and "e \<in> P" and "\<exists>B'. buckets a1 hm (P - {e}) B'"
    and "add_mset (link_data (a ! pos)) (recs a1 (P - {e})) = recs a P"
proof -
  note D = bucketsD [OF B]
  have P: "set (B b) \<subseteq> P" using D(3) [of _ b] by blast
  show "length a1 = length a" using d by (auto simp: delete_place_def split: if_splits option.splits)
  have "e \<in> P \<and> (\<exists>B'. buckets a1 hm (P - {e}) B') \<and> add_mset (link_data (a ! pos)) (recs a1 (P - {e})) = recs a P"
  proof (cases "us = []")
    case False
    then have "a1 = a[last us := (a ! last us)\<lparr>next_link := next_link (a ! pos)\<rparr>]" "e = pos"
      using d by (auto simp: delete_place_def)
    with buckets_unlink [OF B b False] P b show ?thesis by auto
  next
    case True
    with bucket_hd [OF B, of b] b have pos: "pos = b" by auto
    have seg: "lseg a (next_link (a ! b)) vs None" using D(4) [of b] b True pos by simp
    show ?thesis
    proof (cases vs)
      case Nil
      then have "B b = [b]" "a1 = a" "e = b" using seg d b True pos by (auto simp: delete_place_def)
      with buckets_single [OF B this(1)] P pos show ?thesis by auto
    next
      case (Cons q ws)
      then have "B b = b # q # ws" "a1 = a[b := a ! q]" "e = q" using seg d b True pos by (auto simp: delete_place_def)
      with buckets_second [OF B this(1)] P pos show ?thesis by auto
    qed
  qed
  then show "e \<in> P" and "\<exists>B'. buckets a1 hm (P - {e}) B'"
    and "add_mset (link_data (a ! pos)) (recs a1 (P - {e})) = recs a P" by blast+
qed

lemma hash_delete_place:
  "hash_delete h r =
     (if records h = 0 then Some (True, h)
      else
        case find_loop (links h) r None (hash_hm h r) (records h) of
          None \<Rightarrow> None
        | Some None \<Rightarrow> Some (True, h)
        | Some (Some (prev, pos)) \<Rightarrow>
            let n = records h - 1; nb = blength_half_if n (blength h); (a1, e) = delete_place (links h) prev pos in
            case move_last h a1 n nb (blength h) e of
              None \<Rightarrow> None
            | Some a2 \<Rightarrow>
                Some (False, h\<lparr>links := butlast a2, records := n, blength := nb,
                  current_record := None, hash_freed := hash_freed h @ [r]\<rparr>))"
  unfolding hash_delete_def hash_hm_def delete_place_def blength_half_if_def Let_def ..

lemma hash_recs_mem: "r \<in># hash_recs h \<longleftrightarrow> (\<exists>i<length (links h). link_data (links h ! i) = r)"
proof -
  have "r \<in># hash_recs h \<longleftrightarrow> r \<in> set (map link_data (links h))" by (simp only: hash_recs_def set_mset_mset)
  then show ?thesis by (auto simp: in_set_conv_nth simp del: set_map)
qed

lemma hash_delete_missing:
  assumes wf: "hash_wf h" and r: "r \<notin># hash_recs h"
  shows "hash_delete h r = Some (True, h)"
proof (cases "records h = 0")
  case False
  obtain B where S: "hash_sizes h" and B: "buckets (links h) (hash_hm h) {..<records h} B"
    using wf by (auto simp: hash_wf_buckets)
  have len: "length (links h) = records h" using S by (simp add: hash_sizes_def)
  define x where "x = hash_hm h r"
  have x: "x < records h" using hash_hm_less [OF S] False by (simp add: x_def)
  define b where "b = hash_hm h (link_data (links h ! x))"
  have "x \<in> set (B b)" using bucketsD(3) [OF B, of x b] x by (simp add: b_def)
  then obtain us vs where us: "B b = us @ x # vs" by (auto dest: split_list)
  then have "lseg (links h) (Some b) (us @ x # vs) None" using bucketsD(4) [OF B, of b] by simp
  then have seg: "lseg (links h) (Some x) (x # vs) None" by (auto simp: lseg_append)
  have "distinct (x # vs)" using bucketsD(2) [OF B, of b] us by simp
  then have "length (x # vs) \<le> records h"
    using length_le_card_path [of "links h" "Some x" "x # vs"] seg len unfolding link_path_lseg by simp
  moreover have "r \<notin> set (rlist (links h) (x # vs))"
    using r lseg_bound [OF seg] by (auto simp: rlist_def hash_recs_mem)
  ultimately show ?thesis using find_loop_none [OF seg] False by (simp add: hash_delete_place x_def)
qed (simp add: hash_delete_place)

lemma record_found:
  assumes wf: "hash_wf h" and B: "buckets (links h) (hash_hm h) {..<records h} B" and r: "r \<in># hash_recs h"
  shows "\<exists>us pos vs. B (hash_hm h r) = us @ pos # vs \<and> link_data (links h ! pos) = r \<and>
    find_loop (links h) r None (hash_hm h r) (records h) = Some (Some (if us = [] then None else Some (last us), pos))"
proof -
  have len: "length (links h) = records h" using wf by (simp add: hash_wf_def hash_sizes_def)
  from r obtain i where i: "i < records h" "link_data (links h ! i) = r" by (auto simp: hash_recs_mem len)
  have "i \<in> set (B (hash_hm h r))" using bucketsD(3) [OF B, of i "hash_hm h r"] i by simp
  with i(2) obtain us pos vs where us: "B (hash_hm h r) = us @ pos # vs" "link_data (links h ! pos) = r"
      "\<forall>j\<in>set us. link_data (links h ! j) \<noteq> r"
    using split_list_first_prop [of "B (hash_hm h r)" "\<lambda>j. link_data (links h ! j) = r"] by blast
  have seg: "lseg (links h) (Some (hash_hm h r)) (us @ pos # vs) None" using bucketsD(4) [OF B, of "hash_hm h r"] us by simp
  have "length (us @ pos # vs) \<le> records h"
    using length_le_card_path [of "links h" _ "us @ pos # vs"] seg bucketsD(2) [OF B, of "hash_hm h r"] us(1) len
    unfolding link_path_lseg by metis
  then have "find_loop (links h) r None (hash_hm h r) (records h) = Some (Some (if us = [] then None else Some (last us), pos))"
    using us(3) by (intro find_loop_found [OF seg _ us(2)]) (auto simp: rlist_def)
  with us show ?thesis by blast
qed

lemma hash_delete_bag:
  assumes wf: "hash_wf h" and r: "r \<in># hash_recs h"
  shows "\<exists>h'. hash_delete h r = Some (False, h') \<and> hash_wf h' \<and> add_mset r (hash_recs h') = hash_recs h \<and>
    get_key h' = get_key h \<and> calc h' = calc h"
proof -
  obtain B where S: "hash_sizes h" and B: "buckets (links h) (hash_hm h) {..<records h} B"
    using wf by (auto simp: hash_wf_buckets)
  have len: "length (links h) = records h" using S by (simp add: hash_sizes_def)
  define n nb where "n = records h - 1" and "nb = blength_half_if n (blength h)"
  from r obtain i where i: "i < records h" "link_data (links h ! i) = r" by (auto simp: hash_recs_mem len)
  then have n: "records h = Suc n" by (simp add: n_def)
  note sz = shrink_sizes [OF S n, folded nb_def]
  obtain us pos vs where us: "B (hash_hm h r) = us @ pos # vs" "link_data (links h ! pos) = r"
    and find: "find_loop (links h) r None (hash_hm h r) (records h) = Some (Some (if us = [] then None else Some (last us), pos))"
    using record_found [OF wf B r] by blast
  obtain a1 e where pl: "delete_place (links h) (if us = [] then None else Some (last us)) pos = (a1, e)" by fastforce
  note dp = delete_place_bag [OF B us(1) pl]
  obtain B1 where B1: "buckets a1 (hash_hm h) ({..<records h} - {e}) B1" using dp(3) by blast
  have hm: "hash_hm h = (\<lambda>x. hash_mask (rec_hashnr h x) (blength h) (Suc n))"
    by (simp add: hash_hm_def hash_rec_mask_def n fun_eq_iff)
  have P: "e \<notin> {..<records h} - {e}" "insert e ({..<records h} - {e}) = {..n}" using dp(2) by (auto simp: n)
  have "0 < n \<Longrightarrow> \<exists>fi<n. \<forall>x. hash_mask (rec_hashnr h x) nb n =
      (if hash_mask (rec_hashnr h x) (blength h) (Suc n) = n then fi else hash_mask (rec_hashnr h x) (blength h) (Suc n))"
    using hash_mask_shrink(2,3) [OF sz(1,2,3)] unfolding sz(4) by (intro exI [of _ "n - nb div 2"]) simp
  moreover have "0 < n \<Longrightarrow> hash_mask (rec_hashnr h (link_data (a1 ! n))) nb n < n"
    by (rule hash_mask_shrink(1) [OF sz(1,2,3)])
  ultimately obtain a2 B2 where a2: "move_last h a1 n nb (blength h) e = Some a2" "length a2 = Suc n"
    and B2: "buckets a2 (\<lambda>x. hash_mask (rec_hashnr h x) nb n) {..<n} B2"
    and recs: "recs a2 {..<n} = recs a1 ({..<records h} - {e})"
    using move_last_bag [OF B1 [unfolded hm] P, of nb] dp(1) len n by auto
  define h' where "h' = h\<lparr>links := butlast a2, records := n, blength := nb, current_record := None,
    hash_freed := hash_freed h @ [r]\<rparr>"
  have del: "hash_delete h r = Some (False, h')"
    unfolding hash_delete_place find using n by (simp add: Let_def pl a2(1) h'_def flip: n_def nb_def)
  have "hash_wf h'"
  proof (rule hash_wfI)
    show "hash_sizes h'" using sz(1-3) a2(2) by (simp add: hash_sizes_def h'_def)
    show "buckets (links h') (\<lambda>x. hash_mask (rec_hashnr h x) nb n) {..<records h'} B2"
      using buckets_butlast(1) [OF B2 a2(2)] by (simp add: h'_def)
    show "hash_mask (rec_hashnr h x) nb n = hash_hm h' x" for x
      by (simp add: hash_hm_def hash_rec_mask_def h'_def rec_hashnr_def)
  qed
  moreover have "add_mset r (hash_recs h') = hash_recs h"
  proof -
    have "hash_recs h' = recs a2 {..<n}"
      using recs_all [of "butlast a2" n] buckets_butlast(2) [OF B2 a2(2)] a2(2) by (simp add: hash_recs_def h'_def)
    then show ?thesis using dp(4) us(2) recs recs_all [OF len] by (simp add: hash_recs_def)
  qed
  ultimately show ?thesis using del by (simp add: h'_def)
qed

end
