(* ===== verification/Ma_Hash_Bag.thy ===== *)
theory Ma_Hash_Bag
  imports Ma_Hash_Delete
begin

text \<open>
  The table of \<open>ma_hash.c\<close> is a bag of records: the interface a client of it relies on, the runs of
  operations on it, and the table as an implementation.
\<close>

section \<open>The table as a bag\<close>

datatype ('r, 'k) table_op = Ins 'r | Del 'r | Find 'k
datatype 'r table_answer = Inserted | Deleted bool | Found "'r option"

text \<open>A run of operations on a table, \<open>None\<close> if one of them does not return.\<close>

fun run_table ::
    "('t \<Rightarrow> 'r \<Rightarrow> 't option) \<Rightarrow> ('t \<Rightarrow> 'r \<Rightarrow> (bool \<times> 't) option) \<Rightarrow> ('t \<Rightarrow> 'k \<Rightarrow> ('r option \<times> 't) option) \<Rightarrow>
     ('r, 'k) table_op list \<Rightarrow> 't \<Rightarrow> ('r table_answer list \<times> 't) option" where
  "run_table ins del search [] t = Some ([], t)"
| "run_table ins del search (Ins r # ops) t =
     Option.bind (ins t r) (\<lambda>t'. map_option (apfst ((#) Inserted)) (run_table ins del search ops t'))"
| "run_table ins del search (Del r # ops) t =
     Option.bind (del t r) (\<lambda>(f, t'). map_option (apfst ((#) (Deleted f))) (run_table ins del search ops t'))"
| "run_table ins del search (Find k # ops) t =
     Option.bind (search t k) (\<lambda>(a, t'). map_option (apfst ((#) (Found a))) (run_table ins del search ops t'))"

text \<open>The specification: what the operations do to a bag of records, and which answers are right.\<close>

fun bag_after :: "('r, 'k) table_op list \<Rightarrow> 'r multiset \<Rightarrow> 'r multiset" where
  "bag_after [] m = m"
| "bag_after (Ins r # ops) m = bag_after ops (add_mset r m)"
| "bag_after (Del r # ops) m = bag_after ops (m - {#r#})"
| "bag_after (Find k # ops) m = bag_after ops m"

text \<open>At every insert the bag holds fewer than \<open>lim\<close> records.\<close>

fun within :: "nat \<Rightarrow> ('r, 'k) table_op list \<Rightarrow> 'r multiset \<Rightarrow> bool" where
  "within lim [] m \<longleftrightarrow> True"
| "within lim (Ins r # ops) m \<longleftrightarrow> size m < lim \<and> within lim ops (add_mset r m)"
| "within lim (Del r # ops) m \<longleftrightarrow> within lim ops (m - {#r#})"
| "within lim (Find k # ops) m \<longleftrightarrow> within lim ops m"

fun found_ok :: "('r \<Rightarrow> 'k) \<Rightarrow> 'k \<Rightarrow> 'r multiset \<Rightarrow> 'r option \<Rightarrow> bool" where
  "found_ok key k m None \<longleftrightarrow> (\<forall>r\<in>#m. key r \<noteq> k)"
| "found_ok key k m (Some r) \<longleftrightarrow> r \<in># m \<and> key r = k"

fun answers_ok :: "('r \<Rightarrow> 'k) \<Rightarrow> ('r, 'k) table_op list \<Rightarrow> 'r multiset \<Rightarrow> 'r table_answer list \<Rightarrow> bool" where
  "answers_ok key [] m as \<longleftrightarrow> as = []"
| "answers_ok key (Ins r # ops) m as \<longleftrightarrow> (\<exists>as'. as = Inserted # as' \<and> answers_ok key ops (add_mset r m) as')"
| "answers_ok key (Del r # ops) m as \<longleftrightarrow>
     (\<exists>as'. as = Deleted (r \<notin># m) # as' \<and> answers_ok key ops (m - {#r#}) as')"
| "answers_ok key (Find k # ops) m as \<longleftrightarrow>
     (\<exists>a as'. as = Found a # as' \<and> found_ok key k m a \<and> answers_ok key ops m as')"

text \<open>The interface: what a client of the table may rely on.\<close>

locale bag_table =
  fixes inv :: "'t \<Rightarrow> bool" and bag :: "'t \<Rightarrow> 'r multiset" and key_of :: "'t \<Rightarrow> 'r \<Rightarrow> 'k" and legal :: "'k \<Rightarrow> bool"
    and lim :: nat
    and ins :: "'t \<Rightarrow> 'r \<Rightarrow> 't option" and del :: "'t \<Rightarrow> 'r \<Rightarrow> (bool \<times> 't) option"
    and search :: "'t \<Rightarrow> 'k \<Rightarrow> ('r option \<times> 't) option"
  assumes ins: "inv t \<Longrightarrow> size (bag t) < lim \<Longrightarrow>
      \<exists>t'. ins t r = Some t' \<and> inv t' \<and> bag t' = add_mset r (bag t) \<and> key_of t' = key_of t"
    and del: "inv t \<Longrightarrow> \<exists>t'. del t r = Some (r \<notin># bag t, t') \<and> inv t' \<and> bag t' = bag t - {#r#} \<and> key_of t' = key_of t"
    and search: "inv t \<Longrightarrow> legal k \<Longrightarrow> \<exists>a t'. search t k = Some (a, t') \<and> inv t' \<and> bag t' = bag t \<and>
      key_of t' = key_of t \<and> found_ok (key_of t) k (bag t) a"
begin

lemma run_refines_bag:
  "inv t \<Longrightarrow> within lim ops (bag t) \<Longrightarrow> (\<And>k. Find k \<in> set ops \<Longrightarrow> legal k) \<Longrightarrow>
     \<exists>as t'. run_table ins del search ops t = Some (as, t') \<and> inv t' \<and> bag t' = bag_after ops (bag t) \<and>
       key_of t' = key_of t \<and> answers_ok (key_of t) ops (bag t) as"
proof (induction ops arbitrary: t)
  case (Cons op ops)
  show ?case
  proof (cases op)
    case (Ins r)
    with Cons.prems(2) have lim: "size (bag t) < lim" by simp
    from ins [OF Cons.prems(1) lim, of r] obtain t' where "ins t r = Some t'" "inv t'"
      "bag t' = add_mset r (bag t)" "key_of t' = key_of t" by blast
    with Cons.IH [of t'] Cons.prems(2,3) Ins show ?thesis by fastforce
  next
    case (Del r)
    from del [OF Cons.prems(1), of r] obtain t' where "del t r = Some (r \<notin># bag t, t')" "inv t'"
      "bag t' = bag t - {#r#}" "key_of t' = key_of t" by blast
    with Cons.IH [of t'] Cons.prems(2,3) Del show ?thesis by fastforce
  next
    case (Find k)
    with Cons.prems(3) have "legal k" by simp
    from search [OF Cons.prems(1) this] obtain a t' where "search t k = Some (a, t')" "inv t'" "bag t' = bag t"
      "key_of t' = key_of t" "found_ok (key_of t) k (bag t) a" by blast
    with Cons.IH [of t'] Cons.prems(2,3) Find show ?thesis by fastforce
  qed
qed simp

end

definition hash_find :: "'r HASH \<Rightarrow> byte list \<Rightarrow> ('r option \<times> 'r HASH) option" where
  "hash_find h key = hash_search h key (length key)"

lemma hash_search_current: "hash_search h key len = Some (a, h') \<Longrightarrow> \<exists>c. h' = h\<lparr>current_record := c\<rparr>"
  by (auto simp: hash_search_def split: if_splits option.splits)

lemma hash_wf_current [simp]: "hash_wf (h\<lparr>current_record := c\<rparr>) = hash_wf h"
  by (simp add: hash_wf_def hash_sizes_def home_def hash_rec_mask_def rec_hashnr_def)

lemma hash_find_bag:
  assumes wf: "hash_wf h" and key: "key \<noteq> []"
  shows "\<exists>a h'. hash_find h key = Some (a, h') \<and> hash_wf h' \<and> hash_recs h' = hash_recs h \<and> get_key h' = get_key h \<and>
    found_ok (get_key h) key (hash_recs h) a"
proof -
  have len: "length (links h) = records h" using wf by (simp add: hash_wf_def hash_sizes_def)
  from hash_search_correct [OF wf, of key] key obtain a h' where s: "hash_search h key (length key) = Some (a, h')"
    "case a of None \<Rightarrow> \<forall>i < records h. get_key h (link_data (links h ! i)) \<noteq> key
     | Some r \<Rightarrow> (\<exists>i < records h. r = link_data (links h ! i)) \<and> get_key h r = key" by auto
  obtain c where "h' = h\<lparr>current_record := c\<rparr>" using hash_search_current [OF s(1)] by blast
  with wf s len show ?thesis
    by (cases a) (auto simp: hash_find_def hash_recs_mem, simp_all add: hash_recs_def)
qed

text \<open>Deletes leave the block of the array as it is.\<close>

lemma hash_delete_block:
  "hash_delete h r = Some (f, h') \<Longrightarrow>
     array_max h' = array_max h \<and> array_inc h' = array_inc h \<and> array_bytes h' = array_bytes h"
  by (auto simp: hash_delete_def Let_def split: if_splits option.splits prod.splits)

lemma hash_delete_room:
  assumes "hash_room h" and "hash_delete h r = Some (f, h')" and "hash_recs h' \<subseteq># hash_recs h"
  shows "hash_room h'"
proof -
  have "length (links h') \<le> length (links h)"
    using size_mset_mono [OF assms(3)] by (simp add: hash_recs_def)
  with assms(1) hash_delete_block [OF assms(2)] show ?thesis by (simp add: hash_room_def)
qed

lemma hash_find_room: "hash_find h k = Some (a, h') \<Longrightarrow> hash_room h' = hash_room h"
  by (auto simp: hash_find_def hash_room_def dest!: hash_search_current)

definition hash_inv :: "'r HASH \<Rightarrow> bool" where
  "hash_inv h \<longleftrightarrow> hash_wf h \<and> hash_room h"

interpretation hashtab: bag_table hash_inv hash_recs get_key "\<lambda>k. k \<noteq> []" hash_limit hash_insert hash_delete hash_find
proof (unfold_locales)
  fix h :: "'r HASH" and r k
  assume inv: "hash_inv h"
  then have wf: "hash_wf h" and room: "hash_room h" by (simp_all add: hash_inv_def)
  show "\<exists>h'. hash_insert h r = Some h' \<and> hash_inv h' \<and> hash_recs h' = add_mset r (hash_recs h) \<and> get_key h' = get_key h"
    if "size (hash_recs h) < hash_limit"
    using hash_insert_bag [OF wf room that, of r] by (auto simp: hash_inv_def)
  show "\<exists>h'. hash_delete h r = Some (r \<notin># hash_recs h, h') \<and> hash_inv h' \<and> hash_recs h' = hash_recs h - {#r#} \<and>
      get_key h' = get_key h"
  proof (cases "r \<in># hash_recs h")
    case True
    from hash_delete_bag [OF wf this] obtain h' where d: "hash_delete h r = Some (False, h')" "hash_wf h'"
      "add_mset r (hash_recs h') = hash_recs h" "get_key h' = get_key h" by blast
    from d(3) have rest: "hash_recs h' = hash_recs h - {#r#}" by (metis add_mset_remove_trivial)
    with hash_delete_room [OF room d(1)] d True show ?thesis by (simp add: hash_inv_def)
  next
    case False
    with hash_delete_missing [OF wf] inv show ?thesis by simp
  qed
  show "\<exists>a h'. hash_find h k = Some (a, h') \<and> hash_inv h' \<and> hash_recs h' = hash_recs h \<and> get_key h' = get_key h \<and>
      found_ok (get_key h) k (hash_recs h) a" if "k \<noteq> []"
    using hash_find_bag [OF wf that] hash_find_room room unfolding hash_inv_def by blast
qed

lemma hash_init_wf: "hash_wf (hash_init n klen getk flags)" "hash_recs (hash_init n klen getk flags) = {#}"
  "get_key (hash_init n klen getk flags) = getk"
proof -
  have "hash_sizes (hash_init n klen getk flags)" by (auto simp: hash_sizes_def hash_init_def intro: exI [of _ 0])
  then show "hash_wf (hash_init n klen getk flags)" by (simp add: hash_wf_def hash_init_def)
qed (simp_all add: hash_init_def hash_recs_def)

text \<open>
  C3. The hash table is a bag of records, up to the size its 32-bit numbers allow: whatever sequence of
  inserts, deletes and searches is run on a new table, such that it holds fewer than 2^28 - 512 records
  at every insert (beyond that the size of its array in bytes wraps) and no search has an empty key
  (whose length 0 stands for any key), every operation returns, the table holds the records that were
  inserted and not deleted again, the answer of a delete tells whether the record was there, and a
  search finds a record with the key if there is one. The table is well formed again at the end. It was
  made for fewer than 2^28 elements.
\<close>

theorem hash_table_is_bag:
  assumes "unat n < 2 ^ 28" and "within hash_limit ops {#}" and "\<And>k. Find k \<in> set ops \<Longrightarrow> k \<noteq> []"
  shows "\<exists>as h. run_table hash_insert hash_delete hash_find ops (hash_init n klen getk flags) = Some (as, h) \<and>
    hash_wf h \<and> hash_recs h = bag_after ops {#} \<and> answers_ok getk ops {#} as"
proof -
  let ?h = "hash_init n klen getk flags"
  have "hash_inv ?h" by (simp add: hash_inv_def hash_init_wf(1) hash_init_room [OF assms(1)])
  with hashtab.run_refines_bag [of ?h ops] assms(2,3) show ?thesis by (fastforce simp: hash_init_wf hash_inv_def)
qed

lemma hash_table_is_bag_witness:
  "\<exists>as h. run_table hash_insert hash_delete hash_find [Ins 0x61, Ins 0x65, Ins 0x69, Del 0x61, Del 0x62, Find [0x65]]
      (hash_init 0 0 (\<lambda>b. [b :: byte]) 0) = Some (as, h) \<and>
    hash_wf h \<and> hash_recs h = {#0x65, 0x69#} \<and> as = [Inserted, Inserted, Inserted, Deleted False, Deleted True, Found (Some 0x65)]"
proof -
  let ?ops = "[Ins 0x61, Ins 0x65, Ins 0x69, Del 0x61, Del 0x62, Find [0x65 :: byte]]"
  have "k \<noteq> []" if "Find k \<in> set ?ops" for k using that by auto
  moreover have "within hash_limit ?ops {#}" by (simp add: hash_limit_def)
  ultimately show ?thesis
    using hash_table_is_bag [where n = 0 and ops = ?ops and klen = 0 and getk = "\<lambda>b. [b]" and flags = 0]
    by (auto elim!: found_ok.elims)
qed

end
