(* ===== verification/Ma_Hash_Update.thy ===== *)
theory Ma_Hash_Update
  imports Ma_Hash_Bag
begin

text \<open>
  \<open>hash_update\<close> of \<open>ma_hash.c\<close>: a record whose key its owner has changed is moved to its new home.
  That is right unless the place the record leaves is the new home; then the element is linked to
  itself, or the walk along the links leaves the chain.
\<close>

section \<open>Putting a record behind the first of its chain\<close>

lemma recs_place:
  "finite P \<Longrightarrow> e \<notin> P \<Longrightarrow> e < length a \<Longrightarrow> recs (a[e := l]) (insert e P) = add_mset (link_data l) (recs a P)"
proof -
  assume "finite P" "e \<notin> P" "e < length a"
  moreover from this have "recs (a[e := l]) P = recs a P" by (intro recs_cong) (auto simp: nth_update)
  ultimately show ?thesis by (simp add: recs_insert)
qed

lemma place_second:
  assumes B: "buckets a hm P B" and e: "e < length a" "e \<notin> P" and x: "x \<in> P" "hm (link_data (a ! x)) = x" and r: "hm r = x"
  defines "a' \<equiv> a[e := \<lparr>next_link = next_link (a ! x), link_data = r\<rparr>, x := (a ! x)\<lparr>next_link := Some e\<rparr>]"
  shows "\<exists>B'. buckets a' hm (insert e P) B' \<and> recs a' (insert e P) = add_mset r (recs a P)"
proof -
  note D = bucketsD [OF B]
  have "x \<in> set (B x)" using D(3) x by blast
  with bucket_hd [OF B, of x] obtain ys where ys: "B x = x # ys" by fastforce
  have ex: "e \<noteq> x" "x < length a" using e x D(1) by auto
  have no_e: "e \<notin> set (B b)" for b using D(3) e by blast
  have yse: "e \<notin> set ys" "x \<notin> set ys" "distinct ys" using no_e [of x] D(2) [of x] ys by auto
  have len: "length a' = length a" by (simp add: a'_def)
  have data: "link_data (a' ! i) = (if i = e then r else link_data (a ! i))" for i
    using e(1) ex by (auto simp: a'_def nth_update)
  have "lseg a (next_link (a ! x)) ys None" using D(4) [of x] ys by simp
  then have "lseg a' (next_link (a ! x)) ys None"
    by (rule lseg_cong [THEN iffD2, OF len, rotated]) (use yse in \<open>auto simp: a'_def nth_update\<close>)
  then have new: "lseg a' (Some x) (x # e # ys) None" using e ex by (simp add: a'_def)
  have other: "lseg a' (Some b) (B b) None" if "B b \<noteq> []" "b \<noteq> x" for b
  proof (rule lseg_kept [OF B that(1) len])
    fix j assume "j \<in> set (B b)"
    with D(3) [of j b] x(2) no_e [of b] that(2) have "j \<noteq> x" "j \<noteq> e" by auto
    then show "a' ! j = a ! j" by (simp add: a'_def nth_update)
  qed
  have "i \<in> set ys \<longleftrightarrow> i \<in> P \<and> hm (link_data (a ! i)) = x \<and> i \<noteq> x" for i using D(3) [of i x] ys yse by auto
  then have "buckets a' hm (insert e P) (B(x := x # e # ys))"
    using D(1-3) e ex r x yse new other by (intro bucketsI) (auto simp: len data split: if_splits)
  moreover have "recs a' P = recs a P" by (rule recs_cong) (use D(5) e in \<open>auto simp: data\<close>)
  then have "recs a' (insert e P) = add_mset r (recs a P)" using D(5) e by (simp add: recs_insert data)
  ultimately show ?thesis by blast
qed

text \<open>The record at the new home belongs elsewhere: it goes to the free place, and the record in.\<close>

lemma replace_evicted:
  assumes B: "buckets a hm P B" and e: "e < length a" "e \<notin> P" and x: "x \<in> P" "hm (link_data (a ! x)) = g" "g \<noteq> x"
    and r: "hm r = x" and fuel: "length a \<le> fuel"
  shows "\<exists>a' B'. movelink (a[e := a ! x]) (Some x) g (Some e) fuel = Some a' \<and> length a' = length a \<and>
    buckets (a'[x := \<lparr>next_link = None, link_data = r\<rparr>]) hm (insert e P) B' \<and>
    recs (a'[x := \<lparr>next_link = None, link_data = r\<rparr>]) (insert e P) = add_mset r (recs a P)"
proof -
  obtain us vs where us: "B g = us @ x # vs" "us \<noteq> []" "lseg a (Some g) us (Some x)" "distinct (us @ x # vs)"
    "e \<notin> set us" "set us \<subseteq> P" "length us \<le> length a"
    "buckets (a[e := a ! x, last us := (a ! last us)\<lparr>next_link := Some e\<rparr>]) hm (insert e (P - {x})) (B(g := us @ e # vs))"
    "recs (a[e := a ! x, last us := (a ! last us)\<lparr>next_link := Some e\<rparr>]) (insert e (P - {x})) = recs a P"
    using buckets_relocate [OF B e x] by blast
  define a' where "a' = a[e := a ! x, last us := (a ! last us)\<lparr>next_link := Some e\<rparr>]"
  have len: "length a' = length a" by (simp add: a'_def)
  have lne: "last us \<noteq> e" using us(2,5) last_in_set [of us] by auto
  have "lseg (a[e := a ! x]) (Some g) us (Some x)"
    by (rule lseg_cong [THEN iffD2, OF _ _ us(3)]) (use us(5) in \<open>auto simp: nth_update\<close>)
  then have mv: "movelink (a[e := a ! x]) (Some x) g (Some e) fuel = Some a'"
    using movelink_seg [of "a[e := a ! x]" g us "Some x" fuel "Some e"] us(2,4,7) fuel lne by (simp add: a'_def)
  have xe: "x \<noteq> e" "x < length a'" using x(1) e(2) bucketsD(1) [OF B] len by auto
  have "insert x (insert e (P - {x})) = insert e P" using x(1) by auto
  moreover have "x \<notin> insert e (P - {x})" using xe by simp
  ultimately show ?thesis
    using place_free [OF us(8) [folded a'_def] xe(2) _ r] mv len us(9) [folded a'_def]
      recs_place [of "insert e (P - {x})" x a' "\<lparr>next_link = None, link_data = r\<rparr>"] bucketsD(5) [OF B] xe(2)
    by auto
qed

section \<open>The update\<close>

text \<open>The place that becomes free when the record leaves its chain.\<close>

definition update_free :: "'r HASH \<Rightarrow> 'r \<Rightarrow> nat option" where
  "update_free h r =
     (case find_loop (links h) r None (hash_hm h r) (records h) of
        Some (Some (prev, pos)) \<Rightarrow> Some (snd (delete_place (links h) prev pos))
      | _ \<Rightarrow> None)"

lemma hash_update_place:
  assumes "get_key h r = old_key" and "old_key \<noteq> []"
    and "h2 = h\<lparr>get_key := gk\<rparr>"
  shows "hash_update h2 r old_key (length old_key) =
    (if hash_hm h r = hash_hm h2 r then Some (False, h2)
     else
       case find_loop (links h) r None (hash_hm h r) (records h) of
         None \<Rightarrow> None
       | Some None \<Rightarrow> Some (True, h2)
       | Some (Some (prev, pos)) \<Rightarrow>
           let (a1, e) = delete_place (links h) prev pos; org = links h ! pos; x = hash_hm h2 r;
               g = hash_hm h2 (link_data (a1 ! x)) in
           map_option (\<lambda>a2. (False, h2\<lparr>links := a2, current_record := None\<rparr>))
             (if x \<noteq> g then
                map_option (\<lambda>a2. a2[x := org\<lparr>next_link := None\<rparr>]) (movelink (a1[e := a1 ! x]) (Some x) g (Some e) (Suc (records h)))
              else
                let a2 = a1[e := org\<lparr>next_link := next_link (a1 ! x)\<rparr>] in
                Some (a2[x := (a2 ! x)\<lparr>next_link := Some e\<rparr>])))"
  using assms(1,2) unfolding hash_update_def assms(3) delete_place_def
  by (simp add: hash_hm_def hash_rec_mask_def rec_hashnr_def Let_def split: option.split)

text \<open>How the record is found and what its removal leaves.\<close>

lemma update_removal:
  assumes wf: "hash_wf h" and r: "count (hash_recs h) r = 1"
  obtains B us pos vs a1 e B1 where "buckets (links h) (hash_hm h) {..<records h} B" "B (hash_hm h r) = us @ pos # vs"
    "link_data (links h ! pos) = r"
    "find_loop (links h) r None (hash_hm h r) (records h) = Some (Some (if us = [] then None else Some (last us), pos))"
    "delete_place (links h) (if us = [] then None else Some (last us)) pos = (a1, e)" "length a1 = records h"
    "e < records h" "buckets a1 (hash_hm h) ({..<records h} - {e}) B1"
    "add_mset r (recs a1 ({..<records h} - {e})) = hash_recs h" "r \<notin># recs a1 ({..<records h} - {e})"
    "update_free h r = Some e"
proof -
  obtain B where S: "hash_sizes h" and B: "buckets (links h) (hash_hm h) {..<records h} B"
    using wf by (auto simp: hash_wf_buckets)
  have len: "length (links h) = records h" using S by (simp add: hash_sizes_def)
  have "r \<in># hash_recs h" using r by (simp flip: count_greater_zero_iff)
  with record_found [OF wf B] obtain us pos vs where us: "B (hash_hm h r) = us @ pos # vs" "link_data (links h ! pos) = r"
    "find_loop (links h) r None (hash_hm h r) (records h) = Some (Some (if us = [] then None else Some (last us), pos))"
    by blast
  obtain a1 e where pl: "delete_place (links h) (if us = [] then None else Some (last us)) pos = (a1, e)" by fastforce
  note dp = delete_place_bag [OF B us(1) pl]
  have "recs (links h) {..<records h} = hash_recs h" using recs_all [OF len] by (simp add: hash_recs_def)
  then have ms: "add_mset r (recs a1 ({..<records h} - {e})) = hash_recs h" using dp(4) us(2) by simp
  then have "count (recs a1 ({..<records h} - {e})) r = 0" using r by (metis count_add_mset diff_Suc_1 One_nat_def)
  then have nr: "r \<notin># recs a1 ({..<records h} - {e})" by (simp add: count_eq_zero_iff)
  have uf: "update_free h r = Some e" using us(3) pl by (simp add: update_free_def)
  obtain B1 where B1: "buckets a1 (hash_hm h) ({..<records h} - {e}) B1" using dp(3) by blast
  have "length a1 = records h" "e < records h" using dp(1,2) len by simp_all
  from that [OF B us pl this B1 ms nr uf] show thesis .
qed

lemma other_homes:
  assumes "\<And>x. x \<noteq> r \<Longrightarrow> gk x = get_key h x"
  shows "x \<noteq> r \<Longrightarrow> hash_hm (h\<lparr>get_key := gk\<rparr>) x = hash_hm h x"
  using assms by (simp add: hash_hm_def hash_rec_mask_def rec_hashnr_def)

lemma hash_update_right:
  assumes wf: "hash_wf h" and r: "count (hash_recs h) r = 1" and key: "get_key h r \<noteq> []"
    and gk: "\<And>x. x \<noteq> r \<Longrightarrow> gk x = get_key h x" and h2: "h2 = h\<lparr>get_key := gk\<rparr>"
    and free: "hash_hm h r = hash_hm h2 r \<or> update_free h r \<noteq> Some (hash_hm h2 r)"
  shows "\<exists>h'. hash_update h2 r (get_key h r) (length (get_key h r)) = Some (False, h') \<and> hash_wf h' \<and>
    hash_recs h' = hash_recs h \<and> get_key h' = gk"
proof -
  obtain B us pos vs a1 e B1 where B: "buckets (links h) (hash_hm h) {..<records h} B" "B (hash_hm h r) = us @ pos # vs"
    "link_data (links h ! pos) = r"
    and find: "find_loop (links h) r None (hash_hm h r) (records h) = Some (Some (if us = [] then None else Some (last us), pos))"
    and pl: "delete_place (links h) (if us = [] then None else Some (last us)) pos = (a1, e)" "length a1 = records h" "e < records h"
    and B1: "buckets a1 (hash_hm h) ({..<records h} - {e}) B1"
    and ms: "add_mset r (recs a1 ({..<records h} - {e})) = hash_recs h" "r \<notin># recs a1 ({..<records h} - {e})"
    and e: "update_free h r = Some e"
    by (rule update_removal [OF wf r]) blast
  note other = other_homes [where r = r and gk = gk and h = h, OF gk, folded h2]
  have S: "hash_sizes h2" using wf by (simp add: h2 hash_wf_def hash_sizes_def)
  note upd = hash_update_place [OF refl key h2, unfolded find]
  show ?thesis
  proof (cases "hash_hm h r = hash_hm h2 r")
    case True
    then have "hash_hm h x = hash_hm h2 x" for x using other [of x] by (cases "x = r") auto
    with S B(1) have "hash_wf h2" by (intro hash_wfI [of h2 "hash_hm h" B]) (simp_all add: h2)
    with True upd show ?thesis by (simp add: h2 hash_recs_def)
  next
    case False
    define P where "P = {..<records h} - {e}"
    have P: "e \<notin> P" "insert e P = {..<records h}" "finite P" using pl(3) by (auto simp: P_def)
    have "hash_hm h2 (link_data (a1 ! i)) = hash_hm h (link_data (a1 ! i))" if "i \<in> P" for i
    proof (rule other)
      have "link_data (a1 ! i) \<in># recs a1 P" using that P(3) by (simp add: recs_def)
      with ms(2) show "link_data (a1 ! i) \<noteq> r" by (auto simp: P_def)
    qed
    then have B2: "buckets a1 (hash_hm h2) P B1" by (rule buckets_hm_cong [OF B1 [folded P_def]])
    define x g where "x = hash_hm h2 r" and "g = hash_hm h2 (link_data (a1 ! x))"
    have "0 < records h2" using pl(3) by (simp add: h2)
    then have "x < records h" using hash_hm_less [OF S, of r] by (simp add: x_def h2)
    moreover have xe: "x \<noteq> e" using free False e by (auto simp: x_def)
    ultimately have xP: "x \<in> P" by (simp add: P_def)
    have el: "e < length a1" using pl(2,3) by simp
    define nx where "nx = h2\<lparr>links := a1, current_record := None\<rparr>"
    have fin: "\<exists>h'. Some (False, h2\<lparr>links := a2, current_record := None\<rparr>) = Some (False, h') \<and> hash_wf h' \<and>
        hash_recs h' = hash_recs h \<and> get_key h' = gk"
      if a2: "length a2 = records h" "buckets a2 (hash_hm h2) (insert e P) B'" "recs a2 (insert e P) = add_mset r (recs a1 P)"
      for a2 B'
    proof -
      let ?h = "h2\<lparr>links := a2, current_record := None\<rparr>"
      have "hash_hm h2 y = hash_hm ?h y" for y by (simp add: hash_hm_def hash_rec_mask_def rec_hashnr_def)
      with S a2(1,2) have "hash_wf ?h"
        by (intro hash_wfI [of ?h "hash_hm h2" B']) (simp_all add: P(2) h2 hash_sizes_def)
      moreover have "hash_recs ?h = hash_recs h"
        using recs_all [OF a2(1)] a2(3) ms(1) by (simp add: P(2) hash_recs_def flip: P_def)
      ultimately show ?thesis by (simp add: h2)
    qed
    show ?thesis
    proof (cases "g = x")
      case True
      define a2 where "a2 = a1[e := \<lparr>next_link = next_link (a1 ! x), link_data = r\<rparr>, x := (a1 ! x)\<lparr>next_link := Some e\<rparr>]"
      obtain B' where "buckets a2 (hash_hm h2) (insert e P) B'" "recs a2 (insert e P) = add_mset r (recs a1 P)"
        using place_second [OF B2 el P(1) xP _ x_def [symmetric]] True unfolding a2_def g_def by blast
      moreover have "(links h ! pos)\<lparr>next_link := next_link (a1 ! x)\<rparr> = \<lparr>next_link = next_link (a1 ! x), link_data = r\<rparr>"
        using B(3) by simp
      then have "hash_update h2 r (get_key h r) (length (get_key h r)) = Some (False, h2\<lparr>links := a2, current_record := None\<rparr>)"
        using upd False True pl(1) xe by (simp add: Let_def a2_def nth_update flip: x_def g_def)
      moreover have "length a2 = records h" by (simp add: a2_def pl(2))
      ultimately show ?thesis using fin by simp
    next
      case out: False
      have fuel: "length a1 \<le> Suc (records h)" using pl(2) by simp
      obtain a2 B' where a2: "movelink (a1[e := a1 ! x]) (Some x) g (Some e) (Suc (records h)) = Some a2" "length a2 = length a1"
        "buckets (a2[x := \<lparr>next_link = None, link_data = r\<rparr>]) (hash_hm h2) (insert e P) B'"
        "recs (a2[x := \<lparr>next_link = None, link_data = r\<rparr>]) (insert e P) = add_mset r (recs a1 P)"
        using replace_evicted [OF B2 el P(1) xP g_def [symmetric] out x_def [symmetric] fuel] by blast
      have "(links h ! pos)\<lparr>next_link := None\<rparr> = \<lparr>next_link = None, link_data = r\<rparr>" using B(3) by simp
      then have "hash_update h2 r (get_key h r) (length (get_key h r)) =
          Some (False, h2\<lparr>links := a2[x := \<lparr>next_link = None, link_data = r\<rparr>], current_record := None\<rparr>)"
        using upd False out pl(1) a2(1) by (simp add: Let_def flip: x_def g_def)
      with fin [OF _ a2(3,4)] a2(2) pl(2) show ?thesis by simp
    qed
  qed
qed

lemma movelink_none:
  "lseg a (Some s) us None \<Longrightarrow> i \<notin> set us \<Longrightarrow> movelink a (Some i) s nl fuel = None"
proof (induction us arbitrary: s fuel)
  case (Cons u us)
  show ?case
  proof (cases fuel)
    case (Suc fuel')
    show ?thesis
    proof (cases us)
      case (Cons v vs)
      with Cons.prems Cons.IH [of v fuel'] Suc show ?thesis by (simp add: movelink.simps(2))
    qed (use Cons.prems Suc in \<open>simp add: movelink.simps(2)\<close>)
  qed simp
qed simp

lemma search_loop_self:
  assumes "next_link (links h ! p) = Some p" and "hash_hm h (link_data (links h ! p)) = p"
    and "key \<noteq> []" and "get_key h (link_data (links h ! p)) \<noteq> key"
  shows "search_loop h key (length key) flag p fuel = None"
proof (induction fuel arbitrary: flag)
  case (Suc fuel)
  have "hashcmp h (link_data (links h ! p)) key (length key)" using assms(3,4) by (auto simp: hashcmp_def Let_def)
  with assms(1,2) Suc show ?case by (simp add: search_loop.simps(2) hash_hm_def Let_def)
qed simp

lemma hash_update_wrong:
  assumes wf: "hash_wf h" and r: "count (hash_recs h) r = 1" and key: "get_key h r \<noteq> []"
    and gk: "\<And>x. x \<noteq> r \<Longrightarrow> gk x = get_key h x" and h2: "h2 = h\<lparr>get_key := gk\<rparr>"
    and new: "hash_hm h r \<noteq> hash_hm h2 r" and free: "update_free h r = Some (hash_hm h2 r)"
  shows "case hash_update h2 r (get_key h r) (length (get_key h r)) of
      None \<Rightarrow> True
    | Some (_, h') \<Rightarrow> \<forall>k fuel. k \<noteq> [] \<longrightarrow> k \<noteq> gk r \<longrightarrow> search_loop h' k (length k) True (hash_hm h' r) fuel = None"
proof -
  obtain B us pos vs a1 e B1 where B: "buckets (links h) (hash_hm h) {..<records h} B" "B (hash_hm h r) = us @ pos # vs"
    "link_data (links h ! pos) = r"
    and find: "find_loop (links h) r None (hash_hm h r) (records h) = Some (Some (if us = [] then None else Some (last us), pos))"
    and pl: "delete_place (links h) (if us = [] then None else Some (last us)) pos = (a1, e)" "length a1 = records h" "e < records h"
    and B1: "buckets a1 (hash_hm h) ({..<records h} - {e}) B1"
    and ms: "add_mset r (recs a1 ({..<records h} - {e})) = hash_recs h" "r \<notin># recs a1 ({..<records h} - {e})"
    and e: "update_free h r = Some e"
    by (rule update_removal [OF wf r]) blast
  note other = other_homes [where r = r and gk = gk and h = h, OF gk, folded h2]
  note upd = hash_update_place [OF refl key h2, unfolded find]
  define b where "b = hash_hm h r"
  have ex: "e = hash_hm h2 r" "e \<noteq> b" using e free new by (auto simp: b_def)
  have d: "distinct (us @ pos # vs)" using bucketsD(2) [OF B(1), of b] B(2) by (simp add: b_def)
  show ?thesis
  proof (cases "us = []")
    case False
    then have a1: "a1 = (links h)[last us := (links h ! last us)\<lparr>next_link := next_link (links h ! pos)\<rparr>]" "e = pos"
      using pl(1) by (auto simp: delete_place_def)
    have "last us \<noteq> pos" using d False last_in_set [of us] by auto
    then have a1e: "a1 ! e = links h ! e" by (simp add: a1 nth_update)
    then have home: "hash_hm h2 (link_data (a1 ! e)) = e" using B(3) a1(2) ex(1) by simp
    define a2 where "a2 = a1[e := (links h ! e)\<lparr>next_link := next_link (a1 ! e)\<rparr>]"
    define h' where "h' = h2\<lparr>links := a2[e := (a2 ! e)\<lparr>next_link := Some e\<rparr>], current_record := None\<rparr>"
    have "hash_update h2 r (get_key h r) (length (get_key h r)) = Some (False, h')"
      using upd new pl(1) home by (simp add: Let_def a2_def h'_def a1(2) flip: ex(1))
    moreover have "search_loop h' k (length k) True (hash_hm h' r) fuel = None" if "k \<noteq> []" "k \<noteq> gk r" for k fuel
    proof -
      have l: "next_link (links h' ! e) = Some e" "link_data (links h' ! e) = r"
        using pl(2,3) B(3) a1(2) by (simp_all add: h'_def a2_def)
      have "hash_hm h' r = hash_hm h2 r" by (simp add: h'_def hash_hm_def hash_rec_mask_def rec_hashnr_def)
      then have he: "hash_hm h' r = e" using ex(1) by simp
      have "get_key h' r = gk r" by (simp add: h'_def h2)
      then show ?thesis unfolding he using l he that by (intro search_loop_self) auto
    qed
    ultimately show ?thesis by simp
  next
    case True
    with bucket_hd [OF B(1), of b] B(2) have pos: "pos = b" by (auto simp: b_def)
    have seg: "lseg (links h) (Some b) (b # vs) None" using bucketsD(4) [OF B(1), of b] B(2) True pos by (simp add: b_def)
    show ?thesis
    proof (cases vs)
      case Nil
      then have "e = pos" using seg pl(1) True pos by (simp add: delete_place_def)
      with pos ex(2) show ?thesis by simp
    next
      case (Cons q ws)
      then have a1: "a1 = (links h)[b := links h ! q]" "e = q" using seg pl(1) True pos by (auto simp: delete_place_def)
      have dq: "distinct (b # q # ws)" using d True pos Cons by simp
      have bl: "b < length (links h)" "q < length (links h)" using seg Cons by auto
      have "q \<in> set (B b)" using B(2) True Cons by (simp add: b_def)
      then have qh: "hash_hm h (link_data (links h ! q)) = b" using bucketsD(3) [OF B(1), of q b] by simp
      have "b \<in> {..<records h} - {e}" using a1 dq bl pl(2) by auto
      then have "link_data (a1 ! b) \<in># recs a1 ({..<records h} - {e})" by (simp add: recs_def)
      moreover have "link_data (a1 ! b) = link_data (links h ! q)" using a1 bl by simp
      ultimately have "link_data (links h ! q) \<noteq> r" using ms(2) by auto
      then have g: "hash_hm h2 (link_data (a1 ! q)) = b" using other [of "link_data (links h ! q)"] qh a1 dq by (simp add: nth_update)
      have "lseg (links h) (next_link (links h ! q)) ws None" using seg Cons by simp
      then have "lseg a1 (next_link (links h ! q)) ws None"
        by (rule lseg_cong [THEN iffD2, rotated 2]) (use a1 dq in \<open>auto simp: nth_update\<close>)
      then have "lseg a1 (Some b) (b # ws) None" using a1 bl by simp
      from movelink_none [OF this, of q] dq have "movelink a1 (Some q) b (Some q) (Suc (records h)) = None" by simp
      moreover have "hash_hm h2 r = q" "q \<noteq> b" using ex a1(2) by simp_all
      moreover have "delete_place (links h) (if us = [] then None else Some (last us)) pos = (a1, q)" using pl(1) a1(2) by simp
      ultimately have "hash_update h2 r (get_key h r) (length (get_key h r)) = None"
        using upd new g by (simp add: Let_def)
      then show ?thesis by simp
    qed
  qed
qed

section \<open>Properties\<close>

text \<open>
  C39. \<open>hash_update\<close> is right exactly when the place it frees is not the new home. A record that the
  table holds once has got another key (\<open>gk\<close> instead of \<open>get_key\<close>). If its home is the same, or the
  place freed by taking it out of its chain is not the new home, the call succeeds and the table is
  well formed again with the same records. Otherwise the element at the new home ends up linked to
  itself, so that a search for a key of that home which the record does not have never ends, or
  the walk along the links runs off the end of a chain (\<open>None\<close>).
\<close>

theorem hash_update_outcome:
  assumes "hash_wf h" and "count (hash_recs h) r = 1" and "get_key h r \<noteq> []"
    and "\<And>x. x \<noteq> r \<Longrightarrow> gk x = get_key h x" and "h2 = h\<lparr>get_key := gk\<rparr>"
  shows "if hash_hm h r = hash_hm h2 r \<or> update_free h r \<noteq> Some (hash_hm h2 r)
    then \<exists>h'. hash_update h2 r (get_key h r) (length (get_key h r)) = Some (False, h') \<and> hash_wf h' \<and>
      hash_recs h' = hash_recs h \<and> get_key h' = gk
    else case hash_update h2 r (get_key h r) (length (get_key h r)) of
        None \<Rightarrow> True
      | Some (_, h') \<Rightarrow> \<forall>k fuel. k \<noteq> [] \<longrightarrow> k \<noteq> gk r \<longrightarrow> search_loop h' k (length k) True (hash_hm h' r) fuel = None"
  using hash_update_right [OF assms] hash_update_wrong [OF assms] by (auto split: if_split)

text \<open>In the table of four letters the second record of the chain gets a key whose home is its place.\<close>

definition c_for_e :: "byte \<Rightarrow> byte list" where
  "c_for_e b = [if b = 0x65 then 0x63 else b]"

lemma letters_update:
  "map link_data (links letters) = [0x69, 0x61, 0x65, 0x62]" "map (get_key letters) [0x69, 0x61, 0x65, 0x62] = [[0x69], [0x61], [0x65], [0x62]]"
  "hash_hm letters 0x65 = 0" "hash_hm (letters\<lparr>get_key := c_for_e\<rparr>) 0x65 = 2" "update_free letters 0x65 = Some 2"
  "\<not> Option.is_none (hash_update (letters\<lparr>get_key := c_for_e\<rparr>) 0x65 [0x65] 1)"
  by code_simp+

lemma hash_insert_key: "hash_insert h r = Some h' \<Longrightarrow> get_key h' = get_key h"
  by (auto simp: hash_insert_def Let_def split: if_splits option.splits)

lemma letters_key: "get_key letters b = [b]"
proof -
  have "\<not> Option.is_none (Option.bind (hash_insert (hash_init 0 0 (\<lambda>b. [b]) 0) 0x61)
      (\<lambda>h. Option.bind (hash_insert h 0x65) (\<lambda>h. Option.bind (hash_insert h 0x69) (\<lambda>h. hash_insert h 0x62))))"
    by code_simp
  then obtain h1 h2 h3 h4 where h: "hash_insert (hash_init 0 0 (\<lambda>b. [b]) 0) 0x61 = Some h1"
      "hash_insert h1 0x65 = Some h2" "hash_insert h2 0x69 = Some h3" "hash_insert h3 0x62 = Some h4"
    by (auto simp: Option.is_none_def bind_eq_None_conv)
  then show ?thesis
    using hash_insert_key [OF h(1)] hash_insert_key [OF h(2)] hash_insert_key [OF h(3)] hash_insert_key [OF h(4)]
    by (simp add: letters_def hash_init_wf(3))
qed

lemma hash_update_outcome_witness:
  "\<exists>f h'. hash_update (letters\<lparr>get_key := c_for_e\<rparr>) 0x65 [0x65] 1 = Some (f, h') \<and>
     (\<forall>k fuel. k \<noteq> [] \<longrightarrow> k \<noteq> [0x63] \<longrightarrow> search_loop h' k (length k) True (hash_hm h' 0x65) fuel = None)"
proof -
  have c: "count (hash_recs letters) 0x65 = 1" by (simp add: hash_recs_def letters_update(1))
  have "c_for_e x = get_key letters x" if "x \<noteq> 0x65" for x using that by (simp add: letters_key c_for_e_def)
  moreover have "c_for_e 0x65 = [0x63]" by (simp add: c_for_e_def)
  ultimately show ?thesis
    using hash_update_outcome [OF letters_wf c, of c_for_e "letters\<lparr>get_key := c_for_e\<rparr>"] letters_update(3-6)
    by (auto simp: letters_key Option.is_none_def split: option.splits)
qed

end
