(* ===== verification/Ma_Sha1.thy ===== *)
theory Ma_Sha1
  imports Prelude
begin

text \<open>
  \<open>ma_sha1.c\<close> of the client library, the hash it logs in with, and that it computes SHA-1: the
  circular schedule of 16 words, the registers that change their roles instead of their places, the
  buffer that collects a block over several updates and the length in two words come to the hash as
  the standard defines it on the whole message.
\<close>

section \<open>The code\<close>

record MA_SHA1_CTX =
  sha_state :: "u32 list"
  count0 :: u32
  count1 :: u32
  sha_buffer :: "byte list"

definition PADDING :: "byte list" where
  "PADDING = 0x80 # replicate 63 0"

definition sha_F :: "u32 \<Rightarrow> u32 \<Rightarrow> u32 \<Rightarrow> u32" where
  "sha_F x y z = z XOR (x AND (y XOR z))"

definition sha_G :: "u32 \<Rightarrow> u32 \<Rightarrow> u32 \<Rightarrow> u32" where
  "sha_G x y z = x XOR y XOR z"

definition sha_H :: "u32 \<Rightarrow> u32 \<Rightarrow> u32 \<Rightarrow> u32" where
  "sha_H x y z = (x AND y) OR (z AND (x OR y))"

definition sha_I :: "u32 \<Rightarrow> u32 \<Rightarrow> u32 \<Rightarrow> u32" where
  "sha_I x y z = x XOR y XOR z"

definition ROTATE_LEFT :: "u32 \<Rightarrow> nat \<Rightarrow> u32" where
  "ROTATE_LEFT x n = push_bit n x OR drop_bit (32 - n) x"

text \<open>\<open>W(i)\<close>, with the array after it.\<close>

definition sha_W :: "nat \<Rightarrow> u32 list \<Rightarrow> u32 \<times> u32 list" where
  "sha_W i x =
     (let tmp = x ! ((i - 3) mod 16) XOR x ! ((i - 8) mod 16) XOR x ! ((i - 14) mod 16) XOR x ! (i mod 16);
          v = ROTATE_LEFT tmp 1 in
      (v, x[i mod 16 := v]))"

text \<open>The macros \<open>FF\<close>, \<open>GG\<close>, \<open>HH\<close> and \<open>II\<close> on the variables \<open>a\<close> to \<open>e\<close>, numbered from 0; the argument
  \<open>r\<close> says which variable stands first.\<close>

definition sha_macro :: "(u32 \<Rightarrow> u32 \<Rightarrow> u32 \<Rightarrow> u32) \<Rightarrow> u32 \<Rightarrow> nat \<Rightarrow> u32 \<Rightarrow> u32 list \<Rightarrow> u32 list" where
  "sha_macro f k r w v =
     (let a = r mod 5; b = (r + 1) mod 5; c = (r + 2) mod 5; d = (r + 3) mod 5; e = (r + 4) mod 5;
          v1 = v[e := v ! e + (f (v ! b) (v ! c) (v ! d) + w + k)];
          v2 = v1[e := v1 ! e + ROTATE_LEFT (v1 ! a) 5] in
      v2[b := ROTATE_LEFT (v2 ! b) 30])"

definition sha_FF :: "nat \<Rightarrow> u32 \<Rightarrow> u32 list \<Rightarrow> u32 list" where "sha_FF = sha_macro sha_F 0x5A827999"
definition sha_GG :: "nat \<Rightarrow> u32 \<Rightarrow> u32 list \<Rightarrow> u32 list" where "sha_GG = sha_macro sha_G 0x6ED9EBA1"
definition sha_HH :: "nat \<Rightarrow> u32 \<Rightarrow> u32 list \<Rightarrow> u32 list" where "sha_HH = sha_macro sha_H 0x8F1BBCDC"
definition sha_II :: "nat \<Rightarrow> u32 \<Rightarrow> u32 list \<Rightarrow> u32 list" where "sha_II = sha_macro sha_I 0xCA62C1D6"

text \<open>Line \<open>i\<close> of the 80; each starts one variable before the last.\<close>

definition sha_line :: "nat \<Rightarrow> u32 list \<times> u32 list \<Rightarrow> u32 list \<times> u32 list" where
  "sha_line i vx =
     (let (v, x) = vx;
          (w, x1) = (if i < 16 then (x ! i, x) else sha_W i x);
          r = 80 - i in
      (if i < 20 then sha_FF r w v
       else if i < 40 then sha_GG r w v
       else if i < 60 then sha_HH r w v
       else sha_II r w v, x1))"

definition be_word :: "byte list \<Rightarrow> u32" where
  "be_word bs = ucast (bs ! 3) OR push_bit 8 (ucast (bs ! 2)) OR push_bit 16 (ucast (bs ! 1)) OR push_bit 24 (ucast (bs ! 0))"

fun ma_SHA1Decode :: "byte list \<Rightarrow> u32 list" where
  "ma_SHA1Decode (a # b # c # d # bs) = be_word [a, b, c, d] # ma_SHA1Decode bs"
| "ma_SHA1Decode _ = []"

definition ma_SHA1Encode :: "u32 list \<Rightarrow> byte list" where
  "ma_SHA1Encode ws = concat (map (\<lambda>w. [ucast (drop_bit 24 w AND 0xff), ucast (drop_bit 16 w AND 0xff),
     ucast (drop_bit 8 w AND 0xff), ucast (w AND 0xff)]) ws)"

definition ma_SHA1Transform :: "u32 list \<Rightarrow> byte list \<Rightarrow> u32 list" where
  "ma_SHA1Transform st block = map2 (+) st (fst (foldl (\<lambda>vx i. sha_line i vx) (st, ma_SHA1Decode block) [0..<80]))"

definition ma_SHA1Init :: "MA_SHA1_CTX \<Rightarrow> MA_SHA1_CTX" where
  "ma_SHA1Init c = c\<lparr>count0 := 0, count1 := 0,
     sha_state := [0x67452301, 0xefcdab89, 0x98badcfe, 0x10325476, 0xc3d2e1f0]\<rparr>"

text \<open>\<open>memcpy\<close> into the buffer at an index.\<close>

definition put_at :: "nat \<Rightarrow> byte list \<Rightarrow> byte list \<Rightarrow> byte list" where
  "put_at i xs buf = take i buf @ xs @ drop (i + length xs) buf"

text \<open>The loop over the whole blocks of the input; its result is the state and where the loop ends. The
  index is an \<open>unsigned int\<close> and \<open>i + 63\<close> is computed at that width, while \<open>inputLen\<close> is a \<open>size_t\<close>:
  \<open>None\<close> is a block read past the input, or a loop that never ends.\<close>

partial_function (option) sha_blocks :: "byte list \<Rightarrow> u32 \<Rightarrow> u32 list \<Rightarrow> (u32 list \<times> u32) option" where
  "sha_blocks input i st =
     (if unat (i + 63) < length input then
        if unat i + 64 \<le> length input
        then sha_blocks input (i + 64) (ma_SHA1Transform st (take 64 (drop (unat i) input)))
        else None
      else Some (st, i))"

definition sha_count :: "nat \<Rightarrow> MA_SHA1_CTX \<Rightarrow> MA_SHA1_CTX" where
  "sha_count inputLen c =
     (let n = word_of_nat inputLen :: u32;
          c1 = c\<lparr>count0 := count0 c + push_bit 3 n\<rparr>;
          c2 = (if count0 c1 < push_bit 3 n then c1\<lparr>count1 := count1 c1 + 1\<rparr> else c1) in
      c2\<lparr>count1 := count1 c2 + drop_bit 29 n\<rparr>)"

definition ma_SHA1Update :: "MA_SHA1_CTX \<Rightarrow> byte list \<Rightarrow> MA_SHA1_CTX option" where
  "ma_SHA1Update c input =
     (let index = unat (drop_bit 3 (count0 c) AND 0x3F);
          c1 = sha_count (length input) c;
          partLen = 64 - index in
      if length input \<ge> partLen then
        let buf = put_at index (take partLen input) (sha_buffer c1) in
        case sha_blocks input (word_of_nat partLen) (ma_SHA1Transform (sha_state c1) buf) of
          None \<Rightarrow> None
        | Some (st, i) \<Rightarrow> Some (c1\<lparr>sha_state := st, sha_buffer := put_at 0 (drop (unat i) input) buf\<rparr>)
      else Some (c1\<lparr>sha_buffer := put_at index input (sha_buffer c1)\<rparr>))"

text \<open>The updates of a caller, one piece after the other.\<close>

primrec ma_SHA1Updates :: "MA_SHA1_CTX \<Rightarrow> byte list list \<Rightarrow> MA_SHA1_CTX option" where
  "ma_SHA1Updates c [] = Some c"
| "ma_SHA1Updates c (xs # pieces) =
     (case ma_SHA1Update c xs of None \<Rightarrow> None | Some c1 \<Rightarrow> ma_SHA1Updates c1 pieces)"

definition ma_SHA1Final :: "MA_SHA1_CTX \<Rightarrow> byte list option" where
  "ma_SHA1Final c =
     (let bits = [ucast (drop_bit 24 (count1 c) AND 0xFF), ucast (drop_bit 16 (count1 c) AND 0xFF),
            ucast (drop_bit 8 (count1 c) AND 0xFF), ucast (count1 c AND 0xFF),
            ucast (drop_bit 24 (count0 c) AND 0xFF), ucast (drop_bit 16 (count0 c) AND 0xFF),
            ucast (drop_bit 8 (count0 c) AND 0xFF), ucast (count0 c AND 0xFF)];
          index = unat (drop_bit 3 (count0 c) AND 0x3f);
          padLen = (if index < 56 then 56 - index else 120 - index) in
      case ma_SHA1Update c (take padLen PADDING) of
        None \<Rightarrow> None
      | Some c1 \<Rightarrow>
          case ma_SHA1Update c1 bits of
            None \<Rightarrow> None
          | Some c2 \<Rightarrow> Some (ma_SHA1Encode (sha_state c2)))"

section \<open>The standard\<close>

definition std_f :: "nat \<Rightarrow> u32 \<Rightarrow> u32 \<Rightarrow> u32 \<Rightarrow> u32" where
  "std_f t x y z =
     (if t < 20 then (x AND y) XOR (NOT x AND z)
      else if 40 \<le> t \<and> t < 60 then (x AND y) XOR (x AND z) XOR (y AND z)
      else x XOR y XOR z)"

definition std_K :: "nat \<Rightarrow> u32" where
  "std_K t = (if t < 20 then 0x5A827999 else if t < 40 then 0x6ED9EBA1 else if t < 60 then 0x8F1BBCDC else 0xCA62C1D6)"

fun std_W :: "u32 list \<Rightarrow> nat \<Rightarrow> u32" where
  "std_W m t =
     (if t < 16 then m ! t
      else ROTATE_LEFT (std_W m (t - 3) XOR std_W m (t - 8) XOR std_W m (t - 14) XOR std_W m (t - 16)) 1)"

declare std_W.simps [simp del]

type_synonym sha_vars = "u32 \<times> u32 \<times> u32 \<times> u32 \<times> u32"

fun std_round :: "u32 list \<Rightarrow> nat \<Rightarrow> sha_vars \<Rightarrow> sha_vars" where
  "std_round m t (a, b, c, d, e) =
     (ROTATE_LEFT a 5 + std_f t b c d + e + std_K t + std_W m t, a, ROTATE_LEFT b 30, c, d)"

definition std_compress :: "u32 list \<Rightarrow> byte list \<Rightarrow> u32 list" where
  "std_compress h block =
     (case foldl (\<lambda>v t. std_round (ma_SHA1Decode block) t v) (h ! 0, h ! 1, h ! 2, h ! 3, h ! 4) [0..<80] of
        (a, b, c, d, e) \<Rightarrow> [h ! 0 + a, h ! 1 + b, h ! 2 + c, h ! 3 + d, h ! 4 + e])"

text \<open>The hash values after the whole blocks of a message, and what is left of it.\<close>

fun std_absorb :: "u32 list \<Rightarrow> byte list \<Rightarrow> u32 list \<times> byte list" where
  "std_absorb h msg =
     (if length msg < 64 then (h, msg) else std_absorb (std_compress h (take 64 msg)) (drop 64 msg))"

declare std_absorb.simps [simp del]

definition be_store8 :: "nat \<Rightarrow> byte list" where
  "be_store8 n = rev (le_store 8 n)"

definition std_pad :: "byte list \<Rightarrow> byte list" where
  "std_pad msg = msg @ 0x80 # replicate ((119 - length msg mod 64) mod 64) 0 @ be_store8 (8 * length msg)"

definition std_init :: "u32 list" where
  "std_init = [0x67452301, 0xefcdab89, 0x98badcfe, 0x10325476, 0xc3d2e1f0]"

definition SHA1 :: "byte list \<Rightarrow> byte list" where
  "SHA1 msg = ma_SHA1Encode (fst (std_absorb std_init (std_pad msg)))"

section \<open>One block\<close>

lemma sha_functions:
  "sha_F x y z = (x AND y) XOR (NOT x AND z)"
  "sha_H x y z = (x AND y) XOR (x AND z) XOR (y AND z)"
  by (rule bit_word_eqI; auto simp: sha_F_def sha_H_def bit_simps)+

definition roles :: "nat \<Rightarrow> u32 list \<Rightarrow> sha_vars" where
  "roles r v = (v ! (r mod 5), v ! ((r + 1) mod 5), v ! ((r + 2) mod 5), v ! ((r + 3) mod 5), v ! ((r + 4) mod 5))"

lemma mod5_cases: "(r :: nat) mod 5 = 0 \<or> r mod 5 = 1 \<or> r mod 5 = 2 \<or> r mod 5 = 3 \<or> r mod 5 = 4"
  by linarith

lemma roles_mod: "roles r = roles (r mod 5)"
  by (rule ext) (simp only: roles_def mod_add_left_eq mod_mod_trivial)

lemma sha_macro_mod: "sha_macro f k r w v = sha_macro f k (r mod 5) w v"
  by (simp only: sha_macro_def mod_add_left_eq mod_mod_trivial)

lemma sha_macro_roles:
  assumes "length v = 5" and "roles (Suc r) v = (a, b, c, d, e)"
  shows "roles r (sha_macro f k (Suc r) w v) = (ROTATE_LEFT a 5 + f b c d + e + k + w, a, ROTATE_LEFT b 30, c, d)"
    and "length (sha_macro f k (Suc r) w v) = 5"
proof -
  obtain v0 v1 v2 v3 v4 where v: "v = [v0, v1, v2, v3, v4]"
    using assms(1) by (auto simp: eval_nat_numeral length_Suc_conv)
  have same: "roles r = roles (r mod 5)" "roles (Suc r) = roles (Suc (r mod 5))"
    "sha_macro f k (Suc r) w v = sha_macro f k (Suc (r mod 5)) w v"
    using roles_mod [of "Suc r"] roles_mod [of "Suc (r mod 5)"] sha_macro_mod [of f k "Suc r"]
      sha_macro_mod [of f k "Suc (r mod 5)"] by (simp_all add: roles_mod [of r] mod_Suc_eq)
  show "roles r (sha_macro f k (Suc r) w v) = (ROTATE_LEFT a 5 + f b c d + e + k + w, a, ROTATE_LEFT b 30, c, d)"
    using mod5_cases [of r] assms(2) unfolding same
    by (elim disjE) (simp_all add: roles_def sha_macro_def Let_def v ac_simps)
  show "length (sha_macro f k (Suc r) w v) = 5"
    using assms(1) by (simp add: sha_macro_def Let_def)
qed

text \<open>The array holds the last 16 words of the schedule, each at its index modulo 16.\<close>

definition window :: "u32 list \<Rightarrow> nat \<Rightarrow> u32 list \<Rightarrow> bool" where
  "window m n x \<longleftrightarrow> length x = 16 \<and> (\<forall>t. n \<le> t \<and> t < n + 16 \<longrightarrow> x ! (t mod 16) = std_W m t)"

lemma window_start: "length m = 16 \<Longrightarrow> window m 0 m"
  by (simp add: window_def std_W.simps)

lemma window_at: "window m n x \<Longrightarrow> n \<le> t \<Longrightarrow> t < n + 16 \<Longrightarrow> x ! (t mod 16) = std_W m t"
  by (simp add: window_def)

lemma sha_W_window:
  assumes "window m n x"
  shows "fst (sha_W (n + 16) x) = std_W m (n + 16)" and "window m (Suc n) (snd (sha_W (n + 16) x))"
proof -
  have len: "length x = 16" using assms by (simp add: window_def)
  have i: "n + 16 - 3 = n + 13" "n + 16 - 8 = n + 8" "n + 16 - 14 = n + 2" "n + 16 - 16 = n" "(n + 16) mod 16 = n mod 16"
    by simp_all
  have "x ! ((n + 13) mod 16) = std_W m (n + 13)" "x ! ((n + 8) mod 16) = std_W m (n + 8)"
    "x ! ((n + 2) mod 16) = std_W m (n + 2)" "x ! (n mod 16) = std_W m n"
    using window_at [OF assms] by simp_all
  then show v: "fst (sha_W (n + 16) x) = std_W m (n + 16)"
    by (simp add: sha_W_def Let_def i std_W.simps [of m "n + 16"])
  have "snd (sha_W (n + 16) x) = x[n mod 16 := std_W m (n + 16)]"
    using v by (simp add: sha_W_def Let_def i)
  moreover have "x[n mod 16 := std_W m (n + 16)] ! (t mod 16) = std_W m t"
    if t: "Suc n \<le> t" "t < Suc n + 16" for t
  proof (cases "t = n + 16")
    case True
    then show ?thesis using len by simp
  next
    case False
    with t have "n < t" "t < n + 16" by simp_all
    then have "t mod 16 \<noteq> n mod 16" using mod_eq_dvd_iff_nat [of n t 16] by (auto dest: dvd_imp_le)
    then show ?thesis using window_at [OF assms] t False by simp
  qed
  ultimately show "window m (Suc n) (snd (sha_W (n + 16) x))" using len by (simp add: window_def)
qed

text \<open>One of the 80 lines.\<close>

lemma sha_line_round:
  assumes "t < 80" and "length v = 5" and "window m (t - 16) x" and "roles (80 - t) v = r"
  shows "let (v', x') = sha_line t (v, x) in
    length v' = 5 \<and> window m (Suc t - 16) x' \<and> roles (80 - Suc t) v' = std_round m t r"
proof -
  obtain a b c d e where r: "r = (a, b, c, d, e)" by (cases r)
  have k: "80 - t = Suc (80 - Suc t)" using assms(1) by simp
  define wx where "wx = (if t < 16 then (x ! t, x) else sha_W t x)"
  have w: "fst wx = std_W m t \<and> window m (Suc t - 16) (snd wx)"
  proof (cases "t < 16")
    case True
    then have "x ! (t mod 16) = std_W m t" using assms(3) by (intro window_at) auto
    with True show ?thesis using assms(3) by (simp_all add: wx_def)
  next
    case False
    then have "t - 16 + 16 = t" "Suc (t - 16) = Suc t - 16" by simp_all
    then have "fst (sha_W t x) = std_W m t \<and> window m (Suc t - 16) (snd (sha_W t x))"
      using sha_W_window [OF assms(3)] by metis
    then show ?thesis unfolding wx_def by (simp only: False if_False)
  qed
  have fk: "std_f t x y z = (if t < 20 then sha_F x y z else if t < 40 then sha_G x y z
      else if t < 60 then sha_H x y z else sha_I x y z)" for x y z
    by (simp add: std_f_def sha_functions sha_G_def sha_I_def)
  have "sha_line t (v, x) = (if t < 20 then sha_FF (80 - t) (fst wx) v
       else if t < 40 then sha_GG (80 - t) (fst wx) v
       else if t < 60 then sha_HH (80 - t) (fst wx) v
       else sha_II (80 - t) (fst wx) v, snd wx)"
    by (simp only: sha_line_def Let_def prod.case split_beta fst_conv snd_conv wx_def)
  then show ?thesis
    using sha_macro_roles [OF assms(2) assms(4) [unfolded k r]] w
    by (simp add: r k fk std_K_def sha_FF_def sha_GG_def sha_HH_def sha_II_def del: One_nat_def)
qed

lemma sha_lines_rounds:
  assumes "length st = 5" and "length m = 16" and "n \<le> 80"
  shows "let (v, x) = foldl (\<lambda>vx i. sha_line i vx) (st, m) [0..<n] in
    length v = 5 \<and> window m (n - 16) x \<and>
    roles (80 - n) v = foldl (\<lambda>v t. std_round m t v) (roles 80 st) [0..<n]"
  using assms(3)
proof (induction n)
  case 0
  then show ?case using assms by (simp add: window_start)
next
  case (Suc n)
  obtain v x where vx: "foldl (\<lambda>vx i. sha_line i vx) (st, m) [0..<n] = (v, x)" by fastforce
  with Suc have "length v = 5" "window m (n - 16) x"
    "roles (80 - n) v = foldl (\<lambda>v t. std_round m t v) (roles 80 st) [0..<n]"
    by (simp_all add: Let_def)
  with sha_line_round [of n v m x] Suc.prems show ?case by (simp add: vx Let_def)
qed

lemma length_Decode: "length block = 4 * n \<Longrightarrow> length (ma_SHA1Decode block) = n"
proof (induction n arbitrary: block)
  case 0
  then show ?case by simp
next
  case (Suc n)
  then obtain a b c d bs where "block = a # b # c # d # bs" "length bs = 4 * n"
    by (auto simp: length_Suc_conv numeral_eq_Suc)
  then show ?case using Suc.IH by simp
qed

lemma Transform_compress:
  assumes "length st = 5" and "length block = 64"
  shows "ma_SHA1Transform st block = std_compress st block" and "length (ma_SHA1Transform st block) = 5"
proof -
  have m: "length (ma_SHA1Decode block) = 16" using assms(2) by (intro length_Decode) simp
  obtain v x where vx: "foldl (\<lambda>vx i. sha_line i vx) (st, ma_SHA1Decode block) [0..<80] = (v, x)" by fastforce
  from sha_lines_rounds [OF assms(1) m, of 80] have v: "length v = 5"
    "roles 0 v = foldl (\<lambda>v t. std_round (ma_SHA1Decode block) t v) (roles 80 st) [0..<80]"
    by (simp_all only: vx Let_def prod.case) simp_all
  obtain s0 s1 s2 s3 s4 where s: "st = [s0, s1, s2, s3, s4]"
    using assms(1) by (auto simp: eval_nat_numeral length_Suc_conv)
  obtain v0 v1 v2 v3 v4 where v5: "v = [v0, v1, v2, v3, v4]"
    using v(1) by (auto simp: eval_nat_numeral length_Suc_conv)
  have r: "roles 80 st = (st ! 0, st ! 1, st ! 2, st ! 3, st ! 4)" by (simp add: roles_def)
  have "(v0, v1, v2, v3, v4) = foldl (\<lambda>v t. std_round (ma_SHA1Decode block) t v) (st ! 0, st ! 1, st ! 2, st ! 3, st ! 4) [0..<80]"
    using v(2) by (simp only: r) (simp add: roles_def v5)
  from this [symmetric] show "ma_SHA1Transform st block = std_compress st block"
    by (simp only: ma_SHA1Transform_def vx std_compress_def) (simp add: s v5)
  show "length (ma_SHA1Transform st block) = 5"
    by (simp only: ma_SHA1Transform_def vx) (simp add: s v5)
qed

section \<open>Several updates\<close>

lemma std_absorb_append:
  "std_absorb h (xs @ ys) = (case std_absorb h xs of (h', r) \<Rightarrow> std_absorb h' (r @ ys))"
proof (induction h xs rule: std_absorb.induct)
  case (1 h msg)
  show ?case
  proof (cases "length msg < 64")
    case True
    then show ?thesis by (simp add: std_absorb.simps [of h msg])
  next
    case False
    then have "std_absorb h (msg @ ys) = std_absorb (std_compress h (take 64 msg)) (drop 64 msg @ ys)"
      by (subst std_absorb.simps) simp
    with 1 False show ?thesis by (simp add: std_absorb.simps [of h msg])
  qed
qed

lemma std_absorb_rest: "length (snd (std_absorb h msg)) = length msg mod 64"
proof (induction h msg rule: std_absorb.induct)
  case (1 h msg)
  then show ?case by (cases "length msg < 64") (simp_all add: std_absorb.simps [of h msg] mod_if [of "length msg" 64])
qed

lemma length_compress: "length (std_compress h block) = 5"
  by (simp add: std_compress_def split: prod.split)

lemma std_absorb_state: "length h = 5 \<Longrightarrow> length (fst (std_absorb h msg)) = 5"
  by (induction h msg rule: std_absorb.induct) (subst std_absorb.simps, simp add: length_compress)

text \<open>The index does not wrap: the input is short enough, or the index is at a multiple of 64.\<close>

definition index_fits :: "nat \<Rightarrow> nat \<Rightarrow> bool" where
  "index_fits i n \<longleftrightarrow> n + 63 < 2 ^ 32 \<or> 64 dvd i \<and> n < 2 ^ 32"

lemma index_fits_step: "index_fits i n \<Longrightarrow> index_fits (i + 64) n"
  by (auto simp: index_fits_def)

lemma index_no_wrap:
  assumes "index_fits (unat i) n" and "unat i \<le> n"
  shows "unat (i + 63 :: u32) = unat i + 63"
proof -
  have "unat i + 63 < 2 ^ 32"
  proof (cases "n + 63 < 2 ^ 32")
    case False
    then obtain k where "unat i = 64 * k" "64 * k < 64 * (2 ^ 26 :: nat)"
      using assms by (auto simp: index_fits_def)
    then have "k \<le> 2 ^ 26 - 1" by simp
    then show ?thesis using \<open>unat i = 64 * k\<close> by simp
  qed (use assms(2) in simp)
  then show ?thesis by (simp add: unat_add_lem [where y = "63 :: u32", THEN iffD1])
qed

lemma sha_blocks_absorb:
  assumes "length st = 5" and "unat i \<le> length input" and "index_fits (unat i) (length input)"
  shows "\<exists>i'. sha_blocks input i st = Some (fst (std_absorb st (drop (unat i) input)), i') \<and>
    drop (unat i') input = snd (std_absorb st (drop (unat i) input))"
  using assms
proof (induction "length input - unat i" arbitrary: i st rule: less_induct)
  case less
  have w: "unat (i + 63) = unat i + 63" by (rule index_no_wrap [OF less.prems(3,2)])
  show ?case
  proof (cases "unat i + 63 < length input")
    case True
    let ?b = "take 64 (drop (unat i) input)"
    have "length input < 2 ^ 32" using less.prems(3) by (auto simp: index_fits_def)
    then have n: "unat (i + 64) = unat i + 64" using True
      by (simp add: unat_add_lem [where y = "64 :: u32", THEN iffD1])
    have b: "length ?b = 64" using True by simp
    have "\<not> length (drop (unat i) input) < 64" using True by simp
    then have "std_absorb st (drop (unat i) input) = std_absorb (std_compress st ?b) (drop 64 (drop (unat i) input))"
      by (subst std_absorb.simps) simp
    then have "std_absorb st (drop (unat i) input) = std_absorb (ma_SHA1Transform st ?b) (drop (unat (i + 64)) input)"
      using Transform_compress(1) [OF less.prems(1) b] by (simp add: add.commute n)
    moreover have "sha_blocks input i st = sha_blocks input (i + 64) (ma_SHA1Transform st ?b)"
      using True by (simp add: sha_blocks.simps [of input i] w)
    moreover have "length input - unat (i + 64) < length input - unat i" using True n by simp
    ultimately show ?thesis
      using less.hyps [of "i + 64" "ma_SHA1Transform st ?b"] Transform_compress(2) [OF less.prems(1) b] True n
        index_fits_step [OF less.prems(3)] by simp
  next
    case False
    then have "length (drop (unat i) input) < 64" using less.prems(2) by simp
    then have "std_absorb st (drop (unat i) input) = (st, drop (unat i) input)" by (subst std_absorb.simps) simp
    with False show ?thesis by (simp add: sha_blocks.simps [of input i] w)
  qed
qed

text \<open>The number of bits, in two words.\<close>

definition bits_of :: "MA_SHA1_CTX \<Rightarrow> nat" where
  "bits_of c = unat (count0 c) + 2 ^ 32 * unat (count1 c)"

lemma bits_of_count:
  assumes "n < 2 ^ 32"
  shows "bits_of (sha_count n c) = (bits_of c + 8 * n) mod 2 ^ 64"
proof -
  let ?w = "word_of_nat n :: u32"
  define p where "p = push_bit 3 ?w"
  define s where "s = unat (count0 c) + unat p"
  have w: "unat ?w = n" using assms by (simp add: unat_of_nat)
  have p: "unat p = 8 * n mod 2 ^ 32"
    using unat_word_ariths(2) [of ?w 8] by (simp add: p_def push_bit_eq_mult w mult.commute)
  have d: "unat (drop_bit 29 ?w) = n div 2 ^ 29"
    by (simp only: unat_drop_bit_eq w) (simp only: drop_bit_eq_div)
  have bound: "unat p < 2 ^ 32" "unat (count0 c) < 2 ^ 32" "unat (count1 c) < 2 ^ 32"
    using unsigned_less [where ?'a = nat and w = p] unsigned_less [where ?'a = nat and w = "count0 c"]
      unsigned_less [where ?'a = nat and w = "count1 c"] by simp_all
  have c0: "unat (count0 c + p) = s mod 2 ^ 32"
    using unat_word_ariths(1) [of "count0 c" p] by (simp add: s_def)
  have "s < 2 ^ 32 + 2 ^ 32" unfolding s_def by (rule add_strict_mono [OF bound(2,1)])
  then have sm: "s mod 2 ^ 32 = (if 2 ^ 32 \<le> s then s - 2 ^ 32 else s)"
    using le_mod_geq [of "2 ^ 32" s] mod_less [of "s - 2 ^ 32" "2 ^ 32"] mod_less [of s "2 ^ 32"] by fastforce
  have carry: "count0 c + p < p \<longleftrightarrow> 2 ^ 32 \<le> s"
    unfolding word_less_nat_alt c0 sm using bound(2) by (auto simp: s_def less_diff_conv2)
  have c1: "unat (count1 (sha_count n c)) = (unat (count1 c) + (if 2 ^ 32 \<le> s then 1 else 0) + n div 2 ^ 29) mod 2 ^ 32"
    by (simp add: sha_count_def Let_def p_def [symmetric] carry unat_word_ariths d mod_simps)
  have "s = s mod 2 ^ 32 + 2 ^ 32 * (if 2 ^ 32 \<le> s then 1 else 0)"
    using sm by (cases "2 ^ 32 \<le> s") simp_all
  moreover have "8 * n = unat p + 2 ^ 32 * (n div 2 ^ 29)"
  proof -
    have "8 * n = 8 * (n mod 2 ^ 29 + 2 ^ 29 * (n div 2 ^ 29))" by simp
    also have "\<dots> = 8 * (n mod 2 ^ 29) + 2 ^ 32 * (n div 2 ^ 29)" unfolding distrib_left by simp
    finally show ?thesis using mod_mult_mult1 [of 8 n "2 ^ 29"] unfolding p by simp
  qed
  ultimately have sum: "bits_of c + 8 * n = s mod 2 ^ 32 + 2 ^ 32 * (unat (count1 c) + (if 2 ^ 32 \<le> s then 1 else 0) + n div 2 ^ 29)"
    by (simp add: bits_of_def s_def algebra_simps)
  have red: "(x mod 2 ^ 32 + 2 ^ 32 * y) mod 2 ^ 64 = x mod 2 ^ 32 + 2 ^ 32 * (y mod 2 ^ 32)" for x y :: nat
    using mod_mult2_eq [of "x mod 2 ^ 32 + 2 ^ 32 * y" "2 ^ 32" "2 ^ 32"] by simp
  have lo: "unat (count0 (sha_count n c)) = s mod 2 ^ 32"
    using c0 by (simp add: sha_count_def Let_def p_def)
  show ?thesis by (simp only: sum red bits_of_def [of "sha_count n c"] c1 lo)
qed

text \<open>What a context holds after the bytes of a message.\<close>

definition sha_inv :: "MA_SHA1_CTX \<Rightarrow> byte list \<Rightarrow> bool" where
  "sha_inv c msg \<longleftrightarrow> length (sha_buffer c) = 64 \<and> length (sha_state c) = 5 \<and>
     std_absorb std_init msg = (sha_state c, take (length msg mod 64) (sha_buffer c)) \<and>
     bits_of c = 8 * length msg mod 2 ^ 64"

lemma sha_index:
  assumes "bits_of c = 8 * n mod 2 ^ 64"
  shows "unat (drop_bit 3 (count0 c) AND 0x3F) = n mod 64"
proof -
  have "unat (count0 c) < 2 ^ 32" using unsigned_less [where ?'a = nat and w = "count0 c"] by simp
  then have "unat (count0 c) = bits_of c mod 2 ^ 32" by (simp add: bits_of_def)
  also have "\<dots> = 8 * n mod 2 ^ 32" unfolding assms by (rule mod_mod_cancel) simp
  also have "\<dots> = 8 * (n mod 2 ^ 29)" using mod_mult_mult1 [of 8 n "2 ^ 29"] by simp
  finally have c: "unat (count0 c) = 8 * (n mod 2 ^ 29)" .
  have "drop_bit 3 (count0 c) AND 0x3F = take_bit 6 (drop_bit 3 (count0 c))"
    by (simp add: take_bit_eq_mask mask_eq_exp_minus_1)
  then have "unat (drop_bit 3 (count0 c) AND 0x3F) = unat (count0 c) div 8 mod 64"
    by (simp only: unsigned_take_bit_eq unat_drop_bit_eq) (simp add: take_bit_eq_mod drop_bit_eq_div)
  also have "\<dots> = n mod 2 ^ 29 mod 64" unfolding c by simp
  also have "\<dots> = n mod 64" by (rule mod_mod_cancel) simp
  finally show ?thesis .
qed

lemma put_at_length: "i + length xs \<le> length buf \<Longrightarrow> length (put_at i xs buf) = length buf"
  by (auto simp: put_at_def min_def)

lemma put_at_take: "i \<le> length buf \<Longrightarrow> take (i + length xs) (put_at i xs buf) = take i buf @ xs"
  by (simp add: put_at_def)

lemma sha_count_outside [simp]:
  "sha_state (sha_count n c) = sha_state c" "sha_buffer (sha_count n c) = sha_buffer c"
  by (simp_all add: sha_count_def Let_def)

lemma bits_of_outside [simp]:
  "bits_of (c\<lparr>sha_buffer := b\<rparr>) = bits_of c" "bits_of (c\<lparr>sha_state := st\<rparr>) = bits_of c"
  "bits_of (c\<lparr>sha_state := st, sha_buffer := b\<rparr>) = bits_of c"
  by (simp_all add: bits_of_def)

lemma Update_inv:
  assumes "sha_inv c msg" and fits: "index_fits (length msg) (length input)"
  shows "\<exists>c'. ma_SHA1Update c input = Some c' \<and> sha_inv c' (msg @ input)"
proof -
  have short: "length input < 2 ^ 32" using fits by (auto simp: index_fits_def)
  define i where "i = length msg mod 64"
  define p where "p = 64 - i"
  define rest where "rest = take i (sha_buffer c)"
  have buf: "length (sha_buffer c) = 64" and st: "length (sha_state c) = 5"
    and ab: "std_absorb std_init msg = (sha_state c, rest)" and bits: "bits_of c = 8 * length msg mod 2 ^ 64"
    using assms(1) by (simp_all add: sha_inv_def rest_def i_def)
  have i: "i < 64" "length rest = i" using buf by (simp_all add: i_def rest_def)
  have idx: "unat (drop_bit 3 (count0 c) AND 0x3F) = i" using sha_index [OF bits] by (simp add: i_def)
  have bits': "bits_of (sha_count (length input) c) = 8 * length (msg @ input) mod 2 ^ 64"
    unfolding bits_of_count [OF short] bits by (simp only: mod_add_left_eq length_append distrib_left)
  have all: "std_absorb std_init (msg @ input) = std_absorb (sha_state c) (rest @ input)"
    using std_absorb_append [of std_init msg input] ab by simp
  have len: "length (msg @ input) mod 64 = (i + length input) mod 64"
    unfolding i_def by (simp only: length_append mod_add_left_eq)
  show ?thesis
  proof (cases "p \<le> length input")
    case False
    then have "length (rest @ input) < 64" using i by (simp add: p_def)
    then have "std_absorb (sha_state c) (rest @ input) = (sha_state c, rest @ input)"
      by (subst std_absorb.simps) simp
    moreover have "ma_SHA1Update c input = Some ((sha_count (length input) c)\<lparr>sha_buffer := put_at i input (sha_buffer c)\<rparr>)"
      using False by (simp add: ma_SHA1Update_def Let_def idx p_def)
    moreover have "i + length input < 64" using False i by (simp add: p_def)
    ultimately show ?thesis
      using put_at_length [of i input "sha_buffer c"] put_at_take [of i "sha_buffer c" input] buf st bits' all len i
      by (simp add: sha_inv_def rest_def)
  next
    case True
    define b where "b = put_at i (take p input) (sha_buffer c)"
    have "i + p = 64" using i by (simp add: p_def)
    then have b: "b = rest @ take p input" "length b = 64"
      using True buf i by (simp_all add: b_def put_at_def rest_def)
    define st1 where "st1 = ma_SHA1Transform (sha_state c) b"
    have st1: "st1 = std_compress (sha_state c) b" "length st1 = 5"
      unfolding st1_def by (rule Transform_compress [OF st b(2)])+
    have p: "unat (word_of_nat p :: u32) = p" "p \<le> 64" by (simp_all add: p_def unat_of_nat)
    have "64 dvd p" if "64 dvd length msg" using that by (simp add: p_def i_def)
    then have "index_fits p (length input)" using fits by (auto simp: index_fits_def)
    then obtain j where j: "sha_blocks input (word_of_nat p) st1 = Some (fst (std_absorb st1 (drop p input)), j)"
        "drop (unat j) input = snd (std_absorb st1 (drop p input))"
      using sha_blocks_absorb [of st1 "word_of_nat p" input] st1(2) True by (auto simp: p(1))
    have t64: "take 64 (rest @ input) = b" "drop 64 (rest @ input) = drop p input"
      using \<open>i + p = 64\<close> i True by (simp_all add: b(1) p_def)
    have "\<not> length (rest @ input) < 64" using True i by (simp add: p_def)
    then have ab1: "std_absorb (sha_state c) (rest @ input) = std_absorb st1 (drop p input)"
      by (subst std_absorb.simps) (simp only: t64 st1(1) if_False)
    have rl: "length (snd (std_absorb st1 (drop p input))) = length (msg @ input) mod 64"
      using std_absorb_rest [of std_init "msg @ input"] by (simp only: all ab1)
    have "ma_SHA1Update c input = Some ((sha_count (length input) c)\<lparr>sha_state := fst (std_absorb st1 (drop p input)),
        sha_buffer := put_at 0 (drop (unat j) input) b\<rparr>)"
      using True j(1) by (simp add: ma_SHA1Update_def Let_def idx p_def [symmetric] b_def [symmetric] st1_def [symmetric])
    moreover have "length (drop (unat j) input) \<le> 64" using rl unfolding j(2) by simp
    ultimately show ?thesis
      using put_at_length [of 0 "drop (unat j) input" b] put_at_take [of 0 b "drop (unat j) input"] b(2) bits' std_absorb_state [OF st1(2)] all ab1 rl j(2)
      by (simp add: sha_inv_def del: length_append length_drop)
  qed
qed

lemma Init_inv: "length (sha_buffer c) = 64 \<Longrightarrow> sha_inv (ma_SHA1Init c) []"
  by (simp add: sha_inv_def ma_SHA1Init_def std_absorb.simps [of _ "[]"] std_init_def bits_of_def)

lemma bits_stored:
  "[ucast (drop_bit 24 w AND 0xFF), ucast (drop_bit 16 w AND 0xFF), ucast (drop_bit 8 w AND 0xFF), ucast (w AND 0xFF)] =
   rev (le_store 4 (unat (w :: u32)))"
proof -
  have m: "ucast (v AND 0xFF) = (word_of_nat (unat v mod 256) :: byte)" for v :: u32
  proof -
    have "v AND 0xFF = take_bit 8 v" by (simp add: take_bit_eq_mask mask_eq_exp_minus_1)
    then have "unat (v AND 0xFF) = unat v mod 256"
      by (simp only: unsigned_take_bit_eq) (simp add: take_bit_eq_mod)
    then show ?thesis
      by (simp only: word_unat_eq_iff unsigned_ucast_eq) (simp add: unsigned_of_nat take_bit_eq_mod)
  qed
  have four: "(4 :: nat) = Suc (Suc (Suc (Suc 0)))" by simp
  show ?thesis
    unfolding m unat_drop_bit_eq four le_store.simps by (simp add: drop_bit_eq_div flip: div_mult2_eq)
qed

lemma le_store_split: "le_store 8 (x + 2 ^ 32 * y) = le_store 4 x @ le_store 4 y" if "x < 2 ^ 32"
proof -
  have "le_store (m + n) v = le_store m v @ le_store n (v div 256 ^ m)" for m n v
    by (induction m arbitrary: v) (simp_all add: div_mult2_eq)
  from this [of 4 4] have "le_store 8 (x + 2 ^ 32 * y) = le_store 4 (x + 2 ^ 32 * y) @ le_store 4 ((x + 2 ^ 32 * y) div 2 ^ 32)"
    by simp
  moreover have "le_store n v = le_store n (v mod 256 ^ n)" for n v
  proof (induction n arbitrary: v)
    case (Suc n)
    have "v mod 256 ^ Suc n mod 256 = v mod 256" by (rule mod_mod_cancel) simp
    moreover have "v mod 256 ^ Suc n div 256 = v div 256 mod 256 ^ n"
      by (simp add: mod_mult2_eq)
    ultimately show ?case using Suc [of "v div 256"] Suc [of "v mod 256 ^ Suc n div 256"] by simp
  qed simp
  from this [of 4 "x + 2 ^ 32 * y"] this [of 4 x] have "le_store 4 (x + 2 ^ 32 * y) = le_store 4 x" by simp
  ultimately show ?thesis using that by simp
qed

lemma Final_SHA1:
  assumes "sha_inv c msg" and "length msg < 2 ^ 61"
  shows "ma_SHA1Final c = Some (SHA1 msg)"
proof -
  define i where "i = length msg mod 64"
  define padLen where "padLen = (if i < 56 then 56 - i else 120 - i)"
  have bits: "bits_of c = 8 * length msg mod 2 ^ 64" using assms(1) by (simp add: sha_inv_def)
  have i: "i < 64" "unat (drop_bit 3 (count0 c) AND 0x3F) = i" using sha_index [OF bits] by (simp_all add: i_def)
  define b where "b = be_store8 (8 * length msg)"
  have "bits_of c = 8 * length msg" using bits assms(2) by simp
  then have stored: "[ucast (drop_bit 24 (count1 c) AND 0xFF), ucast (drop_bit 16 (count1 c) AND 0xFF),
        ucast (drop_bit 8 (count1 c) AND 0xFF), ucast (count1 c AND 0xFF),
        ucast (drop_bit 24 (count0 c) AND 0xFF), ucast (drop_bit 16 (count0 c) AND 0xFF),
        ucast (drop_bit 8 (count0 c) AND 0xFF), ucast (count0 c AND 0xFF)] = b"
    using bits_stored [of "count1 c"] bits_stored [of "count0 c"]
      le_store_split [of "unat (count0 c)" "unat (count1 c)"] unsigned_less [where ?'a = nat and w = "count0 c"]
    by (simp add: b_def be_store8_def bits_of_def)
  have zeros: "padLen - 1 = (119 - i) mod 64" "0 < padLen" "padLen \<le> 64"
    using i(1) le_mod_geq [of 64 "119 - i"] by (auto simp: padLen_def)
  then have pad: "take padLen PADDING = 0x80 # replicate ((119 - i) mod 64) 0"
    by (simp add: PADDING_def take_Cons' min_def)
  have short: "index_fits k (length (take padLen PADDING))" "index_fits k (length b)" for k
    by (simp_all add: PADDING_def be_store8_def b_def index_fits_def min_less_iff_disj)
  obtain c1 where c1: "ma_SHA1Update c (take padLen PADDING) = Some c1" "sha_inv c1 (msg @ take padLen PADDING)"
    using Update_inv [OF assms(1) short(1)] by blast
  obtain c2 where c2: "ma_SHA1Update c1 b = Some c2" "sha_inv c2 ((msg @ take padLen PADDING) @ b)"
    using Update_inv [OF c1(2) short(2)] by blast
  moreover have "(msg @ take padLen PADDING) @ b = std_pad msg"
    by (simp only: pad std_pad_def i_def b_def append.assoc append_Cons append_Nil)
  ultimately have "sha_state c2 = fst (std_absorb std_init (std_pad msg))"
    by (simp add: sha_inv_def)
  then show ?thesis
    by (simp only: ma_SHA1Final_def Let_def i stored padLen_def [symmetric] SHA1_def c1(1) c2(1) option.case)
qed

lemma Update_pieces:
  assumes "sha_inv c msg" and "\<forall>xs\<in>set pieces. length xs + 63 < 2 ^ 32"
  shows "\<exists>c'. ma_SHA1Updates c pieces = Some c' \<and> sha_inv c' (msg @ concat pieces)"
  using assms
proof (induction pieces arbitrary: c msg)
  case (Cons xs pieces)
  then obtain c1 where "ma_SHA1Update c xs = Some c1" "sha_inv c1 (msg @ xs)"
    using Update_inv [of c msg xs] by (auto simp: index_fits_def)
  then show ?case using Cons.IH [of c1 "msg @ xs"] Cons.prems(2) by simp
qed simp

text \<open>One piece, from the start of a block.\<close>

lemma Update_once:
  assumes "sha_inv c []" and "length xs < 2 ^ 32"
  shows "\<exists>c'. ma_SHA1Updates c [xs] = Some c' \<and> sha_inv c' xs"
  using Update_inv [of c "[]" xs] assms by (auto simp: index_fits_def)

lemma length_Encode: "length (ma_SHA1Encode ws) = 4 * length ws"
  by (induction ws) (simp_all add: ma_SHA1Encode_def)

lemma length_SHA1 [simp]: "length (SHA1 msg) = 20"
  by (simp add: SHA1_def length_Encode std_absorb_state std_init_def)

text \<open>The first test vector of the standard, 20 rounds at a time.\<close>

lemma example_rounds_0:
  "foldl (\<lambda>vx i. sha_line i vx) ([0x67452301, 0xefcdab89, 0x98badcfe, 0x10325476, 0xc3d2e1f0],
     [0x61626380, 0x0, 0x0, 0x0, 0x0, 0x0, 0x0, 0x0, 0x0, 0x0, 0x0, 0x0, 0x0, 0x0, 0x0, 0x18]) [0..<20] =
   ([0xfd9e1d7d, 0xdc64901d, 0x20aa99ca, 0xd3a49608, 0xc82f758b],
     [0xc2c4c700, 0x0, 0x30, 0x85898e01, 0x0, 0x0, 0x0, 0x0, 0x0, 0x0, 0x0, 0x0, 0x0, 0x0, 0x0, 0x18])"
  by code_simp

lemma example_rounds_1:
  "foldl (\<lambda>vx i. sha_line i vx) ([0xfd9e1d7d, 0xdc64901d, 0x20aa99ca, 0xd3a49608, 0xc82f758b],
     [0xc2c4c700, 0x0, 0x30, 0x85898e01, 0x0, 0x0, 0x0, 0x0, 0x0, 0x0, 0x0, 0x0, 0x0, 0x0, 0x0, 0x18]) [20..<40] =
   ([0x32de1cba, 0x4c986405, 0xf718e5cf, 0x3d447f6, 0xf72eec32],
     [0x8e9a9202, 0x600, 0xb131c0f0, 0x16263bc6, 0x4ebed41e, 0x626380a1, 0x16263806, 0x18c0, 0x85898ec1, 0x16263806, 0x0, 0x180, 0x2c4c700c, 0xf0, 0x93afb507, 0x5898e048])"
  by code_simp

lemma example_rounds_2:
  "foldl (\<lambda>vx i. sha_line i vx) ([0x32de1cba, 0x4c986405, 0xf718e5cf, 0x3d447f6, 0xf72eec32],
     [0x8e9a9202, 0x600, 0xb131c0f0, 0x16263bc6, 0x4ebed41e, 0x626380a1, 0x16263806, 0x18c0, 0x85898ec1, 0x16263806, 0x0, 0x180, 0x2c4c700c, 0xf0, 0x93afb507, 0x5898e048]) [40..<60] =
   ([0x3f52de5a, 0x9d785fd, 0x3498bfd4, 0xf211824f, 0xd79915ab],
     [0xda9415ed, 0x26380a16, 0x626383a1, 0x4ebf54de, 0x3835b44b, 0xf600, 0x1e84c7a3, 0x98e04d98, 0x651d16a0, 0x62658ca1, 0x458544d6, 0x44584cb7, 0xe2ba3c2b, 0x60c0, 0x53a37cd, 0x74458547])"
  by code_simp

lemma example_rounds_3:
  "foldl (\<lambda>vx i. sha_line i vx) ([0x3f52de5a, 0x9d785fd, 0x3498bfd4, 0xf211824f, 0xd79915ab],
     [0xda9415ed, 0x26380a16, 0x626383a1, 0x4ebf54de, 0x3835b44b, 0xf600, 0x1e84c7a3, 0x98e04d98, 0x651d16a0, 0x62658ca1, 0x458544d6, 0x44584cb7, 0xe2ba3c2b, 0x60c0, 0x53a37cd, 0x74458547]) [60..<80] =
   ([0x42541b35, 0x5738d5e1, 0x21834873, 0x681e6df6, 0xd8fdf6ad],
     [0x7cd45c9d, 0xf0000, 0xfb50753a, 0xec6765e8, 0xba3c2be2, 0x60c000, 0x3a37cd05, 0x458546f4, 0xb8599dd6, 0x380a1a26, 0x1e02203, 0xe7cc3456, 0xe6e60b69, 0xf60a00, 0x5795ef4f, 0x822e0879])"
  by code_simp

lemma example_block:
  "std_compress std_init (bytes_of ''abc'' @ 0x80 # replicate 59 0 @ [24 :: byte]) =
     [0xA9993E36, 0x4706816A, 0xBA3E2571, 0x7850C26C, 0x9CD0D89D]"
proof -
  let ?b = "bytes_of ''abc'' @ 0x80 # replicate 59 0 @ [24 :: byte]"
  have d: "ma_SHA1Decode ?b = [0x61626380, 0, 0, 0, 0, 0, 0, 0, 0, 0, 0, 0, 0, 0, 0, 24]" by code_simp
  have u: "[0..<80] = [0..<20] @ [20..<40] @ [40..<60] @ [60..<80]"
    by code_simp
  have "length std_init = 5" "length ?b = 64" by (simp_all add: std_init_def)
  then have "std_compress std_init ?b = ma_SHA1Transform std_init ?b" using Transform_compress(1) by simp
  also have "\<dots> = [0xA9993E36, 0x4706816A, 0xBA3E2571, 0x7850C26C, 0x9CD0D89D]"
    unfolding ma_SHA1Transform_def d u std_init_def foldl_append
      example_rounds_0 example_rounds_1 example_rounds_2 example_rounds_3 by simp
  finally show ?thesis .
qed

lemma example_SHA1:
  "SHA1 (bytes_of ''abc'') =
     [0xA9, 0x99, 0x3E, 0x36, 0x47, 0x06, 0x81, 0x6A, 0xBA, 0x3E, 0x25, 0x71, 0x78, 0x50, 0xC2, 0x6C,
      0x9C, 0xD0, 0xD8, 0x9D]"
proof -
  let ?b = "bytes_of ''abc'' @ 0x80 # replicate 59 0 @ [24 :: byte]"
  have pad: "std_pad (bytes_of ''abc'') = ?b" by code_simp
  have l: "length ?b = 64" by simp
  then have "take 64 ?b = ?b" "drop 64 ?b = []" "\<not> length ?b < 64" by (simp_all only: take_all drop_all order.refl)
  then have "std_absorb std_init ?b = std_absorb (std_compress std_init ?b) []"
    by (subst std_absorb.simps) (simp only: if_False)
  then have e: "fst (std_absorb std_init ?b) = [0xA9993E36, 0x4706816A, 0xBA3E2571, 0x7850C26C, 0x9CD0D89D]"
    unfolding example_block by (simp add: std_absorb.simps [of _ "[]"])
  show ?thesis unfolding SHA1_def pad e by code_simp
qed

section \<open>Properties\<close>

text \<open>
  C11. \<open>ma_sha1.c\<close> computes SHA-1: whatever the context held before and however the message is cut
  into the pieces of the updates, no block is read outside a piece, the loop over the blocks ends, and
  the digest is the one the standard defines on the whole message (padding, schedule of 80 words, 80
  rounds per block). Each piece is shorter than 2^32 - 63 bytes, so that \<open>i + 63\<close> does not wrap at the
  width of \<open>unsigned int\<close>, and the message is shorter than 2^61 bytes, so that its bits fit the two
  counters.
\<close>

theorem ma_SHA1_standard:
  assumes "length (sha_buffer c) = 64" and "\<forall>xs\<in>set pieces. length xs + 63 < 2 ^ 32"
    and "length (concat pieces) < 2 ^ 61"
  shows "\<exists>c'. ma_SHA1Updates (ma_SHA1Init c) pieces = Some c' \<and> ma_SHA1Final c' = Some (SHA1 (concat pieces))"
  using Final_SHA1 [of _ "concat pieces"] Update_pieces [OF Init_inv [OF assms(1)] assms(2)] assms(3)
  by force

definition example_ctx :: MA_SHA1_CTX where
  "example_ctx = \<lparr>sha_state = [], count0 = 5, count1 = 7, sha_buffer = replicate 64 0xAB\<rparr>"

lemma ma_SHA1_standard_witness:
  "\<exists>c'. ma_SHA1Updates (ma_SHA1Init example_ctx) [bytes_of ''a'', bytes_of ''bc''] = Some c' \<and> ma_SHA1Final c' = Some
     [0xA9, 0x99, 0x3E, 0x36, 0x47, 0x06, 0x81, 0x6A, 0xBA, 0x3E, 0x25, 0x71, 0x78, 0x50, 0xC2, 0x6C,
      0x9C, 0xD0, 0xD8, 0x9D]"
proof -
  have "length (sha_buffer example_ctx) = 64" by (simp add: example_ctx_def)
  moreover have "concat [bytes_of ''a'', bytes_of ''bc''] = bytes_of ''abc''" by (simp add: bytes_of_def)
  moreover have "\<forall>xs\<in>set [bytes_of ''a'', bytes_of ''bc'']. length xs + 63 < 2 ^ 32" by simp
  ultimately show ?thesis
    using ma_SHA1_standard [of example_ctx "[bytes_of ''a'', bytes_of ''bc'']"] by (simp only: example_SHA1) simp
qed

end
