(* ===== verification/Ma_Auth.thy ===== *)
theory Ma_Auth
  imports Ma_Result Ma_Charset_Table Ma_Sha1
begin

text \<open>
  Logging in to the database server: the scramble of \<open>ma_password.c\<close>, the dialogue of
  \<open>plugins/auth/my_auth.c\<close> with the native plugin, and \<open>mthd_my_real_connect\<close> of \<open>mariadb_lib.c\<close> once
  the socket is open. The server is a function that answers the packets of the dialogue; plugins
  that are not compiled in are a parameter. Memory a packet was read into is the list of its
  bytes from a pointer on, with the null \<open>ma_net_read\<close> puts after them; a read beyond it is undefined
  (\<open>None\<close>). Memory allocation and the writes of the dialogue succeed, no options are set, and TLS and compression, which
  \<open>ma_config.h\<close> leaves out, are left out.
\<close>

section \<open>The scramble\<close>

definition SCRAMBLE_LENGTH :: nat where "SCRAMBLE_LENGTH = 20"
definition SCRAMBLE_LENGTH_323 :: nat where "SCRAMBLE_LENGTH_323 = 8"

fun my_crypt :: "byte list \<Rightarrow> byte list \<Rightarrow> byte list" where
  "my_crypt (a # s1) (b # s2) = (a XOR b) # my_crypt s1 s2"
| "my_crypt _ _ = []"

text \<open>A context on the stack holds anything; its buffer has 64 bytes.\<close>

definition sha1_of :: "MA_SHA1_CTX \<Rightarrow> byte list list \<Rightarrow> byte list option" where
  "sha1_of c xss = (case ma_SHA1Updates (ma_SHA1Init c) xss of None \<Rightarrow> None | Some c1 \<Rightarrow> ma_SHA1Final c1)"

definition ma_scramble_41 :: "MA_SHA1_CTX \<Rightarrow> byte list \<Rightarrow> byte list \<Rightarrow> byte list option" where
  "ma_scramble_41 context scramble password =
     (case sha1_of context [cstr password] of
        None \<Rightarrow> None
      | Some sha1 \<Rightarrow>
          case sha1_of context [sha1] of
            None \<Rightarrow> None
          | Some sha2 \<Rightarrow>
              case sha1_of context [take SCRAMBLE_LENGTH scramble, sha2] of
                None \<Rightarrow> None
              | Some buffer \<Rightarrow> Some (my_crypt buffer sha1))"

text \<open>\<open>ma_strmake\<close>, the bytes it writes before the final null.\<close>

definition ma_strmake :: "byte list \<Rightarrow> nat \<Rightarrow> byte list" where
  "ma_strmake src n = take n (cstr src)"

section \<open>The connection while logging in\<close>

definition NAME_LEN :: nat where "NAME_LEN = 256"
definition USERNAME_LENGTH :: nat where "USERNAME_LENGTH = 128 * 4"
definition PROTOCOL_VERSION :: u32 where "PROTOCOL_VERSION = 10"

definition CLIENT_MYSQL :: nat where "CLIENT_MYSQL = 0"
definition CLIENT_CONNECT_WITH_DB :: nat where "CLIENT_CONNECT_WITH_DB = 3"
definition CLIENT_COMPRESS :: nat where "CLIENT_COMPRESS = 5"
definition CLIENT_SSL :: nat where "CLIENT_SSL = 11"
definition CLIENT_PROTOCOL_41 :: nat where "CLIENT_PROTOCOL_41 = 9"
definition CLIENT_SECURE_CONNECTION :: nat where "CLIENT_SECURE_CONNECTION = 15"
definition CLIENT_MULTI_STATEMENTS :: nat where "CLIENT_MULTI_STATEMENTS = 16"
definition CLIENT_MULTI_RESULTS :: nat where "CLIENT_MULTI_RESULTS = 17"
definition CLIENT_PLUGIN_AUTH :: nat where "CLIENT_PLUGIN_AUTH = 19"
definition CLIENT_CONNECT_ATTRS :: nat where "CLIENT_CONNECT_ATTRS = 20"

text \<open>Bits 0, 2, 13, 15, 17, 18, 9, 19, 23 and 20.\<close>

definition CLIENT_CAPABILITIES :: u32 where "CLIENT_CAPABILITIES = 0x9EA205"

definition CR_ALREADY_CONNECTED :: nat where "CR_ALREADY_CONNECTED = 2058"
definition CR_VERSION_ERROR :: nat where "CR_VERSION_ERROR = 2007"
definition CR_SERVER_HANDSHAKE_ERR :: nat where "CR_SERVER_HANDSHAKE_ERR = 2012"
definition CR_CANT_READ_CHARSET :: nat where "CR_CANT_READ_CHARSET = 2019"
definition CR_OK :: int where "CR_OK = - 1"
definition CR_ERROR :: int where "CR_ERROR = 0"

record 'db CONN =
  base :: "'db MYSQL"
  read_pos :: "byte list"
  protocol_version :: u32
  server_version :: "byte list"
  thread_id :: nat
  server_capabilities :: u32
  mariadb_server_capabilities :: nat
  server_language :: nat
  scramble_buff :: "byte list"
  user :: "byte list"
  passwd :: "byte list"
  cur_db :: "byte list option"
  charset :: "MARIADB_CHARSET_INFO option"
  client_flag :: u32
  mariadb_client_flag :: nat
  max_packet_size :: nat
  connect_attrs :: "(byte list \<times> byte list) list"

definition set_errno :: "nat \<Rightarrow> 'db CONN \<Rightarrow> 'db CONN" where
  "set_errno e c = c\<lparr>base := (base c)\<lparr>my_errno := e\<rparr>\<rparr>"

text \<open>\<open>ma_net_safe_read\<close>; \<open>read_pos\<close> stays at the last packet that came.\<close>

definition net_safe_read :: "'db CONN \<Rightarrow> byte list option \<times> 'db CONN" where
  "net_safe_read c =
     (let (r, m) = ma_net_safe_read (base c);
          came = take (length (incoming (base c)) - length (incoming m)) (incoming (base c)) in
      (r, c\<lparr>base := m, read_pos := (if came = [] \<or> last came = [] then read_pos c else last came @ [0])\<rparr>))"

text \<open>\<open>ma_net_write\<close> and \<open>ma_net_flush\<close> of a packet; the result is whether they fail.\<close>

definition net_write :: "'db srv \<Rightarrow> byte list \<Rightarrow> 'db CONN \<Rightarrow> bool \<times> 'db CONN" where
  "net_write hs pkt c =
     (if \<not> connected (base c) then (True, c)
      else
        let (reply, d) = hs pkt (server (base c)) in
        (False, c\<lparr>base := (base c)\<lparr>server := d, incoming := incoming (base c) @ reply\<rparr>\<rparr>))"

section \<open>The first packet of the client\<close>

definition attr_len :: "byte list \<times> byte list \<Rightarrow> nat" where
  "attr_len kv = length (mysql_net_store_length (length (fst kv))) + length (fst kv) +
     length (mysql_net_store_length (length (snd kv))) + length (snd kv)"

definition connect_attrs_len :: "'db CONN \<Rightarrow> nat" where
  "connect_attrs_len c = sum_list (map attr_len (connect_attrs c))"

definition ma_send_connect_attr :: "'db CONN \<Rightarrow> byte list" where
  "ma_send_connect_attr c =
     (if bit (server_capabilities c) CLIENT_CONNECT_ATTRS then
        mysql_net_store_length (connect_attrs_len c) @
        concat (map (\<lambda>(k, v). mysql_net_store_length (length k) @ k @ mysql_net_store_length (length v) @ v)
          (connect_attrs c))
      else [])"

definition reply_flags :: "bool \<Rightarrow> 'db CONN \<Rightarrow> u32" where
  "reply_flags with_db c =
     (let f1 = client_flag c OR CLIENT_CAPABILITIES;
          f2 = (if bit f1 CLIENT_MULTI_STATEMENTS then set_bit CLIENT_MULTI_RESULTS f1 else f1);
          f3 = (if with_db then set_bit CLIENT_CONNECT_WITH_DB f2 else f2);
          f4 = f3 AND (NOT (set_bit CLIENT_COMPRESS (set_bit CLIENT_SSL (set_bit CLIENT_PROTOCOL_41 0)))
                 OR server_capabilities c);
          f5 = unset_bit CLIENT_COMPRESS f4 in
      if bit f5 CLIENT_PROTOCOL_41 \<and> \<not> bit (server_capabilities c) CLIENT_MYSQL then unset_bit CLIENT_MYSQL f5 else f5)"

text \<open>The fixed part. The MariaDB flags that are supported are the lower three of the upper half.\<close>

definition reply_header :: "MARIADB_CHARSET_INFO \<Rightarrow> 'db CONN \<Rightarrow> byte list" where
  "reply_header chs c =
     (if bit (client_flag c) CLIENT_PROTOCOL_41 then
        le_store 4 (unat (client_flag c)) @ le_store 4 (max_packet_size c) @ [word_of_int (nr chs)] @
        replicate 19 0 @
        (if \<not> bit (server_capabilities c) CLIENT_MYSQL then le_store 4 (mariadb_client_flag c) else replicate 4 0)
      else le_store 2 (unat (client_flag c)) @ le_store 3 (max_packet_size c))"

datatype auth_plugin = Native | Foreign "byte list"

definition native_password_plugin_name :: "byte list" where
  "native_password_plugin_name = bytes_of ''mysql_native_password''"

definition old_password_plugin_name :: "byte list" where
  "old_password_plugin_name = bytes_of ''mysql_old_password''"

fun plugin_name :: "auth_plugin \<Rightarrow> byte list" where
  "plugin_name Native = native_password_plugin_name"
| "plugin_name (Foreign n) = n"

text \<open>What the plugins work on. A reply the dialogue still holds is the memory at its pointer and the
  length, as an \<open>unsigned int\<close>.\<close>

record 'db MCPVIO =
  mysql :: "'db CONN"
  plugin :: auth_plugin
  vio_db :: "byte list option"
  cached_server_reply :: "byte list option"
  cached_len :: u32
  packets_read :: nat
  packets_written :: nat
  last_read_packet_len :: int

record 'db world =
  hs :: "'db srv"
  cmd :: "'db srv"
  os_user :: "byte list"
  stack :: MA_SHA1_CTX
  find_plugin :: "byte list \<Rightarrow> auth_plugin option"
  foreign :: "byte list \<Rightarrow> 'db MCPVIO \<Rightarrow> (int \<times> 'db MCPVIO) option"

definition reply_packet :: "'db world \<Rightarrow> MARIADB_CHARSET_INFO \<Rightarrow> auth_plugin \<Rightarrow> byte list option \<Rightarrow> byte list \<Rightarrow>
    'db CONN \<Rightarrow> byte list" where
  "reply_packet w chs pl d dat c =
     reply_header chs c @
     (if user c \<noteq> [] \<and> hd (user c) \<noteq> 0 then ma_strmake (user c) USERNAME_LENGTH else cstr (os_user w)) @ [0] @
     (if dat \<noteq> [] then
        (if bit (server_capabilities c) CLIENT_SECURE_CONNECTION then word_of_nat (length dat) # dat else dat)
      else [0]) @
     (case d of
        Some n \<Rightarrow> if bit (server_capabilities c) CLIENT_CONNECT_WITH_DB then ma_strmake n NAME_LEN @ [0] else []
      | None \<Rightarrow> []) @
     (if bit (server_capabilities c) CLIENT_PLUGIN_AUTH then ma_strmake (plugin_name pl) NAME_LEN @ [0] else []) @
     ma_send_connect_attr c"

text \<open>The size of the buffer the packet is put together in.\<close>

definition reply_buffer :: "byte list \<Rightarrow> 'db CONN \<Rightarrow> nat" where
  "reply_buffer dat c = 33 + USERNAME_LENGTH + length dat + NAME_LEN + NAME_LEN + connect_attrs_len c + 9"

text \<open>A write past the buffer, or a character set that is not there, is undefined.\<close>

definition send_client_reply_packet :: "'db world \<Rightarrow> byte list \<Rightarrow> 'db MCPVIO \<Rightarrow> (bool \<times> 'db MCPVIO) option" where
  "send_client_reply_packet w dat v =
     (case charset (mysql v) of
        None \<Rightarrow> None
      | Some chs \<Rightarrow>
          let c1 = (mysql v)\<lparr>client_flag := reply_flags (vio_db v \<noteq> None) (mysql v)\<rparr>;
              c2 = (if bit (client_flag c1) CLIENT_PROTOCOL_41 \<and> \<not> bit (server_capabilities c1) CLIENT_MYSQL
                    then c1\<lparr>mariadb_client_flag := 7\<rparr> else c1);
              c3 = (if bit (server_capabilities c2) CLIENT_CONNECT_WITH_DB \<and> vio_db v \<noteq> None
                    then c2\<lparr>cur_db := vio_db v\<rparr> else c2);
              pkt = reply_packet w chs (plugin v) (vio_db v) dat c3 in
          if length pkt > reply_buffer dat c3 then None
          else
            let (err, c4) = net_write (hs w) pkt c3 in
            Some (err, v\<lparr>mysql := (if err then set_errno CR_SERVER_LOST c4 else c4)\<rparr>))"

section \<open>The dialogue\<close>

definition client_mpvio_write_packet :: "'db world \<Rightarrow> byte list \<Rightarrow> 'db MCPVIO \<Rightarrow> (bool \<times> 'db MCPVIO) option" where
  "client_mpvio_write_packet w pkt v =
     (case (if packets_written v = 0 then send_client_reply_packet w pkt v
            else
              let (err, c) = net_write (hs w) pkt (mysql v) in
              Some (err, v\<lparr>mysql := (if err then set_errno CR_SERVER_LOST c else c)\<rparr>)) of
        None \<Rightarrow> None
      | Some (res, v1) \<Rightarrow> Some (res, v1\<lparr>packets_written := packets_written v1 + 1\<rparr>))"

text \<open>The length that is read and the memory at the buffer's pointer.\<close>

definition client_mpvio_read_packet :: "'db world \<Rightarrow> 'db MCPVIO \<Rightarrow> (int \<times> byte list \<times> 'db MCPVIO) option" where
  "client_mpvio_read_packet w v =
     (case cached_server_reply v of
        Some buf \<Rightarrow> Some (sint (cached_len v), buf,
          v\<lparr>cached_server_reply := None, packets_read := packets_read v + 1\<rparr>)
      | None \<Rightarrow>
          (case (if packets_read v = 0 then client_mpvio_write_packet w [] v else Some (False, v)) of
             None \<Rightarrow> None
           | Some (True, v1) \<Rightarrow> Some (- 1, [], v1)
           | Some (False, v1) \<Rightarrow>
               let (r, c) = net_safe_read (mysql v1);
                   pkt_len = (case r of None \<Rightarrow> - 1 | Some p \<Rightarrow> int (length p));
                   v2 = v1\<lparr>mysql := c, last_read_packet_len := pkt_len\<rparr> in
               case read_pos c of
                 [] \<Rightarrow> None
               | b # rest \<Rightarrow>
                   if b = 254 then Some (- 1, b # rest, v2)
                   else
                     let v3 = v2\<lparr>packets_read := packets_read v2 + 1\<rparr> in
                     if pkt_len \<noteq> 0 \<and> b = 1 then Some (pkt_len - 1, rest, v3)
                     else Some (pkt_len, b # rest, v3)))"

definition native_password_auth_client :: "'db world \<Rightarrow> 'db MCPVIO \<Rightarrow> (int \<times> 'db MCPVIO) option" where
  "native_password_auth_client w v =
     (case client_mpvio_read_packet w v of
        None \<Rightarrow> None
      | Some (pkt_len, pkt, v1) \<Rightarrow>
          if pkt_len < 0 then Some (CR_ERROR, v1)
          else if pkt_len \<noteq> int SCRAMBLE_LENGTH + 1 then Some (int CR_SERVER_HANDSHAKE_ERR, v1)
          else if length pkt < SCRAMBLE_LENGTH then None
          else
            let c = (mysql v1)\<lparr>scramble_buff := take SCRAMBLE_LENGTH pkt @ [0]\<rparr> in
            case (if passwd c \<noteq> [] \<and> hd (passwd c) \<noteq> 0
                  then ma_scramble_41 (stack w) pkt (passwd c) else Some []) of
              None \<Rightarrow> None
            | Some dat \<Rightarrow>
                case client_mpvio_write_packet w dat (v1\<lparr>mysql := c\<rparr>) of
                  None \<Rightarrow> None
                | Some (err, v2) \<Rightarrow> Some (if err then CR_ERROR else CR_OK, v2))"

definition authenticate_user :: "'db world \<Rightarrow> 'db MCPVIO \<Rightarrow> (int \<times> 'db MCPVIO) option" where
  "authenticate_user w v =
     (case plugin v of
        Native \<Rightarrow> native_password_auth_client w v
      | Foreign n \<Rightarrow> foreign w n v)"

text \<open>An error of a plugin, noted in the connection.\<close>

definition auth_failed :: "int \<Rightarrow> 'db CONN \<Rightarrow> 'db CONN" where
  "auth_failed res c =
     (if res > CR_ERROR then set_errno (nat res) c
      else if my_errno (base c) = 0 then set_errno CR_UNKNOWN_ERROR c
      else c)"

definition read_head :: "'db CONN \<Rightarrow> byte option" where
  "read_head c = (case read_pos c of [] \<Rightarrow> None | b # _ \<Rightarrow> Some b)"

text \<open>\<open>run_plugin_auth\<close> for \<open>mysql_real_connect\<close>; the result is whether it failed.\<close>

definition first_plugin :: "'db world \<Rightarrow> 'db CONN \<Rightarrow> auth_plugin option" where
  "first_plugin w c =
     (if bit (server_capabilities c) CLIENT_PROTOCOL_41 then Some Native
      else find_plugin w (bytes_of ''old_password''))"

definition start_vio :: "byte list \<Rightarrow> u32 \<Rightarrow> byte list \<Rightarrow> byte list option \<Rightarrow> auth_plugin \<Rightarrow> 'db CONN \<Rightarrow> 'db MCPVIO" where
  "start_vio dat len data_plugin d pl c =
     \<lparr>mysql = set_errno 0 c, plugin = pl, vio_db = d,
      cached_server_reply = (if data_plugin = plugin_name pl then Some dat else None),
      cached_len = (if data_plugin = plugin_name pl then len else 0),
      packets_read = 0, packets_written = 0, last_read_packet_len = 0\<rparr>"

text \<open>The server asks for another plugin.\<close>

definition switch_plugin :: "'db world \<Rightarrow> int \<Rightarrow> 'db MCPVIO \<Rightarrow> (bool \<times> 'db CONN) option" where
  "switch_plugin w pkt_length v =
     (let c = mysql v;
          nm = cstr (tl (read_pos c));
          (auth_plugin_name, buf, len) =
            (if pkt_length = 1 then (old_password_plugin_name, scramble_buff c, word_of_nat (SCRAMBLE_LENGTH + 1))
             else (nm, drop (length nm + 2) (read_pos c), word_of_int (pkt_length - int (length nm) - 2))) in
      case find_plugin w auth_plugin_name of
        None \<Rightarrow> Some (True, c)
      | Some pl \<Rightarrow>
          case authenticate_user w (v\<lparr>plugin := pl, cached_server_reply := Some buf, cached_len := len\<rparr>) of
            None \<Rightarrow> None
          | Some (res, v1) \<Rightarrow>
              if res > CR_OK then Some (True, auth_failed res (mysql v1))
              else
                let (r, c1) = (if res = CR_OK then net_safe_read (mysql v1) else (Some [], mysql v1)) in
                if r = None then Some (True, c1)
                else map_option (\<lambda>b. (b \<noteq> 0, c1)) (read_head c1))"

definition run_plugin_auth :: "'db world \<Rightarrow> byte list \<Rightarrow> u32 \<Rightarrow> byte list \<Rightarrow> byte list option \<Rightarrow> 'db CONN \<Rightarrow>
    (bool \<times> 'db CONN) option" where
  "run_plugin_auth w dat data_len data_plugin d c =
     (case first_plugin w c of
        None \<Rightarrow> Some (True, c)
      | Some pl \<Rightarrow>
          case authenticate_user w (start_vio dat data_len data_plugin d pl c) of
            None \<Rightarrow> None
          | Some (res, v) \<Rightarrow>
              if res > CR_OK \<and> read_head (mysql v) = None then None
              else if res > CR_OK \<and> read_head (mysql v) \<noteq> Some 254 then Some (True, auth_failed res (mysql v))
              else
                let (pkt_length, c1) =
                  (if res = CR_OK then
                     let (r, c1) = net_safe_read (mysql v) in
                     (case r of None \<Rightarrow> - 1 | Some p \<Rightarrow> int (length p), c1)
                   else (last_read_packet_len v, mysql v)) in
                if pkt_length = - 1 then Some (True, c1)
                else
                  case read_head c1 of
                    None \<Rightarrow> None
                  | Some b \<Rightarrow>
                      if b = 254 then switch_plugin w pkt_length (v\<lparr>mysql := c1\<rparr>)
                      else Some (b \<noteq> 0, c1))"

section \<open>Connecting\<close>

definition MA_RPL_VERSION_HACK :: "byte list" where "MA_RPL_VERSION_HACK = bytes_of ''5.5.5-''"

definition uint_at :: "nat \<Rightarrow> nat \<Rightarrow> byte list \<Rightarrow> nat option" where
  "uint_at n i mem = (if i + n \<le> length mem then Some (le_load (take n (drop i mem))) else None)"

text \<open>The capabilities and what goes with them; \<open>i\<close> is the index of the capabilities. The last
  component is the length of the scramble the packet announces.\<close>

definition greeting_caps :: "bool \<Rightarrow> nat \<Rightarrow> byte list \<Rightarrow> 'db CONN \<Rightarrow> ('db CONN \<times> nat) option" where
  "greeting_caps is_maria i p c =
     (let mem = p @ [0];
          c1 = (if i + 1 \<le> length p
                then map_option (\<lambda>k. c\<lparr>server_capabilities := word_of_nat k\<rparr>) (uint_at 2 i mem) else Some c) in
      case c1 of
        None \<Rightarrow> None
      | Some c1 \<Rightarrow>
          if i + 18 \<le> length p then
            let upper = le_load (take 2 (drop (i + 5) mem));
                c2 = c1\<lparr>server_language := le_load (take 1 (drop (i + 2) mem)),
                  base := (base c1)\<lparr>server_status := le_load (take 2 (drop (i + 3) mem))\<rparr>,
                  server_capabilities := server_capabilities c1 OR push_bit 16 (word_of_nat upper)\<rparr>;
                c3 = (if is_maria \<and> \<not> bit (server_capabilities c2) CLIENT_MYSQL
                      then c2\<lparr>mariadb_server_capabilities := le_load (take 4 (drop (i + 14) mem))\<rparr> else c2) in
            Some (c3, le_load (take 1 (drop (i + 7) mem)))
          else Some (c1, 0))"

text \<open>The scramble, its length and the plugin it is for. \<open>s\<close> is the index of its first part, \<open>j\<close> that
  of its second.\<close>

definition greeting_scramble :: "nat \<Rightarrow> nat \<Rightarrow> nat \<Rightarrow> byte list \<Rightarrow> 'db CONN \<Rightarrow>
    ('db CONN \<times> byte list \<times> nat \<times> byte list) option" where
  "greeting_scramble s j pkt_scramble_len p c =
     (let mem = p @ [0] in
      if j + SCRAMBLE_LENGTH - SCRAMBLE_LENGTH_323 + 1 \<le> length p then
        let mem1 = take (j - SCRAMBLE_LENGTH_323) mem @ take SCRAMBLE_LENGTH_323 (drop s mem) @ drop j mem;
            d = j - SCRAMBLE_LENGTH_323 in
        if bit (server_capabilities c) CLIENT_PLUGIN_AUTH then
          if d + pkt_scramble_len \<ge> length mem1 then None
          else Some (c, drop d mem1, if d + pkt_scramble_len > length p then length p - d else pkt_scramble_len,
            cstr (drop (d + pkt_scramble_len) mem1))
        else Some (c, drop d mem1, length p - d, native_password_plugin_name)
      else
        Some (c\<lparr>server_capabilities := unset_bit CLIENT_SECURE_CONNECTION (server_capabilities c)\<rparr>,
          drop s mem, SCRAMBLE_LENGTH_323 + 1, old_password_plugin_name))"

definition choose_charset :: "'db CONN \<Rightarrow> 'db CONN" where
  "choose_charset c =
     c\<lparr>charset := (if server_language c \<noteq> 0 then mysql_find_charset_nr (int (server_language c))
                   else Some (mariadb_compiled_charsets ! 5))\<rparr>"

text \<open>The greeting of the server: the error it leads to, or the connection and the data for the plugin.\<close>

definition read_greeting :: "byte list \<Rightarrow> 'db CONN \<Rightarrow>
    (nat + 'db CONN \<times> byte list \<times> nat \<times> byte list) option" where
  "read_greeting p c =
     (let mem = p @ [0]; c0 = c\<lparr>protocol_version := scast (mem ! 0)\<rparr> in
      if protocol_version c0 = 0xFF then
        Some (Inl (if length p - 1 > 2 then le_load (take 2 (drop 1 mem)) else CR_UNKNOWN_ERROR))
      else if protocol_version c0 < PROTOCOL_VERSION then Some (Inl CR_VERSION_ERROR)
      else
        let v = cstr (drop 1 mem);
            is_maria = (take 6 v = MA_RPL_VERSION_HACK);
            e = length v + 2;
            c1 = c0\<lparr>server_version := (if is_maria then drop 6 v else v)\<rparr> in
        case uint_at 4 e mem of
          None \<Rightarrow> None
        | Some t \<Rightarrow>
            case greeting_caps is_maria (e + 4 + SCRAMBLE_LENGTH_323 + 1) p (c1\<lparr>thread_id := t\<rparr>) of
              None \<Rightarrow> None
            | Some (c2, n) \<Rightarrow>
                case greeting_scramble (e + 4) (e + 4 + SCRAMBLE_LENGTH_323 + 19) n p c2 of
                  None \<Rightarrow> None
                | Some (c3, dat, len, pl) \<Rightarrow>
                    let c4 = choose_charset c3 in
                    Some (if charset c4 = None then Inl CR_CANT_READ_CHARSET else Inr (c4, dat, len, pl)))"

definition COM_INIT_DB :: byte where "COM_INIT_DB = 2"

definition mysql_select_db :: "'db world \<Rightarrow> byte list \<Rightarrow> 'db CONN \<Rightarrow> bool \<times> 'db CONN" where
  "mysql_select_db w d c =
     (let (err, m) = mthd_my_send_cmd (cmd w) COM_INIT_DB (cstr d) (base c); c1 = c\<lparr>base := m\<rparr> in
      if err then (True, c1)
      else
        let (r, c2) = net_safe_read c1 in
        if r = None then (True, c2) else (False, c2\<lparr>cur_db := Some (cstr d)\<rparr>))"

text \<open>The label \<open>error\<close>.\<close>

definition connect_error :: "'db CONN \<Rightarrow> 'db CONN" where
  "connect_error c = c\<lparr>base := end_server (base c), user := [], passwd := [], cur_db := None, server_version := []\<rparr>"

definition mysql_init :: "'db \<Rightarrow> (byte list \<times> byte list) list \<Rightarrow> 'db CONN" where
  "mysql_init d attrs =
     \<lparr>base = \<lparr>writes = [], incoming = [], server = d, connected = False, progress = True, status = MYSQL_STATUS_READY,
        mfields = None, field_count = 0, server_status = 0, warning_count = 0, affected_rows = 0,
        insert_id = 0, my_errno = 0\<rparr>,
      read_pos = [], protocol_version = 0, server_version = [], thread_id = 0, server_capabilities = 0,
      mariadb_server_capabilities = 0, server_language = 0, scramble_buff = replicate 21 0, user = [],
      passwd = [], cur_db = None, charset = Some (mariadb_compiled_charsets ! 5), client_flag = 0,
      mariadb_client_flag = 0, max_packet_size = 1073741824, connect_attrs = attrs\<rparr>"

text \<open>An empty name of a database is none.\<close>

fun chosen_db :: "byte list option \<Rightarrow> byte list option" where
  "chosen_db None = None"
| "chosen_db (Some n) = (if n = [] \<or> hd n = 0 then None else Some (cstr n))"

text \<open>\<open>mthd_my_real_connect\<close>. The socket gives the packets the server sends first, or the error for
  which it cannot be opened. The connection attributes \<open>ma_set_connect_attrs\<close> fills in at the start
  are those of the connection it is given.\<close>

definition mysql_real_connect :: "'db world \<Rightarrow> ('db \<Rightarrow> nat + byte list list \<times> 'db) \<Rightarrow> byte list \<Rightarrow> byte list \<Rightarrow>
    byte list option \<Rightarrow> 'db CONN \<Rightarrow> (bool \<times> 'db CONN) option" where
  "mysql_real_connect w open_socket us pw db c =
     (if connected (base c) then Some (False, set_errno CR_ALREADY_CONNECTED c)
      else
        let d = chosen_db db; c0 = c\<lparr>base := (base c)\<lparr>server_status := 2\<rparr>\<rparr> in
        case open_socket (server (base c0)) of
          Inl e \<Rightarrow> Some (False, connect_error (set_errno e c0))
        | Inr (ps, s) \<Rightarrow>
            let (r, c1) = net_safe_read (c0\<lparr>base := (base c0)\<lparr>connected := True, incoming := ps, server := s\<rparr>\<rparr>) in
            case r of
              None \<Rightarrow> Some (False, connect_error c1)
            | Some p \<Rightarrow>
                case read_greeting p (c1\<lparr>user := cstr us, passwd := cstr pw\<rparr>) of
                  None \<Rightarrow> None
                | Some (Inl e) \<Rightarrow> Some (False, connect_error (set_errno e c1))
                | Some (Inr (c2, dat, len, pl)) \<Rightarrow>
                    case run_plugin_auth w dat (word_of_nat len) pl d (c2\<lparr>client_flag := 0\<rparr>) of
                      None \<Rightarrow> None
                    | Some (True, c3) \<Rightarrow> Some (False, connect_error c3)
                    | Some (False, c3) \<Rightarrow>
                        if \<not> bit (server_capabilities c3) CLIENT_CONNECT_WITH_DB \<and> d \<noteq> None \<and> cur_db c3 = None then
                          let (err, c4) = mysql_select_db w (the d) c3 in
                          if err then Some (False, connect_error (set_errno CR_SERVER_LOST c4)) else Some (True, c4)
                        else Some (True, c3))"

text \<open>\<open>mysql_close\<close>. What it leaves must not be used any more: the memory of its extension is freed.\<close>

definition mysql_close :: "'db world \<Rightarrow> 'db CONN \<Rightarrow> 'db CONN" where
  "mysql_close w c =
     c\<lparr>base := mysql_close_slow_part (cmd w) (base c), user := [], passwd := [], cur_db := None, server_version := []\<rparr>"

section \<open>The scramble is accepted\<close>

lemma my_crypt_map2: "my_crypt xs ys = map2 (XOR) xs ys"
  by (induction xs ys rule: my_crypt.induct) auto

lemma my_crypt_twice: "length xs \<le> length ys \<Longrightarrow> my_crypt (my_crypt xs ys) ys = xs"
  by (induction xs ys rule: my_crypt.induct) (auto simp: xor.assoc)

lemma my_crypt_commute: "my_crypt xs ys = my_crypt ys xs"
  by (induction xs ys rule: my_crypt.induct) (auto simp: xor.commute)

lemma length_my_crypt [simp]: "length (my_crypt xs ys) = min (length xs) (length ys)"
  by (simp add: my_crypt_map2)

lemma sha1_of_SHA1:
  assumes ctx: "length (sha_buffer ctx) = 64" and len: "(\<exists>xs. xss = [xs]) \<or> length (concat xss) + 63 < 2 ^ 32"
    and short: "length (concat xss) < 2 ^ 32"
  shows "sha1_of ctx xss = Some (SHA1 (concat xss))"
proof -
  have "\<exists>c'. ma_SHA1Updates (ma_SHA1Init ctx) xss = Some c' \<and> sha_inv c' (concat xss)"
    using len
  proof
    assume "\<exists>xs. xss = [xs]"
    then show ?thesis using Update_once [OF Init_inv [OF ctx]] short by fastforce
  next
    assume l: "length (concat xss) + 63 < 2 ^ 32"
    have "\<forall>xs\<in>set xss. length xs + 63 < 2 ^ 32"
    proof
      fix xs assume "xs \<in> set xss"
      then have "length xs \<le> length (concat xss)" by (simp add: length_concat member_le_sum_list)
      with l show "length xs + 63 < 2 ^ 32" by simp
    qed
    with Update_pieces [OF Init_inv [OF ctx]] show ?thesis by fastforce
  qed
  moreover have "length (concat xss) < 2 ^ 61" using short by simp
  ultimately show ?thesis unfolding sha1_of_def using Final_SHA1 by fastforce
qed

text \<open>What the server keeps of a password, and how it checks the answer to its scramble.\<close>

definition stored_hash :: "byte list \<Rightarrow> byte list" where
  "stored_hash pw = SHA1 (SHA1 pw)"

definition scramble_accepted :: "byte list \<Rightarrow> byte list \<Rightarrow> byte list \<Rightarrow> bool" where
  "scramble_accepted stored scr response \<longleftrightarrow> SHA1 (my_crypt response (SHA1 (scr @ stored))) = stored"

lemma cstr_no_null: "0 \<notin> set s \<Longrightarrow> cstr s = s"
  unfolding cstr_def by (rule takeWhile_eq_all_conv [THEN iffD2]) auto

lemma ma_scramble_41_SHA1:
  assumes ctx: "length (sha_buffer ctx) = 64" and scr: "length scr = 20" and "0 \<notin> set pw" and "length pw < 2 ^ 32"
  shows "ma_scramble_41 ctx (scr @ r) pw = Some (my_crypt (SHA1 (scr @ stored_hash pw)) (SHA1 pw))"
proof -
  have "sha1_of ctx [cstr pw] = Some (SHA1 pw)"
    using sha1_of_SHA1 [OF ctx, of "[pw]"] assms(3,4) by (simp add: cstr_no_null)
  moreover have "sha1_of ctx [SHA1 pw] = Some (stored_hash pw)"
    using sha1_of_SHA1 [OF ctx, of "[SHA1 pw]"] by (simp add: stored_hash_def length_SHA1)
  moreover have "sha1_of ctx [scr, stored_hash pw] = Some (SHA1 (scr @ stored_hash pw))"
    using sha1_of_SHA1 [OF ctx, of "[scr, stored_hash pw]"] scr by (simp add: stored_hash_def length_SHA1)
  ultimately show ?thesis using scr by (simp add: ma_scramble_41_def Let_def SCRAMBLE_LENGTH_def)
qed

lemma right_password_accepted:
  "scramble_accepted (stored_hash pw) scr (my_crypt (SHA1 (scr @ stored_hash pw)) (SHA1 pw))"
proof -
  have "my_crypt (my_crypt (SHA1 (scr @ stored_hash pw)) (SHA1 pw)) (SHA1 (scr @ stored_hash pw)) = SHA1 pw"
    by (subst my_crypt_commute [of "SHA1 (scr @ stored_hash pw)" "SHA1 pw"]) (simp add: my_crypt_twice)
  then show ?thesis by (simp add: scramble_accepted_def stored_hash_def)
qed

end
