(* ===== verification/Ma_Login.thy ===== *)
theory Ma_Login
  imports Ma_Auth Db_Statements
begin

text \<open>
  The login of \<open>Ma_Auth\<close> against a server that follows the protocol: the greeting it sends, how it
  reads the first packet of the client, and how it checks the answer to its scramble against the
  hash it keeps of the password.
\<close>

lemma cstr_at: "0 \<notin> set s \<Longrightarrow> cstr (s @ 0 # r) = s"
  by (induction s) (auto simp: cstr_def)

lemma native_name_no_null: "0 \<notin> set native_password_plugin_name"
  by (simp add: native_password_plugin_name_def bytes_of_def)

lemma length_native_name: "length native_password_plugin_name = 21"
  by (simp add: native_password_plugin_name_def bytes_of_def)

section \<open>The greeting of a server\<close>

record greeting =
  g_version :: "byte list"
  g_thread :: nat
  g_scramble :: "byte list"
  g_caps :: u32
  g_lang :: nat
  g_status :: nat
  g_mariadb_caps :: nat

definition greeting_tail :: "greeting \<Rightarrow> byte list" where
  "greeting_tail g =
     le_store 4 (g_thread g) @ take 8 (g_scramble g) @ 0 # le_store 2 (unat (g_caps g) mod 65536) @
     [word_of_nat (g_lang g)] @ le_store 2 (g_status g) @ le_store 2 (unat (g_caps g) div 65536) @ [21] @
     replicate 6 0 @ le_store 4 (g_mariadb_caps g) @ drop 8 (g_scramble g) @ 0 # native_password_plugin_name @ [0]"

definition enc_greeting :: "greeting \<Rightarrow> byte list" where
  "enc_greeting g = 10 # g_version g @ 0 # greeting_tail g"

text \<open>A server of today: protocol 4.1, the long scramble, plugins, and a database with the login.\<close>

definition greeting_ok :: "greeting \<Rightarrow> bool" where
  "greeting_ok g \<longleftrightarrow> 0 \<notin> set (g_version g) \<and> g_thread g < 2 ^ 32 \<and> length (g_scramble g) = 20 \<and>
     bit (g_caps g) CLIENT_CONNECT_WITH_DB \<and> bit (g_caps g) CLIENT_PROTOCOL_41 \<and>
     bit (g_caps g) CLIENT_SECURE_CONNECTION \<and> bit (g_caps g) CLIENT_PLUGIN_AUTH \<and>
     g_lang g < 256 \<and> (g_lang g \<noteq> 0 \<longrightarrow> mysql_find_charset_nr (int (g_lang g)) \<noteq> None) \<and>
     g_status g < 65536 \<and> \<not> bit (g_status g) 3 \<and> g_mariadb_caps g < 2 ^ 32"

lemma caps_halves:
  fixes w :: u32
  shows "word_of_nat (unat w mod 65536) OR push_bit 16 (word_of_nat (unat w div 65536)) = w"
proof -
  have "unat w mod 65536 = take_bit 16 (unat w)" and "unat w div 65536 = drop_bit 16 (unat w)"
    by (simp_all add: take_bit_eq_mod drop_bit_eq_div)
  then show ?thesis by (auto intro!: bit_word_eqI simp: bit_simps)
qed

lemma drop_greeting:
  "drop (length (g_version g) + 2 + k) (enc_greeting g @ [0]) = drop k (greeting_tail g @ [0])"
  by (simp add: enc_greeting_def)

lemma caps_at:
  assumes "greeting_ok g"
  shows "drop 13 (greeting_tail g @ [0]) = le_store 2 (unat (g_caps g) mod 65536) @
     [word_of_nat (g_lang g)] @ le_store 2 (g_status g) @ le_store 2 (unat (g_caps g) div 65536) @ [21] @
     replicate 6 0 @ le_store 4 (g_mariadb_caps g) @ drop 8 (g_scramble g) @ 0 # native_password_plugin_name @ [0, 0]"
  using assms by (simp add: greeting_tail_def greeting_ok_def)

lemma length_greeting:
  assumes "greeting_ok g"
  shows "length (enc_greeting g) = length (g_version g) + 2 + 66"
  using assms by (simp add: enc_greeting_def greeting_tail_def greeting_ok_def length_native_name)

lemma greeting_caps_enc:
  fixes c :: "'db CONN"
  assumes "greeting_ok g"
  defines "i \<equiv> length (g_version g) + 2 + 13"
  shows "\<exists>c'. greeting_caps ma i (enc_greeting g) c = Some (c', 21) \<and> server_capabilities c' = g_caps g \<and>
    base c' = (base c)\<lparr>server_status := g_status g\<rparr> \<and> server_language c' = g_lang g \<and> user c' = user c \<and>
    passwd c' = passwd c \<and> cur_db c' = cur_db c \<and> connect_attrs c' = connect_attrs c \<and>
    client_flag c' = client_flag c"
proof -
  let ?m = "enc_greeting g @ [0]"
  have at: "drop i ?m = drop 13 (greeting_tail g @ [0])" unfolding i_def by (rule drop_greeting)
  have at': "drop (i + k) ?m = drop k (le_store 2 (unat (g_caps g) mod 65536) @
     [word_of_nat (g_lang g)] @ le_store 2 (g_status g) @ le_store 2 (unat (g_caps g) div 65536) @ [21] @
     replicate 6 0 @ le_store 4 (g_mariadb_caps g) @ drop 8 (g_scramble g) @ 0 # native_password_plugin_name @ [0, 0])" for k
    unfolding caps_at [OF assms(1), symmetric] at [symmetric] by (simp only: drop_drop add.commute)
  have "i + 18 \<le> length (enc_greeting g)" using length_greeting [OF assms(1)] by (simp add: i_def)
  moreover have "uint_at 2 i ?m = Some (unat (g_caps g) mod 65536)"
  proof -
    have "i + 2 \<le> length ?m" using length_greeting [OF assms(1)] by (simp add: i_def)
    then show ?thesis unfolding uint_at_def at caps_at [OF assms(1)] by (simp add: le_load_store)
  qed
  moreover have "le_load (take 2 (drop (i + 5) ?m)) = unat (g_caps g) div 65536"
    using unsigned_less [of "g_caps g", where 'a = nat]
    unfolding at' by (simp add: le_load_store less_mult_imp_div_less)
  moreover have "le_load (take 1 (drop (i + 2) ?m)) = g_lang g" "le_load (take 2 (drop (i + 3) ?m)) = g_status g"
    using assms(1) unfolding at' by (simp_all add: greeting_ok_def le_load_store unat_of_nat)
  moreover have "le_load (take 1 (drop (i + 7) ?m)) = 21"
    unfolding at' by simp
  ultimately show ?thesis using assms(1)
    by (simp add: greeting_caps_def Let_def caps_halves)
qed

lemma greeting_scramble_enc:
  assumes "greeting_ok g" and "server_capabilities c = g_caps g"
  shows "greeting_scramble (length (g_version g) + 2 + 4) (length (g_version g) + 2 + 31) 21 (enc_greeting g) c =
    Some (c, g_scramble g @ 0 # native_password_plugin_name @ [0, 0], 21, native_password_plugin_name)"
proof -
  let ?m = "enc_greeting g @ [0]" and ?v = "length (g_version g) + 2"
  have len: "length (enc_greeting g) = ?v + 66" by (rule length_greeting [OF assms(1)])
  have "drop (?v + 4) ?m = drop 4 (greeting_tail g @ [0])" by (rule drop_greeting)
  then have s1: "take 8 (drop (?v + 4) ?m) = take 8 (g_scramble g)"
    using assms(1) by (simp only:) (simp add: greeting_tail_def greeting_ok_def)
  have "drop (?v + 31) ?m = drop 31 (greeting_tail g @ [0])" by (rule drop_greeting)
  also have "\<dots> = drop 18 (drop 13 (greeting_tail g @ [0]))" by (simp only: drop_drop) simp
  also have "\<dots> = drop 8 (g_scramble g) @ 0 # native_password_plugin_name @ [0, 0]"
    unfolding caps_at [OF assms(1)] by simp
  finally have s2: "drop (?v + 31) ?m = drop 8 (g_scramble g) @ 0 # native_password_plugin_name @ [0, 0]" .
  define mem1 where "mem1 = take (?v + 23) ?m @ take 8 (drop (?v + 4) ?m) @ drop (?v + 31) ?m"
  have pre: "length (take (?v + 23) ?m) = ?v + 23" using len by simp
  have scr: "take 8 (g_scramble g) @ drop 8 (g_scramble g) = g_scramble g" by simp
  have d: "drop (?v + 23) mem1 = g_scramble g @ 0 # native_password_plugin_name @ [0, 0]"
  proof -
    have "drop (length (take (?v + 23) ?m)) (take (?v + 23) ?m @ r) = r" for r by simp
    from this [unfolded pre] have "drop (?v + 23) mem1 = (take 8 (g_scramble g) @ drop 8 (g_scramble g)) @
        0 # native_password_plugin_name @ [0, 0]"
      unfolding mem1_def s1 s2 append_assoc .
    then show ?thesis unfolding scr .
  qed
  moreover have "drop (?v + 44) mem1 = native_password_plugin_name @ [0, 0]"
  proof -
    have "drop (?v + 44) mem1 = drop 21 (drop (?v + 23) mem1)" by (simp only: drop_drop) simp
    then show ?thesis unfolding d using assms(1) by (simp add: greeting_ok_def)
  qed
  moreover have "cstr (native_password_plugin_name @ [0, 0]) = native_password_plugin_name"
    using cstr_at [OF native_name_no_null] by simp
  moreover have "length mem1 = ?v + 67" unfolding mem1_def using len by simp
  moreover have "?v + 31 - 8 = ?v + 23" by simp
  ultimately show ?thesis using assms len
    unfolding greeting_scramble_def SCRAMBLE_LENGTH_def SCRAMBLE_LENGTH_323_def Let_def
    by (simp only: mem1_def [symmetric]) (simp add: greeting_ok_def)
qed

text \<open>The character set for the language of the greeting.\<close>

definition lang_charset :: "nat \<Rightarrow> MARIADB_CHARSET_INFO option" where
  "lang_charset n = (if n \<noteq> 0 then mysql_find_charset_nr (int n) else Some (mariadb_compiled_charsets ! 5))"

lemma lang_charset_known: "greeting_ok g \<Longrightarrow> lang_charset (g_lang g) \<noteq> None"
  by (simp add: greeting_ok_def lang_charset_def)

lemma read_greeting_enc:
  fixes c :: "'db CONN"
  assumes "greeting_ok g"
  shows "\<exists>c'. read_greeting (enc_greeting g) c =
      Some (Inr (c', g_scramble g @ 0 # native_password_plugin_name @ [0, 0], 21, native_password_plugin_name)) \<and>
    server_capabilities c' = g_caps g \<and> base c' = (base c)\<lparr>server_status := g_status g\<rparr> \<and>
    charset c' = lang_charset (g_lang g) \<and> user c' = user c \<and> passwd c' = passwd c \<and> cur_db c' = cur_db c \<and>
    connect_attrs c' = connect_attrs c"
proof -
  let ?v = "length (g_version g) + 2" and ?m = "enc_greeting g @ [0]"
  have head: "?m ! 0 = 10" and ver: "cstr (drop 1 ?m) = g_version g"
    using assms by (simp_all add: enc_greeting_def greeting_ok_def cstr_at)
  have thread: "uint_at 4 ?v ?m = Some (g_thread g)"
  proof -
    have "drop ?v ?m = greeting_tail g @ [0]" using drop_greeting [of g 0] by simp
    moreover have "?v + 4 \<le> length ?m" using length_greeting [OF assms] by simp
    ultimately show ?thesis using assms le_load_stored [of "g_thread g" 4]
      unfolding uint_at_def by (simp only:) (simp add: greeting_tail_def greeting_ok_def)
  qed
  have "protocol_version (c\<lparr>protocol_version := scast (?m ! 0)\<rparr>) = 10"
    unfolding head by simp
  define c1 where "c1 = c\<lparr>protocol_version := scast (?m ! 0),
    server_version := (if take 6 (g_version g) = MA_RPL_VERSION_HACK then drop 6 (g_version g) else g_version g),
    thread_id := g_thread g\<rparr>"
  obtain c2 where caps: "greeting_caps (take 6 (g_version g) = MA_RPL_VERSION_HACK) (?v + 13) (enc_greeting g) c1 =
      Some (c2, 21)" and c2: "server_capabilities c2 = g_caps g" "base c2 = (base c)\<lparr>server_status := g_status g\<rparr>"
      "server_language c2 = g_lang g" "user c2 = user c" "passwd c2 = passwd c" "cur_db c2 = cur_db c"
      "connect_attrs c2 = connect_attrs c"
    using greeting_caps_enc [OF assms, of "take 6 (g_version g) = MA_RPL_VERSION_HACK" c1] by (auto simp: c1_def)
  have idx: "?v + 4 + SCRAMBLE_LENGTH_323 + 1 = ?v + 13" "?v + 4 + SCRAMBLE_LENGTH_323 + 19 = ?v + 31"
    by (simp_all add: SCRAMBLE_LENGTH_323_def)
  have "read_greeting (enc_greeting g) c =
      Some (Inr (choose_charset c2, g_scramble g @ 0 # native_password_plugin_name @ [0, 0], 21, native_password_plugin_name))"
    using assms c2(3) caps greeting_scramble_enc [OF assms c2(1)]
    unfolding read_greeting_def Let_def ver thread idx c1_def head
    by (simp add: PROTOCOL_VERSION_def choose_charset_def greeting_ok_def del: append_Cons append.simps)
  moreover have "charset (choose_charset c2) = lang_charset (g_lang g)"
    using c2(3) by (simp add: choose_charset_def lang_charset_def)
  ultimately show ?thesis using c2 by (simp add: choose_charset_def)
qed

section \<open>The first packet of the client\<close>

text \<open>How a server reads it: the user, the answer to the scramble, the database and the plugin.\<close>

definition parse_reply :: "byte list \<Rightarrow> byte list \<times> byte list \<times> byte list option \<times> byte list" where
  "parse_reply pkt =
     (let flags = le_load (take 4 pkt);
          us = cstr (drop 32 pkt); r = drop (32 + length us + 1) pkt;
          n = unat (hd r); answer = take n (tl r); r1 = drop n (tl r);
          (d, r2) = (if bit flags CLIENT_CONNECT_WITH_DB then (Some (cstr r1), drop (length (cstr r1) + 1) r1) else (None, r1)) in
      (us, answer, d, cstr r2))"

lemma length_reply_header:
  "bit (client_flag c) CLIENT_PROTOCOL_41 \<Longrightarrow> length (reply_header chs c) = 32"
  by (simp add: reply_header_def)

lemma reply_flags_bits:
  assumes "bit (server_capabilities c) CLIENT_PROTOCOL_41"
  shows "bit (reply_flags d c) CLIENT_PROTOCOL_41" and "client_flag c = 0 \<Longrightarrow> bit (reply_flags d c) CLIENT_CONNECT_WITH_DB = d"
proof -
  have b: "bit CLIENT_CAPABILITIES 9" "\<not> bit CLIENT_CAPABILITIES 3" by (simp_all add: CLIENT_CAPABILITIES_def)
  note defs = reply_flags_def Let_def CLIENT_PROTOCOL_41_def CLIENT_CONNECT_WITH_DB_def CLIENT_MULTI_STATEMENTS_def
    CLIENT_MULTI_RESULTS_def CLIENT_COMPRESS_def CLIENT_SSL_def CLIENT_MYSQL_def
  show "bit (reply_flags d c) CLIENT_PROTOCOL_41"
    using assms b unfolding defs by (simp add: bit_simps)
  show "bit (reply_flags d c) CLIENT_CONNECT_WITH_DB = d" if "client_flag c = 0"
    using assms b that unfolding defs by (simp add: bit_simps)
qed

lemma length_store_length: "length (mysql_net_store_length n) \<le> (if n < 65536 then 3 else 9)"
  by (simp add: mysql_net_store_length_def)

lemma length_connect_attr:
  "length (ma_send_connect_attr c) \<le> length (mysql_net_store_length (connect_attrs_len c)) + connect_attrs_len c"
  by (simp add: ma_send_connect_attr_def connect_attrs_len_def length_concat comp_def attr_len_def [abs_def] case_prod_beta add.assoc)

lemma reply_packet_bound:
  assumes "connect_attrs_len c \<le> 0xFFFF" and "length (cstr (os_user w)) \<le> USERNAME_LENGTH"
  shows "length (reply_packet w chs pl d dat c) \<le> reply_buffer dat c"
proof -
  have "length (reply_header chs c) \<le> 32" by (simp add: reply_header_def)
  moreover have "length (ma_send_connect_attr c) \<le> 3 + connect_attrs_len c"
    using length_connect_attr [of c] length_store_length [of "connect_attrs_len c"] assms(1) by auto
  moreover have "length (ma_strmake s n) \<le> n" for s n by (simp add: ma_strmake_def)
  from this [of "user c" USERNAME_LENGTH] this [of "the d" NAME_LEN] this [of "plugin_name pl" NAME_LEN]
  have "length (ma_strmake (user c) USERNAME_LENGTH) \<le> 512" "length (ma_strmake (the d) NAME_LEN) \<le> 256"
    "length (ma_strmake (plugin_name pl) NAME_LEN) \<le> 256" by (simp_all add: USERNAME_LENGTH_def NAME_LEN_def)
  ultimately show ?thesis using assms(2)
    by (auto simp: reply_packet_def reply_buffer_def USERNAME_LENGTH_def NAME_LEN_def split: option.split)
qed

definition plain_text :: "nat \<Rightarrow> byte list \<Rightarrow> bool" where
  "plain_text n s \<longleftrightarrow> s \<noteq> [] \<and> 0 \<notin> set s \<and> length s \<le> n"

lemma cstr_plain: "plain_text n s \<Longrightarrow> cstr s = s"
  by (simp add: plain_text_def cstr_no_null)

lemma hd_plain: "plain_text n s \<Longrightarrow> hd s \<noteq> 0"
  unfolding plain_text_def using hd_in_set [of s] by (cases "hd s = 0") simp_all

lemma strmake_plain: "plain_text n s \<Longrightarrow> ma_strmake s n = s"
  by (simp add: ma_strmake_def plain_text_def cstr_no_null)

lemma parse_reply_packet:
  fixes c :: "'db CONN"
  assumes caps: "bit (server_capabilities c) CLIENT_CONNECT_WITH_DB" "bit (server_capabilities c) CLIENT_SECURE_CONNECTION"
      "bit (server_capabilities c) CLIENT_PLUGIN_AUTH"
    and p41: "bit (client_flag c) CLIENT_PROTOCOL_41" and db: "bit (client_flag c) CLIENT_CONNECT_WITH_DB = (d \<noteq> None)"
    and us: "plain_text USERNAME_LENGTH (user c)" and d: "\<forall>n\<in>set_option d. plain_text NAME_LEN n" and dat: "length dat < 256"
  shows "parse_reply (reply_packet w chs Native d dat c) = (user c, dat, d, native_password_plugin_name)"
proof -
  define answer where "answer = word_of_nat (length dat) # dat"
  define dbpart where "dbpart = (case d of None \<Rightarrow> [] | Some n \<Rightarrow> n @ [0])"
  let ?tail = "native_password_plugin_name @ 0 # ma_send_connect_attr c"
  let ?pkt = "reply_packet w chs Native d dat c"
  have "hd (user c) \<noteq> 0" "user c \<noteq> []" using us hd_plain [OF us] by (auto simp: plain_text_def)
  moreover have "(case d of
        Some n \<Rightarrow> if bit (server_capabilities c) CLIENT_CONNECT_WITH_DB then ma_strmake n NAME_LEN @ [0] else []
      | None \<Rightarrow> []) = dbpart"
    using d caps by (auto simp: dbpart_def strmake_plain split: option.split)
  moreover have "ma_strmake native_password_plugin_name NAME_LEN = native_password_plugin_name"
    using native_name_no_null length_native_name by (simp add: ma_strmake_def cstr_no_null NAME_LEN_def)
  ultimately have pkt: "?pkt = reply_header chs c @ user c @ 0 # answer @ dbpart @ ?tail"
    using caps strmake_plain [OF us] by (simp add: reply_packet_def answer_def)
  have "take 4 ?pkt = le_store 4 (unat (client_flag c))"
    using p41 by (simp add: pkt reply_header_def)
  moreover have "bit (unat (client_flag c)) 3 = bit (client_flag c) 3" by (simp add: bit_unsigned_iff)
  moreover have "le_load (le_store 4 (unat (client_flag c))) = unat (client_flag c)"
    using unsigned_less [of "client_flag c", where 'a = nat] by (simp add: le_load_store)
  ultimately have flags: "bit (le_load (take 4 ?pkt)) CLIENT_CONNECT_WITH_DB = (d \<noteq> None)"
    using db by (simp add: CLIENT_CONNECT_WITH_DB_def)
  have "drop 32 ?pkt = user c @ 0 # answer @ dbpart @ ?tail"
    using length_reply_header [OF p41, of chs] by (simp add: pkt)
  moreover from this have "drop (32 + length (user c) + 1) ?pkt = answer @ dbpart @ ?tail"
  proof -
    have "drop (32 + length (user c) + 1) ?pkt = drop (length (user c) + 1) (drop 32 ?pkt)" by (simp only: drop_drop ac_simps)
    then show ?thesis unfolding \<open>drop 32 ?pkt = _\<close> by simp
  qed
  moreover have "unat (hd (answer @ dbpart @ ?tail)) = length dat" using dat by (simp add: answer_def unat_of_nat)
  moreover have "tl (answer @ dbpart @ ?tail) = dat @ dbpart @ ?tail" by (simp add: answer_def)
  ultimately show ?thesis unfolding parse_reply_def Let_def flags
    using us d cstr_at [OF native_name_no_null]
    by (auto simp: cstr_at plain_text_def dbpart_def split: option.split)
qed

section \<open>The dialogue with the server\<close>

definition answer_to :: "byte list \<Rightarrow> byte list \<Rightarrow> byte list" where
  "answer_to scr pw = (if pw = [] then [] else my_crypt (SHA1 (scr @ stored_hash pw)) (SHA1 pw))"

text \<open>The accounts give the hash a server keeps for a user; it is empty where no password is set.\<close>

definition login_ok :: "(byte list \<Rightarrow> byte list option) \<Rightarrow> byte list \<Rightarrow> byte list \<Rightarrow> byte list \<Rightarrow> bool" where
  "login_ok accounts scr us answer \<longleftrightarrow>
     (case accounts us of
        None \<Rightarrow> False
      | Some h \<Rightarrow> if h = [] then answer = [] else answer \<noteq> [] \<and> scramble_accepted h scr answer)"

definition auth_server :: "(byte list \<Rightarrow> byte list option) \<Rightarrow> byte list \<Rightarrow> nat \<Rightarrow>
    (byte list \<Rightarrow> byte list option \<Rightarrow> 'db \<Rightarrow> 'db) \<Rightarrow> 'db srv" where
  "auth_server accounts scr st enter pkt s =
     (case parse_reply pkt of
        (us, answer, d, pl) \<Rightarrow>
          if pl = native_password_plugin_name \<and> login_ok accounts scr us answer
          then ([enc_ok 0 0 st], enter us d s)
          else ([enc_err 1045 (bytes_of ''#28000Access denied'')], s))"

lemma net_safe_read_packet:
  fixes c :: "'db CONN"
  assumes "connected (base c)" and "incoming (base c) = [p]" and "p \<noteq> []" and "hd p \<noteq> 255"
  shows "net_safe_read c = (Some p, c\<lparr>base := (base c)\<lparr>incoming := []\<rparr>, read_pos := p @ [0]\<rparr>)"
  using ma_net_safe_read_packet [OF assms] assms(2,3) by (simp add: net_safe_read_def)

lemma net_safe_read_err:
  fixes c :: "'db CONN"
  assumes "connected (base c)" and "incoming (base c) = [enc_err code msg]" and "code < 65535" and "msg \<noteq> []"
  shows "net_safe_read c = (None, c\<lparr>base := (base c)\<lparr>incoming := [],
    server_status := unset_bit 3 (server_status (base c)), my_errno := code\<rparr>, read_pos := enc_err code msg @ [0]\<rparr>)"
proof -
  have "le_load (take 2 (le_store 2 code @ msg)) = code" using assms(3) by (intro le_load_stored) simp
  moreover have "0 < length msg" using assms(4) by simp
  ultimately show ?thesis using assms(1-3)
    by (simp add: net_safe_read_def ma_net_safe_read_def enc_err_def Let_def)
qed

text \<open>What the client is before it logs in.\<close>

definition login_state :: "'db world \<Rightarrow> byte list option \<Rightarrow> 'db CONN \<Rightarrow> bool" where
  "login_state w d c \<longleftrightarrow>
     connected (base c) \<and> incoming (base c) = [] \<and> charset c \<noteq> None \<and> client_flag c = 0 \<and>
     bit (server_capabilities c) CLIENT_CONNECT_WITH_DB \<and> bit (server_capabilities c) CLIENT_PROTOCOL_41 \<and>
     bit (server_capabilities c) CLIENT_SECURE_CONNECTION \<and> bit (server_capabilities c) CLIENT_PLUGIN_AUTH \<and>
     plain_text USERNAME_LENGTH (user c) \<and> 0 \<notin> set (passwd c) \<and> length (passwd c) < 2 ^ 32 \<and>
     (\<forall>n\<in>set_option d. plain_text NAME_LEN n) \<and> connect_attrs_len c \<le> 0xFFFF \<and>
     length (cstr (os_user w)) \<le> USERNAME_LENGTH \<and> length (sha_buffer (stack w)) = 64"

lemma send_reply:
  fixes v :: "'db MCPVIO"
  assumes st: "login_state w (vio_db v) (mysql v)" and pl: "plugin v = Native" and dat: "length dat < 256"
  shows "\<exists>pkt c'. send_client_reply_packet w dat v = Some (False, v\<lparr>mysql := c'\<rparr>) \<and>
    parse_reply pkt = (user (mysql v), dat, vio_db v, native_password_plugin_name) \<and>
    base c' = (base (mysql v))\<lparr>server := snd (hs w pkt (server (base (mysql v)))),
      incoming := fst (hs w pkt (server (base (mysql v))))\<rparr> \<and>
    server_capabilities c' = server_capabilities (mysql v) \<and> charset c' = charset (mysql v) \<and>
    cur_db c' = (if vio_db v = None then cur_db (mysql v) else vio_db v)"
proof -
  let ?c = "mysql v"
  obtain chs where chs: "charset ?c = Some chs" using st by (auto simp: login_state_def)
  define c1 where "c1 = ?c\<lparr>client_flag := reply_flags (vio_db v \<noteq> None) ?c\<rparr>"
  define c2 where "c2 = (if bit (client_flag c1) CLIENT_PROTOCOL_41 \<and> \<not> bit (server_capabilities c1) CLIENT_MYSQL
    then c1\<lparr>mariadb_client_flag := 7\<rparr> else c1)"
  define c3 where "c3 = (if bit (server_capabilities c2) CLIENT_CONNECT_WITH_DB \<and> vio_db v \<noteq> None
    then c2\<lparr>cur_db := vio_db v\<rparr> else c2)"
  let ?pkt = "reply_packet w chs Native (vio_db v) dat c3"
  have "server_capabilities c1 = server_capabilities ?c" "user c1 = user ?c" "base c1 = base ?c"
    "charset c1 = charset ?c" "connect_attrs c1 = connect_attrs ?c" "client_flag c1 = reply_flags (vio_db v \<noteq> None) ?c"
    unfolding c1_def by simp_all
  then have "server_capabilities c2 = server_capabilities ?c" "user c2 = user ?c" "base c2 = base ?c"
    "charset c2 = charset ?c" "connect_attrs c2 = connect_attrs ?c" "client_flag c2 = reply_flags (vio_db v \<noteq> None) ?c"
    unfolding c2_def by simp_all
  then have caps: "server_capabilities c3 = server_capabilities ?c" "user c3 = user ?c" "base c3 = base ?c"
    "charset c3 = charset ?c" "connect_attrs c3 = connect_attrs ?c" "client_flag c3 = reply_flags (vio_db v \<noteq> None) ?c"
    unfolding c3_def by simp_all
  have cur: "cur_db c3 = (if vio_db v = None then cur_db ?c else vio_db v)"
    using st by (simp add: c3_def c2_def c1_def login_state_def)
  have "bit (client_flag c3) CLIENT_PROTOCOL_41" "bit (client_flag c3) CLIENT_CONNECT_WITH_DB = (vio_db v \<noteq> None)"
    unfolding caps using st reply_flags_bits [of ?c] by (simp_all add: login_state_def)
  then have parsed: "parse_reply ?pkt = (user ?c, dat, vio_db v, native_password_plugin_name)"
    using parse_reply_packet [of c3 "vio_db v" dat w chs] st dat by (simp add: caps login_state_def)
  have fits: "length ?pkt \<le> reply_buffer dat c3"
    using reply_packet_bound [of c3 w chs Native "vio_db v" dat] st
    by (simp add: login_state_def connect_attrs_len_def caps)
  have "net_write (hs w) ?pkt c3 = (False, c3\<lparr>base := (base c3)\<lparr>server := snd (hs w ?pkt (server (base ?c))),
      incoming := fst (hs w ?pkt (server (base ?c)))\<rparr>\<rparr>)"
    using st by (simp add: net_write_def caps login_state_def case_prod_beta)
  then have "send_client_reply_packet w dat v = Some (False, v\<lparr>mysql := c3\<lparr>base := (base c3)\<lparr>server :=
      snd (hs w ?pkt (server (base ?c))), incoming := fst (hs w ?pkt (server (base ?c)))\<rparr>\<rparr>\<rparr>)"
    unfolding send_client_reply_packet_def chs Let_def pl
    unfolding c1_def [symmetric] unfolding c2_def [symmetric] unfolding c3_def [symmetric]
    using fits by simp
  with parsed cur show ?thesis
    by (intro exI [of _ ?pkt] exI [of _ "c3\<lparr>base := (base c3)\<lparr>server := snd (hs w ?pkt (server (base ?c))),
      incoming := fst (hs w ?pkt (server (base ?c)))\<rparr>\<rparr>"]) (simp add: caps(1,3,4))
qed

lemma native_auth_step:
  fixes v :: "'db MCPVIO"
  assumes st: "login_state w (vio_db v) (mysql v)" and pl: "plugin v = Native" and scr: "length scr = 20"
    and cached: "cached_server_reply v = Some (scr @ r)" "cached_len v = 21" and first: "packets_written v = 0"
  shows "\<exists>pkt v'. native_password_auth_client w v = Some (CR_OK, v') \<and>
    parse_reply pkt = (user (mysql v), answer_to scr (passwd (mysql v)), vio_db v, native_password_plugin_name) \<and>
    base (mysql v') = (base (mysql v))\<lparr>server := snd (hs w pkt (server (base (mysql v)))),
      incoming := fst (hs w pkt (server (base (mysql v))))\<rparr> \<and>
    server_capabilities (mysql v') = server_capabilities (mysql v) \<and> charset (mysql v') = charset (mysql v) \<and>
    cur_db (mysql v') = (if vio_db v = None then cur_db (mysql v) else vio_db v)"
proof -
  let ?pw = "passwd (mysql v)"
  define v1 where "v1 = v\<lparr>cached_server_reply := None, packets_read := packets_read v + 1,
    mysql := (mysql v)\<lparr>scramble_buff := take SCRAMBLE_LENGTH (scr @ r) @ [0]\<rparr>\<rparr>"
  have v1: "vio_db v1 = vio_db v" "plugin v1 = Native" "packets_written v1 = 0" "user (mysql v1) = user (mysql v)"
    "base (mysql v1) = base (mysql v)" "server_capabilities (mysql v1) = server_capabilities (mysql v)"
    "cur_db (mysql v1) = cur_db (mysql v)" "charset (mysql v1) = charset (mysql v)"
    by (simp_all add: v1_def pl first)
  have st1: "login_state w (vio_db v1) (mysql v1)"
    using st unfolding login_state_def v1_def by (simp add: connect_attrs_len_def)
  have read: "client_mpvio_read_packet w v =
      Some (21, scr @ r, v\<lparr>cached_server_reply := None, packets_read := packets_read v + 1\<rparr>)"
    unfolding client_mpvio_read_packet_def cached by simp
  have dat: "hd ?pw \<noteq> 0 \<and> ma_scramble_41 (stack w) (scr @ r) ?pw = Some (answer_to scr ?pw)" if "?pw \<noteq> []"
  proof -
    have "hd ?pw \<noteq> 0" using st hd_in_set [OF that] by (metis login_state_def)
    moreover have "ma_scramble_41 (stack w) (scr @ r) ?pw = Some (my_crypt (SHA1 (scr @ stored_hash ?pw)) (SHA1 ?pw))"
      using st scr by (intro ma_scramble_41_SHA1) (simp_all add: login_state_def)
    ultimately show ?thesis using that by (simp add: answer_to_def)
  qed
  have none: "?pw = [] \<Longrightarrow> answer_to scr ?pw = []" by (simp add: answer_to_def)
  have "length (answer_to scr ?pw) < 256" by (simp add: answer_to_def)
  from send_reply [OF st1 v1(2) this] obtain pkt c' where
    sent: "send_client_reply_packet w (answer_to scr ?pw) v1 = Some (False, v1\<lparr>mysql := c'\<rparr>)"
    and c': "parse_reply pkt = (user (mysql v), answer_to scr ?pw, vio_db v, native_password_plugin_name)"
      "base c' = (base (mysql v))\<lparr>server := snd (hs w pkt (server (base (mysql v)))),
        incoming := fst (hs w pkt (server (base (mysql v))))\<rparr>"
      "server_capabilities c' = server_capabilities (mysql v)" "charset c' = charset (mysql v)"
      "cur_db c' = (if vio_db v = None then cur_db (mysql v) else vio_db v)"
    unfolding v1 by blast
  have written: "client_mpvio_write_packet w (answer_to scr ?pw) v1 =
      Some (False, v1\<lparr>mysql := c', packets_written := 1\<rparr>)"
    by (simp add: client_mpvio_write_packet_def v1(3) sent)
  have "native_password_auth_client w v = Some (CR_OK, v1\<lparr>mysql := c', packets_written := 1\<rparr>)"
    using scr written none dat unfolding native_password_auth_client_def read
    by (cases "?pw = []") (simp_all add: SCRAMBLE_LENGTH_def Let_def v1_def)
  with c' show ?thesis by (intro exI [of _ pkt] exI [of _ "v1\<lparr>mysql := c', packets_written := 1\<rparr>"]) simp
qed

lemma run_plugin_login:
  fixes c :: "'db CONN"
  assumes st: "login_state w d c" and scr: "length scr = 20" and srv: "hs w = auth_server accounts scr st enter"
  defines "ok \<equiv> login_ok accounts scr (user c) (answer_to scr (passwd c))"
  shows "\<exists>c'. run_plugin_auth w (scr @ r) 21 native_password_plugin_name d c = Some (\<not> ok, c') \<and>
    server_capabilities c' = server_capabilities c \<and> charset c' = charset c \<and>
    cur_db c' = (if d = None then cur_db c else d) \<and>
    base c' = (if ok then (base c)\<lparr>my_errno := 0, server := enter (user c) d (server (base c))\<rparr>
       else (base c)\<lparr>my_errno := 1045, server_status := unset_bit 3 (server_status (base c))\<rparr>)"
proof -
  define v where "v = start_vio (scr @ r) 21 native_password_plugin_name d Native c"
  have v: "mysql v = set_errno 0 c" "plugin v = Native" "vio_db v = d" "cached_server_reply v = Some (scr @ r)"
    "cached_len v = 21" "packets_written v = 0"
    by (simp_all add: v_def start_vio_def)
  have c: "login_state w (vio_db v) (mysql v)"
    using st by (simp add: v set_errno_def login_state_def connect_attrs_len_def)
  have base: "base (mysql v) = (base c)\<lparr>my_errno := 0\<rparr>" "user (mysql v) = user c" "passwd (mysql v) = passwd c"
    "server_capabilities (mysql v) = server_capabilities c" "cur_db (mysql v) = cur_db c" "charset (mysql v) = charset c"
    by (simp_all add: v set_errno_def)
  obtain pkt v' where auth: "native_password_auth_client w v = Some (CR_OK, v')"
    and pkt: "parse_reply pkt = (user c, answer_to scr (passwd c), d, native_password_plugin_name)"
    and v': "base (mysql v') = (base c)\<lparr>my_errno := 0, server := snd (hs w pkt (server (base c))),
      incoming := fst (hs w pkt (server (base c)))\<rparr>"
      "server_capabilities (mysql v') = server_capabilities c" "charset (mysql v') = charset c"
      "cur_db (mysql v') = (if d = None then cur_db c else d)"
    using native_auth_step [OF c v(2) scr v(4-6)] unfolding base v(3) by auto
  have first: "first_plugin w c = Some Native" using st by (simp add: first_plugin_def login_state_def)
  have user_auth: "authenticate_user w (start_vio (scr @ r) 21 native_password_plugin_name d Native c) = Some (CR_OK, v')"
    using auth by (simp add: authenticate_user_def v(2) flip: v_def)
  have reply: "hs w pkt (server (base c)) =
    (if ok then ([enc_ok 0 0 st], enter (user c) d (server (base c)))
     else ([enc_err 1045 (bytes_of ''#28000Access denied'')], server (base c)))"
    unfolding srv auth_server_def pkt ok_def by simp
  have conn: "connected (base (mysql v'))" using st by (simp add: v' login_state_def)
  have inc: "incoming (base c) = []" using st by (simp add: login_state_def)
  show ?thesis
  proof (cases ok)
    case True
    then have "net_safe_read (mysql v') = (Some (enc_ok 0 0 st), (mysql v')\<lparr>base := (base (mysql v'))\<lparr>incoming := []\<rparr>,
        read_pos := enc_ok 0 0 st @ [0]\<rparr>)"
      using conn by (intro net_safe_read_packet) (simp_all add: v' reply enc_ok_def)
    then have "run_plugin_auth w (scr @ r) 21 native_password_plugin_name d c = Some (False,
        (mysql v')\<lparr>base := (base (mysql v'))\<lparr>incoming := []\<rparr>, read_pos := enc_ok 0 0 st @ [0]\<rparr>)"
      unfolding run_plugin_auth_def first option.case user_auth
      by (simp add: CR_OK_def CR_ERROR_def read_head_def enc_ok_def)
    then show ?thesis using True v' reply inc by simp
  next
    case False
    then have "net_safe_read (mysql v') = (None, (mysql v')\<lparr>base := (base (mysql v'))\<lparr>incoming := [],
        server_status := unset_bit 3 (server_status (base (mysql v'))), my_errno := 1045\<rparr>,
        read_pos := enc_err 1045 (bytes_of ''#28000Access denied'') @ [0]\<rparr>)"
      using conn by (intro net_safe_read_err) (simp_all add: v' reply bytes_of_def)
    then have "run_plugin_auth w (scr @ r) 21 native_password_plugin_name d c = Some (True,
        (mysql v')\<lparr>base := (base (mysql v'))\<lparr>incoming := [],
        server_status := unset_bit 3 (server_status (base (mysql v'))), my_errno := 1045\<rparr>,
        read_pos := enc_err 1045 (bytes_of ''#28000Access denied'') @ [0]\<rparr>)"
      unfolding run_plugin_auth_def first option.case user_auth
      by (simp add: CR_OK_def)
    then show ?thesis using False v' reply inc by simp
  qed
qed

section \<open>Connecting\<close>

definition can_login :: "'db world \<Rightarrow> byte list \<Rightarrow> byte list \<Rightarrow> byte list option \<Rightarrow> (byte list \<times> byte list) list \<Rightarrow> bool" where
  "can_login w us pw d attrs \<longleftrightarrow>
     plain_text USERNAME_LENGTH us \<and> 0 \<notin> set pw \<and> length pw < 2 ^ 32 \<and>
     (case d of None \<Rightarrow> True | Some n \<Rightarrow> plain_text NAME_LEN n) \<and> sum_list (map attr_len attrs) \<le> 0xFFFF \<and>
     length (cstr (os_user w)) \<le> USERNAME_LENGTH \<and> length (sha_buffer (stack w)) = 64"

lemma real_connect_login:
  fixes s0 :: 'db
  assumes g: "greeting_ok g" and srv: "hs w = auth_server accounts (g_scramble g) st enter"
    and sock: "open_socket s0 = Inr ([enc_greeting g], s1)" and can: "can_login w us pw d attrs"
  defines "ok \<equiv> login_ok accounts (g_scramble g) us (answer_to (g_scramble g) pw)"
  shows "\<exists>c'. mysql_real_connect w open_socket us pw d (mysql_init s0 attrs) = Some (ok, c') \<and>
    (if ok then conn_ready (base c') \<and> server (base c') = enter us d s1 \<and> cur_db c' = d \<and>
       charset c' = lang_charset (g_lang g) \<and> server_status (base c') = g_status g
     else \<not> connected (base c') \<and> server (base c') = s1 \<and> my_errno (base c') = 1045 \<and>
       user c' = [] \<and> passwd c' = [])"
proof -
  let ?p = "enc_greeting g"
  define c where "c = (mysql_init s0 attrs)\<lparr>base := (base (mysql_init s0 attrs))\<lparr>server_status := 2,
    connected := True, incoming := [?p], server := s1\<rparr>\<rparr>"
  define c1 where "c1 = c\<lparr>base := (base c)\<lparr>incoming := []\<rparr>, read_pos := ?p @ [0]\<rparr>"
  have "net_safe_read c = (Some ?p, c1)"
    unfolding c1_def by (intro net_safe_read_packet) (simp_all add: c_def enc_greeting_def)
  moreover have "(mysql_init s0 attrs)\<lparr>base := (base (mysql_init s0 attrs))\<lparr>server_status := 2\<rparr>,
      base := (base ((mysql_init s0 attrs)\<lparr>base := (base (mysql_init s0 attrs))\<lparr>server_status := 2\<rparr>\<rparr>))
        \<lparr>connected := True, incoming := [?p], server := s1\<rparr>\<rparr> = c"
    by (simp add: c_def)
  moreover have "server (base ((mysql_init s0 attrs)\<lparr>base := (base (mysql_init s0 attrs))\<lparr>server_status := 2\<rparr>\<rparr>)) = s0"
    by (simp add: mysql_init_def)
  moreover have "cstr us = us" "cstr pw = pw"
    using can cstr_plain [of USERNAME_LENGTH us] by (simp_all add: can_login_def cstr_no_null)
  moreover have d: "chosen_db d = d"
    using can hd_plain [of NAME_LEN] cstr_plain [of NAME_LEN] by (cases d) (auto simp: can_login_def plain_text_def)
  moreover have "\<not> connected (base (mysql_init s0 attrs))" by (simp add: mysql_init_def)
  moreover obtain c2 where read: "read_greeting ?p (c1\<lparr>user := us, passwd := pw\<rparr>) =
      Some (Inr (c2, g_scramble g @ 0 # native_password_plugin_name @ [0, 0], 21, native_password_plugin_name))"
    and c2: "server_capabilities c2 = g_caps g" "base c2 = (base c1)\<lparr>server_status := g_status g\<rparr>"
      "charset c2 = lang_charset (g_lang g)" "user c2 = us" "passwd c2 = pw" "cur_db c2 = None" "connect_attrs c2 = attrs"
    using read_greeting_enc [OF g, of "c1\<lparr>user := us, passwd := pw\<rparr>"] by (auto simp: c1_def c_def mysql_init_def)
  have base1: "connected (base c1)" "incoming (base c1) = []" "server (base c1) = s1"
    "status (base c1) = MYSQL_STATUS_READY" "writes (base c1) = []"
    by (simp_all add: c1_def c_def mysql_init_def)
  have st: "login_state w d (c2\<lparr>client_flag := 0\<rparr>)"
    using can c2 base1 g lang_charset_known [OF g]
    by (cases d) (simp_all add: login_state_def can_login_def greeting_ok_def connect_attrs_len_def)
  have scr: "length (g_scramble g) = 20" using g by (simp add: greeting_ok_def)
  obtain c3 where auth: "run_plugin_auth w (g_scramble g @ 0 # native_password_plugin_name @ [0, 0]) 21
      native_password_plugin_name d (c2\<lparr>client_flag := 0\<rparr>) = Some (\<not> ok, c3)"
    and c3: "server_capabilities c3 = g_caps g" "cur_db c3 = d" "charset c3 = lang_charset (g_lang g)"
      "base c3 = (if ok then (base c2)\<lparr>my_errno := 0, server := enter us d (server (base c2))\<rparr>
         else (base c2)\<lparr>my_errno := 1045, server_status := unset_bit 3 (server_status (base c2))\<rparr>)"
    using run_plugin_login [OF st scr srv, of "0 # native_password_plugin_name @ [0, 0]"] unfolding ok_def
    by (cases d) (auto simp: c2)
  ultimately have "mysql_real_connect w open_socket us pw d (mysql_init s0 attrs) =
      Some (ok, if ok then c3 else connect_error c3)"
    using sock c3(1,2) g unfolding mysql_real_connect_def Let_def
    by (simp add: read auth greeting_ok_def d)
  moreover have "if ok then conn_ready (base c3) \<and> server (base c3) = enter us d s1 \<and> server_status (base c3) = g_status g
     else \<not> connected (base (connect_error c3)) \<and> server (base (connect_error c3)) = s1 \<and>
       my_errno (base (connect_error c3)) = 1045"
    using c3(4) c2(2) base1 g
    by (simp add: conn_ready_def connect_error_def end_server_def free_old_query_def greeting_ok_def)
  ultimately show ?thesis using c3(2,3) by (cases ok) (simp_all add: connect_error_def)
qed

lemma right_password_ok:
  assumes "accounts us = Some (if pw = [] then [] else stored_hash pw)"
  shows "login_ok accounts scr us (answer_to scr pw)"
proof -
  have "stored_hash pw \<noteq> []" using length_SHA1 [of "SHA1 pw"] by (metis stored_hash_def list.size(3) zero_neq_numeral)
  moreover have "my_crypt (SHA1 (scr @ stored_hash pw)) (SHA1 pw) \<noteq> []"
    using length_my_crypt [of "SHA1 (scr @ stored_hash pw)" "SHA1 pw"]
    by (metis length_SHA1 list.size(3) min.idem zero_neq_numeral)
  ultimately show ?thesis using assms by (simp add: login_ok_def answer_to_def right_password_accepted)
qed

section \<open>A concrete world, for the witnesses\<close>

definition demo_world :: "(byte list \<Rightarrow> byte list option \<Rightarrow> 'db \<Rightarrow> 'db) \<Rightarrow> 'db srv \<Rightarrow>
    (byte list \<Rightarrow> byte list option) \<Rightarrow> byte list \<Rightarrow> 'db world" where
  "demo_world enter srv accounts scr =
     \<lparr>hs = auth_server accounts scr 2 enter, cmd = srv, os_user = bytes_of ''root'',
      stack = \<lparr>sha_state = [], count0 = 0, count1 = 0, sha_buffer = replicate 64 7\<rparr>,
      find_plugin = \<lambda>_. None, foreign = \<lambda>_ _. None\<rparr>"

definition count_logins :: "byte list \<Rightarrow> byte list option \<Rightarrow> nat \<Rightarrow> nat" where
  "count_logins us d s = s + length us"

definition mute :: "nat srv" where
  "mute q s = ([], s)"

definition demo_greeting :: "byte list \<Rightarrow> greeting" where
  "demo_greeting scr =
     \<lparr>g_version = bytes_of ''5.5.5-10.11'', g_thread = 7, g_scramble = scr, g_caps = 0x88208, g_lang = 0,
      g_status = 2, g_mariadb_caps = 29\<rparr>"

lemma demo_greeting_ok: "length scr = 20 \<Longrightarrow> greeting_ok (demo_greeting scr)"
  by (simp add: greeting_ok_def demo_greeting_def bytes_of_def CLIENT_CONNECT_WITH_DB_def CLIENT_PROTOCOL_41_def
      CLIENT_SECURE_CONNECTION_def CLIENT_PLUGIN_AUTH_def bit_numeral_rec)

lemma demo_password: "bytes_of ''secret'' \<noteq> []" by (simp add: bytes_of_def)

lemma demo_can_login:
  "can_login (demo_world e srv a scr) (bytes_of ''tablet'') (bytes_of ''secret'') (Some (bytes_of ''scouting''))
     [(bytes_of ''_os'', bytes_of ''Windows'')]"
  by (simp add: can_login_def demo_world_def plain_text_def bytes_of_def attr_len_def mysql_net_store_length_def
      USERNAME_LENGTH_def NAME_LEN_def cstr_def)

section \<open>Properties\<close>

text \<open>
  C10. The program gets into the database: against a server that sends a greeting of today's
  protocol and checks the answer to its scramble as the protocol says, \<open>mysql_real_connect\<close> with the
  password whose hash the server keeps (or with none, where none is set) returns the connection,
  ready for the first query, with the database chosen, and the server has let the user in.
\<close>

theorem connect_logs_in:
  fixes s0 :: 'db
  assumes "greeting_ok g" and "hs w = auth_server accounts (g_scramble g) st enter"
    and "open_socket s0 = Inr ([enc_greeting g], s1)" and "can_login w us pw d attrs"
    and "accounts us = Some (if pw = [] then [] else stored_hash pw)"
  shows "\<exists>c. mysql_real_connect w open_socket us pw d (mysql_init s0 attrs) = Some (True, c) \<and>
    conn_ready (base c) \<and> server (base c) = enter us d s1 \<and> cur_db c = d"
  using real_connect_login [of g w accounts st enter open_socket s0 s1, OF assms(1-4)]
    right_password_ok [of accounts us pw "g_scramble g", OF assms(5)] by auto

theorem connect_logs_in_witness:
  defines "scr \<equiv> replicate 20 65"
  defines "accounts \<equiv> (\<lambda>us. if us = bytes_of ''tablet'' then Some (stored_hash (bytes_of ''secret'')) else None)"
  shows "\<exists>c. mysql_real_connect (demo_world count_logins mute accounts scr) (\<lambda>s. Inr ([enc_greeting (demo_greeting scr)], s))
      (bytes_of ''tablet'') (bytes_of ''secret'') (Some (bytes_of ''scouting''))
      (mysql_init 0 [(bytes_of ''_os'', bytes_of ''Windows'')]) = Some (True, c) \<and>
    conn_ready (base c) \<and> server (base c) = length (bytes_of ''tablet'') \<and> cur_db c = Some (bytes_of ''scouting'')"
  using connect_logs_in [of "demo_greeting scr" "demo_world count_logins mute accounts scr" accounts 2 count_logins
      "\<lambda>s. Inr ([enc_greeting (demo_greeting scr)], s)" 0 0 "bytes_of ''tablet''" "bytes_of ''secret''"
      "Some (bytes_of ''scouting'')" "[(bytes_of ''_os'', bytes_of ''Windows'')]", OF demo_greeting_ok _ _ demo_can_login]
  by (simp add: scr_def accounts_def demo_world_def demo_greeting_def demo_password count_logins_def)

text \<open>
  C32. Where the server does not take the answer (no such account, or a password whose scramble it
  does not accept), \<open>mysql_real_connect\<close> returns null, the socket is closed, the error is the server's
  and neither the user nor the password stay in the connection.
\<close>

theorem connect_refused:
  fixes s0 :: 'db
  assumes "greeting_ok g" and "hs w = auth_server accounts (g_scramble g) st enter"
    and "open_socket s0 = Inr ([enc_greeting g], s1)" and "can_login w us pw d attrs"
    and "\<not> login_ok accounts (g_scramble g) us (answer_to (g_scramble g) pw)"
  shows "\<exists>c. mysql_real_connect w open_socket us pw d (mysql_init s0 attrs) = Some (False, c) \<and>
    \<not> connected (base c) \<and> my_errno (base c) = 1045 \<and> server (base c) = s1 \<and> user c = [] \<and> passwd c = []"
  using real_connect_login [of g w accounts st enter open_socket s0 s1, OF assms(1-4)] assms(5) by auto

theorem connect_refused_witness:
  defines "scr \<equiv> replicate 20 65"
  shows "\<exists>c. mysql_real_connect (demo_world count_logins mute (\<lambda>_. None) scr) (\<lambda>s. Inr ([enc_greeting (demo_greeting scr)], s))
      (bytes_of ''tablet'') (bytes_of ''secret'') (Some (bytes_of ''scouting''))
      (mysql_init 0 [(bytes_of ''_os'', bytes_of ''Windows'')]) = Some (False, c) \<and>
    \<not> connected (base c) \<and> my_errno (base c) = 1045 \<and> server (base c) = 0 \<and> user c = [] \<and> passwd c = []"
  using connect_refused [of "demo_greeting scr" "demo_world count_logins mute (\<lambda>_. None) scr" "\<lambda>_. None" 2 count_logins
      "\<lambda>s. Inr ([enc_greeting (demo_greeting scr)], s)" 0 0 "bytes_of ''tablet''" "bytes_of ''secret''"
      "Some (bytes_of ''scouting'')" "[(bytes_of ''_os'', bytes_of ''Windows'')]", OF demo_greeting_ok _ _ demo_can_login]
  by (simp add: scr_def demo_world_def demo_greeting_def login_ok_def)

text \<open>
  C33. The first packet of the client, with whatever user, database, plugin and answer, fits the
  buffer it is put together in, as long as the connection attributes keep the limit \<open>mysql_optionsv\<close>
  sets for them, so sending it is never a write past the end.
\<close>

theorem reply_packet_fits:
  fixes v :: "'db MCPVIO"
  assumes "connect_attrs_len (mysql v) \<le> 0xFFFF" and "length (cstr (os_user w)) \<le> USERNAME_LENGTH"
    and "charset (mysql v) \<noteq> None"
  shows "send_client_reply_packet w dat v \<noteq> None"
proof -
  obtain chs where chs: "charset (mysql v) = Some chs" using assms(3) by auto
  have "length (reply_packet w chs (plugin v) (vio_db v) dat c) \<le> reply_buffer dat c"
    if "connect_attrs c = connect_attrs (mysql v)" for c :: "'db CONN"
    using reply_packet_bound [of c w chs "plugin v" "vio_db v" dat] assms(1,2) that by (simp add: connect_attrs_len_def)
  then show ?thesis unfolding send_client_reply_packet_def chs Let_def option.case
    by (auto split: prod.splits if_split_asm simp flip: not_le)
qed

theorem reply_packet_fits_witness:
  "\<exists>v :: nat MCPVIO. send_client_reply_packet (demo_world count_logins mute (\<lambda>_. None) []) (replicate 300 1) v \<noteq> None"
proof
  let ?v = "start_vio [] 0 [] (Some (replicate 400 66)) (Foreign (replicate 300 65))
    ((mysql_init 0 [(bytes_of ''_os'', bytes_of ''Windows'')])\<lparr>user := replicate 600 67\<rparr>) :: nat MCPVIO"
  show "send_client_reply_packet (demo_world count_logins mute (\<lambda>_. None) []) (replicate 300 1) ?v \<noteq> None"
    by (rule reply_packet_fits)
      (simp_all add: start_vio_def set_errno_def mysql_init_def connect_attrs_len_def attr_len_def bytes_of_def
        mysql_net_store_length_def demo_world_def USERNAME_LENGTH_def cstr_def)
qed

end
