(* ===== verification/Db_Connect.thy ===== *)
theory Db_Connect
  imports Ma_Login Bt_Frames
begin

text \<open>
  The constructor of \<open>Database\<close> in \<open>database.hpp\<close> over the login of \<open>Ma_Login\<close>, and what the parts
  that open a connection for themselves get from it. Their interface is a source of connections that
  are ready; the constructor provides it as long as the server lets the program in.
\<close>

section \<open>The constructor\<close>

definition db_user :: "byte list" where "db_user = bytes_of ''root''"
definition db_name :: "byte list" where "db_name = bytes_of ''1138scapp''"

text \<open>Whether the connection may be used, the connection, and the toasts. The code goes on with a
  connection that has been closed; every use of it is undefined.\<close>

definition Database_new :: "'db world \<Rightarrow> ('db \<Rightarrow> nat + byte list list \<times> 'db) \<Rightarrow> (byte list \<times> byte list) list \<Rightarrow> 'db \<Rightarrow>
    (bool \<times> 'db CONN \<times> Toast list) option" where
  "Database_new w open_socket attrs s =
     (case mysql_real_connect w open_socket db_user (bytes_of ''1138'') (Some db_name) (mysql_init s attrs) of
        None \<Rightarrow> None
      | Some (True, c) \<Rightarrow> Some (True, c, [])
      | Some (False, c) \<Rightarrow> Some (False, mysql_close w c, [mk_Toast ''fuck you'' LENGTH_NORMAL]))"

text \<open>What an object that is made for a few statements starts from.\<close>

definition open_database :: "'db world \<Rightarrow> ('db \<Rightarrow> nat + byte list list \<times> 'db) \<Rightarrow> (byte list \<times> byte list) list \<Rightarrow> 'db \<Rightarrow>
    'db MYSQL" where
  "open_database w open_socket attrs s =
     (case Database_new w open_socket attrs s of
        None \<Rightarrow> base (mysql_init s attrs)
      | Some (_, c, _) \<Rightarrow> base c)"

section \<open>A source of connections\<close>

locale database_source =
  fixes good :: "'db \<Rightarrow> bool"
    and opn :: "'db \<Rightarrow> 'db MYSQL"
    and srv :: "'db srv"
    and enter :: "'db \<Rightarrow> 'db"
    and nbs :: bool
  assumes opn_ready: "good s \<Longrightarrow> conn_ready (opn s)"
    and opn_server: "good s \<Longrightarrow> server (opn s) = enter s"
    and opn_escapes: "good s \<Longrightarrow> no_backslash_escapes (opn s) = nbs"
    and srv_plain: "good s \<Longrightarrow> plain_reply nbs (fst (srv (COM_QUERY # q) s'))"
begin

lemma statements_taken:
  assumes "good s" and "list_all2 (\<lambda>as q. filled cset nbs st as = Some q) ass qs"
  shows "\<exists>m. run_queries srv cset st ass (opn s) = Some m \<and> conn_ready m \<and>
    server m = after_statements srv qs (enter s)"
  using run_queries_plain [where srv = srv and m = "opn s" and cset = cset and st = st and ass = ass and qs = qs]
    opn_ready opn_server opn_escapes srv_plain assms by fastforce

lemma datapoints_taken:
  assumes "good s"
    and "list_all2 (\<lambda>d q. filled cset nbs (bytes_of insert_matchtransaction) (match_args d) = Some q) ds qs"
  shows "\<exists>m. addMatchDatapoints srv cset ds (opn s) = Some m \<and>
    server (mysql_close_slow_part srv m) = snd (srv [COM_QUIT] (after_statements srv qs (enter s)))"
proof (cases "ds = []")
  case True
  with assms opn_ready opn_server show ?thesis by (simp add: addMatchDatapoints_def close_ready)
next
  case False
  have "list_all2 (\<lambda>as q. filled cset nbs (bytes_of insert_matchtransaction) as = Some q) (map match_args ds) qs"
    using assms(2) by (simp add: list_all2_map1)
  from statements_taken [OF assms(1) this] False show ?thesis
    by (auto simp: addMatchDatapoints_def close_ready)
qed

end

section \<open>The constructor is one\<close>

definition lets_in :: "'db world \<Rightarrow> ('db \<Rightarrow> nat + byte list list \<times> 'db) \<Rightarrow> (byte list \<times> byte list) list \<Rightarrow> greeting \<Rightarrow>
    (byte list \<Rightarrow> byte list option) \<Rightarrow> nat \<Rightarrow> (byte list \<Rightarrow> byte list option \<Rightarrow> 'db \<Rightarrow> 'db) \<Rightarrow> 'db \<Rightarrow> bool" where
  "lets_in w open_socket attrs g accounts st enter s \<longleftrightarrow>
     greeting_ok g \<and> hs w = auth_server accounts (g_scramble g) st enter \<and>
     open_socket s = Inr ([enc_greeting g], s) \<and>
     can_login w db_user (bytes_of ''1138'') (Some db_name) attrs \<and>
     accounts db_user = Some (stored_hash (bytes_of ''1138'')) \<and>
     (\<forall>q s'. plain_reply (bit (g_status g) 9) (fst (cmd w (COM_QUERY # q) s')))"

lemma Database_new_ready:
  fixes s :: 'db
  assumes "lets_in w open_socket attrs g accounts st enter s"
  shows "\<exists>c. Database_new w open_socket attrs s = Some (True, c, []) \<and> conn_ready (base c) \<and>
    server (base c) = enter db_user (Some db_name) s \<and> server_status (base c) = g_status g \<and>
    charset c = lang_charset (g_lang g)"
proof -
  have "bytes_of ''1138'' \<noteq> []" by (simp add: bytes_of_def)
  then have "login_ok accounts (g_scramble g) db_user (answer_to (g_scramble g) (bytes_of ''1138''))"
    using assms by (intro right_password_ok) (simp add: lets_in_def)
  then show ?thesis
    using real_connect_login [of g w accounts st enter open_socket s s db_user "bytes_of ''1138''" "Some db_name" attrs]
      assms
    by (auto simp: lets_in_def Database_new_def)
qed

interpretation login: database_source "lets_in w open_socket attrs g accounts st enter"
    "open_database w open_socket attrs" "cmd w" "enter db_user (Some db_name)" "bit (g_status g) 9"
  for w :: "'db world" and open_socket attrs g accounts st enter
proof
  fix s q s'
  assume ok: "lets_in w open_socket attrs g accounts st enter s"
  then obtain c where "Database_new w open_socket attrs s = Some (True, c, [])" "conn_ready (base c)"
    "server (base c) = enter db_user (Some db_name) s" "server_status (base c) = g_status g"
    using Database_new_ready [OF ok] by auto
  then show "conn_ready (open_database w open_socket attrs s)"
    "server (open_database w open_socket attrs s) = enter db_user (Some db_name) s"
    "no_backslash_escapes (open_database w open_socket attrs s) = bit (g_status g) 9"
    by (simp_all add: open_database_def no_backslash_escapes_def)
  show "plain_reply (bit (g_status g) 9) (fst (cmd w (COM_QUERY # q) s'))"
    using ok by (simp add: lets_in_def)
qed

section \<open>Properties\<close>

text \<open>
  C9. From the air to the database: on a working link a tablet sends a match, and the program reads
  it over its frames, parses it, opens a connection, logs in with its own name and password and
  inserts the data points. With a server that knows the program's account and answers statements, the
  server is then in the state that this login, one INSERT per data point, in order, and the farewell
  COM_QUIT of the connection bring it to, and the tablet has been acknowledged twice.
\<close>

theorem match_stored_over_login:
  fixes b :: "'db Bluetooth"
  assumes "find_obj i b = Some t" and "runningTransactions b = []"
    and "readyToRead (sel_read inp)" and "readyToWrite (sel_write inp)" and "how inp = Not_started"
    and "link_ok T 6 (net b (tab_socket t))" and "T \<le> t_code inp" and "T \<le> fst ck" and "T \<le> snd ck"
    and "\<And>n. n < 2 ^ 31 \<Longrightarrow> e_malloc S n" and "length d < 2 ^ 31"
    and "stream (rx (net b (tab_socket t))) = [1] @ size_header d @ d @ rest"
    and "lets_in w open_socket attrs g accounts st enter (dbase b)"
    and "e_srv S = cmd w" and "e_open S = open_database w open_socket attrs"
    and "list_all2 (\<lambda>d q. filled (e_cset S) (bit (g_status g) 9) (bytes_of insert_matchtransaction) (match_args d) = Some q)
      (fst (parseMatch (mk_JsonParser (e_parse S) (string_of d)))) qs"
  shows "\<exists>b1 b2 b3. start_transaction S inp i b = Inr b1 \<and> task_done S ck i b1 = Inr b2 \<and>
    handleRunningTransactions S ck' b2 = Inr b3 \<and>
    dbase b3 = snd (cmd w [COM_QUIT] (after_statements (cmd w) qs (enter db_user (Some db_name) (dbase b)))) \<and>
    sent (net b3 (tab_socket t)) = sent (net b (tab_socket t)) @ ack_data @ ack_data"
proof -
  obtain m where "store_match S d (dbase b) = Some m"
    and m: "server (mysql_close_slow_part (cmd w) m) =
      snd (cmd w [COM_QUIT] (after_statements (cmd w) qs (enter db_user (Some db_name) (dbase b))))"
    using login.datapoints_taken [OF assms(13,16)] unfolding store_match_def assms(14,15) by blast
  from match_frames [where S = S and ck = ck and ck' = ck', OF assms(1-12) this(1)] m show ?thesis by (simp add: assms(14)) blast
qed

text \<open>A server that also keeps who logged in.\<close>

definition log_login :: "byte list \<Rightarrow> byte list option \<Rightarrow> byte list list \<Rightarrow> byte list list" where
  "log_login us d db = db @ [us]"

definition scout_world :: "byte list list world" where
  "scout_world = demo_world log_login log_srv
     (\<lambda>us. if us = db_user then Some (stored_hash (bytes_of ''1138'')) else None) (replicate 20 65)"

definition scout_socket :: "byte list list \<Rightarrow> nat + byte list list \<times> byte list list" where
  "scout_socket db = Inr ([enc_greeting (demo_greeting (replicate 20 65))], db)"

definition scout_env :: "byte list list env" where
  "scout_env = log_env\<lparr>e_open := open_database scout_world scout_socket []\<rparr>"

lemma scout_lets_in:
  "lets_in scout_world scout_socket [] (demo_greeting (replicate 20 65))
     (\<lambda>us. if us = db_user then Some (stored_hash (bytes_of ''1138'')) else None) 2 log_login s"
  unfolding lets_in_def
proof (intro conjI allI)
  show "greeting_ok (demo_greeting (replicate 20 65))" by (rule demo_greeting_ok) simp
  show "can_login scout_world db_user (bytes_of ''1138'') (Some db_name) []"
    by (simp add: can_login_def scout_world_def demo_world_def plain_text_def db_user_def db_name_def bytes_of_def
        USERNAME_LENGTH_def NAME_LEN_def cstr_def)
  show "plain_reply (bit (g_status (demo_greeting (replicate 20 65))) 9) (fst (cmd scout_world (COM_QUERY # q) s'))" for q s'
    using log_srv_plain [of "COM_QUERY # q" s']
    by (simp add: demo_greeting_def scout_world_def demo_world_def no_backslash_escapes_def log_conn_def)
qed (simp_all add: scout_world_def scout_socket_def demo_world_def demo_greeting_def)

theorem match_stored_over_login_witness:
  "\<exists>b1 b2 b3 q. start_transaction scout_env log_in 0 (log_bt [RecvBytes [1, 1, 0, 0, 0, 65]]) = Inr b1 \<and>
    task_done scout_env (0, 0) 0 b1 = Inr b2 \<and>
    handleRunningTransactions scout_env (\<lambda>_. (0, 0)) b2 = Inr b3 \<and>
    dbase b3 = [bytes_of ''root'', COM_QUERY # cstr q, [COM_QUIT]]"
proof -
  let ?b = "log_bt [RecvBytes [1, 1, 0, 0, 0, 65]]" and ?g = "demo_greeting (replicate 20 65)"
  obtain t where t: "find_obj 0 ?b = Some t" "tab_socket t = 7" "net ?b 7 = log_sock [RecvBytes [1, 1, 0, 0, 0, 65]]"
    "runningTransactions ?b = []" "dbase ?b = []"
    using log_bt_tablet by blast
  obtain q where "filled (mariadb_compiled_charsets ! 5) (no_backslash_escapes log_conn)
      (bytes_of insert_matchtransaction) (match_args example_datapoint) = Some q"
    unfolding example_filled by blast
  moreover have "fst (parseMatch (mk_JsonParser (e_parse scout_env) s)) = [example_datapoint]" for s
    by (simp add: parseMatch_data mk_JsonParser_def log_env_def scout_env_def)
  moreover have "no_backslash_escapes log_conn = bit (g_status ?g) 9"
    by (simp add: demo_greeting_def no_backslash_escapes_def log_conn_def)
  ultimately have q: "list_all2 (\<lambda>d q. filled (e_cset scout_env) (bit (g_status ?g) 9) (bytes_of insert_matchtransaction)
      (match_args d) = Some q) (fst (parseMatch (mk_JsonParser (e_parse scout_env) (string_of [65])))) [q]"
    by (simp add: scout_env_def log_env_def)
  have l: "link_ok 0 6 (net ?b (tab_socket t))" unfolding t(2,3) by code_simp
  have s: "stream (rx (net ?b (tab_socket t))) = [1] @ size_header [65] @ [65] @ []" unfolding t(2,3) by code_simp
  have "cmd scout_world = log_srv" by (simp add: scout_world_def demo_world_def)
  moreover have "e_malloc scout_env n" for n by (simp add: scout_env_def log_env_def)
  moreover have "e_srv scout_env = log_srv" "e_open scout_env = open_database scout_world scout_socket []"
    by (simp_all add: scout_env_def log_env_def)
  moreover have "snd (log_srv [COM_QUIT] (after_statements log_srv [q] (log_login db_user (Some db_name) []))) =
      [bytes_of ''root'', COM_QUERY # cstr q, [COM_QUIT]]"
    by (simp add: log_srv_def log_login_def db_user_def)
  ultimately show ?thesis
    using match_stored_over_login [OF t(1,4) log_in_ready(1-3) l, of "(0, 0)" scout_env "[65]" "[]",
        OF _ _ _ _ _ s scout_lets_in, where qs = "[q]" and ck' = "\<lambda>_. (0, 0)"] log_in_ready(4) t(5) q by simp blast
qed

end
