(* ===== verification/Db_Shape.thy ===== *)
theory Db_Shape
  imports Db_Query
begin

text \<open>
  What holds of the program's database classes whatever the server sends, right or wrong: the
  connection is free again after every call that returns, and the rows that are returned form a
  table. A connection is followed through its states \<open>READY\<close>, \<open>GET_RESULT\<close> and \<open>USE_RESULT\<close>.
\<close>

section \<open>Reading leaves the state of the connection alone\<close>

definition same_state :: "'db MYSQL \<Rightarrow> 'db MYSQL \<Rightarrow> bool" where
  "same_state m m' \<longleftrightarrow> status m' = status m \<and> (mfields m = None \<longrightarrow> mfields m' = None)"

named_theorems state_intros \<open>steps that leave the state of the connection alone\<close>

lemma same_state_refl [state_intros, simp]: "same_state m m"
  by (simp add: same_state_def)

lemma same_state_trans: "same_state m m' \<Longrightarrow> same_state m' m'' \<Longrightarrow> same_state m m''"
  by (simp add: same_state_def)

lemma same_state_end_server [simp]: "same_state m (end_server m)"
  by (simp add: same_state_def end_server_def free_old_query_def)

lemma safe_read_loop_state:
  "safe_read_loop ps m = (r, m') \<Longrightarrow> same_state m m'"
proof (induction ps arbitrary: m)
  case Nil
  then show ?case by (auto simp: same_state_def end_server_def free_old_query_def)
next
  case (Cons p ps)
  then show ?case
    by (auto simp: same_state_def end_server_def free_old_query_def Let_def split: list.splits if_splits)
qed

lemma safe_read_state: "ma_net_safe_read m = (r, m') \<Longrightarrow> same_state m m'"
  unfolding ma_net_safe_read_def by (rule safe_read_loop_state)

lemma skip_result_state: "same_state m (mthd_my_skip_result m)"
proof (induction m rule: mthd_my_skip_result.induct)
  case (1 m)
  obtain r m' where r: "ma_net_safe_read m = (r, m')" by (cases "ma_net_safe_read m")
  note s = safe_read_state [OF r]
  show ?case
  proof (cases r)
    case None
    with r s show ?thesis by (subst mthd_my_skip_result.simps) simp
  next
    case (Some p)
    show ?thesis
    proof (cases "is_eof p")
      case True
      with r s Some show ?thesis by (subst mthd_my_skip_result.simps) simp
    next
      case False
      from 1 [OF r [symmetric] Some False] have "same_state m' (mthd_my_skip_result m')" .
      with same_state_trans [OF s this] r Some False show ?thesis by (subst mthd_my_skip_result.simps) simp
    qed
  qed
qed

lemma read_eof_state: "read_eof p m = Some m' \<Longrightarrow> same_state m m'"
  by (auto simp: same_state_def read_eof_def split: if_splits)

lemma read_rows_loop_state: "read_rows_loop n p rows m = Some (res, m') \<Longrightarrow> same_state m m'"
proof (induction n p rows m arbitrary: res m' rule: read_rows_loop.induct)
  case (1 n p rows m)
  show ?case
    using "1.prems" "1.IH"
    by (subst (asm) read_rows_loop.simps)
      (auto split: if_splits option.splits prod.splits dest!: safe_read_state read_eof_state intro: same_state_trans simp: same_state_def)
qed

lemma read_rows_state: "mthd_my_read_rows n m = Some (res, m') \<Longrightarrow> same_state m m'"
  unfolding mthd_my_read_rows_def
  by (auto split: option.splits prod.splits dest!: safe_read_state dest: read_rows_loop_state intro: same_state_trans)

lemma one_row_loop_length: "one_row_loop n pos row = Some (Some row') \<Longrightarrow> length row' = length row + n"
  by (induction n pos row rule: one_row_loop.induct) (auto split: option.splits prod.splits if_splits)

lemma read_one_row_state:
  assumes "mthd_my_read_one_row n m = Some (x, m')"
  shows "same_state m m' \<and> (\<forall>row. x = Fetched row \<longrightarrow> length row = n)"
  using assms unfolding mthd_my_read_one_row_def
  by (auto split: option.splits prod.splits if_splits dest!: safe_read_state read_eof_state dest: one_row_loop_length
      simp: same_state_def)

section \<open>A command\<close>

definition free_conn :: "'db MYSQL \<Rightarrow> bool" where
  "free_conn m \<longleftrightarrow> status m = MYSQL_STATUS_READY \<and> mfields m = None"

text \<open>After a command the connection is free, or it holds a result that is to be read.\<close>

lemma mysql_query_state:
  assumes "mysql_query srv q m = Some (err, m')" and "status m = MYSQL_STATUS_READY"
  shows "free_conn m' \<or> \<not> err \<and> status m' = MYSQL_STATUS_GET_RESULT \<and> mfields m' \<noteq> None"
proof -
  obtain e m1 where send: "mthd_my_send_cmd srv COM_QUERY (cstr q) (free_old_query m) = (e, m1)"
    by (cases "mthd_my_send_cmd srv COM_QUERY (cstr q) (free_old_query m)")
  then have m1: "free_conn m1"
    using assms(2) by (auto simp: mthd_my_send_cmd_def transmit_def mariadb_reconnect_def end_server_def free_old_query_def free_conn_def
        split: if_splits prod.splits list.splits write_outcome.splits)
  show ?thesis
  proof (cases e)
    case True
    with assms(1) send m1 show ?thesis by (simp add: mysql_query_def)
  next
    case False
    with assms(1) send have read: "mthd_my_read_query_result m1 = Some (err, m')"
      by (simp add: mysql_query_def)
    show ?thesis
    proof (cases "ma_net_safe_read m1")
      case (Pair r m2)
      then have "free_conn m2" using safe_read_state [OF Pair] m1 by (simp add: free_conn_def same_state_def)
      then have m3: "free_conn (free_old_query m2)" "free_conn (mark_in_trans (free_old_query m2))"
        by (simp_all add: free_conn_def free_old_query_def mark_in_trans_def)
      show ?thesis
        using read Pair m3 \<open>free_conn m2\<close>
        by (auto simp: mthd_my_read_query_result_def read_ok_packet_def free_conn_def same_state_def Let_def
            split: option.splits if_splits prod.splits dest!: read_rows_state)
    qed
  qed
qed

section \<open>The rows\<close>

lemma fetch_row_state:
  assumes "mysql_fetch_row r m = Some (x, r', m')" and "status m = MYSQL_STATUS_USE_RESULT" and "mfields m = None"
    and "has_handle r" and "\<not> eof r"
  shows "(case x of
      Some row \<Rightarrow> status m' = MYSQL_STATUS_USE_RESULT \<and> mfields m' = None \<and> has_handle r' \<and> \<not> eof r' \<and>
        r_field_count r' = r_field_count r \<and> length row = r_field_count r
    | None \<Rightarrow> free_conn m')"
  using assms unfolding mysql_fetch_row_def
  by (auto split: option.splits prod.splits fetch.splits if_splits dest!: read_one_row_state
      simp: same_state_def free_conn_def)

lemma collect_rows_state:
  assumes "collect_rows f r m acc = Some (xs, r', m')" and "status m = MYSQL_STATUS_USE_RESULT" and "mfields m = None"
    and "has_handle r" and "\<not> eof r"
  shows "free_conn m' \<and>
    (\<exists>rows. map Some xs = map Some acc @ map f rows \<and> (\<forall>row\<in>set rows. length row = r_field_count r))"
  using assms
proof (induction f r m acc rule: collect_rows.induct)
  case (1 f r m acc)
  obtain x r1 m1 where fetch: "mysql_fetch_row r m = Some (x, r1, m1)"
    using "1.prems"(1) by (subst (asm) collect_rows.simps) (auto split: option.splits)
  note st = fetch_row_state [OF fetch "1.prems"(2-5)]
  show ?case
  proof (cases x)
    case None
    with "1.prems"(1) fetch st show ?thesis by (subst (asm) collect_rows.simps) auto
  next
    case (Some row)
    with "1.prems"(1) fetch obtain y where y: "f row = Some y" "collect_rows f r1 m1 (acc @ [y]) = Some (xs, r', m')"
      by (subst (asm) collect_rows.simps) (auto split: option.splits)
    from st Some have m1: "status m1 = MYSQL_STATUS_USE_RESULT" "mfields m1 = None" "has_handle r1" "\<not> eof r1"
      and n: "r_field_count r1 = r_field_count r" "length row = r_field_count r" by simp_all
    from "1.IH" [OF fetch refl Some refl y(1) y(2) m1] obtain rows where
      "free_conn m'" "map Some xs = map Some (acc @ [y]) @ map f rows" "\<forall>row\<in>set rows. length row = r_field_count r1"
      by blast
    with y(1) n show ?thesis by (intro conjI exI [of _ "row # rows"]) auto
  qed
qed

lemma use_result_state:
  assumes "mysql_use_result m = (x, m')" and "free_conn m \<or> status m = MYSQL_STATUS_GET_RESULT \<and> mfields m \<noteq> None"
  shows "(case x of
      None \<Rightarrow> free_conn m'
    | Some r \<Rightarrow> status m' = MYSQL_STATUS_USE_RESULT \<and> mfields m' = None \<and> has_handle r \<and> \<not> eof r)"
  using assms by (auto simp: mysql_use_result_def free_conn_def split: option.splits)

lemma free_result_state: "free_conn m \<Longrightarrow> mysql_free_result r m = m"
  by (simp add: mysql_free_result_def free_conn_def split: option.split)

lemma query_state:
  assumes "Database_query srv cset st args m = Some (rows, m')" and "status m = MYSQL_STATUS_READY"
  shows "free_conn m' \<and> (\<exists>n. \<forall>row\<in>set rows. length row = n)"
proof -
  obtain q err m1 where q: "mysql_query srv q m = Some (err, m1)"
      "Database_query srv cset st args m =
        (if err then Some ([], m1)
         else case mysql_use_result m1 of
             (None, m2) \<Rightarrow> Some ([], mysql_free_result None m2)
           | (Some r, m2) \<Rightarrow>
               (case collect_rows (\<lambda>row. Some (query_row row)) r m2 [] of
                 None \<Rightarrow> None
               | Some (v, r', m3) \<Rightarrow> Some (v, mysql_free_result (Some r') m3)))"
    using assms(1) by (auto simp: Database_query_def split: option.splits bool.splits)
  note st = mysql_query_state [OF q(1) assms(2)]
  show ?thesis
  proof (cases err)
    case True
    with q(2) assms(1) st show ?thesis by simp
  next
    case False
    obtain x m2 where use: "mysql_use_result m1 = (x, m2)" by (cases "mysql_use_result m1")
    with use_result_state [OF use] st have u: "case x of
        None \<Rightarrow> free_conn m2
      | Some r \<Rightarrow> status m2 = MYSQL_STATUS_USE_RESULT \<and> mfields m2 = None \<and> has_handle r \<and> \<not> eof r" by blast
    show ?thesis
    proof (cases x)
      case None
      with q(2) assms(1) False use u show ?thesis by (simp add: free_result_state)
    next
      case (Some r)
      with q(2) assms(1) False use obtain r' m3 where c: "collect_rows (\<lambda>row. Some (query_row row)) r m2 [] = Some (rows, r', m3)"
        and m': "m' = mysql_free_result (Some r') m3" by (auto split: option.splits)
      from collect_rows_state [OF c] u Some obtain rs where "free_conn m3" and rs: "map Some rows = map (\<lambda>row. Some (query_row row)) rs"
        "\<forall>row\<in>set rs. length row = r_field_count r" by auto
      from rs(1) have "map Some rows = map Some (map query_row rs)" by (simp add: comp_def)
      then have "rows = map query_row rs" by (simp only: inj_map_eq_map [OF inj_Some])
      with rs(2) \<open>free_conn m3\<close> m' show ?thesis by (auto simp: free_result_state query_row_def)
    qed
  qed
qed

lemma exec_state:
  assumes "execQuery srv st n m = Some (rows, m')" and "n \<noteq> 0" and "status m = MYSQL_STATUS_READY"
  shows "free_conn m'"
proof (cases "mysql_query srv (cstr st) m")
  case None
  with assms(1) show ?thesis by (simp add: execQuery_def)
next
  case (Some em)
  obtain err m1 where em: "em = (err, m1)" by (cases em)
  note q = Some [unfolded em]
  show ?thesis
  proof (cases err)
    case True
    with q assms(1) mysql_query_state [OF q assms(3)] show ?thesis by (simp add: execQuery_def)
  next
    case False
    obtain x m2 where use: "mysql_use_result m1 = (x, m2)" by (cases "mysql_use_result m1")
    with use_result_state [OF use] mysql_query_state [OF q assms(3)] have u: "case x of
        None \<Rightarrow> free_conn m2
      | Some r \<Rightarrow> status m2 = MYSQL_STATUS_USE_RESULT \<and> mfields m2 = None \<and> has_handle r \<and> \<not> eof r" by blast
    show ?thesis
    proof (cases x)
      case None
      with q assms(1,2) False use u show ?thesis by (simp add: execQuery_def)
    next
      case (Some r)
      with q assms(1,2) False use obtain r' m3 where c: "collect_rows (exec_row n) r m2 [] = Some (rows, r', m3)"
        and m': "m' = mysql_free_result (Some r') m3" by (auto simp: execQuery_def split: option.splits)
      from collect_rows_state [OF c] u Some m' show ?thesis by (auto simp: free_result_state)
    qed
  qed
qed

lemma headers_state:
  assumes "getHeaders srv cset tbl columns m = Some (names, m')" and "status m = MYSQL_STATUS_READY"
  shows "free_conn m'"
proof -
  obtain q err m1 where q: "mysql_query srv q m = Some (err, m1)"
      and g: "getHeaders srv cset tbl columns m =
        (if err then Some ([], m1)
         else case mysql_use_result m1 of
             (None, _) \<Rightarrow> None
           | (Some r, m2) \<Rightarrow> map_option (\<lambda>names. (names, mysql_free_result (Some r) m2)) (fetch_names r []))"
    using assms(1) by (auto simp: getHeaders_def Let_def split: option.splits bool.splits if_splits)
  note st = mysql_query_state [OF q assms(2)]
  show ?thesis
  proof (cases err)
    case True
    with g assms(1) st show ?thesis by simp
  next
    case False
    obtain x m2 where use: "mysql_use_result m1 = (x, m2)" by (cases "mysql_use_result m1")
    with g assms(1) False obtain r where x: "x = Some r" "m' = mysql_free_result (Some r) m2"
      by (auto simp: map_option_case split: option.splits)
    with use_result_state [OF use] st have "status m2 = MYSQL_STATUS_USE_RESULT" "mfields m2 = None" "has_handle r"
      by auto
    with x(2) skip_result_state [of m2] show ?thesis
      by (simp add: mysql_free_result_def free_conn_def same_state_def)
  qed
qed

section \<open>Any run of calls\<close>

text \<open>The calls the program makes on a connection one after the other, with the results of the
  queries. \<open>execQuery\<close> is never called with length 0 there.\<close>

inductive db_calls :: "'db srv \<Rightarrow> MARIADB_CHARSET_INFO \<Rightarrow> 'db MYSQL \<Rightarrow> byte list list list list \<Rightarrow> 'db MYSQL \<Rightarrow> bool"
  for srv :: "'db srv" and cset :: MARIADB_CHARSET_INFO where
  No_more: "db_calls srv cset m [] m"
| Query: "Database_query srv cset st args m = Some (rows, m1) \<Longrightarrow> db_calls srv cset m1 ts m' \<Longrightarrow>
    db_calls srv cset m (rows # ts) m'"
| Exec: "execQuery srv st n m = Some (rows, m1) \<Longrightarrow> n \<noteq> 0 \<Longrightarrow> db_calls srv cset m1 ts m' \<Longrightarrow> db_calls srv cset m ts m'"
| Headers: "getHeaders srv cset tbl columns m = Some (names, m1) \<Longrightarrow> db_calls srv cset m1 ts m' \<Longrightarrow>
    db_calls srv cset m ts m'"

definition rectangular :: "'a list list \<Rightarrow> bool" where
  "rectangular rows \<longleftrightarrow> (\<exists>n. \<forall>row\<in>set rows. length row = n)"

lemma db_calls_free:
  assumes "db_calls srv cset m ts m'" and "free_conn m"
  shows "free_conn m' \<and> (\<forall>rows\<in>set ts. rectangular rows)"
  using assms
proof (induction rule: db_calls.induct)
  case (No_more m)
  then show ?case by simp
next
  case (Query st args m rows m1 ts m')
  with query_state [OF Query.hyps(1)] show ?case by (simp add: free_conn_def rectangular_def)
next
  case (Exec st n m rows m1 ts m')
  with exec_state [OF Exec.hyps(1,2)] show ?case by (simp add: free_conn_def)
next
  case (Headers tbl columns m names m1 ts m')
  with headers_state [OF Headers.hyps(1)] show ?case by (simp add: free_conn_def)
qed

text \<open>
  C31. Whatever the server sends, well-formed or not, and whether or not the commands can be written:
  over any run of calls of the program on a connection that starts with no result pending, every query
  that returns gives a table, that is rows of one width, and after the last call no result is
  pending. The next command is then refused if the server has closed the connection or announced
  another result (bit 3 of the status), and it is sent if neither is so and the write succeeds. Calls
  that read outside what was sent do not return and are not in such a run.
\<close>

theorem calls_return_tables:
  assumes "db_calls srv cset m ts m'" and "free_conn m"
  shows "free_conn m' \<and> (\<forall>rows\<in>set ts. rectangular rows) \<and>
    (if connected m' \<and> \<not> bit (server_status m') 3
     then writes m' = [] \<longrightarrow> mthd_my_send_cmd srv c arg m' = (False, transmit srv (c # arg) m')
     else fst (mthd_my_send_cmd srv c arg m') \<and> server (snd (mthd_my_send_cmd srv c arg m')) = server m')"
proof -
  have "free_conn m' \<and> (\<forall>rows\<in>set ts. rectangular rows)" by (rule db_calls_free [OF assms])
  then show ?thesis by (auto simp: free_conn_def mthd_my_send_cmd_def mariadb_reconnect_def)
qed


theorem calls_return_tables_witness:
  "\<exists>m'. db_calls example_srv (mariadb_compiled_charsets ! 5) example_conn
      [map query_row [[Some [49], None], [Some [50], Some [51]]]] m' \<and> free_conn m' \<and>
    rectangular (map query_row [[Some [49], None], [Some [50], Some [51]]])"
proof -
  obtain m' where "Database_query example_srv (mariadb_compiled_charsets ! 5) [115] [] example_conn =
      Some (map query_row [[Some [49], None], [Some [50], Some [51]]], m')"
    using query_rows [OF example_facts, where srv = example_srv and st = 2 and q = "[115]" and stmt = "[115]" and args = "[]"]
    by (auto simp: example_srv_def)
  from db_calls.Query [OF this db_calls.No_more]
  have "db_calls example_srv (mariadb_compiled_charsets ! 5) example_conn
      [map query_row [[Some [49], None], [Some [50], Some [51]]]] m'" .
  moreover have "free_conn example_conn" by (simp add: free_conn_def example_conn_def)
  ultimately show ?thesis using calls_return_tables [of example_srv "mariadb_compiled_charsets ! 5" example_conn] by fastforce
qed

end
