(* ===== verification/Ma_List.thy ===== *)
theory Ma_List
  imports Prelude
begin

text \<open>
  \<open>libmariadb/ma_list.c\<close>: doubly linked lists. A store maps addresses to elements (a null pointer is
  \<open>None\<close>, a read of a pointer that is null or not allocated is the value \<open>None\<close> of the operation, as is
  a loop that does not end). The lemmas show that the operations are those on lists: add puts an element
  before the given one, also in the middle, delete takes one out wherever it stands, reverse
  reverses.
\<close>

section \<open>The operations\<close>

record 'd LIST =
  lprev :: "nat option"
  lnext :: "nat option"
  ldata :: 'd

type_synonym 'd store = "nat \<rightharpoonup> 'd LIST"

definition set_prev :: "'d store \<Rightarrow> nat \<Rightarrow> nat option \<Rightarrow> 'd store option" where
  "set_prev H a p = (case H a of None \<Rightarrow> None | Some e \<Rightarrow> Some (H(a \<mapsto> e\<lparr>lprev := p\<rparr>)))"

definition set_next :: "'d store \<Rightarrow> nat \<Rightarrow> nat option \<Rightarrow> 'd store option" where
  "set_next H a p = (case H a of None \<Rightarrow> None | Some e \<Rightarrow> Some (H(a \<mapsto> e\<lparr>lnext := p\<rparr>)))"

text \<open>The new root is the element itself.\<close>

definition list_add :: "'d store \<Rightarrow> nat option \<Rightarrow> nat \<Rightarrow> ('d store \<times> nat option) option" where
  "list_add H root element =
     map_option (\<lambda>H. (H, Some element))
       (case root of
          None \<Rightarrow> Option.bind (set_prev H element None) (\<lambda>H. set_next H element None)
        | Some r \<Rightarrow>
            Option.bind (H r) (\<lambda>re.
            Option.bind (case lprev re of None \<Rightarrow> Some H | Some p \<Rightarrow> set_next H p (Some element)) (\<lambda>H.
            Option.bind (H r) (\<lambda>re.
            Option.bind (set_prev H element (lprev re)) (\<lambda>H.
            Option.bind (set_prev H r (Some element)) (\<lambda>H.
            set_next H element (Some r)))))))"

definition list_delete :: "'d store \<Rightarrow> nat option \<Rightarrow> nat \<Rightarrow> ('d store \<times> nat option) option" where
  "list_delete H root element =
     Option.bind (H element) (\<lambda>e.
     Option.bind
       (case lprev e of
          Some p \<Rightarrow> map_option (\<lambda>H. (H, root)) (set_next H p (lnext e))
        | None \<Rightarrow> Some (H, lnext e)) (\<lambda>(H, root).
     Option.bind (H element) (\<lambda>e.
     case lnext e of
       Some n \<Rightarrow> map_option (\<lambda>H. (H, root)) (set_prev H n (lprev e))
     | None \<Rightarrow> Some (H, root))))"

text \<open>\<open>malloc\<close> gives the address \<open>fresh\<close>, or fails (\<open>None\<close>); then the result is null.\<close>

definition list_cons :: "'d store \<Rightarrow> nat option \<Rightarrow> 'd \<Rightarrow> nat option \<Rightarrow> ('d store \<times> nat option) option" where
  "list_cons H fresh d lst =
     (case fresh of
        None \<Rightarrow> Some (H, None)
      | Some a \<Rightarrow> list_add (H(a \<mapsto> \<lparr>lprev = None, lnext = None, ldata = d\<rparr>)) lst a)"

partial_function (option) reverse_loop ::
    "'d store \<Rightarrow> nat option \<Rightarrow> nat option \<Rightarrow> ('d store \<times> nat option) option" where
  "reverse_loop H lst root =
     (case root of
        None \<Rightarrow> Some (H, lst)
      | Some l \<Rightarrow>
          Option.bind (H l) (\<lambda>e.
          reverse_loop (H(l \<mapsto> e\<lparr>lnext := lprev e, lprev := lnext e\<rparr>)) (Some l) (lnext e)))"

definition list_reverse :: "'d store \<Rightarrow> nat option \<Rightarrow> ('d store \<times> nat option) option" where
  "list_reverse H root = reverse_loop H root root"

partial_function (option) length_loop :: "'d store \<Rightarrow> nat option \<Rightarrow> u32 \<Rightarrow> u32 option" where
  "length_loop H lst count =
     (case lst of
        None \<Rightarrow> Some count
      | Some a \<Rightarrow> Option.bind (H a) (\<lambda>e. length_loop H (lnext e) (count + 1)))"

definition list_length :: "'d store \<Rightarrow> nat option \<Rightarrow> u32 option" where
  "list_length H lst = length_loop H lst 0"

text \<open>The action is a function of the data to the error it returns.\<close>

partial_function (option) list_walk :: "'d store \<Rightarrow> nat option \<Rightarrow> ('d \<Rightarrow> i32) \<Rightarrow> i32 option" where
  "list_walk H lst act =
     (case lst of
        None \<Rightarrow> Some 0
      | Some a \<Rightarrow>
          Option.bind (H a) (\<lambda>e.
          if act (ldata e) \<noteq> 0 then Some (act (ldata e)) else list_walk H (lnext e) act))"

text \<open>\<open>list_free\<close>: the store without the elements, and the data passed to \<open>free\<close>.\<close>

partial_function (option) list_free :: "'d store \<Rightarrow> nat option \<Rightarrow> bool \<Rightarrow> 'd list \<Rightarrow> ('d store \<times> 'd list) option" where
  "list_free H root free_data freed =
     (case root of
        None \<Rightarrow> Some (H, freed)
      | Some a \<Rightarrow>
          Option.bind (H a) (\<lambda>e.
          list_free (H(a := None)) (lnext e) free_data (if free_data then freed @ [ldata e] else freed)))"

section \<open>Lists in the store\<close>

text \<open>From \<open>p\<close> on, behind \<open>pr\<close>, the elements \<open>xs\<close> are linked both ways; the last one has the next \<open>q\<close>.\<close>

fun dseg :: "'d store \<Rightarrow> nat option \<Rightarrow> nat option \<Rightarrow> nat list \<Rightarrow> nat option \<Rightarrow> bool" where
  "dseg H pr p [] q \<longleftrightarrow> p = q"
| "dseg H pr p (a # as) q \<longleftrightarrow>
     p = Some a \<and> (\<exists>e. H a = Some e \<and> lprev e = pr \<and> dseg H (Some a) (lnext e) as q)"

definition dlist :: "'d store \<Rightarrow> nat option \<Rightarrow> nat list \<Rightarrow> bool" where
  "dlist H root xs \<longleftrightarrow> dseg H None root xs None \<and> distinct xs"

definition content :: "'d store \<Rightarrow> nat list \<Rightarrow> 'd list" where
  "content H xs = map (\<lambda>a. ldata (the (H a))) xs"

definition last_of :: "nat option \<Rightarrow> nat list \<Rightarrow> nat option" where
  "last_of pr xs = (if xs = [] then pr else Some (last xs))"

lemma last_of_simps [simp]: "last_of pr [] = pr" "last_of pr (xs @ [x]) = Some x" "last_of pr (x # xs) = last_of (Some x) xs"
  by (auto simp: last_of_def)

lemma dseg_append: "dseg H pr p (xs @ ys) q \<longleftrightarrow> (\<exists>m. dseg H pr p xs m \<and> dseg H (last_of pr xs) m ys q)"
  by (induction xs arbitrary: pr p) (auto simp: last_of_def)

lemma dseg_cong: "(\<And>a. a \<in> set xs \<Longrightarrow> H' a = H a) \<Longrightarrow> dseg H' pr p xs q = dseg H pr p xs q"
  by (induction xs arbitrary: pr p) auto

lemma dseg_upd [simp]: "a \<notin> set xs \<Longrightarrow> dseg (H(a := v)) pr p xs q = dseg H pr p xs q"
  by (rule dseg_cong) auto

lemma dseg_dom: "dseg H pr p xs q \<Longrightarrow> set xs \<subseteq> dom H"
  by (induction xs arbitrary: pr p) auto

text \<open>Changing the next of the last element, or the prev of the first one.\<close>

lemma dseg_set_next:
  "dseg H pr p (xs @ [a]) q \<Longrightarrow> distinct (xs @ [a]) \<Longrightarrow> H a = Some e \<Longrightarrow>
     dseg (H(a \<mapsto> e\<lparr>lnext := q'\<rparr>)) pr p (xs @ [a]) q'"
  by (auto simp: dseg_append)

lemma dseg_set_prev:
  "dseg H pr (Some a) (a # xs) q \<Longrightarrow> a \<notin> set xs \<Longrightarrow> H a = Some e \<Longrightarrow>
     dseg (H(a \<mapsto> e\<lparr>lprev := pr'\<rparr>)) pr' (Some a) (a # xs) q"
  by auto

definition same_data :: "'d store \<Rightarrow> 'd store \<Rightarrow> bool" where
  "same_data H H' \<longleftrightarrow> (\<forall>a. map_option ldata (H' a) = map_option ldata (H a))"

lemma same_data_content: "same_data H H' \<Longrightarrow> content H' xs = content H xs"
proof -
  assume *: "same_data H H'"
  have "ldata (the (H' a)) = ldata (the (H a))" for a
  proof -
    have "map_option ldata (H' a) = map_option ldata (H a)" using * by (simp add: same_data_def)
    then show ?thesis by (cases "H a"; cases "H' a") auto
  qed
  then show ?thesis by (simp add: content_def)
qed

lemma same_data_dom: "same_data H H' \<Longrightarrow> dom H' = dom H"
  unfolding same_data_def dom_def by (metis map_option_is_None)

text \<open>Add: the element goes before \<open>r\<close>, which may be in the middle of the list.\<close>

lemma list_add_before:
  assumes L: "dlist H root (us @ r # vs)" and el: "H el = Some ee" "el \<notin> set (us @ r # vs)"
  shows "\<exists>H'. list_add H (Some r) el = Some (H', Some el) \<and> same_data H H' \<and>
    dlist H' (if us = [] then Some el else root) (us @ el # r # vs) \<and>
    (\<forall>a. a \<notin> set (us @ el # r # vs) \<longrightarrow> H' a = H a)"
proof (cases us rule: rev_cases)
  case Nil
  with L obtain re where re: "root = Some r" "H r = Some re" "lprev re = None" "dseg H (Some r) (lnext re) vs None"
    by (auto simp: dlist_def)
  with L el Nil show ?thesis
    by (auto simp: list_add_def set_prev_def set_next_def dlist_def same_data_def)
next
  case (snoc ws p)
  from L snoc obtain pe re where re: "dseg H None root ws (Some p)" "H p = Some pe" "lprev pe = last_of None ws"
    "lnext pe = Some r" "H r = Some re" "lprev re = Some p" "dseg H (Some r) (lnext re) vs None"
    by (auto simp: dlist_def dseg_append)
  have "p \<noteq> r" "p \<noteq> el" "r \<noteq> el" using L el snoc by (auto simp: dlist_def)
  with L el snoc re show ?thesis
    by (auto simp: list_add_def set_prev_def set_next_def dlist_def same_data_def dseg_append)
qed

lemma list_add_empty:
  assumes "H el = Some ee"
  shows "\<exists>H'. list_add H None el = Some (H', Some el) \<and> same_data H H' \<and> dlist H' (Some el) [el] \<and>
    (\<forall>a. a \<noteq> el \<longrightarrow> H' a = H a)"
  using assms by (auto simp: list_add_def set_prev_def set_next_def dlist_def same_data_def)

text \<open>Delete: the element is taken out wherever it stands.\<close>

lemma list_delete_anywhere:
  assumes L: "dlist H root (us @ el # vs)"
  shows "\<exists>H' root'. list_delete H root el = Some (H', root') \<and> same_data H H' \<and> dlist H' root' (us @ vs) \<and>
    (\<forall>a. a \<notin> set (us @ vs) \<longrightarrow> H' a = H a)"
proof -
  from L obtain e where e: "dseg H None root us (Some el)" "H el = Some e" "lprev e = last_of None us"
      "dseg H (Some el) (lnext e) vs None" and d: "distinct (us @ el # vs)"
    by (auto simp: dlist_def dseg_append)
  show ?thesis
  proof (cases us rule: rev_cases)
    case Nil
    show ?thesis
    proof (cases vs)
      case Nil
      with \<open>us = []\<close> e d show ?thesis by (auto simp: list_delete_def dlist_def same_data_def)
    next
      case (Cons n ws)
      with \<open>us = []\<close> e d show ?thesis
        by (auto simp: list_delete_def set_prev_def dlist_def same_data_def)
    qed
  next
    case (snoc ts p)
    with e obtain pe where pe: "dseg H None root ts (Some p)" "H p = Some pe" "lprev pe = last_of None ts" "lnext pe = Some el"
      by (auto simp: dseg_append)
    show ?thesis
    proof (cases vs)
      case Nil
      with snoc pe e d show ?thesis
        by (auto simp: list_delete_def set_next_def dlist_def same_data_def dseg_append)
    next
      case (Cons n ws)
      with snoc pe e d show ?thesis
        by (auto simp: list_delete_def set_next_def set_prev_def dlist_def same_data_def dseg_append)
    qed
  qed
qed

text \<open>Reverse: the elements before \<open>root\<close> are reversed already.\<close>

lemma reverse_loop_rev:
  "dseg H root (last_of None zs) (rev zs) None \<Longrightarrow> dseg H (last_of None zs) root ys None \<Longrightarrow> distinct (zs @ ys) \<Longrightarrow>
     (ys = [] \<Longrightarrow> lst = last_of None zs) \<Longrightarrow>
     \<exists>H'. reverse_loop H lst root = Some (H', last_of None (zs @ ys)) \<and> same_data H H' \<and>
       dseg H' None (last_of None (zs @ ys)) (rev (zs @ ys)) None \<and> (\<forall>a. a \<notin> set ys \<longrightarrow> H' a = H a)"
proof (induction ys arbitrary: H zs lst root)
  case Nil
  then show ?case by (simp add: reverse_loop.simps same_data_def)
next
  case (Cons l ys)
  from Cons.prems(2) obtain e where e: "root = Some l" "H l = Some e" "lprev e = last_of None zs" "dseg H (Some l) (lnext e) ys None"
    by auto
  define H1 where "H1 = H(l \<mapsto> e\<lparr>lnext := lprev e, lprev := lnext e\<rparr>)"
  have l: "l \<notin> set zs" "l \<notin> set ys" using Cons.prems(3) by auto
  have d: "dseg H1 (lnext e) (last_of None (zs @ [l])) (rev (zs @ [l])) None" "dseg H1 (last_of None (zs @ [l])) (lnext e) ys None"
    using Cons.prems(1) e l by (simp_all add: H1_def)
  obtain H' where H': "reverse_loop H1 (Some l) (lnext e) = Some (H', last_of None (zs @ l # ys))" "same_data H1 H'"
    "dseg H' None (last_of None (zs @ l # ys)) (rev (zs @ l # ys)) None" "\<And>a. a \<notin> set ys \<Longrightarrow> H' a = H1 a"
    using Cons.IH [OF d, of "Some l"] Cons.prems(3) by auto
  have "same_data H H1" using e(2) by (simp add: same_data_def H1_def)
  with H'(2) have "same_data H H'" by (simp add: same_data_def)
  moreover have "reverse_loop H lst root = Some (H', last_of None (zs @ l # ys))"
    using H'(1) e by (subst reverse_loop.simps) (simp add: H1_def)
  moreover have "H' a = H a" if "a \<notin> set (l # ys)" for a using H'(4) [of a] that by (simp add: H1_def)
  ultimately show ?case using H'(3) by blast
qed

lemma list_reverse_rev:
  assumes "dlist H root xs"
  shows "\<exists>H'. list_reverse H root = Some (H', last_of None xs) \<and> same_data H H' \<and> dlist H' (last_of None xs) (rev xs) \<and>
    (\<forall>a. a \<notin> set xs \<longrightarrow> H' a = H a)"
proof -
  have "xs = [] \<Longrightarrow> root = last_of None []" using assms by (simp add: dlist_def)
  with reverse_loop_rev [of H root "[]" xs root] assms show ?thesis by (auto simp: list_reverse_def dlist_def)
qed

lemma length_loop_length:
  "dseg H pr lst xs None \<Longrightarrow> length_loop H lst count = Some (count + of_nat (length xs))"
proof (induction xs arbitrary: pr lst count)
  case (Cons a xs)
  then show ?case by (auto simp: length_loop.simps ac_simps)
qed (simp add: length_loop.simps)

lemma list_walk_first:
  "dseg H pr lst xs None \<Longrightarrow>
     list_walk H lst act = Some (case filter (\<lambda>r. r \<noteq> 0) (map act (content H xs)) of [] \<Rightarrow> 0 | r # _ \<Rightarrow> r)"
proof (induction xs arbitrary: pr lst)
  case (Cons a xs)
  then show ?case by (auto simp: list_walk.simps content_def)
qed (simp add: list_walk.simps content_def)

lemma list_free_all:
  "dseg H pr root xs None \<Longrightarrow> distinct xs \<Longrightarrow>
     list_free H root free_data freed =
       Some (\<lambda>a. if a \<in> set xs then None else H a, freed @ (if free_data then content H xs else []))"
proof (induction xs arbitrary: H pr root freed)
  case (Cons a xs)
  then obtain e where e: "root = Some a" "H a = Some e" "dseg H (Some a) (lnext e) xs None" by auto
  define H1 where "H1 = H(a := None)"
  have c: "content H1 xs = content H xs" using Cons.prems(2) by (auto simp: content_def H1_def)
  have d: "dseg H1 (Some a) (lnext e) xs None" using Cons.prems(2) e by (simp add: H1_def)
  define fs where "fs = (if free_data then freed @ [ldata e] else freed)"
  have "list_free H root free_data freed = list_free H1 (lnext e) free_data fs"
    using e by (subst list_free.simps) (simp add: H1_def fs_def)
  also have "\<dots> = Some (\<lambda>b. if b \<in> set xs then None else H1 b, fs @ (if free_data then content H1 xs else []))"
    using Cons.IH [OF d] Cons.prems(2) by simp
  finally show ?case using e(2) unfolding c by (auto simp: fs_def H1_def content_def fun_eq_iff)
qed (simp add: list_free.simps content_def)

section \<open>Runs of operations\<close>

text \<open>A list as its owner uses it: new data in front (the address from \<open>malloc\<close>, null on failure),
  deletion of an element, reversal. The specification is on the list of addresses and data.\<close>

datatype 'd list_op = Push "nat option" 'd | Remove nat | Reverse

fun run_list :: "'d list_op list \<Rightarrow> 'd store \<times> nat option \<Rightarrow> ('d store \<times> nat option) option" where
  "run_list [] s = Some s"
| "run_list (Push fresh d # ops) (H, root) =
     Option.bind (list_cons H fresh d root) (\<lambda>(H', r). run_list ops (H', if r = None then root else r))"
| "run_list (Remove a # ops) (H, root) = Option.bind (list_delete H root a) (run_list ops)"
| "run_list (Reverse # ops) (H, root) = Option.bind (list_reverse H root) (run_list ops)"

fun list_after :: "'d list_op list \<Rightarrow> (nat \<times> 'd) list \<Rightarrow> (nat \<times> 'd) list" where
  "list_after [] xs = xs"
| "list_after (Push (Some a) d # ops) xs = list_after ops ((a, d) # xs)"
| "list_after (Push None d # ops) xs = list_after ops xs"
| "list_after (Remove a # ops) xs = list_after ops (filter (\<lambda>(b, _). b \<noteq> a) xs)"
| "list_after (Reverse # ops) xs = list_after ops (rev xs)"

text \<open>\<open>malloc\<close> never gives an address in use, and only elements of the list are deleted.\<close>

fun list_ops_ok :: "'d list_op list \<Rightarrow> nat list \<Rightarrow> bool" where
  "list_ops_ok [] as \<longleftrightarrow> True"
| "list_ops_ok (Push (Some a) d # ops) as \<longleftrightarrow> a \<notin> set as \<and> list_ops_ok ops (a # as)"
| "list_ops_ok (Push None d # ops) as \<longleftrightarrow> list_ops_ok ops as"
| "list_ops_ok (Remove a # ops) as \<longleftrightarrow> a \<in> set as \<and> list_ops_ok ops (filter (\<lambda>b. b \<noteq> a) as)"
| "list_ops_ok (Reverse # ops) as \<longleftrightarrow> list_ops_ok ops (rev as)"

definition cells :: "'d store \<Rightarrow> nat list \<Rightarrow> (nat \<times> 'd) list" where
  "cells H as = zip as (content H as)"

lemma run_list_refines:
  "dlist H root as \<Longrightarrow> list_ops_ok ops as \<Longrightarrow>
     \<exists>H' root'. run_list ops (H, root) = Some (H', root') \<and>
       dlist H' root' (map fst (list_after ops (cells H as))) \<and>
       cells H' (map fst (list_after ops (cells H as))) = list_after ops (cells H as)"
proof (induction ops arbitrary: H root as)
  case Nil
  then show ?case by (simp add: cells_def content_def)
next
  case (Cons op ops)
  note d = Cons.prems(1)
  have dd: "distinct as" using d by (simp add: dlist_def)
  have sub: "set as \<subseteq> dom H" using d dseg_dom unfolding dlist_def by blast
  have fc: "map fst (cells H as) = as" for as by (simp add: cells_def content_def)
  show ?case
  proof (cases op)
    case (Push fresh v)
    show ?thesis
    proof (cases fresh)
      case None
      with Push Cons.IH [OF d] Cons.prems(2) show ?thesis by (auto simp: list_cons_def)
    next
      case (Some a)
      let ?H = "H(a \<mapsto> \<lparr>lprev = None, lnext = None, ldata = v\<rparr>)"
      have a: "a \<notin> set as" "list_ops_ok ops (a # as)" using Cons.prems(2) Push Some by auto
      have d': "dlist ?H root as" using d a(1) by (simp add: dlist_def)
      obtain H' where H': "list_add ?H root a = Some (H', Some a)" "same_data ?H H'" "dlist H' (Some a) (a # as)"
      proof (cases as)
        case Nil
        with d have "root = None" by (simp add: dlist_def)
        with list_add_empty [of ?H a] Nil that show ?thesis by auto
      next
        case (Cons r vs)
        with d have "root = Some r" by (simp add: dlist_def)
        with list_add_before [of ?H root "[]" r vs a] d' Cons a(1) that show ?thesis by auto
      qed
      have "content H' (a # as) = v # content H as"
        unfolding same_data_content [OF H'(2)] using a(1) by (auto simp: content_def)
      then have "cells H' (a # as) = (a, v) # cells H as" by (simp add: cells_def)
      with Cons.IH [OF H'(3) a(2)] H'(1) Push Some show ?thesis by (simp add: list_cons_def)
    qed
  next
    case (Remove a)
    with Cons.prems(2) have a: "a \<in> set as" "list_ops_ok ops (filter (\<lambda>b. b \<noteq> a) as)" by auto
    then obtain us vs where us: "as = us @ a # vs" by (auto dest: split_list)
    then have f: "filter (\<lambda>b. b \<noteq> a) as = us @ vs" using dd us by (simp, intro arg_cong2 [where f = append] filter_True) auto
    obtain H' root' where H': "list_delete H root a = Some (H', root')" "same_data H H'" "dlist H' root' (us @ vs)"
      using list_delete_anywhere [of H root us a vs] d us by auto
    have "cells H' (us @ vs) = filter (\<lambda>(b, _). b \<noteq> a) (cells H as)"
      using same_data_content [OF H'(2)] f by (simp add: cells_def content_def zip_map2 zip_same_conv_map filter_map comp_def)
    with Cons.IH [OF H'(3)] a(2) H'(1) f Remove show ?thesis by simp
  next
    case Reverse
    obtain H' where H': "list_reverse H root = Some (H', last_of None as)" "same_data H H'" "dlist H' (last_of None as) (rev as)"
      using list_reverse_rev [OF d] by auto
    have "cells H' (rev as) = rev (cells H as)"
      unfolding cells_def same_data_content [OF H'(2)] by (simp add: content_def zip_rev del: rev_map flip: rev_map)
    with Cons.IH [OF H'(3)] H'(1) Cons.prems(2) Reverse show ?thesis by simp
  qed
qed

text \<open>
  C34. The doubly linked list is a list. Whatever sequence of insertions, deletions and reversals its
  owner runs on a new list, every operation is defined and the elements reached from the root are,
  in order, those of the specification, with their data; their number and the walk along them
  are those of the list, and freeing it frees exactly its elements.
\<close>

theorem linked_list_is_list:
  assumes "list_ops_ok ops []"
  shows "\<exists>H root. run_list ops (Map.empty, None) = Some (H, root) \<and>
    (let xs = list_after ops [] in
       cells H (map fst xs) = xs \<and> list_length H root = Some (of_nat (length xs)) \<and>
       (\<forall>act. list_walk H root act =
          Some (case filter (\<lambda>r. r \<noteq> 0) (map (act \<circ> snd) xs) of [] \<Rightarrow> 0 | r # _ \<Rightarrow> r)) \<and>
       list_free H root True [] = Some (\<lambda>a. if a \<in> fst ` set xs then None else H a, map snd xs))"
proof -
  have "dlist Map.empty None []" by (simp add: dlist_def)
  from run_list_refines [OF this assms] obtain H root where
    r: "run_list ops (Map.empty, None) = Some (H, root)" "dlist H root (map fst (list_after ops []))"
      "cells H (map fst (list_after ops [])) = list_after ops []"
    by (auto simp: cells_def content_def)
  define xs where "xs = list_after ops []"
  have d: "dseg H None root (map fst xs) None" "distinct (map fst xs)" using r(2) by (simp_all add: dlist_def xs_def)
  have "map snd (cells H (map fst xs)) = content H (map fst xs)" by (simp add: cells_def content_def)
  then have c: "content H (map fst xs) = map snd xs" using r(3) by (simp add: xs_def)
  show ?thesis
    using r(1,3) length_loop_length [OF d(1), of 0] list_walk_first [OF d(1)] list_free_all [OF d, of True "[]"] c
    by (intro exI [of _ H] exI [of _ root]) (simp add: list_length_def Let_def flip: xs_def)
qed

lemma linked_list_is_list_witness:
  "\<exists>H root. run_list [Push (Some 1) ''a'', Push (Some 2) ''b'', Push None ''c'', Push (Some 3) ''d'', Remove 2, Reverse]
      (Map.empty, None) = Some (H, root) \<and> list_length H root = Some 2 \<and>
    list_free H root True [] = Some (\<lambda>a. if a = 1 \<or> a = 3 then None else H a, [''a'', ''d''])"
  using linked_list_is_list [of "[Push (Some 1) ''a'', Push (Some 2) ''b'', Push None ''c'', Push (Some 3) ''d'', Remove 2, Reverse]"]
  by (auto simp: Let_def)

end
