(* ===== verification/Ma_Alloc.thy ===== *)
theory Ma_Alloc
  imports Prelude "HOL-Library.Multiset"
begin

text \<open>
  \<open>libmariadb/ma_alloc.c\<close>: memory roots, from which the client library takes the memory of a result
  (field names, rows) and which are freed as a whole. A block is an object with an address, a size and
  its bytes; a pointer is a block and an offset, so that a pointer into one block never reaches
  another. \<open>malloc\<close> gives an object of the size asked for at a fresh address, or fails. The first 24
  bytes of an object are the \<open>MA_USED_MEM\<close> of the block; its fields are kept in a record, so what must
  be shown is that no piece given out reaches into these bytes. Sizes are \<open>size_t\<close>. Shown: the pieces
  handed out lie behind the header and inside their objects and never overlap, so what is copied into
  the root stays there until the root is freed, and freeing gives every block back exactly once.
\<close>

section \<open>Blocks and roots\<close>

definition ALIGN_SIZE :: "u64 \<Rightarrow> u64" where
  "ALIGN_SIZE a = (a + 7) AND NOT 7"

text \<open>\<open>ALIGN_SIZE(sizeof(MA_USED_MEM))\<close>: a pointer and two sizes.\<close>

definition USED_MEM_SIZE :: u64 where "USED_MEM_SIZE = 24"

definition MALLOC_OVERHEAD :: u64 where "MALLOC_OVERHEAD = 8"

record USED_MEM =
  um_addr :: nat
  um_left :: u64
  um_size :: u64

text \<open>The memory: the next fresh address, the sizes and the contents of the objects, and the
  addresses freed.\<close>

record memory =
  fresh :: nat
  object_size :: "nat \<Rightarrow> nat"
  bytes_at :: "nat \<Rightarrow> nat \<Rightarrow> byte"
  freed_blocks :: "nat list"

record MEM_ROOT =
  mr_free :: "USED_MEM list"
  mr_used :: "USED_MEM list"
  mr_pre_alloc :: "USED_MEM option"
  min_malloc :: u64
  block_size :: u64
  block_num :: u32
  first_block_usage :: u32

definition malloc_object :: "u64 \<Rightarrow> memory \<Rightarrow> nat \<times> memory" where
  "malloc_object n m =
     (fresh m, m\<lparr>fresh := fresh m + 1, object_size := (object_size m)(fresh m := unat n)\<rparr>)"

text \<open>A block in an object of \<open>n\<close> bytes, with the fields as the caller sets them.\<close>

definition new_block :: "u64 \<Rightarrow> u64 \<Rightarrow> u64 \<Rightarrow> memory \<Rightarrow> USED_MEM \<times> memory" where
  "new_block n left sz m =
     (case malloc_object n m of (a, m) \<Rightarrow> (\<lparr>um_addr = a, um_left = left, um_size = sz\<rparr>, m))"

text \<open>\<open>ok\<close> tells whether \<open>malloc\<close> succeeds.\<close>

definition ma_init_alloc_root :: "bool \<Rightarrow> u64 \<Rightarrow> u64 \<Rightarrow> memory \<Rightarrow> MEM_ROOT \<times> memory" where
  "ma_init_alloc_root ok block_sz pre_alloc_size m =
     (let r = \<lparr>mr_free = [], mr_used = [], mr_pre_alloc = None, min_malloc = 32,
            block_size = block_sz - MALLOC_OVERHEAD - USED_MEM_SIZE + 8, block_num = 4, first_block_usage = 0\<rparr> in
      if pre_alloc_size \<noteq> 0 \<and> ok
      then case new_block (pre_alloc_size + USED_MEM_SIZE) pre_alloc_size (pre_alloc_size + USED_MEM_SIZE) m of
          (b, m) \<Rightarrow> (r\<lparr>mr_free := [b], mr_pre_alloc := Some b\<rparr>, m)
      else (r, m))"

text \<open>The search for a block with room: the blocks before it, the block, the blocks behind.\<close>

fun first_fit :: "u64 \<Rightarrow> USED_MEM list \<Rightarrow> (USED_MEM list \<times> USED_MEM \<times> USED_MEM list) option" where
  "first_fit sz [] = None"
| "first_fit sz (b # bs) =
     (if um_left b < sz then map_option (\<lambda>(us, c, vs). (b # us, c, vs)) (first_fit sz bs)
      else Some ([], b, bs))"

text \<open>A first block that was too small too often is given up.\<close>

definition drop_first :: "u64 \<Rightarrow> MEM_ROOT \<Rightarrow> MEM_ROOT" where
  "drop_first sz r =
     (case mr_free r of
        [] \<Rightarrow> r
      | b # bs \<Rightarrow>
          if um_left b < sz then
            let r' = r\<lparr>first_block_usage := first_block_usage r + 1\<rparr> in
            if 16 \<le> first_block_usage r \<and> um_left b < 4096
            then r'\<lparr>mr_free := bs, mr_used := b # mr_used r, first_block_usage := 0\<rparr>
            else r'
          else r)"

text \<open>Taking the piece from the block \<open>b\<close> that stands between \<open>us\<close> and \<open>vs\<close> in the free list.\<close>

definition take_piece :: "u64 \<Rightarrow> USED_MEM list \<Rightarrow> USED_MEM \<Rightarrow> USED_MEM list \<Rightarrow> MEM_ROOT \<Rightarrow> (nat \<times> nat) \<times> MEM_ROOT" where
  "take_piece sz us b vs r =
     (let b' = b\<lparr>um_left := um_left b - sz\<rparr> in
      ((um_addr b, unat (um_size b - um_left b)),
       if um_left b' < min_malloc r
       then r\<lparr>mr_free := us @ vs, mr_used := b' # mr_used r, first_block_usage := 0\<rparr>
       else r\<lparr>mr_free := us @ b' # vs\<rparr>))"

definition ma_alloc_root :: "bool \<Rightarrow> u64 \<Rightarrow> MEM_ROOT \<Rightarrow> memory \<Rightarrow> (nat \<times> nat) option \<times> MEM_ROOT \<times> memory" where
  "ma_alloc_root ok req r m =
     (let sz = ALIGN_SIZE req; r = drop_first sz r in
      case first_fit sz (mr_free r) of
        Some (us, b, vs) \<Rightarrow> (case take_piece sz us b vs r of (p, r) \<Rightarrow> (Some p, r, m))
      | None \<Rightarrow>
          if \<not> ok then (None, r, m)
          else
            let get_size = max (sz + USED_MEM_SIZE) ((block_size r AND NOT 1) * ucast (drop_bit 2 (block_num r)));
                (b, m) = new_block get_size (get_size - USED_MEM_SIZE) get_size m;
                r = r\<lparr>block_num := block_num r + 1\<rparr> in
            (case take_piece sz (mr_free r) b [] r of (p, r) \<Rightarrow> (Some p, r, m)))"

definition MY_KEEP_PREALLOC :: u64 where "MY_KEEP_PREALLOC = 1"

definition ma_free_root :: "u64 \<Rightarrow> MEM_ROOT \<Rightarrow> memory \<Rightarrow> MEM_ROOT \<times> memory" where
  "ma_free_root flags r m =
     (let pre = (if flags AND MY_KEEP_PREALLOC = 0 then None else mr_pre_alloc r);
          gone = filter (\<lambda>a. Some a \<noteq> map_option um_addr pre) (map um_addr (mr_used r @ mr_free r)) in
      (r\<lparr>mr_used := [], mr_pre_alloc := pre,
         mr_free := (case pre of None \<Rightarrow> [] | Some b \<Rightarrow> [b\<lparr>um_left := um_size b - USED_MEM_SIZE\<rparr>])\<rparr>,
       m\<lparr>freed_blocks := freed_blocks m @ gone\<rparr>))"

text \<open>Copies of memory in the root. A string ends with its first zero byte.\<close>

definition write_bytes :: "nat \<Rightarrow> nat \<Rightarrow> byte list \<Rightarrow> memory \<Rightarrow> memory" where
  "write_bytes a off bs m = m\<lparr>bytes_at := (bytes_at m)
     (a := \<lambda>i. if off \<le> i \<and> i < off + length bs then bs ! (i - off) else bytes_at m a i)\<rparr>"

definition read_bytes :: "nat \<Rightarrow> nat \<Rightarrow> nat \<Rightarrow> memory \<Rightarrow> byte list" where
  "read_bytes a off n m = map (bytes_at m a) [off..<off + n]"

definition ma_memdup_root :: "bool \<Rightarrow> byte list \<Rightarrow> MEM_ROOT \<Rightarrow> memory \<Rightarrow> (nat \<times> nat) option \<times> MEM_ROOT \<times> memory" where
  "ma_memdup_root ok str r m =
     (case ma_alloc_root ok (of_nat (length str)) r m of
        (None, r, m) \<Rightarrow> (None, r, m)
      | (Some (a, off), r, m) \<Rightarrow> (Some (a, off), r, write_bytes a off str m))"

definition ma_strdup_root :: "bool \<Rightarrow> byte list \<Rightarrow> MEM_ROOT \<Rightarrow> memory \<Rightarrow> (nat \<times> nat) option \<times> MEM_ROOT \<times> memory" where
  "ma_strdup_root ok str r m = ma_memdup_root ok (takeWhile (\<lambda>b. b \<noteq> 0) str @ [0]) r m"

text \<open>\<open>ma_multi_malloc\<close>: one object for several pieces; the offsets, and the size of the object.\<close>

fun multi_offsets :: "u64 \<Rightarrow> u64 list \<Rightarrow> u64 list \<times> u64" where
  "multi_offsets res [] = ([], res)"
| "multi_offsets res (len # lens) = (case multi_offsets (res + ALIGN_SIZE len) lens of (os, t) \<Rightarrow> (res # os, t))"

definition ma_multi_malloc :: "bool \<Rightarrow> u64 list \<Rightarrow> (u64 list \<times> u64) option" where
  "ma_multi_malloc ok lens = (if ok then Some (multi_offsets 0 lens) else None)"

section \<open>Arithmetic of sizes\<close>

lemma unat_align: "unat a < 2 ^ 63 \<Longrightarrow> unat (ALIGN_SIZE a) = (unat a + 7) div 8 * 8"
proof -
  assume "unat a < 2 ^ 63"
  then have u: "unat (a + 7) = unat a + 7" by (simp add: unat_word_ariths)
  have "(y AND NOT (mask 3)) = push_bit 3 (drop_bit 3 y)" for y :: u64
    by (intro bit_word_eqI) (auto simp: bit_simps)
  moreover have "ALIGN_SIZE a = (a + 7) AND NOT (mask 3)" by (simp add: ALIGN_SIZE_def mask_eq_exp_minus_1)
  ultimately have "ALIGN_SIZE a = push_bit 3 (drop_bit 3 (a + 7))" by simp
  also have "unat \<dots> = take_bit 64 (push_bit 3 (unat (drop_bit 3 (a + 7))))"
    by (simp only: unsigned_push_bit_eq) simp
  also have "unat (drop_bit 3 (a + 7)) = unat (a + 7) div 8"
    unfolding unat_drop_bit_eq by (simp add: drop_bit_eq_div)
  also have "take_bit 64 (push_bit 3 (unat (a + 7) div 8)) = (unat a + 7) div 8 * 8"
    using \<open>unat a < 2 ^ 63\<close> unfolding u by (simp add: push_bit_eq_mult take_bit_nat_eq_self_iff)
  finally show ?thesis .
qed

lemma align_ge: "unat a < 2 ^ 63 \<Longrightarrow> unat a \<le> unat (ALIGN_SIZE a) \<and> 8 dvd unat (ALIGN_SIZE a) \<and> unat (ALIGN_SIZE a) \<le> 2 ^ 63"
proof -
  assume a: "unat a < 2 ^ 63"
  have "unat a \<le> (unat a + 7) div 8 * 8" by linarith
  moreover have "(unat a + 7) div 8 \<le> 2 ^ 60" using a by simp
  ultimately show ?thesis using unat_align [OF a] by simp
qed

section \<open>Pieces never overlap\<close>

definition block_ok :: "USED_MEM \<Rightarrow> bool" where
  "block_ok b \<longleftrightarrow> 24 \<le> unat (um_size b) \<and> unat (um_left b) \<le> unat (um_size b) - 24 \<and>
     8 dvd unat (um_size b) - unat (um_left b)"

text \<open>A piece is a block, an offset and a length; it must lie in the part of the block already given out.\<close>

type_synonym piece = "nat \<times> nat \<times> nat"

definition piece_in :: "USED_MEM list \<Rightarrow> piece \<Rightarrow> bool" where
  "piece_in bs p \<longleftrightarrow> (case p of (a, off, len) \<Rightarrow> \<exists>b\<in>set bs. um_addr b = a \<and> 24 \<le> off \<and> 8 dvd off \<and>
     off + len \<le> unat (um_size b) - unat (um_left b))"

fun apart :: "piece \<Rightarrow> piece \<Rightarrow> bool" where
  "apart (a, off, len) (a', off', len') \<longleftrightarrow> a \<noteq> a' \<or> off + len \<le> off' \<or> off' + len' \<le> off"

definition blocks :: "MEM_ROOT \<Rightarrow> USED_MEM list" where
  "blocks r = mr_free r @ mr_used r"

text \<open>\<open>n0\<close> is the first address the root got; \<open>ps\<close> are the pieces given out, the last one first.\<close>

definition root_inv :: "nat \<Rightarrow> MEM_ROOT \<Rightarrow> memory \<Rightarrow> piece list \<Rightarrow> bool" where
  "root_inv n0 r m ps \<longleftrightarrow> distinct (map um_addr (blocks r)) \<and> um_addr ` set (blocks r) = {n0..<fresh m} \<and> n0 \<le> fresh m \<and>
     (\<forall>b\<in>set (blocks r). block_ok b \<and> object_size m (um_addr b) = unat (um_size b)) \<and> (\<forall>p\<in>set ps. piece_in (blocks r) p) \<and> sorted_wrt apart ps"

lemma root_inv_mset:
  "mset (blocks r') = mset (blocks r) \<Longrightarrow> root_inv n0 r m ps \<Longrightarrow> root_inv n0 r' m ps"
proof -
  assume *: "mset (blocks r') = mset (blocks r)"
  then have "set (blocks r') = set (blocks r)" by (rule mset_eq_setD)
  moreover have "mset (map um_addr (blocks r')) = mset (map um_addr (blocks r))" using * by simp
  then have "distinct (map um_addr (blocks r')) = distinct (map um_addr (blocks r))" by (rule mset_eq_imp_distinct_iff)
  ultimately show "root_inv n0 r m ps \<Longrightarrow> root_inv n0 r' m ps" by (simp add: root_inv_def piece_in_def)
qed

lemma drop_first_blocks: "mset (blocks (drop_first sz r)) = mset (blocks r)"
  by (auto simp: drop_first_def blocks_def Let_def split: list.split)

lemma first_fit_split: "first_fit sz bs = Some (us, b, vs) \<Longrightarrow> bs = us @ b # vs \<and> sz \<le> um_left b"
proof (induction bs arbitrary: us)
  case (Cons c bs)
  then show ?case by (auto split: if_splits simp: not_less)
qed simp

lemma sub_left: "sz \<le> um_left b \<Longrightarrow> unat (um_left b - sz) = unat (um_left b) - unat sz"
  by (rule unat_sub)

text \<open>The piece is taken behind all those that were given out before from its block.\<close>

lemma take_piece_inv:
  assumes I: "root_inv n0 r m ps" and fr: "mr_free r = us @ b # vs" and sz: "sz \<le> um_left b" "8 dvd unat sz" "len \<le> unat sz"
    and t: "take_piece sz us b vs r = ((a, off), r')"
  shows "root_inv n0 r' m ((a, off, len) # ps)"
proof -
  define b' where "b' = b\<lparr>um_left := um_left b - sz\<rparr>"
  have b: "b \<in> set (blocks r)" and bo: "block_ok b" using I fr by (auto simp: root_inv_def blocks_def)
  have left: "unat (um_left b') = unat (um_left b) - unat sz" "unat sz \<le> unat (um_left b)"
    using sub_left [OF sz(1)] sz(1) by (simp_all add: b'_def word_le_nat_alt)
  have le: "um_left b \<le> um_size b" using bo by (auto simp: block_ok_def word_le_nat_alt)
  have p: "a = um_addr b" "off = unat (um_size b) - unat (um_left b)"
    using t unat_sub [OF le] by (auto simp: take_piece_def Let_def split: if_splits)
  have r': "mset (blocks r') = mset (us @ b' # vs @ mr_used r)"
    using t by (auto simp: take_piece_def Let_def blocks_def b'_def split: if_splits)
  have addr: "um_addr b' = um_addr b" "um_size b' = um_size b" by (simp_all add: b'_def)
  define s where "s = r\<lparr>mr_free := us @ b' # vs\<rparr>"
  have bs: "blocks s = us @ b' # vs @ mr_used r" "blocks r = us @ b # vs @ mr_used r" using fr by (simp_all add: blocks_def s_def)
  have "unat (um_size b) - unat (um_left b') = unat (um_size b) - unat (um_left b) + unat sz"
    using bo left by (auto simp: block_ok_def)
  then have bo': "block_ok b'" using bo left sz(2) unfolding block_ok_def addr by (auto intro: dvd_add)
  have old: "piece_in (blocks s) q" if q: "piece_in (blocks r) q" for q
    using q left unfolding piece_in_def bs by (fastforce simp: addr)
  have new: "piece_in (blocks s) (a, off, len)"
    using bo left sz(3) p unfolding piece_in_def bs block_ok_def by (auto simp: addr)
  have ap: "apart (a, off, len) q" if q: "piece_in (blocks r) q" for q
  proof (cases q)
    case (fields a' off' len')
    from q obtain c where c: "c \<in> set (blocks r)" "um_addr c = a'" "off' + len' \<le> unat (um_size c) - unat (um_left c)"
      by (auto simp: piece_in_def fields)
    have "c = b" if "a' = a"
    proof -
      have "inj_on um_addr (set (blocks r))" using I by (simp add: root_inv_def distinct_map)
      with c(1,2) b that p(1) show ?thesis by (auto dest: inj_onD)
    qed
    with c(3) p(2) show ?thesis by (auto simp: fields)
  qed
  have "um_addr ` set (blocks s) = um_addr ` set (blocks r)" "map um_addr (blocks s) = map um_addr (blocks r)"
    unfolding bs by (simp_all add: addr)
  moreover have "\<forall>c\<in>set (blocks s). block_ok c \<and> object_size m (um_addr c) = unat (um_size c)"
    using I bo' unfolding root_inv_def bs by (auto simp: addr)
  ultimately have "root_inv n0 s m ((a, off, len) # ps)"
    using I old new ap unfolding root_inv_def by auto
  then show ?thesis by (rule root_inv_mset [rotated]) (simp add: r' bs(1))
qed

lemma ma_alloc_root_inv:
  assumes I: "root_inv n0 r m ps" and n: "unat n < 2 ^ 63" and al: "ma_alloc_root ok n r m = (res, r', m')"
  shows "(\<forall>a off. res = Some (a, off) \<longrightarrow> root_inv n0 r' m' ((a, off, unat n) # ps)) \<and>
    (res = None \<longrightarrow> \<not> ok \<and> root_inv n0 r' m' ps) \<and> bytes_at m' = bytes_at m \<and> freed_blocks m' = freed_blocks m"
proof -
  define sz where "sz = ALIGN_SIZE n"
  have sz: "unat n \<le> unat sz" "8 dvd unat sz" "unat sz \<le> 2 ^ 63" using align_ge [OF n] by (simp_all add: sz_def)
  define r1 where "r1 = drop_first sz r"
  have I1: "root_inv n0 r1 m ps" unfolding r1_def by (rule root_inv_mset [OF drop_first_blocks I])
  show ?thesis
  proof (cases "first_fit sz (mr_free r1)")
    case (Some x)
    obtain us b vs where x: "x = (us, b, vs)" by (cases x)
    obtain a off r2 where t: "take_piece sz us b vs r1 = ((a, off), r2)" by (metis surj_pair)
    from first_fit_split [of sz "mr_free r1"] Some x have f: "mr_free r1 = us @ b # vs" "sz \<le> um_left b" by auto
    have "res = Some (a, off)" "r' = r2" "m' = m"
      using al Some x t by (auto simp: ma_alloc_root_def Let_def simp flip: sz_def r1_def)
    with take_piece_inv [OF I1 f sz(2,1) t] show ?thesis by simp
  next
    case None
    show ?thesis
    proof (cases ok)
      case False
      then have "res = None" "r' = r1" "m' = m"
        using al None by (auto simp: ma_alloc_root_def Let_def simp flip: sz_def r1_def)
      with I1 False show ?thesis by simp
    next
      case True
      define gs where "gs = max (sz + USED_MEM_SIZE) ((block_size r1 AND NOT 1) * ucast (drop_bit 2 (block_num r1)))"
      obtain b m1 where b: "new_block gs (gs - USED_MEM_SIZE) gs m = (b, m1)" by fastforce
      then have b': "b = \<lparr>um_addr = fresh m, um_left = gs - USED_MEM_SIZE, um_size = gs\<rparr>" "m1 = m\<lparr>fresh := fresh m + 1, object_size := (object_size m)(fresh m := unat gs)\<rparr>"
        by (auto simp: new_block_def malloc_object_def)
      define r2 where "r2 = r1\<lparr>block_num := block_num r1 + 1\<rparr>"
      obtain a off r3 where t: "take_piece sz (mr_free r1) b [] r2 = ((a, off), r3)" by (metis surj_pair)
      have res: "res = Some (a, off)" "r' = r3" "m' = m1"
        using al None True b t by (auto simp: ma_alloc_root_def Let_def r2_def gs_def simp flip: sz_def r1_def)
      have "unat (sz + USED_MEM_SIZE) = unat sz + 24" using sz(3) by (simp add: USED_MEM_SIZE_def unat_word_ariths)
      moreover have "sz + USED_MEM_SIZE \<le> gs" by (simp add: gs_def)
      ultimately have gs: "unat sz + 24 \<le> unat gs" by (simp add: word_le_nat_alt)
      then have "USED_MEM_SIZE \<le> gs" by (simp add: word_le_nat_alt USED_MEM_SIZE_def)
      from unat_sub [OF this] have left: "unat (gs - USED_MEM_SIZE) = unat gs - 24" by (simp add: USED_MEM_SIZE_def)
      have bo: "block_ok b" using gs left by (simp add: block_ok_def b')
      have fit: "sz \<le> um_left b" using gs left by (simp add: b' word_le_nat_alt)
      define r0 where "r0 = r2\<lparr>mr_free := mr_free r1 @ [b]\<rparr>"
      have "root_inv n0 r0 m1 ps"
      proof -
        have bl: "mset (blocks r0) = add_mset b (mset (blocks r1))" by (simp add: blocks_def r0_def r2_def)
        define r9 where "r9 = r1\<lparr>mr_free := b # mr_free r1\<rparr>"
        have bl9: "blocks r9 = b # blocks r1" by (simp add: blocks_def r9_def)
        have "um_addr c \<noteq> fresh m" if "c \<in> set (blocks r1)" for c
          using I1 imageI [OF that, of um_addr] by (auto simp: root_inv_def)
        then have "root_inv n0 r9 m1 ps"
          using I1 bo unfolding root_inv_def bl9 by (auto simp: b' piece_in_def)
        then show ?thesis by (rule root_inv_mset [rotated]) (simp add: bl bl9)
      qed
      moreover have "take_piece sz (mr_free r1) b [] r0 = ((a, off), r3)"
        using t by (auto simp: take_piece_def Let_def r0_def r2_def)
      ultimately have "root_inv n0 r3 m1 ((a, off, unat n) # ps)"
        using take_piece_inv [of n0 r0 m1 ps "mr_free r1" b "[]" sz "unat n" a off r3] fit sz(1,2) by (simp add: r0_def)
      with res b' show ?thesis by simp
    qed
  qed
qed

section \<open>Copies stay\<close>

lemma read_write_same: "read_bytes a off (length bs) (write_bytes a off bs m) = bs"
  by (rule nth_equalityI) (auto simp: read_bytes_def write_bytes_def)

lemma read_write_apart:
  "apart (a, off, length bs) (a', off', n) \<Longrightarrow> read_bytes a' off' n (write_bytes a off bs m) = read_bytes a' off' n m"
  by (auto simp: read_bytes_def write_bytes_def)

text \<open>The copies made so far: the piece and the bytes that were put there.\<close>

definition copies_kept :: "memory \<Rightarrow> ((nat \<times> nat) \<times> byte list) list \<Rightarrow> bool" where
  "copies_kept m cs \<longleftrightarrow> (\<forall>((a, off), s)\<in>set cs. read_bytes a off (length s) m = s)"

definition piece_of :: "(nat \<times> nat) \<times> byte list \<Rightarrow> piece" where
  "piece_of c = (case c of ((a, off), s) \<Rightarrow> (a, off, length s))"

definition copies_inv :: "nat \<Rightarrow> MEM_ROOT \<Rightarrow> memory \<Rightarrow> ((nat \<times> nat) \<times> byte list) list \<Rightarrow> bool" where
  "copies_inv n0 r m cs \<longleftrightarrow> root_inv n0 r m (map piece_of cs) \<and> copies_kept m cs"

lemma root_inv_write [simp]: "root_inv n0 r (write_bytes a off bs m) ps = root_inv n0 r m ps"
  by (simp add: root_inv_def write_bytes_def)

lemma copies_kept_cong: "bytes_at m' = bytes_at m \<Longrightarrow> copies_kept m' cs = copies_kept m cs"
  by (simp add: copies_kept_def read_bytes_def)

lemma memdup_inv:
  assumes I: "copies_inv n0 r m cs" and n: "length s < 2 ^ 63" and d: "ma_memdup_root ok s r m = (res, r', m')"
  shows "case res of None \<Rightarrow> \<not> ok \<and> copies_inv n0 r' m' cs | Some p \<Rightarrow> copies_inv n0 r' m' ((p, s) # cs)"
    and "freed_blocks m' = freed_blocks m"
proof -
  obtain q r1 m1 where al: "ma_alloc_root ok (of_nat (length s)) r m = (q, r1, m1)" by (metis prod_cases3)
  have l: "unat (of_nat (length s) :: u64) = length s" using n by (simp add: unat_of_nat)
  have R: "root_inv n0 r m (map piece_of cs)" "copies_kept m cs" using I by (simp_all add: copies_inv_def)
  note A = ma_alloc_root_inv [OF R(1) _ al, unfolded l, OF n]
  have kept: "copies_kept m1 cs" using copies_kept_cong A R(2) by blast
  show "case res of None \<Rightarrow> \<not> ok \<and> copies_inv n0 r' m' cs | Some p \<Rightarrow> copies_inv n0 r' m' ((p, s) # cs)"
  proof (cases q)
    case None
    with d al A kept show ?thesis by (auto simp: ma_memdup_root_def copies_inv_def)
  next
    case (Some p)
    obtain a off where p: "p = (a, off)" by fastforce
    have new: "root_inv n0 r1 m1 ((a, off, length s) # map piece_of cs)" using A Some p by simp
    then have "\<forall>c\<in>set cs. apart (a, off, length s) (piece_of c)" by (simp add: root_inv_def)
    then have "copies_kept (write_bytes a off s m1) ((p, s) # cs)"
      using kept p read_write_apart [of a off s] by (fastforce simp: copies_kept_def read_write_same piece_of_def)
    with new d al Some p show ?thesis by (auto simp: ma_memdup_root_def copies_inv_def piece_of_def)
  qed
  show "freed_blocks m' = freed_blocks m" using d al A by (auto simp: ma_memdup_root_def write_bytes_def split: option.splits)
qed

text \<open>A sequence of copies, as the library makes them while it reads a result.\<close>

fun dup_all :: "(bool \<times> byte list) list \<Rightarrow> MEM_ROOT \<Rightarrow> memory \<Rightarrow> (nat \<times> nat) option list \<times> MEM_ROOT \<times> memory" where
  "dup_all [] r m = ([], r, m)"
| "dup_all ((ok, s) # reqs) r m =
     (case ma_memdup_root ok s r m of (p, r, m) \<Rightarrow> (case dup_all reqs r m of (ps, r, m) \<Rightarrow> (p # ps, r, m)))"

definition copy_in_place :: "memory \<Rightarrow> nat \<times> nat \<Rightarrow> byte list \<Rightarrow> bool" where
  "copy_in_place m p s \<longleftrightarrow> (case p of (a, off) \<Rightarrow> read_bytes a off (length s) m = s \<and> 8 dvd off \<and>
     unat USED_MEM_SIZE \<le> off \<and> off + length s \<le> object_size m a)"

lemma copies_inv_piece: "copies_inv n0 r m cs \<Longrightarrow> (p, s) \<in> set cs \<Longrightarrow> copy_in_place m p s"
  by (cases p) (fastforce simp: copies_inv_def copies_kept_def root_inv_def piece_of_def piece_in_def
      copy_in_place_def USED_MEM_SIZE_def)

lemma dup_all_inv:
  "copies_inv n0 r m cs \<Longrightarrow> \<forall>x\<in>set reqs. length (snd x) < 2 ^ 63 \<Longrightarrow> dup_all reqs r m = (ps, r', m') \<Longrightarrow>
     length ps = length reqs \<and> freed_blocks m' = freed_blocks m \<and>
     (\<exists>cs'. copies_inv n0 r' m' cs' \<and> set cs \<subseteq> set cs' \<and>
        (\<forall>i<length reqs. case ps ! i of None \<Rightarrow> \<not> fst (reqs ! i) | Some p \<Rightarrow> (p, snd (reqs ! i)) \<in> set cs'))"
proof (induction reqs arbitrary: r m cs ps)
  case Nil
  then show ?case by auto
next
  case (Cons req reqs)
  obtain ok s where req: "req = (ok, s)" by fastforce
  obtain p r1 m1 where d: "ma_memdup_root ok s r m = (p, r1, m1)" by (metis prod_cases3)
  obtain ps1 where ps: "ps = p # ps1" "dup_all reqs r1 m1 = (ps1, r', m')"
    using Cons.prems(3) d by (auto simp: req split: prod.splits)
  have "length s < 2 ^ 63" using Cons.prems(2) by (simp add: req)
  note M = memdup_inv [OF Cons.prems(1) this d]
  define cs1 where "cs1 = (case p of None \<Rightarrow> cs | Some q \<Rightarrow> (q, s) # cs)"
  have c1: "copies_inv n0 r1 m1 cs1" using M(1) by (auto simp: cs1_def split: option.splits)
  have "length ps1 = length reqs \<and> freed_blocks m' = freed_blocks m1 \<and>
     (\<exists>cs'. copies_inv n0 r' m' cs' \<and> set cs1 \<subseteq> set cs' \<and>
        (\<forall>i<length reqs. case ps1 ! i of None \<Rightarrow> \<not> fst (reqs ! i) | Some p \<Rightarrow> (p, snd (reqs ! i)) \<in> set cs'))"
    by (rule Cons.IH [OF c1 _ ps(2)]) (use Cons.prems(2) in auto)
  then obtain cs' where cs': "copies_inv n0 r' m' cs'" "set cs1 \<subseteq> set cs'" "length ps1 = length reqs" "freed_blocks m' = freed_blocks m1"
    "\<And>i. i < length reqs \<Longrightarrow> case ps1 ! i of None \<Rightarrow> \<not> fst (reqs ! i) | Some p \<Rightarrow> (p, snd (reqs ! i)) \<in> set cs'" by auto
  have "case ps ! i of None \<Rightarrow> \<not> fst ((req # reqs) ! i) | Some p \<Rightarrow> (p, snd ((req # reqs) ! i)) \<in> set cs'"
    if "i < length (req # reqs)" for i
  proof (cases i)
    case 0
    then show ?thesis using M(1) cs'(2) by (auto simp: ps req cs1_def split: option.splits)
  next
    case (Suc j)
    then show ?thesis using cs'(5) [of j] that by (auto simp: ps split: option.splits)
  qed
  moreover have "set cs \<subseteq> set cs'" using cs'(2) by (auto simp: cs1_def split: option.splits)
  ultimately show ?case using cs' M(2) ps(1) by auto
qed

lemma init_root_inv:
  assumes "unat pre < 2 ^ 63" and "ma_init_alloc_root ok bsz pre m = (r, m')"
  shows "copies_inv (fresh m) r m' [] \<and> freed_blocks m' = freed_blocks m"
proof -
  have u: "unat (pre + USED_MEM_SIZE) = unat pre + 24" using assms(1) by (simp add: USED_MEM_SIZE_def unat_word_ariths)
  then show ?thesis
    using assms(2)
    by (auto simp: ma_init_alloc_root_def new_block_def malloc_object_def copies_inv_def copies_kept_def root_inv_def blocks_def block_ok_def
        Let_def split: if_splits)
qed

lemma free_root_all:
  assumes "root_inv n0 r m ps"
  shows "mset (freed_blocks (snd (ma_free_root 0 r m))) = mset (freed_blocks m) + mset [n0..<fresh m]"
proof -
  have "mset (map um_addr (mr_used r @ mr_free r)) = mset (map um_addr (blocks r))" by (simp add: blocks_def)
  moreover have "mset (map um_addr (blocks r)) = mset [n0..<fresh m]"
    using assms set_eq_iff_mset_eq_distinct [of "map um_addr (blocks r)" "[n0..<fresh m]"] by (simp add: root_inv_def)
  ultimately show ?thesis by (simp add: ma_free_root_def Let_def)
qed

text \<open>
  C35. What is copied into a memory root stays there. After any sequence of copies into a root with
  or without a first block (each copy with \<open>malloc\<close> succeeding or failing if it is asked), every copy
  that got a pointer still reads back at it, lies at an aligned place behind the 24 bytes of the
  block's own header and within the object \<open>malloc\<close> gave for the block; a null pointer is given only
  when \<open>malloc\<close> failed; and freeing the root then gives every object that was taken from \<open>malloc\<close> back
  exactly once. The first block and every copy are shorter than \<open>2^63\<close> bytes.
\<close>

theorem memory_root_keeps_copies:
  assumes "ma_init_alloc_root ok block_sz pre_alloc_size m0 = (r, m)" and "unat pre_alloc_size < 2 ^ 63"
    and "\<forall>x\<in>set reqs. length (snd x) < 2 ^ 63" and "dup_all reqs r m = (ps, r', m')"
  shows "length ps = length reqs \<and>
    (\<forall>i<length reqs. case ps ! i of
        None \<Rightarrow> \<not> fst (reqs ! i)
      | Some (a, off) \<Rightarrow> read_bytes a off (length (snd (reqs ! i))) m' = snd (reqs ! i) \<and> 8 dvd off \<and>
          24 \<le> off \<and> off + length (snd (reqs ! i)) \<le> object_size m' a) \<and>
    mset (freed_blocks (snd (ma_free_root 0 r' m'))) = mset (freed_blocks m0) + mset [fresh m0..<fresh m']"
proof -
  have i: "copies_inv (fresh m0) r m []" "freed_blocks m = freed_blocks m0"
    using init_root_inv [OF assms(2,1)] by simp_all
  from dup_all_inv [OF i(1) assms(3,4)] obtain cs where c: "length ps = length reqs" "freed_blocks m' = freed_blocks m"
    "copies_inv (fresh m0) r' m' cs"
    "\<forall>i<length reqs. case ps ! i of None \<Rightarrow> \<not> fst (reqs ! i) | Some p \<Rightarrow> (p, snd (reqs ! i)) \<in> set cs" by auto
  have "case ps ! i of None \<Rightarrow> \<not> fst (reqs ! i)
      | Some (a, off) \<Rightarrow> read_bytes a off (length (snd (reqs ! i))) m' = snd (reqs ! i) \<and> 8 dvd off \<and>
          24 \<le> off \<and> off + length (snd (reqs ! i)) \<le> object_size m' a" if "i < length reqs" for i
    using c(4) [rule_format, OF that] copies_inv_piece [OF c(3)]
    by (auto simp: copy_in_place_def USED_MEM_SIZE_def split: option.splits)
  moreover have "mset (freed_blocks (snd (ma_free_root 0 r' m'))) = mset (freed_blocks m0) + mset [fresh m0..<fresh m']"
  proof -
    have "root_inv (fresh m0) r' m' (map piece_of cs)" using c(3) by (simp add: copies_inv_def)
    from free_root_all [OF this] c(2) i(2) show ?thesis by simp
  qed
  ultimately show ?thesis using c(1) by blast
qed

definition m_empty :: memory where
  "m_empty = \<lparr>fresh = 1, object_size = \<lambda>_. 0, bytes_at = \<lambda>_ _. 0, freed_blocks = []\<rparr>"

definition three_copies :: "(nat \<times> nat) option list \<times> MEM_ROOT \<times> memory" where
  "three_copies = (case ma_init_alloc_root True 8192 64 m_empty of (r, m) \<Rightarrow>
     dup_all [(True, [1, 2, 3]), (True, []), (True, replicate 20 7), (True, replicate 40 9)] r m)"

lemma three_copies_pointers:
  "fst three_copies = [Some (1, 24), Some (1, 32), Some (1, 32), Some (2, 24)]" "fresh (snd (snd three_copies)) = 3"
  by code_simp+

lemma memory_root_keeps_copies_witness:
  "read_bytes 1 24 3 (snd (snd three_copies)) = [1, 2, 3] \<and> read_bytes 1 32 20 (snd (snd three_copies)) = replicate 20 7 \<and>
   read_bytes 2 24 40 (snd (snd three_copies)) = replicate 40 9 \<and> 52 \<le> object_size (snd (snd three_copies)) 1 \<and>
   mset (freed_blocks (snd (ma_free_root 0 (fst (snd three_copies)) (snd (snd three_copies))))) = {#1, 2#}"
proof -
  let ?reqs = "[(True, [1, 2, 3]), (True, []), (True, replicate 20 (7 :: byte)), (True, replicate 40 9)]"
  obtain r m where i: "ma_init_alloc_root True 8192 64 m_empty = (r, m)" by fastforce
  obtain ps r' m' where d: "dup_all ?reqs r m = (ps, r', m')" by (metis prod_cases3)
  then have t: "three_copies = (ps, r', m')" by (simp add: three_copies_def i)
  have small: "unat (64 :: u64) < 2 ^ 63" by simp
  have "\<forall>x\<in>set ?reqs. length (snd x) < 2 ^ 63" by simp
  note K = memory_root_keeps_copies [OF i small this d]
  have ps: "ps = [Some (1, 24), Some (1, 32), Some (1, 32), Some (2, 24)]" "fresh m' = 3"
    using three_copies_pointers by (simp_all add: t)
  note C = K [THEN conjunct2, THEN conjunct1, rule_format]
  have "read_bytes 1 24 3 m' = [1, 2, 3]" using C [of 0] by (simp add: ps numeral_3_eq_3)
  moreover have "read_bytes 1 32 20 m' = replicate 20 7 \<and> 52 \<le> object_size m' 1" using C [of 2] by (simp add: ps)
  moreover have "read_bytes 2 24 40 m' = replicate 40 9" using C [of 3] by (simp add: ps)
  moreover have "mset (freed_blocks (snd (ma_free_root 0 r' m'))) = mset [1..<3]"
    using K [THEN conjunct2, THEN conjunct2] ps(2) by (simp add: m_empty_def)
  then have "mset (freed_blocks (snd (ma_free_root 0 r' m'))) = {#1, 2#}"
    by (simp add: upt_rec del: mset_upt)
  ultimately show ?thesis by (simp add: t)
qed

end
