(* ===== verification/Ma_Dynamic.thy ===== *)
theory Ma_Dynamic
  imports Prelude
begin

text \<open>
  \<open>libmariadb/ma_array.c\<close> and \<open>ma_string.c\<close>: arrays and strings that grow. A buffer is its bytes, as many
  as were asked of \<open>malloc\<close>; what \<open>malloc\<close> and \<open>realloc\<close> leave in new bytes is a parameter (\<open>junk\<close>), and
  whether they succeed is an argument of the call. Writing or reading outside the buffer is the value
  \<open>None\<close>. Array sizes are \<open>unsigned int\<close> and may wrap, string sizes are \<open>size_t\<close>. As long as the sizes
  stay below 4 GB the array is a list of elements; the string is a list of bytes with a zero behind,
  except that \<open>ma_init_dynamic_string\<close> may copy its argument past the end of the buffer.
\<close>

section \<open>Memory\<close>

text \<open>\<open>malloc(n)\<close> and \<open>realloc(p, n)\<close>: \<open>n\<close> bytes, the first ones those of the old buffer.\<close>

definition resize :: "(nat \<Rightarrow> byte) \<Rightarrow> nat \<Rightarrow> byte list \<Rightarrow> byte list" where
  "resize junk n old = map (\<lambda>i. if i < length old then old ! i else junk i) [0..<n]"

definition poke :: "nat \<Rightarrow> byte list \<Rightarrow> byte list \<Rightarrow> byte list option" where
  "poke off bs buf =
     (if off + length bs \<le> length buf then Some (take off buf @ bs @ drop (off + length bs) buf) else None)"

definition peek :: "nat \<Rightarrow> nat \<Rightarrow> byte list \<Rightarrow> byte list option" where
  "peek off n buf = (if off + n \<le> length buf then Some (take n (drop off buf)) else None)"

section \<open>Arrays\<close>

record DYNAMIC_ARRAY =
  buffer :: "byte list option"
  elements :: u32
  max_element :: u32
  alloc_increment :: u32
  size_of_element :: u32

text \<open>The result of the operations is whether they failed, \<open>my_bool\<close>. Products of two \<open>uint\<close> wrap.\<close>

definition malloc_overhead :: u32 where "malloc_overhead = 8"

definition ma_init_dynamic_array ::
    "(nat \<Rightarrow> byte) \<Rightarrow> bool \<Rightarrow> u32 \<Rightarrow> u32 \<Rightarrow> u32 \<Rightarrow> (bool \<times> DYNAMIC_ARRAY) option" where
  "ma_init_dynamic_array junk ok element_size init_alloc alloc_inc =
     (if alloc_inc = 0 \<and> element_size = 0 then None
      else
        let inc = (if alloc_inc = 0
                   then let i = max ((8192 - malloc_overhead) div element_size) 16 in
                     if 8 < init_alloc \<and> init_alloc * 2 < i then init_alloc * 2 else i
                   else alloc_inc);
            init = (if init_alloc = 0 then inc else init_alloc);
            a = \<lparr>buffer = Some (resize junk (unat (element_size * init)) []), elements = 0, max_element = init,
              alloc_increment = inc, size_of_element = element_size\<rparr> in
        Some (if ok then (False, a) else (True, a\<lparr>buffer := None, max_element := 0\<rparr>)))"

text \<open>The offset of the new element, \<open>None\<close> (inside) the null pointer.\<close>

definition ma_alloc_dynamic :: "(nat \<Rightarrow> byte) \<Rightarrow> bool \<Rightarrow> DYNAMIC_ARRAY \<Rightarrow> nat option \<times> DYNAMIC_ARRAY" where
  "ma_alloc_dynamic junk ok a =
     (let off = unat (elements a * size_of_element a) in
      if elements a = max_element a then
        if ok then (Some off, a\<lparr>buffer := Some (resize junk
             (unat ((max_element a + alloc_increment a) * size_of_element a)) (case buffer a of None \<Rightarrow> [] | Some b \<Rightarrow> b)),
           max_element := max_element a + alloc_increment a, elements := elements a + 1\<rparr>)
        else (None, a)
      else (Some off, a\<lparr>elements := elements a + 1\<rparr>))"

definition put_bytes :: "nat \<Rightarrow> byte list \<Rightarrow> DYNAMIC_ARRAY \<Rightarrow> DYNAMIC_ARRAY option" where
  "put_bytes off bs a =
     (case buffer a of
        None \<Rightarrow> None
      | Some b \<Rightarrow> map_option (\<lambda>b. a\<lparr>buffer := Some b\<rparr>) (poke off bs b))"

text \<open>The element is the \<open>size_of_element\<close> bytes at the pointer; fewer are a read outside.\<close>

definition ma_insert_dynamic :: "(nat \<Rightarrow> byte) \<Rightarrow> bool \<Rightarrow> byte list \<Rightarrow> DYNAMIC_ARRAY \<Rightarrow> (bool \<times> DYNAMIC_ARRAY) option" where
  "ma_insert_dynamic junk ok e a =
     (if length e < unat (size_of_element a) then None
      else
        case ma_alloc_dynamic junk ok a of
          (None, a) \<Rightarrow> Some (True, a)
        | (Some off, a) \<Rightarrow> map_option (Pair False) (put_bytes off (take (unat (size_of_element a)) e) a))"

definition ma_pop_dynamic :: "DYNAMIC_ARRAY \<Rightarrow> nat option \<times> DYNAMIC_ARRAY" where
  "ma_pop_dynamic a =
     (if elements a \<noteq> 0
      then (Some (unat ((elements a - 1) * size_of_element a)), a\<lparr>elements := elements a - 1\<rparr>)
      else (None, a))"

definition ma_set_dynamic :: "(nat \<Rightarrow> byte) \<Rightarrow> bool \<Rightarrow> byte list \<Rightarrow> u32 \<Rightarrow> DYNAMIC_ARRAY \<Rightarrow> (bool \<times> DYNAMIC_ARRAY) option" where
  "ma_set_dynamic junk ok e idx a =
     (let sz = size_of_element a in
      if length e < unat sz then None
      else
        let store = (\<lambda>a. map_option (Pair False) (put_bytes (unat (idx * sz)) (take (unat sz) e) a)) in
        if idx < elements a then store a
        else
          let clear = (\<lambda>a. Option.bind
                (put_bytes (unat (elements a * sz)) (replicate (unat ((idx - elements a) * sz)) 0) a)
                (\<lambda>a. store (a\<lparr>elements := idx + 1\<rparr>))) in
          if idx < max_element a then clear a
          else if alloc_increment a = 0 then None
          else
            let size = (idx + alloc_increment a) div alloc_increment a * alloc_increment a in
            if \<not> ok then Some (True, a)
            else clear (a\<lparr>buffer := Some (resize junk (unat (size * sz)) (case buffer a of None \<Rightarrow> [] | Some b \<Rightarrow> b)),
                   max_element := size\<rparr>))"

definition ma_get_dynamic :: "u32 \<Rightarrow> DYNAMIC_ARRAY \<Rightarrow> byte list option" where
  "ma_get_dynamic idx a =
     (if elements a \<le> idx then Some (replicate (unat (size_of_element a)) 0)
      else case buffer a of
          None \<Rightarrow> None
        | Some b \<Rightarrow> peek (unat (idx * size_of_element a)) (unat (size_of_element a)) b)"

definition ma_delete_dynamic :: "DYNAMIC_ARRAY \<Rightarrow> DYNAMIC_ARRAY" where
  "ma_delete_dynamic a =
     (case buffer a of None \<Rightarrow> a | Some _ \<Rightarrow> a\<lparr>buffer := None, elements := 0, max_element := 0\<rparr>)"

definition ma_delete_dynamic_element :: "u32 \<Rightarrow> DYNAMIC_ARRAY \<Rightarrow> DYNAMIC_ARRAY option" where
  "ma_delete_dynamic_element idx a =
     (let sz = size_of_element a; ptr = unat (sz * idx); n = elements a - 1 in
      case buffer a of
        None \<Rightarrow> None
      | Some b \<Rightarrow>
          (case peek (ptr + unat sz) (unat ((n - idx) * sz)) b of
             None \<Rightarrow> None
           | Some bs \<Rightarrow> put_bytes ptr bs (a\<lparr>elements := n\<rparr>)))"

text \<open>The result of \<open>realloc\<close> is stored as it is: a null pointer when it fails.\<close>

definition ma_freeze_size :: "(nat \<Rightarrow> byte) \<Rightarrow> bool \<Rightarrow> DYNAMIC_ARRAY \<Rightarrow> DYNAMIC_ARRAY" where
  "ma_freeze_size junk ok a =
     (let els = max (elements a) 1 in
      case buffer a of
        None \<Rightarrow> a
      | Some b \<Rightarrow>
          if max_element a \<noteq> els
          then a\<lparr>buffer := (if ok then Some (resize junk (unat (els * size_of_element a)) b) else None), max_element := els\<rparr>
          else a)"

section \<open>Strings\<close>

record DYNAMIC_STRING =
  str_buf :: "byte list option"
  str_length :: u64
  max_length :: u64
  str_increment :: u64

text \<open>A C string is its bytes up to the zero byte, which is copied with it. \<open>length\<close> is an \<open>uint\<close>.\<close>

definition ma_init_dynamic_string ::
    "(nat \<Rightarrow> byte) \<Rightarrow> bool \<Rightarrow> byte list option \<Rightarrow> u64 \<Rightarrow> u64 \<Rightarrow> (bool \<times> DYNAMIC_STRING option) option" where
  "ma_init_dynamic_string junk ok init_str init_alloc alloc_inc =
     (let inc = (if alloc_inc = 0 then 128 else alloc_inc);
          len32 = (case init_str of None \<Rightarrow> 1 | Some s \<Rightarrow> word_of_nat (length s + 1)) :: u32; len = ucast len32 :: u64;
          init = (if init_str \<noteq> None \<and> len < init_alloc then (len + inc - 1) div inc * inc else init_alloc);
          init = (if init = 0 then inc else init) in
      if \<not> ok then Some (True, None)
      else
        let buf = resize junk (unat init) [] in
        map_option (\<lambda>b. (False, Some \<lparr>str_buf = Some b, str_length = ucast (len32 - 1), max_length = init, str_increment = inc\<rparr>))
          (case init_str of None \<Rightarrow> Some buf | Some s \<Rightarrow> poke 0 (take (unat len) (s @ [0])) buf))"

definition put_str :: "nat \<Rightarrow> byte list \<Rightarrow> DYNAMIC_STRING \<Rightarrow> DYNAMIC_STRING option" where
  "put_str off bs d =
     (case str_buf d of
        None \<Rightarrow> None
      | Some b \<Rightarrow> map_option (\<lambda>b. d\<lparr>str_buf := Some b\<rparr>) (poke off bs b))"

definition grow_str :: "(nat \<Rightarrow> byte) \<Rightarrow> u64 \<Rightarrow> DYNAMIC_STRING \<Rightarrow> DYNAMIC_STRING" where
  "grow_str junk n d =
     d\<lparr>str_buf := Some (resize junk (unat n) (case str_buf d of None \<Rightarrow> [] | Some b \<Rightarrow> b)), max_length := n\<rparr>"

text \<open>Here and in \<open>ma_dynstr_realloc\<close> the null pointer of a failed \<open>realloc\<close> replaces the buffer.\<close>

definition ma_dynstr_set :: "(nat \<Rightarrow> byte) \<Rightarrow> bool \<Rightarrow> byte list option \<Rightarrow> DYNAMIC_STRING \<Rightarrow> (bool \<times> DYNAMIC_STRING) option" where
  "ma_dynstr_set junk ok init_str d =
     (case init_str of
        None \<Rightarrow> Some (False, d\<lparr>str_length := 0\<rparr>)
      | Some s \<Rightarrow>
          let len32 = word_of_nat (length s + 1) :: u32; len = ucast len32 :: u64;
              write = (\<lambda>d. map_option (Pair False) (put_str 0 (take (unat len) (s @ [0])) (d\<lparr>str_length := ucast (len32 - 1)\<rparr>))) in
          if max_length d < len then
            let n = (len + str_increment d - 1) div str_increment d * str_increment d;
                n = (if n = 0 then str_increment d else n) in
            if ok then write (grow_str junk n d) else Some (True, d\<lparr>str_buf := None, max_length := n\<rparr>)
          else write d)"

definition ma_dynstr_realloc :: "(nat \<Rightarrow> byte) \<Rightarrow> bool \<Rightarrow> u64 \<Rightarrow> DYNAMIC_STRING \<Rightarrow> bool \<times> DYNAMIC_STRING" where
  "ma_dynstr_realloc junk ok additional d =
     (if additional = 0 then (False, d)
      else if max_length d < str_length d + additional then
        let n = (str_length d + additional + str_increment d - 1) div str_increment d * str_increment d in
        if ok then (False, grow_str junk n d) else (True, d\<lparr>str_buf := None, max_length := n\<rparr>)
      else (False, d))"

definition ma_dynstr_append_mem :: "(nat \<Rightarrow> byte) \<Rightarrow> bool \<Rightarrow> byte list \<Rightarrow> DYNAMIC_STRING \<Rightarrow> (bool \<times> DYNAMIC_STRING) option" where
  "ma_dynstr_append_mem junk ok app d =
     (let len = of_nat (length app) :: u64;
          write = (\<lambda>d. Option.bind (put_str (unat (str_length d)) app d) (\<lambda>d.
            let d = d\<lparr>str_length := str_length d + len\<rparr> in
            map_option (Pair False) (put_str (unat (str_length d)) [0] d))) in
      if max_length d \<le> str_length d + len then
        let n = (str_length d + len + str_increment d) div str_increment d * str_increment d in
        if ok then write (grow_str junk n d) else Some (True, d)
      else write d)"

text \<open>\<open>ma_dynstr_append\<close> stops at the zero byte.\<close>

definition ma_dynstr_append :: "(nat \<Rightarrow> byte) \<Rightarrow> bool \<Rightarrow> byte list \<Rightarrow> DYNAMIC_STRING \<Rightarrow> (bool \<times> DYNAMIC_STRING) option" where
  "ma_dynstr_append junk ok app d = ma_dynstr_append_mem junk ok (takeWhile (\<lambda>b. b \<noteq> 0) app) d"

definition ma_dynstr_free :: "DYNAMIC_STRING \<Rightarrow> DYNAMIC_STRING" where
  "ma_dynstr_free d = d\<lparr>str_buf := None\<rparr>"

section \<open>Buffers\<close>

lemma length_resize [simp]: "length (resize junk n b) = n"
  by (simp add: resize_def)

lemma take_resize: "k \<le> n \<Longrightarrow> k \<le> length b \<Longrightarrow> take k (resize junk n b) = take k b"
  by (rule nth_equalityI) (auto simp: resize_def)

lemma poke_in: "off + length bs \<le> length b \<Longrightarrow> poke off bs b = Some (take off b @ bs @ drop (off + length bs) b)"
  by (simp add: poke_def)

lemma length_poke: "poke off bs b = Some b' \<Longrightarrow> length b' = length b"
  by (auto simp: poke_def split: if_splits)

section \<open>The array as a list of elements\<close>

text \<open>The elements of size \<open>sz\<close> in the first \<open>n * sz\<close> bytes.\<close>

definition items_in :: "nat \<Rightarrow> nat \<Rightarrow> byte list \<Rightarrow> byte list list" where
  "items_in sz n b = map (\<lambda>i. take sz (drop (i * sz) b)) [0..<n]"

definition array_wf :: "DYNAMIC_ARRAY \<Rightarrow> bool" where
  "array_wf a \<longleftrightarrow> size_of_element a \<noteq> 0 \<and> alloc_increment a \<noteq> 0 \<and> elements a \<le> max_element a \<and>
     unat (max_element a) * unat (size_of_element a) < 2 ^ 32 \<and>
     (\<exists>b. buffer a = Some b \<and> length b = unat (max_element a) * unat (size_of_element a))"

definition items :: "DYNAMIC_ARRAY \<Rightarrow> byte list list" where
  "items a = items_in (unat (size_of_element a)) (unat (elements a)) (the (buffer a))"

lemma length_items_in [simp]: "length (items_in sz n b) = n"
  by (simp add: items_in_def)

lemma items_in_cong: "take (n * sz) b = take (n * sz) b' \<Longrightarrow> items_in sz n b = items_in sz n b'"
proof -
  assume *: "take (n * sz) b = take (n * sz) b'"
  have cut: "take sz (drop (i * sz) c) = take sz (drop (i * sz) (take (n * sz) c))" if "i < n" for i and c :: "byte list"
  proof -
    have "i * sz + sz \<le> n * sz" using that by (metis Suc_leI add.commute mult_Suc mult_le_mono1)
    then show ?thesis by (simp add: take_drop min_def)
  qed
  show ?thesis unfolding items_in_def
    by (rule map_cong) (use cut [of _ b] cut [of _ b'] * in auto)
qed

lemma items_in_snoc: "length b = n * sz \<Longrightarrow> length e = sz \<Longrightarrow> items_in sz (Suc n) (b @ e @ c) = items_in sz n b @ [e]"
proof -
  assume l: "length b = n * sz" "length e = sz"
  have "items_in sz n (b @ e @ c) = items_in sz n b" by (rule items_in_cong) (simp add: l)
  then show ?thesis by (simp add: items_in_def l)
qed

lemma items_in_append: "length b = n * sz \<Longrightarrow> items_in sz (n + k) (b @ c) = items_in sz n b @ items_in sz k c"
proof -
  assume l: "length b = n * sz"
  have "items_in sz n (b @ c) = items_in sz n b" by (rule items_in_cong) (simp add: l)
  moreover have d: "drop ((n + i) * sz) (b @ c) = drop (i * sz) c" for i by (simp add: l add_mult_distrib)
  have "[n..<n + k] = map (\<lambda>i. n + i) [0..<k]" by (simp add: map_add_upt add.commute)
  then have "map (\<lambda>i. take sz (drop (i * sz) (b @ c))) [n..<n + k] = items_in sz k c"
    by (simp only: map_map comp_def d items_in_def)
  ultimately show ?thesis
    unfolding items_in_def upt_add_eq_append [of 0 n k, simplified] by simp
qed

lemma items_in_full: "items_in sz n (take (n * sz) b @ c) = items_in sz n b" if "n * sz \<le> length b"
  by (rule items_in_cong) (use that in simp)

lemma u32_mult: "unat x * unat y < 2 ^ 32 \<Longrightarrow> unat (x * y) = unat x * unat (y :: u32)"
  by (simp add: unat_word_ariths)

lemma u32_add: "unat x + unat y < 2 ^ 32 \<Longrightarrow> unat (x + y) = unat x + unat (y :: u32)"
  by (simp add: unat_word_ariths)

text \<open>The place of the next element, after the buffer has grown if it was full.\<close>

lemma alloc_dynamic_place:
  assumes wf: "array_wf a" and small: "(unat (max_element a) + unat (alloc_increment a)) * unat (size_of_element a) < 2 ^ 32"
    and al: "ma_alloc_dynamic junk ok a = (res, a')"
  shows "if res = None then a' = a \<and> \<not> ok
    else res = Some (unat (elements a) * unat (size_of_element a)) \<and> array_wf a' \<and> size_of_element a' = size_of_element a \<and>
      unat (elements a') = Suc (unat (elements a)) \<and> alloc_increment a' = alloc_increment a \<and>
      take (unat (elements a) * unat (size_of_element a)) (the (buffer a')) =
        take (unat (elements a) * unat (size_of_element a)) (the (buffer a))"
proof -
  define N M I Z where "N = unat (elements a)" and "M = unat (max_element a)" and "I = unat (alloc_increment a)"
    and "Z = unat (size_of_element a)"
  obtain b where b: "buffer a = Some b" "length b = M * Z" and nm: "N \<le> M" and z: "0 < Z" and i: "0 < I" and mz: "M * Z < 2 ^ 32"
    using wf by (auto simp: array_wf_def N_def M_def Z_def I_def word_le_nat_alt unat_gt_0)
  have small': "(M + I) * Z < 2 ^ 32" using small by (simp add: M_def I_def Z_def)
  have "M + I \<le> (M + I) * Z" using z by simp
  then have mi: "M + I < 2 ^ 32" using small' by linarith
  have nz: "N * Z \<le> M * Z" using nm by simp
  have off: "unat (elements a * size_of_element a) = N * Z"
    using le_less_trans [OF nz mz] unfolding N_def Z_def by (rule u32_mult)
  have max': "unat (max_element a + alloc_increment a) = M + I" using mi by (simp add: u32_add M_def I_def)
  have cap: "unat ((max_element a + alloc_increment a) * size_of_element a) = (M + I) * Z"
    using small' max' by (subst u32_mult) (simp_all add: Z_def)
  have n1: "unat (elements a + 1) = Suc N" using nm mi i by (subst u32_add) (simp_all add: N_def)
  show ?thesis
  proof (cases "elements a = max_element a")
    case False
    then have "N < M" using nm unfolding N_def M_def by (metis le_neq_implies_less unsigned_word_eqI)
    then have "elements a + 1 \<le> max_element a" using n1 by (simp add: word_le_nat_alt M_def)
    then show ?thesis using al False off n1 wf
      by (auto simp: ma_alloc_dynamic_def Let_def array_wf_def N_def Z_def)
  next
    case True
    show ?thesis
    proof (cases ok)
      case False
      then show ?thesis using al True by (auto simp: ma_alloc_dynamic_def)
    next
      case ok: True
      have "N = M" using True by (simp add: N_def M_def)
      then have le: "elements a + 1 \<le> max_element a + alloc_increment a" using n1 max' i by (simp add: word_le_nat_alt)
      define a1 where "a1 = a\<lparr>buffer := Some (resize junk ((M + I) * Z) b), max_element := max_element a + alloc_increment a,
        elements := elements a + 1\<rparr>"
      have "res = Some (N * Z)" "a' = a1" using al True ok off cap b by (auto simp: ma_alloc_dynamic_def Let_def a1_def)
      moreover have "array_wf a1" using wf le max' small' by (simp add: array_wf_def a1_def Z_def)
      moreover have "take (N * Z) (resize junk ((M + I) * Z) b) = take (N * Z) b"
        using nz by (intro take_resize) (simp_all only: b(2) add_mult_distrib trans_le_add1)
      ultimately show ?thesis using n1 b by (simp add: a1_def N_def Z_def)
    qed
  qed
qed

lemma put_bytes_wf:
  assumes "put_bytes off bs a = Some a'"
  shows "size_of_element a' = size_of_element a" and "elements a' = elements a" and "max_element a' = max_element a"
    and "alloc_increment a' = alloc_increment a" and "array_wf a \<Longrightarrow> array_wf a'"
    and "the (buffer a') = take off (the (buffer a)) @ bs @ drop (off + length bs) (the (buffer a))"
  using assms by (auto simp: put_bytes_def array_wf_def poke_def split: option.splits if_splits)

text \<open>The elements before place \<open>n\<close>, one that is put there, and none behind.\<close>

lemma items_put_last:
  assumes "n * sz + sz \<le> length b" and "length e = sz"
  shows "items_in sz (Suc n) (take (n * sz) b @ e @ c) = items_in sz n b @ [e]"
  using items_in_snoc [of "take (n * sz) b" n sz e c] items_in_full [of n sz b "[]"] assms
    items_in_cong [of n sz "take (n * sz) b" b] by simp

lemma ma_insert_dynamic_appends:
  assumes wf: "array_wf a" and small: "(unat (max_element a) + unat (alloc_increment a)) * unat (size_of_element a) < 2 ^ 32"
    and e: "length e = unat (size_of_element a)"
  shows "\<exists>failed a'. ma_insert_dynamic junk ok e a = Some (failed, a') \<and> array_wf a' \<and>
    (if failed then a' = a \<and> \<not> ok else items a' = items a @ [e]) \<and> (ok \<longrightarrow> \<not> failed)"
proof -
  define N Z where "N = unat (elements a)" and "Z = unat (size_of_element a)"
  obtain res a1 where al: "ma_alloc_dynamic junk ok a = (res, a1)" by fastforce
  note A = alloc_dynamic_place [OF wf small al, folded N_def Z_def]
  show ?thesis
  proof (cases res)
    case None
    with A al wf e show ?thesis by (intro exI [of _ True]) (auto simp: ma_insert_dynamic_def)
  next
    case (Some off)
    with A have off: "off = N * Z" and w1: "array_wf a1" "size_of_element a1 = size_of_element a" "unat (elements a1) = Suc N"
      and t: "take (N * Z) (the (buffer a1)) = take (N * Z) (the (buffer a))" by auto
    obtain b1 where b1: "buffer a1 = Some b1" "length b1 = unat (max_element a1) * Z"
      using w1(1,2) by (auto simp: array_wf_def Z_def)
    have "Suc N \<le> unat (max_element a1)" using w1(1,3) by (auto simp: array_wf_def word_le_nat_alt)
    then have "Suc N * Z \<le> length b1" unfolding b1(2) by (rule mult_le_mono1)
    then have room: "N * Z + Z \<le> length b1" by simp
    define a2 where "a2 = a1\<lparr>buffer := Some (take (N * Z) b1 @ e @ drop (N * Z + Z) b1)\<rparr>"
    have p: "put_bytes off e a1 = Some a2" using room e by (simp add: put_bytes_def b1(1) off poke_in Z_def a2_def)
    have "items a2 = items_in Z (Suc N) (take (N * Z) b1 @ e @ drop (N * Z + Z) b1)"
      by (simp add: items_def a2_def w1 Z_def)
    also have "\<dots> = items_in Z N b1 @ [e]" by (rule items_put_last [OF room]) (simp add: e Z_def)
    also have "items_in Z N b1 = items_in Z N (the (buffer a))" by (rule items_in_cong) (use t b1(1) in simp)
    also have "\<dots> = items a" by (simp add: items_def N_def Z_def)
    finally have "items a2 = items a @ [e]" .
    moreover have "array_wf a2" by (rule put_bytes_wf(5) [OF p w1(1)])
    ultimately show ?thesis using al Some p e w1(2)
      by (intro exI [of _ False] exI [of _ a2]) (simp add: ma_insert_dynamic_def)
  qed
qed

lemma ma_get_dynamic_item:
  assumes wf: "array_wf a"
  shows "ma_get_dynamic idx a = Some (if unat idx < unat (elements a) then items a ! unat idx
    else replicate (unat (size_of_element a)) 0)"
proof (cases "elements a \<le> idx")
  case False
  then have i: "unat idx < unat (elements a)" by (simp add: word_le_nat_alt)
  define Z where "Z = unat (size_of_element a)"
  obtain b where b: "buffer a = Some b" "length b = unat (max_element a) * Z" "length b < 2 ^ 32"
    and nm: "unat (elements a) \<le> unat (max_element a)" using wf by (auto simp: array_wf_def Z_def word_le_nat_alt)
  have "Suc (unat idx) * Z \<le> length b" unfolding b(2) using i nm by (intro mult_le_mono1) simp
  then have room: "unat idx * Z + Z \<le> length b" by simp
  then have "unat (idx * size_of_element a) = unat idx * Z" using b(3) unfolding Z_def by (intro u32_mult) simp
  with False i b(1) room show ?thesis
    by (simp add: ma_get_dynamic_def peek_def items_def items_in_def flip: Z_def)
qed (simp add: ma_get_dynamic_def word_le_nat_alt)

lemma ma_pop_dynamic_butlast:
  assumes wf: "array_wf a"
  shows "case ma_pop_dynamic a of
      (None, a') \<Rightarrow> a' = a \<and> items a = []
    | (Some off, a') \<Rightarrow> array_wf a' \<and> items a \<noteq> [] \<and> items a' = butlast (items a) \<and>
        off = unat (elements a') * unat (size_of_element a)"
proof (cases "elements a = 0")
  case True
  then show ?thesis by (simp add: ma_pop_dynamic_def items_def items_in_def)
next
  case False
  then have n: "unat (elements a) = Suc (unat (elements a - 1))" by (metis Suc_pred' unat_gt_0 unat_minus_one)
  obtain b where b: "buffer a = Some b" "length b = unat (max_element a) * unat (size_of_element a)" "length b < 2 ^ 32"
    and nm: "unat (elements a) \<le> unat (max_element a)" using wf by (auto simp: array_wf_def word_le_nat_alt)
  have "unat (elements a - 1) * unat (size_of_element a) \<le> length b" unfolding b(2) using n nm by (intro mult_le_mono1) simp
  then have "unat ((elements a - 1) * size_of_element a) = unat (elements a - 1) * unat (size_of_element a)"
    using b(3) by (intro u32_mult) simp
  moreover have "elements a - 1 \<le> max_element a" using n nm by (simp add: word_le_nat_alt)
  moreover have "items (a\<lparr>elements := elements a - 1\<rparr>) = butlast (items a)"
    by (simp add: items_def items_in_def n)
  ultimately show ?thesis using False wf n by (simp add: ma_pop_dynamic_def array_wf_def items_def items_in_def)
qed

lemma items_in_split: "items_in sz (n + k) b = items_in sz n b @ items_in sz k (drop (n * sz) b)"
proof -
  have "[n..<n + k] = map (\<lambda>i. n + i) [0..<k]" by (simp add: map_add_upt add.commute)
  then have "map (\<lambda>i. take sz (drop (i * sz) b)) [n..<n + k] = items_in sz k (drop (n * sz) b)"
    by (simp add: items_in_def comp_def add_mult_distrib add.commute)
  then show ?thesis unfolding items_in_def upt_add_eq_append [of 0 n k, simplified] by simp
qed

text \<open>The bytes of \<open>k\<close> elements are replaced by those of \<open>j\<close> others.\<close>

lemma items_replace:
  assumes "n * sz \<le> length b" and "length bs = j * sz"
  shows "items_in sz (n + j + k) (take (n * sz) b @ bs @ c) = items_in sz n b @ items_in sz j bs @ items_in sz k c"
proof -
  let ?x = "take (n * sz) b @ bs @ c"
  have "items_in sz (n + j + k) ?x = items_in sz (n + (j + k)) ?x" by (simp add: add.assoc)
  also have "\<dots> = items_in sz n ?x @ items_in sz j (bs @ c) @ items_in sz k c"
    unfolding items_in_split [of sz n] items_in_split [of sz j] using assms by simp
  also have "items_in sz n ?x = items_in sz n b" by (rule items_in_full [OF assms(1)])
  also have "items_in sz j (bs @ c) = items_in sz j bs" by (rule items_in_cong) (simp add: assms)
  finally show ?thesis .
qed

lemma items_one: "length e = sz \<Longrightarrow> items_in sz (Suc 0) e = [e]"
  by (simp add: items_in_def)

lemma items_zero: "items_in sz k (replicate (k * sz) x) = replicate k (replicate sz x)"
proof (rule nth_equalityI)
  fix i assume "i < length (items_in sz k (replicate (k * sz) x))"
  then have "i + 1 \<le> k" by simp
  then have "i * sz + sz \<le> k * sz" using mult_le_mono1 [of "i + 1" k sz] by simp
  with \<open>i + 1 \<le> k\<close> show "items_in sz k (replicate (k * sz) x) ! i = replicate k (replicate sz x) ! i"
    by (simp add: items_in_def min_def)
qed simp

lemma ma_delete_dynamic_element_removes:
  assumes wf: "array_wf a" and idx: "idx < elements a"
  shows "\<exists>a'. ma_delete_dynamic_element idx a = Some a' \<and> array_wf a' \<and>
    items a' = take (unat idx) (items a) @ drop (Suc (unat idx)) (items a)"
proof -
  define N M Z I where "N = unat (elements a)" and "M = unat (max_element a)" and "Z = unat (size_of_element a)" and "I = unat idx"
  obtain b where b: "buffer a = Some b" "length b = M * Z" "M * Z < 2 ^ 32" and nm: "N \<le> M"
    using wf by (auto simp: array_wf_def Z_def M_def N_def word_le_nat_alt)
  have i: "I < N" using idx by (simp add: I_def N_def word_less_nat_alt)
  then obtain k where k: "N = I + 1 + k" by (metis Suc_eq_plus1 add.commute add.left_commute less_iff_Suc_add)
  have "(I + 1 + k) * Z \<le> M * Z" using nm k by (intro mult_le_mono1) simp
  then have le: "I * Z + Z + k * Z \<le> M * Z" by (simp add: add_mult_distrib)
  then have lt: "I * Z < 2 ^ 32" "k * Z < 2 ^ 32" using b(3) by linarith+
  have n1: "unat (elements a - 1) = I + k" using k unat_minus_one [of "elements a"] by (cases "elements a = 0") (auto simp: N_def)
  have "idx \<le> elements a - 1" using n1 by (simp add: word_le_nat_alt I_def)
  from unat_sub [OF this] n1 have ki: "unat (elements a - 1 - idx) = k" by (simp add: I_def)
  have o1: "unat (size_of_element a * idx) = I * Z"
    using u32_mult [of idx "size_of_element a"] lt(1) by (simp add: I_def Z_def mult.commute)
  have o2: "unat ((elements a - 1 - idx) * size_of_element a) = k * Z"
    using u32_mult [of "elements a - 1 - idx" "size_of_element a"] lt(2) by (simp add: ki Z_def)
  define bs where "bs = take (k * Z) (drop (I * Z + Z) b)"
  have bs: "length bs = k * Z" "I * Z + k * Z \<le> length b" "I * Z \<le> length b"
    using le unfolding bs_def b(2) [symmetric] by simp_all
  define a' where "a' = a\<lparr>elements := elements a - 1, buffer := Some (take (I * Z) b @ bs @ drop (I * Z + k * Z) b)\<rparr>"
  have "ma_delete_dynamic_element idx a = Some a'"
    using le b bs by (simp add: ma_delete_dynamic_element_def Let_def peek_def put_bytes_def poke_def a'_def o1 o2 bs_def flip: Z_def)
  moreover have "elements a - 1 \<le> max_element a" using n1 nm k by (simp add: word_le_nat_alt M_def)
  then have "array_wf a'" using wf bs b by (simp add: array_wf_def a'_def M_def Z_def)
  moreover have "items a' = items_in Z (I + k + 0) (take (I * Z) b @ bs @ drop (I * Z + k * Z) b)"
    by (simp add: items_def a'_def n1 Z_def)
  then have "items a' = items_in Z I b @ items_in Z k bs"
    unfolding items_replace [OF bs(3,1)] by (simp add: items_in_def [of Z 0])
  moreover have "items a = items_in Z (I + (1 + k)) b" by (simp add: items_def b(1) k flip: N_def Z_def)
  then have "items a = items_in Z I b @ items_in Z 1 (drop (I * Z) b) @ items_in Z k (drop (I * Z + Z) b)"
    unfolding items_in_split by (simp add: add.commute)
  moreover have "items_in Z k bs = items_in Z k (drop (I * Z + Z) b)" by (rule items_in_cong) (simp add: bs_def)
  ultimately show ?thesis by (simp flip: I_def)
qed

lemma ma_set_dynamic_sets:
  assumes wf: "array_wf a" and small: "(unat idx + unat (alloc_increment a)) * unat (size_of_element a) < 2 ^ 32"
    and e: "length e = unat (size_of_element a)"
  shows "\<exists>failed a'. ma_set_dynamic junk ok e idx a = Some (failed, a') \<and> array_wf a' \<and> (ok \<longrightarrow> \<not> failed) \<and>
    (if failed then a' = a
     else items a' = (if unat idx < length (items a) then (items a)[unat idx := e]
       else items a @ replicate (unat idx - length (items a)) (replicate (unat (size_of_element a)) 0) @ [e]))"
proof -
  define N M Z I J where "N = unat (elements a)" and "M = unat (max_element a)" and "Z = unat (size_of_element a)"
    and "I = unat idx" and "J = unat (alloc_increment a)"
  obtain b where b: "buffer a = Some b" "length b = M * Z" "M * Z < 2 ^ 32" and nm: "N \<le> M" and j: "0 < J" and z: "0 < Z"
    using wf by (auto simp: array_wf_def Z_def M_def N_def J_def word_le_nat_alt unat_gt_0)
  have ij: "(I + J) * Z < 2 ^ 32" using small by (simp add: I_def J_def Z_def)
  have iz: "I * Z + Z \<le> (I + J) * Z" using j by (cases J) (simp_all add: add_mult_distrib)
  have oi: "unat (idx * size_of_element a) = I * Z"
    using u32_mult [of idx "size_of_element a"] iz ij by (simp add: I_def Z_def)
  have eZ: "length e = Z" using e by (simp add: Z_def)
  have len: "length (items a) = N" by (simp add: items_def N_def)
  show ?thesis
  proof (cases "idx < elements a")
    case True
    then have i: "I < N" by (simp add: I_def N_def word_less_nat_alt)
    then obtain k where k: "N = I + 1 + k" by (metis Suc_eq_plus1 add.commute add.left_commute less_iff_Suc_add)
    have "(I + 1 + k) * Z \<le> M * Z" using nm k by (intro mult_le_mono1) simp
    then have "I * Z + Z + k * Z \<le> M * Z" by (simp add: add_mult_distrib)
    then have le: "I * Z + Z \<le> M * Z" by linarith
    define a' where "a' = a\<lparr>buffer := Some (take (I * Z) b @ e @ drop (I * Z + Z) b)\<rparr>"
    have "ma_set_dynamic junk ok e idx a = Some (False, a')"
      using True le b eZ by (simp add: ma_set_dynamic_def Let_def put_bytes_def poke_def a'_def oi flip: Z_def)
    moreover have "array_wf a'" using wf le b eZ by (simp add: array_wf_def a'_def M_def Z_def)
    moreover have "items a' = (items a)[I := e]"
    proof -
      have bl: "I * Z \<le> length b" using le unfolding b(2) [symmetric] by linarith
      have "items a' = items_in Z I b @ [e] @ items_in Z k (drop (I * Z + Z) b)"
        using items_replace [OF bl, of e 1 k] eZ k by (simp add: items_def a'_def items_one flip: Z_def N_def)
      moreover have "items a = items_in Z I b @ items_in Z 1 (drop (I * Z) b) @ items_in Z k (drop (I * Z + Z) b)"
        using items_in_split [of Z I "1 + k" b] items_in_split [of Z 1 k "drop (I * Z) b"] k
        by (simp add: items_def b(1) add.commute flip: Z_def N_def)
      moreover obtain x where "items_in Z 1 (drop (I * Z) b) = [x]" by (simp add: items_in_def)
      ultimately show ?thesis by (simp add: list_update_append)
    qed
    ultimately show ?thesis using i len by (intro exI [of _ False] exI [of _ a']) (simp flip: I_def)
  next
    case False
    then have i: "N \<le> I" by (simp add: I_def N_def word_less_nat_alt)
    define clear where "clear = (\<lambda>x. Option.bind
        (put_bytes (unat (elements x * size_of_element a)) (replicate (unat ((idx - elements x) * size_of_element a)) 0) x)
        (\<lambda>y. map_option (Pair False) (put_bytes (unat (idx * size_of_element a)) (take (unat (size_of_element a)) e)
          (y\<lparr>elements := idx + 1\<rparr>))))"
    have clear: "\<exists>a'. clear c = Some (False, a') \<and> array_wf a' \<and>
        items a' = items a @ replicate (I - N) (replicate Z 0) @ [e]"
      if c: "elements c = elements a" "size_of_element c = size_of_element a" "alloc_increment c = alloc_increment a"
        "buffer c = Some bc" "length bc = unat (max_element c) * Z" "length bc < 2 ^ 32" "I < unat (max_element c)"
        "take (N * Z) bc = take (N * Z) b" for c bc
    proof -
      have "N * Z \<le> I * Z" "(I - N) * Z \<le> I * Z" using i by (intro mult_le_mono1; simp)+
      then have lt: "N * Z < 2 ^ 32" "(I - N) * Z < 2 ^ 32" using iz ij by linarith+
      then have nz: "unat (elements a * size_of_element a) = N * Z"
        using u32_mult [of "elements a" "size_of_element a"] by (simp add: N_def Z_def)
      have "elements a \<le> idx" using i by (simp add: word_le_nat_alt I_def N_def)
      from unat_sub [OF this] have sub: "unat (idx - elements a) = I - N" by (simp add: I_def N_def)
      then have gz: "unat ((idx - elements a) * size_of_element a) = (I - N) * Z"
        using u32_mult [of "idx - elements a" "size_of_element a"] lt(2) by (simp add: sub Z_def)
      have "Suc I * Z \<le> length bc" unfolding c(5) using c(7) by (intro mult_le_mono1) simp
      then have room: "I * Z + Z \<le> length bc" by simp
      have nI: "N * Z + (I - N) * Z = I * Z" using i by (simp flip: add_mult_distrib)
      define z where "z = replicate ((I - N) * Z) (0 :: byte)"
      define b1 where "b1 = take (N * Z) bc @ z @ drop (I * Z) bc"
      have "N * Z \<le> length bc" using room \<open>N * Z \<le> I * Z\<close> by linarith
      then have pre: "length (take (N * Z) bc @ z) = I * Z" using nI by (simp add: z_def)
      have b1: "b1 = (take (N * Z) bc @ z) @ drop (I * Z) bc" by (simp add: b1_def)
      have "length b1 = length (take (N * Z) bc @ z) + length (drop (I * Z) bc)" unfolding b1 by (rule length_append)
      then have lb1: "length b1 = length bc" unfolding pre length_drop using room by linarith
      have tb1: "take (I * Z) b1 = take (N * Z) bc @ z" unfolding b1 by (rule take_append_exact [OF pre])
      define a' where "a' = c\<lparr>elements := idx + 1, buffer := Some (take (I * Z) b1 @ e @ drop (I * Z + Z) b1)\<rparr>"
      have p1: "put_bytes (N * Z) z c = Some (c\<lparr>buffer := Some b1\<rparr>)"
        using room nI by (simp add: put_bytes_def c(4) poke_def z_def b1_def)
      have "put_bytes (I * Z) e (c\<lparr>buffer := Some b1, elements := idx + 1\<rparr>) = Some a'"
        using room lb1 eZ by (simp add: put_bytes_def poke_def a'_def)
      then have "clear c = Some (False, a')" using p1 e by (simp add: clear_def c nz gz oi z_def)
      moreover have "unat (max_element c) < 2 ^ 32" using unsigned_less [of "max_element c", where 'a = nat] by simp
      then have "unat idx + unat (1 :: u32) < 2 ^ 32" using c(7) by (simp add: I_def)
      from u32_add [OF this] have i1: "unat (idx + 1) = Suc I" by (simp add: I_def)
      have "array_wf a'"
        using wf c room lb1 eZ i1 by (simp add: array_wf_def a'_def Z_def word_le_nat_alt)
      moreover have "items a' = items a @ replicate (I - N) (replicate Z 0) @ [e]"
      proof -
        have "items a' = items_in Z (N + (I - N) + 1) (take (N * Z) bc @ z @ (e @ drop (I * Z + Z) b1))"
          using i by (simp add: items_def a'_def i1 tb1 c(2) flip: Z_def)
        also have "\<dots> = items_in Z N bc @ items_in Z (I - N) z @ items_in Z 1 (e @ drop (I * Z + Z) b1)"
          by (rule items_replace) (use room nI in \<open>simp_all add: z_def\<close>)
        also have "items_in Z N bc = items a"
          using items_in_cong [OF c(8)] by (simp add: items_def b(1) flip: N_def Z_def)
        also have "items_in Z (I - N) z = replicate (I - N) (replicate Z 0)" by (simp add: z_def items_zero)
        also have "items_in Z 1 (e @ drop (I * Z + Z) b1) = [e]" using eZ by (simp add: items_in_def)
        finally show ?thesis .
      qed
      ultimately show ?thesis by blast
    qed
    have unfold: "ma_set_dynamic junk ok e idx a =
        (if idx < max_element a then clear a
         else let size = (idx + alloc_increment a) div alloc_increment a * alloc_increment a in
           if \<not> ok then Some (True, a)
           else clear (a\<lparr>buffer := Some (resize junk (unat (size * size_of_element a)) b), max_element := size\<rparr>))"
      using False e wf b(1) by (simp add: ma_set_dynamic_def Let_def clear_def array_wf_def)
    show ?thesis
    proof (cases "idx < max_element a")
      case True
      then have "I < M" by (simp add: word_less_nat_alt I_def M_def)
      with clear [of a b] b True unfold i len show ?thesis
        by (auto simp: M_def I_def Z_def intro!: exI [of _ False])
    next
      case grow: False
      show ?thesis
      proof (cases ok)
        case False
        with grow unfold wf show ?thesis by (intro exI [of _ True]) (auto simp: Let_def)
      next
        case True
        define sz where "sz = (idx + alloc_increment a) div alloc_increment a * alloc_increment a"
        have "I + J \<le> (I + J) * Z" using z by simp
        then have "I + J < 2 ^ 32" using ij by linarith
        then have "unat (idx + alloc_increment a) = I + J" by (simp add: u32_add I_def J_def)
        then have d: "unat ((idx + alloc_increment a) div alloc_increment a) = (I + J) div J" by (simp add: unat_div J_def)
        have sl: "(I + J) div J * J \<le> I + J" by simp
        with \<open>I + J < 2 ^ 32\<close> have "(I + J) div J * J < 2 ^ 32" by linarith
        then have s: "unat sz = (I + J) div J * J"
          using u32_mult [of "(idx + alloc_increment a) div alloc_increment a" "alloc_increment a"] d
          by (simp add: sz_def J_def)
        have "I + J < (I + J) div J * J + J" using j by (metis add.commute dividend_less_div_times mult.commute)
        then have big: "I < unat sz" using s by simp
        have "unat sz * Z \<le> (I + J) * Z" unfolding s by (rule mult_le_mono1 [OF sl])
        with ij have capl: "unat sz * Z < 2 ^ 32" by linarith
        with u32_mult [of sz "size_of_element a"] have cap: "unat (sz * size_of_element a) = unat sz * Z" by (simp add: Z_def)
        define c where "c = a\<lparr>buffer := Some (resize junk (unat sz * Z) b), max_element := sz\<rparr>"
        have "N * Z \<le> unat sz * Z" "N * Z \<le> M * Z" using big i nm by (intro mult_le_mono1; simp)+
        then have t: "take (N * Z) (resize junk (unat sz * Z) b) = take (N * Z) b" by (intro take_resize) (simp_all add: b(2))
        have "\<exists>a'. clear c = Some (False, a') \<and> array_wf a' \<and>
            items a' = items a @ replicate (I - N) (replicate Z 0) @ [e]"
          by (rule clear [of c "resize junk (unat sz * Z) b"]) (use capl big t in \<open>simp_all add: c_def\<close>)
        then obtain a' where a': "clear c = Some (False, a')" "array_wf a'"
          "items a' = items a @ replicate (I - N) (replicate Z 0) @ [e]" by blast
        have "ma_set_dynamic junk ok e idx a = Some (False, a')"
          using a'(1) grow True unfold by (simp add: Let_def c_def cap flip: sz_def)
        with a'(2,3) i len show ?thesis by (intro exI [of _ False] exI [of _ a']) (simp flip: I_def Z_def)
      qed
    qed
  qed
qed

section \<open>The string as a list of bytes\<close>

definition string_wf :: "DYNAMIC_STRING \<Rightarrow> bool" where
  "string_wf d \<longleftrightarrow> str_increment d \<noteq> 0 \<and> str_length d \<le> max_length d \<and>
     (\<exists>b. str_buf d = Some b \<and> length b = unat (max_length d))"

definition text_of :: "DYNAMIC_STRING \<Rightarrow> byte list" where
  "text_of d = take (unat (str_length d)) (the (str_buf d))"

definition zero_behind :: "DYNAMIC_STRING \<Rightarrow> bool" where
  "zero_behind d \<longleftrightarrow> unat (str_length d) < unat (max_length d) \<and> the (str_buf d) ! unat (str_length d) = 0"

text \<open>Rounding up to a multiple of the increment, with room for one more byte or not.\<close>

lemma u64_add: "unat x + unat y < 2 ^ 64 \<Longrightarrow> unat (x + y) = unat x + unat (y :: u64)"
  by (simp add: unat_word_ariths)

lemma u64_mult: "unat x * unat y < 2 ^ 64 \<Longrightarrow> unat (x * y) = unat x * unat (y :: u64)"
  by (simp add: unat_word_ariths)

lemma u64_round:
  assumes "inc \<noteq> 0" and "unat x < 2 ^ 64"
  shows "unat (x div inc * inc) = unat x div unat inc * unat (inc :: u64)"
    and "unat (x div inc * inc) \<le> unat x" and "unat x < unat (x div inc * inc) + unat inc"
proof -
  have le: "unat x div unat inc * unat inc \<le> unat x" by simp
  with assms(2) have "unat x div unat inc * unat inc < 2 ^ 64" by linarith
  then show eq: "unat (x div inc * inc) = unat x div unat inc * unat inc"
    using u64_mult [of "x div inc" inc] by (simp add: unat_div)
  show "unat (x div inc * inc) \<le> unat x" unfolding eq by (rule le)
  have "0 < unat inc" using assms(1) by (simp add: unat_gt_0)
  then show "unat x < unat (x div inc * inc) + unat inc"
    unfolding eq by (metis add.commute dividend_less_div_times mult.commute)
qed

lemma unat_up: "unat (ucast (w :: u32) :: u64) = unat w"
proof -
  have "unat w < 2 ^ 32" using unsigned_less [of w, where 'a = nat] by simp
  then show ?thesis by (simp add: unsigned_ucast_eq take_bit_nat_eq_self_iff)
qed

lemma unat_less_64: "unat (x :: u64) < 2 ^ 64"
  using unsigned_less [of x, where 'a = nat] by simp

text \<open>Writing the text and its zero into a buffer that has room.\<close>

lemma put_text:
  assumes "str_buf d = Some b" and "length b = unat (max_length d)" and "unat (str_length d) + length app < unat (max_length d)"
    and "len = of_nat (length app)"
  shows "\<exists>d'. Option.bind (put_str (unat (str_length d)) app d) (\<lambda>d.
      let d = d\<lparr>str_length := str_length d + len\<rparr> in map_option (Pair False) (put_str (unat (str_length d)) [0] d)) = Some (False, d') \<and>
    str_increment d' = str_increment d \<and> max_length d' = max_length d \<and> text_of d' = text_of d @ app \<and> zero_behind d' \<and>
    str_length d' \<le> max_length d' \<and> (\<exists>b'. str_buf d' = Some b' \<and> length b' = unat (max_length d'))"
proof -
  define N K where "N = unat (str_length d)" and "K = length app"
  have nk: "N + K < length b" using assms(2,3) by (simp add: N_def K_def)
  have "N + K < 2 ^ 64" using nk assms(2) unat_less_64 [of "max_length d"] by linarith
  moreover from this have "unat len = K" by (simp add: assms(4) unat_of_nat K_def)
  ultimately have l: "unat (str_length d + len) = N + K" using u64_add [of "str_length d" len] by (simp add: N_def)
  define b1 where "b1 = take N b @ app @ drop (N + K) b"
  have lb1: "length b1 = length b" using nk by (simp add: b1_def K_def)
  define b2 where "b2 = take (N + K) b1 @ [0] @ drop (N + K + 1) b1"
  have lb2: "length b2 = length b" using nk lb1 by (simp add: b2_def)
  have p1: "put_str N app d = Some (d\<lparr>str_buf := Some b1\<rparr>)" using nk by (simp add: put_str_def assms(1) poke_def b1_def K_def)
  define d' where "d' = d\<lparr>str_buf := Some b2, str_length := str_length d + len\<rparr>"
  have p2: "put_str (N + K) [0] (d\<lparr>str_buf := Some b1, str_length := str_length d + len\<rparr>) = Some d'"
    using nk lb1 by (simp add: put_str_def poke_def b2_def d'_def)
  have "take (N + K) b1 = take N b @ app"
  proof -
    have "length (take N b @ app) = N + K" using nk by (simp add: K_def)
    then show ?thesis unfolding b1_def append_assoc [symmetric] by (rule take_append_exact)
  qed
  then have b2: "b2 = (take N b @ app) @ 0 # drop (N + K + 1) b1" by (simp add: b2_def)
  have pre: "length (take N b @ app) = N + K" using nk by (simp add: K_def)
  have "text_of d' = take N b @ app" unfolding text_of_def using take_append_exact [OF pre] by (simp add: d'_def l b2)
  moreover have "b2 ! (N + K) = 0" unfolding b2 using pre by (metis nth_append_length)
  moreover have "text_of d = take N b" by (simp add: text_of_def assms(1) N_def)
  moreover have "str_length d' \<le> max_length d'" using nk assms(2) by (simp add: d'_def word_le_nat_alt l)
  ultimately show ?thesis
    using p1 p2 nk lb2 assms(2) by (intro exI [of _ d']) (simp add: Let_def l zero_behind_def flip: N_def, simp add: d'_def l)
qed

lemma ma_dynstr_append_mem_appends:
  assumes wf: "string_wf d" and small: "unat (str_length d) + length app + unat (str_increment d) < 2 ^ 64"
  shows "\<exists>failed d'. ma_dynstr_append_mem junk ok app d = Some (failed, d') \<and> string_wf d' \<and> (ok \<longrightarrow> \<not> failed) \<and>
    (if failed then d' = d else text_of d' = text_of d @ app \<and> zero_behind d')"
proof -
  obtain b where b: "str_buf d = Some b" "length b = unat (max_length d)" "str_length d \<le> max_length d" "str_increment d \<noteq> 0"
    using wf by (auto simp: string_wf_def)
  define len where "len = (of_nat (length app) :: u64)"
  have ul: "unat len = length app" using small by (simp add: len_def unat_of_nat)
  define wr where "wr = (\<lambda>d. Option.bind (put_str (unat (str_length d)) app d) (\<lambda>d.
      let d = d\<lparr>str_length := str_length d + len\<rparr> in map_option (Pair False) (put_str (unat (str_length d)) [0] d)))"
  have sum: "unat (str_length d + len) = unat (str_length d) + length app"
    using u64_add [of "str_length d" len] small ul by simp
  show ?thesis
  proof (cases "max_length d \<le> str_length d + len")
    case False
    then have room: "unat (str_length d) + length app < unat (max_length d)" using sum by (simp add: word_le_nat_alt)
    have "ma_dynstr_append_mem junk ok app d = wr d"
      using False by (simp add: ma_dynstr_append_mem_def wr_def Let_def flip: len_def)
    moreover obtain d' where d': "wr d = Some (False, d')" "str_increment d' = str_increment d" "text_of d' = text_of d @ app"
      "zero_behind d'" "str_length d' \<le> max_length d'" "\<exists>b'. str_buf d' = Some b' \<and> length b' = unat (max_length d')"
      using put_text [OF b(1,2) room len_def] unfolding wr_def by blast
    ultimately show ?thesis using b(4) by (intro exI [of _ False] exI [of _ d']) (simp add: string_wf_def)
  next
    case True
    show ?thesis
    proof (cases ok)
      case False
      then show ?thesis using True wf by (intro exI [of _ True]) (simp add: ma_dynstr_append_mem_def Let_def flip: len_def)
    next
      case ok: True
      define x where "x = str_length d + len + str_increment d"
      define n where "n = x div str_increment d * str_increment d"
      have ux: "unat x = unat (str_length d) + length app + unat (str_increment d)"
        using u64_add [of "str_length d + len" "str_increment d"] small sum by (simp add: x_def)
      note R = u64_round [OF b(4) unat_less_64, of x, folded n_def]
      have big: "unat (str_length d) + length app < unat n" using R(3) ux by linarith
      define g where "g = grow_str junk n d"
      have g: "str_buf g = Some (resize junk (unat n) b)" "max_length g = n" "str_length g = str_length d"
        "str_increment g = str_increment d" by (simp_all add: g_def grow_str_def b(1))
      have "unat (str_length d) \<le> length b" using b(2,3) by (simp add: word_le_nat_alt)
      then have tg: "text_of g = text_of d"
        using take_resize [of "unat (str_length d)" "unat n" b junk] big by (simp add: text_of_def g b(1))
      have ap: "ma_dynstr_append_mem junk ok app d = wr g"
        using True ok by (simp add: ma_dynstr_append_mem_def wr_def Let_def g_def n_def x_def flip: len_def)
      have "unat (str_length g) + length app < unat (max_length g)" using big by (simp add: g)
      from put_text [OF g(1) _ this len_def] obtain d' where d': "wr g = Some (False, d')" "str_increment d' = str_increment d"
        "text_of d' = text_of g @ app" "zero_behind d'" "str_length d' \<le> max_length d'"
        "\<exists>b'. str_buf d' = Some b' \<and> length b' = unat (max_length d')"
        unfolding wr_def g(4) by (auto simp: g)
      then show ?thesis using ap tg b(4) by (intro exI [of _ False] exI [of _ d']) (simp add: string_wf_def)
    qed
  qed
qed

text \<open>\<open>ma_dynstr_set\<close> replaces the text.\<close>

lemma ma_dynstr_set_sets:
  assumes wf: "string_wf d" and len: "length s + 1 < 2 ^ 32" and inc: "unat (str_increment d) < 2 ^ 63"
  shows "\<exists>failed d'. ma_dynstr_set junk ok (Some s) d = Some (failed, d') \<and> (ok \<longrightarrow> \<not> failed) \<and>
    (\<not> failed \<longrightarrow> string_wf d' \<and> text_of d' = s \<and> zero_behind d')"
proof -
  obtain b where b: "str_buf d = Some b" "length b = unat (max_length d)" "str_increment d \<noteq> 0"
    using wf by (auto simp: string_wf_def)
  define l32 where "l32 = (word_of_nat (length s + 1) :: u32)"
  define len where "len = (ucast l32 :: u64)"
  have l32: "unat l32 = length s + 1" "unat (l32 - 1) = length s"
  proof -
    show "unat l32 = length s + 1" unfolding l32_def using assms(2) by (simp only: unat_of_nat) simp
    have "l32 - 1 = word_of_nat (length s)" by (simp add: l32_def)
    then show "unat (l32 - 1) = length s" using assms(2) by (simp add: unat_of_nat)
  qed
  have ul: "unat len = length s + 1" using l32(1) by (simp add: len_def unat_up)
  have um: "unat (ucast (l32 - 1) :: u64) = length s" using l32(2) by (simp add: unat_up)
  define wr where "wr = (\<lambda>d. map_option (Pair False) (put_str 0 (take (unat len) (s @ [0])) (d\<lparr>str_length := ucast (l32 - 1)\<rparr>)))"
  have wr: "\<exists>d'. wr e = Some (False, d') \<and> string_wf d' \<and> text_of d' = s \<and> zero_behind d'"
    if e: "str_buf e = Some be" "length be = unat (max_length e)" "str_increment e \<noteq> 0" "length s < unat (max_length e)" for e be
  proof -
    define d' where "d' = e\<lparr>str_length := ucast (l32 - 1), str_buf := Some (s @ 0 # drop (length s + 1) be)\<rparr>"
    have "wr e = Some (False, d')" using e by (simp add: wr_def ul put_str_def poke_def d'_def)
    moreover have "string_wf d'" using e um by (simp add: string_wf_def d'_def word_le_nat_alt)
    ultimately show ?thesis using e um by (simp add: text_of_def zero_behind_def d'_def)
  qed
  have set: "ma_dynstr_set junk ok (Some s) d =
      (if max_length d < len then
         let n = (len + str_increment d - 1) div str_increment d * str_increment d; n = (if n = 0 then str_increment d else n) in
         if ok then wr (grow_str junk n d) else Some (True, d\<lparr>str_buf := None, max_length := n\<rparr>)
       else wr d)"
    unfolding ma_dynstr_set_def wr_def option.case Let_def l32_def [symmetric] len_def [symmetric] ..
  show ?thesis
  proof (cases "max_length d < len")
    case False
    then have "length s < unat (max_length d)" using ul by (simp add: word_less_nat_alt)
    with wr [of d b] b set False show ?thesis by (auto intro!: exI [of _ False])
  next
    case True
    define x where "x = len + str_increment d - 1"
    define n where "n = x div str_increment d * str_increment d"
    have i0: "0 < unat (str_increment d)" using b(3) by (simp add: unat_gt_0)
    have "unat (len + str_increment d) = length s + 1 + unat (str_increment d)"
      using u64_add [of len "str_increment d"] assms(2) inc ul by simp
    moreover from this have "len + str_increment d \<noteq> 0" by (metis add_is_0 unat_0 zero_neq_one)
    ultimately have ux: "unat x = length s + unat (str_increment d)" by (simp add: x_def unat_minus_one)
    have big: "length s < unat n" using u64_round(3) [OF b(3) unat_less_64, of x] ux by (simp add: n_def)
    then have n0: "n \<noteq> 0" by auto
    show ?thesis
    proof (cases ok)
      case False
      with True set n0 show ?thesis by (intro exI [of _ True]) (auto simp: Let_def)
    next
      case ok: True
      have "\<exists>d'. wr (grow_str junk n d) = Some (False, d') \<and> string_wf d' \<and> text_of d' = s \<and> zero_behind d'"
        by (rule wr [of _ "resize junk (unat n) b"]) (use b big in \<open>simp_all add: grow_str_def\<close>)
      moreover have "ma_dynstr_set junk ok (Some s) d = wr (grow_str junk n d)"
        using True ok set n0 by (simp add: Let_def flip: x_def n_def)
      ultimately show ?thesis by (auto intro!: exI [of _ False])
    qed
  qed
qed

text \<open>
  C37. \<open>ma_init_dynamic_string\<close> writes past its buffer (\<open>None\<close>) exactly when the text does not fit the
  initial allocation: when \<open>init_alloc\<close> is given and smaller than the text with its zero byte, or it is
  0 and the increment is smaller; the comparison that should enlarge the allocation is the wrong way
  round. In all other cases the new string holds the text with a zero behind.
\<close>

theorem init_string_overflow:
  assumes "length s + 1 < 2 ^ 32" and "unat alloc_inc < 2 ^ 63"
  shows "case ma_init_dynamic_string junk True (Some s) init_alloc alloc_inc of
      None \<Rightarrow> (if init_alloc = 0 then unat (if alloc_inc = 0 then 128 else alloc_inc) else unat init_alloc) < length s + 1
    | Some (failed, d) \<Rightarrow> \<not> failed \<and>
        length s + 1 \<le> (if init_alloc = 0 then unat (if alloc_inc = 0 then 128 else alloc_inc) else unat init_alloc) \<and>
        (\<exists>d'. d = Some d' \<and> string_wf d' \<and> text_of d' = s \<and> zero_behind d')"
proof -
  define inc where "inc = (if alloc_inc = 0 then 128 else alloc_inc)"
  have inc: "inc \<noteq> 0" "unat inc < 2 ^ 63" using assms(2) by (auto simp: inc_def)
  define l32 where "l32 = (word_of_nat (length s + 1) :: u32)"
  define len where "len = (ucast l32 :: u64)"
  have "unat l32 = length s + 1" unfolding l32_def using assms(1) by (simp only: unat_of_nat) simp
  then have ul: "unat len = length s + 1" by (simp add: len_def unat_up)
  have "l32 - 1 = word_of_nat (length s)" by (simp add: l32_def)
  then have um: "unat (ucast (l32 - 1) :: u64) = length s" using assms(1) by (simp add: unat_up unat_of_nat)
  have whole: "take (unat len) (s @ [0]) = s @ [0]" by (simp add: ul)
  define r where "r = (len + inc - 1) div inc * inc"
  define init where "init = (if (if len < init_alloc then r else init_alloc) = 0 then inc else if len < init_alloc then r else init_alloc)"
  have unfold: "ma_init_dynamic_string junk True (Some s) init_alloc alloc_inc =
      map_option (\<lambda>b. (False, Some \<lparr>str_buf = Some b, str_length = ucast (l32 - 1), max_length = init, str_increment = inc\<rparr>))
        (poke 0 (s @ [0]) (resize junk (unat init) []))"
    unfolding ma_init_dynamic_string_def Let_def option.case l32_def [symmetric] inc_def [symmetric] len_def [symmetric]
      r_def [symmetric] whole by (simp only: init_def simp_thms option.distinct if_True if_False)
  have i0: "0 < unat inc" using inc(1) by (simp add: unat_gt_0)
  have "unat (len + inc) = length s + 1 + unat inc" using u64_add [of len inc] assms(1) inc(2) ul by simp
  moreover from this have "len + inc \<noteq> 0" by (metis add_is_0 unat_0 zero_neq_one)
  ultimately have "unat (len + inc - 1) = length s + unat inc" by (simp add: unat_minus_one)
  then have r: "length s < unat r" using u64_round(3) [OF inc(1) unat_less_64, of "len + inc - 1"] by (simp add: r_def)
  then have r0: "r \<noteq> 0" by auto
  have fits: "(length s + 1 \<le> unat init) = (length s + 1 \<le> (if init_alloc = 0 then unat inc else unat init_alloc))"
    using r r0 ul by (auto simp: init_def word_less_nat_alt)
  show ?thesis
  proof (cases "length s + 1 \<le> unat init")
    case False
    then show ?thesis using fits unfolding unfold by (auto simp: poke_def simp flip: inc_def split: if_splits)
  next
    case True
    define d where "d = \<lparr>str_buf = Some (s @ 0 # drop (length s + 1) (resize junk (unat init) [])), str_length = ucast (l32 - 1),
      max_length = init, str_increment = inc\<rparr>"
    have "ma_init_dynamic_string junk True (Some s) init_alloc alloc_inc = Some (False, Some d)"
      using True unfolding unfold by (simp add: poke_def d_def)
    moreover have "string_wf d" "text_of d = s" "zero_behind d"
      using True um inc(1) by (simp_all add: string_wf_def text_of_def zero_behind_def d_def word_le_nat_alt)
    ultimately show ?thesis using True fits by (auto simp flip: inc_def split: if_splits)
  qed
qed

lemma init_string_overflow_witness:
  "ma_init_dynamic_string (\<lambda>_. 0) True (Some (replicate 200 0x61)) 0 0 = None"
  using init_string_overflow [where s = "replicate 200 0x61" and junk = "\<lambda>_. 0" and init_alloc = 0 and alloc_inc = 0] by (auto split: option.splits)

end
