(* ===== verification/Ma_Ll2str.thy ===== *)
theory Ma_Ll2str
  imports Prelude
begin

text \<open>
  \<open>libmariadb/ma_ll2str.c\<close>: a 64-bit integer as text in any base from 2 to 36, signed where the radix is
  given as a negative number. The digits are taken from the right into a buffer of 65 bytes; while the
  value exceeds what fits a \<open>long\<close> (32 bits on the target) the division is one of 64 bits. The text is shown
  to be the positional notation, to read back as the number, and to fit the buffer.
\<close>

section \<open>The routine\<close>

definition dig_vec :: "byte list" where
  "dig_vec = bytes_of ''0123456789ABCDEFGHIJKLMNOPQRSTUVWXYZ''"

definition LONG_MAX :: u64 where "LONG_MAX = 0x7FFFFFFF"

text \<open>The two loops. \<open>p\<close> is the part of the buffer that is filled, from the right. The divisor is
  at least 2 where they are called, and then they end; for smaller ones the value is left alone.\<close>

function ull_loop :: "u64 \<Rightarrow> u64 \<Rightarrow> byte list \<Rightarrow> u64 \<times> byte list" where
  "ull_loop radix v p =
     (if LONG_MAX < v \<and> 2 \<le> radix
      then let quo = v div radix; rem = v - quo * radix in ull_loop radix quo (dig_vec ! unat rem # p)
      else (v, p))"
  by pat_completeness auto
termination
  by (relation "measure (\<lambda>(r, v, p). unat v)")
    (auto simp: unat_div LONG_MAX_def word_less_nat_alt word_le_nat_alt intro!: div_less_dividend)

lemma sint_quo:
  fixes r lv :: i32
  assumes "0 \<le> sint lv" and "2 \<le> sint r"
  shows "sint (word_of_int (sint lv div sint r) :: i32) = sint lv div sint r"
proof -
  have "sint lv div sint r \<le> sint lv" using assms zdiv_mono2 [of "sint lv" 1 "sint r"] by simp
  moreover have "0 \<le> sint lv div sint r" using assms by (simp add: pos_imp_zdiv_nonneg_iff)
  moreover have "sint lv < 2 ^ 31" using sint_less [of lv] by simp
  ultimately show ?thesis by (simp add: signed_of_int signed_take_bit_int_eq_self)
qed

function long_loop :: "i32 \<Rightarrow> i32 \<Rightarrow> byte list \<Rightarrow> byte list" where
  "long_loop radix lv p =
     (if lv \<noteq> 0 \<and> 0 < sint lv \<and> 2 \<le> sint radix
      then let quo = word_of_int (sint lv div sint radix) in
        long_loop radix quo (dig_vec ! unat (lv - quo * radix) # p)
      else p)"
  by pat_completeness auto
termination
proof (relation "measure (\<lambda>(r, lv, p). nat (sint lv))")
  fix r lv quo :: i32 and p
  assume a: "lv \<noteq> 0 \<and> 0 < sint lv \<and> 2 \<le> sint r" and quo: "quo = word_of_int (sint lv div sint r)"
  then have "sint quo = sint lv div sint r" using sint_quo [of lv r] by simp
  moreover have "sint lv div sint r < sint lv" using a by (intro int_div_less_self) auto
  ultimately show "((r, quo, dig_vec ! unat (lv - quo * r) # p), r, lv, p) \<in> measure (\<lambda>(r, lv, p). nat (sint lv))"
    using a by simp
qed simp

text \<open>The text without its zero byte; \<open>None\<close> is the null pointer for a radix that is none. In C the
  operand of a negative radix is negated as an \<open>unsigned\<close> number, so that the least one is right too.\<close>

definition ma_ll2str :: "u64 \<Rightarrow> i32 \<Rightarrow> byte list option" where
  "ma_ll2str v radix =
     (if sint radix < 0 then
        if sint radix < -36 \<or> -2 < sint radix then None
        else
          let (sign, v) = (if sint v < 0 then ([0x2D], - v) else ([], v)); radix = - radix in
          if v = 0 then Some (sign @ [0x30])
          else case ull_loop (ucast radix) v [] of (v, p) \<Rightarrow> Some (sign @ long_loop radix (ucast v) p)
      else
        if 36 < sint radix \<or> sint radix < 2 then None
        else if v = 0 then Some [0x30]
        else case ull_loop (ucast radix) v [] of (v, p) \<Rightarrow> Some (long_loop radix (ucast v) p))"

section \<open>Positional notation\<close>

text \<open>The digits of a number, and the number of digits read with \<open>char_val\<close>.\<close>

definition digit_char :: "nat \<Rightarrow> byte" where
  "digit_char d = dig_vec ! d"

fun digits :: "nat \<Rightarrow> nat \<Rightarrow> byte list" where
  "digits r n = (if n < r \<or> r < 2 then [digit_char n] else digits r (n div r) @ [digit_char (n mod r)])"

definition char_val :: "byte \<Rightarrow> nat" where
  "char_val x = (if 0x30 \<le> x \<and> x \<le> 0x39 then unat x - 0x30
     else if 0x41 \<le> x \<and> x \<le> 0x5A then unat x - 0x41 + 10
     else if 0x61 \<le> x \<and> x \<le> 0x7A then unat x - 0x61 + 10
     else 127)"

definition text_value :: "nat \<Rightarrow> byte list \<Rightarrow> nat" where
  "text_value r ds = foldl (\<lambda>n d. n * r + char_val d) 0 ds"

declare digits.simps [simp del] ull_loop.simps [simp del] long_loop.simps [simp del]

lemma digits_small: "n < r \<Longrightarrow> digits r n = [digit_char n]"
  by (simp add: digits.simps)

lemma digits_step: "r \<le> n \<Longrightarrow> 2 \<le> r \<Longrightarrow> digits r n = digits r (n div r) @ [digit_char (n mod r)]"
  by (subst digits.simps) simp

lemma long_loop_digits:
  fixes r :: i32
  assumes "2 \<le> sint r"
  shows "0 < sint lv \<Longrightarrow> long_loop r lv p = digits (nat (sint r)) (nat (sint lv)) @ p"
proof (induction "nat (sint lv)" arbitrary: lv p rule: less_induct)
  case less
  define R V where "R = nat (sint r)" and "V = nat (sint lv)"
  have rv: "sint r = int R" "sint lv = int V" "2 \<le> R" "0 < V" using assms less.prems by (simp_all add: R_def V_def)
  define quo :: i32 where "quo = word_of_int (sint lv div sint r)"
  have q: "sint quo = int (V div R)" using sint_quo [of lv r] less.prems assms unfolding quo_def by (simp add: rv zdiv_int)
  have "int V - int (V div R) * int R = int (V mod R)"
    using minus_div_mult_eq_mod [of "int V" "int R"] by (simp only: zdiv_int zmod_int)
  moreover have "lv - quo * r = word_of_int (sint lv - sint quo * sint r)" by simp
  ultimately have "lv - quo * r = word_of_int (int (V mod R))" by (simp only: q rv(1,2))
  then have "unat (lv - quo * r) = take_bit 32 (V mod R)" by (simp add: unsigned_of_nat)
  moreover have "V mod R < 2 ^ 32"
  proof -
    have "int V < 2 ^ 31" using sint_less [of lv] rv(2) by simp
    then have "V < 2 ^ 31" by (simp add: zless_nat_eq_int_zless flip: of_nat_less_iff)
    then show ?thesis by (intro le_less_trans [OF mod_less_eq_dividend]) simp
  qed
  ultimately have rem: "unat (lv - quo * r) = V mod R" by (simp add: take_bit_nat_eq_self_iff)
  have lv: "lv \<noteq> 0" using less.prems by auto
  have step: "long_loop r lv p = long_loop r quo (digit_char (V mod R) # p)"
    using less.prems assms lv by (subst long_loop.simps) (simp add: Let_def quo_def [symmetric] rem digit_char_def)
  show ?case
  proof (cases "V < R")
    case True
    then have "quo = 0" using q by (simp add: signed_eq_0_iff)
    then have "long_loop r quo (digit_char (V mod R) # p) = digit_char (V mod R) # p" by (subst long_loop.simps) simp
    with step True show ?thesis by (simp add: digits_small flip: R_def V_def)
  next
    case False
    then have "0 < V div R" using rv(3) by (simp add: div_greater_zero_iff)
    then have "0 < sint quo" "nat (sint quo) < nat (sint lv)" using q rv by simp_all
    from less.hyps [OF this(2,1)] q have "long_loop r quo (digit_char (V mod R) # p) = digits R (V div R) @ digit_char (V mod R) # p"
      by (simp add: R_def)
    with step False rv(3) show ?thesis by (simp add: digits_step flip: R_def V_def)
  qed
qed

lemma ull_loop_digits:
  assumes "2 \<le> unat r" and "unat r \<le> 36"
  shows "0 < unat v \<Longrightarrow> ull_loop r v p = (v', p') \<Longrightarrow>
    0 < unat v' \<and> unat v' < 2 ^ 31 \<and> digits (unat r) (unat v) @ p = digits (unat r) (unat v') @ p'"
proof (induction "unat v" arbitrary: v p rule: less_induct)
  case less
  define quo where "quo = v div r"
  define rem where "rem = v - quo * r"
  have q: "unat quo = unat v div unat r" by (simp add: quo_def unat_div)
  have "rem = v mod r" by (simp add: rem_def quo_def minus_div_mult_eq_mod)
  then have rem: "unat rem = unat v mod unat r" by (simp add: unat_mod)
  have unfold: "ull_loop r v p = (if LONG_MAX < v \<and> 2 \<le> r then ull_loop r quo (dig_vec ! unat rem # p) else (v, p))"
    by (subst ull_loop.simps) (simp add: Let_def quo_def rem_def)
  have r2: "2 \<le> r" using assms(1) by (simp add: word_le_nat_alt)
  show ?case
  proof (cases "LONG_MAX < v")
    case True
    then have big: "2 ^ 31 \<le> unat v" by (simp add: LONG_MAX_def word_less_nat_alt)
    then have rv: "unat r \<le> unat v" using assms(2) by simp
    then have "0 < unat v div unat r" using assms(1) by (simp add: div_greater_zero_iff)
    moreover have "unat v div unat r < unat v" using assms(1) less.prems(1) by (intro div_less_dividend) auto
    moreover have "ull_loop r quo (digit_char (unat v mod unat r) # p) = (v', p')"
      using less.prems(2) True r2 unfold by (simp add: rem digit_char_def)
    ultimately have "0 < unat v' \<and> unat v' < 2 ^ 31 \<and>
        digits (unat r) (unat quo) @ digit_char (unat v mod unat r) # p = digits (unat r) (unat v') @ p'"
      by (intro less.hyps) (simp_all add: q)
    with rv assms(1) show ?thesis by (simp add: digits_step q)
  next
    case False
    then have "unat v < 2 ^ 31" by (simp add: LONG_MAX_def word_less_nat_alt)
    with False less.prems unfold show ?thesis by simp
  qed
qed

text \<open>Both loops together give the digits of the value.\<close>

lemma both_loops:
  fixes radix :: i32
  assumes "2 \<le> sint radix" and "sint radix \<le> 36" and "v \<noteq> 0"
  shows "(case ull_loop (ucast radix) v [] of (v, p) \<Rightarrow> long_loop radix (ucast v) p) = digits (nat (sint radix)) (unat v)"
proof -
  obtain v' p' where l: "ull_loop (ucast radix) v [] = (v', p')" by fastforce
  have "radix = word_of_nat (nat (sint radix))" using assms(1) by (simp add: of_nat_nat)
  moreover have "unat (ucast (word_of_nat m :: i32) :: u64) = m" if "m \<le> 36" for m
    using that by (simp add: unsigned_ucast_eq unsigned_of_nat take_bit_nat_eq_self_iff)
  ultimately have r: "unat (ucast radix :: u64) = nat (sint radix)" using assms(2) by (metis nat_le_iff of_nat_numeral)
  have "0 < unat v" using assms(3) by (simp add: unat_gt_0)
  from ull_loop_digits [OF _ _ this l] r assms(1,2) have
    d: "0 < unat v'" "unat v' < 2 ^ 31" "digits (nat (sint radix)) (unat v) = digits (nat (sint radix)) (unat v') @ p'" by auto
  have "sint (word_of_nat N :: i32) = int N" if "N < 2 ^ 31" for N
    using that by (simp add: signed_of_nat signed_take_bit_int_eq_self)
  from this [OF d(2)] have "sint (ucast v' :: i32) = int (unat v')" by simp
  moreover have "0 < sint (ucast v' :: i32)" "nat (sint (ucast v' :: i32)) = unat v'"
    using d(1) \<open>sint (ucast v' :: i32) = int (unat v')\<close> by (simp_all only: of_nat_0_less_iff nat_int)
  ultimately show ?thesis using long_loop_digits [OF assms(1), of "ucast v'" p'] d(3) l by simp
qed

section \<open>Reading back\<close>

lemma char_val_digit: "d < 36 \<Longrightarrow> char_val (digit_char d) = d"
proof -
  assume "d < 36"
  moreover have "list_all (\<lambda>d. char_val (digit_char d) = d) [0..<36]" by code_simp
  ultimately show ?thesis by (auto simp: list_all_iff)
qed

lemma text_value_snoc [simp]: "text_value r (ds @ [d]) = text_value r ds * r + char_val d"
  by (simp add: text_value_def)

lemma digits_value: "2 \<le> r \<Longrightarrow> r \<le> 36 \<Longrightarrow> text_value r (digits r n) = n"
proof (induction r n rule: digits.induct)
  case (1 r n)
  show ?case
  proof (cases "n < r")
    case True
    with 1 show ?thesis using char_val_digit [of n] by (simp add: digits_small text_value_def)
  next
    case False
    have "n mod r < 36" using 1(2,3) by (intro less_le_trans [OF mod_less_divisor]) auto
    with False 1 show ?thesis using char_val_digit by (simp add: digits_step)
  qed
qed

lemma length_digits: "n < 2 ^ k \<Longrightarrow> 0 < k \<Longrightarrow> 2 \<le> r \<Longrightarrow> length (digits r n) \<le> k"
proof (induction r n arbitrary: k rule: digits.induct)
  case (1 r n)
  show ?case
  proof (cases "n < r")
    case True
    with 1 show ?thesis by (simp add: digits_small)
  next
    case False
    then obtain j where k: "k = Suc j" "0 < j"
      using 1(2-4) by (cases k; cases "k - 1") auto
    have "n div r \<le> n div 2" using 1(4) by (simp add: div_le_mono2)
    also have "\<dots> < 2 ^ j" using 1(2) k by simp
    finally have "length (digits r (n div r)) \<le> j" using 1 False k by auto
    with False 1(4) k show ?thesis by (simp add: digits_step)
  qed
qed

lemma digits_head: "2 \<le> r \<Longrightarrow> r \<le> 36 \<Longrightarrow> 0 < n \<Longrightarrow> char_val (hd (digits r n)) \<noteq> 0"
proof (induction r n rule: digits.induct)
  case (1 r n)
  show ?case
  proof (cases "n < r")
    case True
    with 1 show ?thesis using char_val_digit [of n] by (simp add: digits_small)
  next
    case False
    then have "0 < n div r" using 1(2) by (simp add: div_greater_zero_iff)
    moreover have "digits r (n div r) \<noteq> []" by (subst digits.simps) simp
    ultimately show ?thesis using 1 False by (simp add: digits_step)
  qed
qed

text \<open>The value a text stands for, with the sign of a negative radix.\<close>

definition signed_value :: "nat \<Rightarrow> byte list \<Rightarrow> int" where
  "signed_value r t = (if t \<noteq> [] \<and> hd t = 0x2D then - int (text_value r (tl t)) else int (text_value r t))"

lemma digits_no_sign: "2 \<le> r \<Longrightarrow> r \<le> 36 \<Longrightarrow> digits r n \<noteq> [] \<and> hd (digits r n) \<noteq> 0x2D"
proof (induction r n rule: digits.induct)
  case (1 r n)
  show ?case
  proof (cases "n < r")
    case True
    have "list_all (\<lambda>d. digit_char d \<noteq> 0x2D) [0..<36]" by code_simp
    with True 1 show ?thesis by (auto simp: digits_small list_all_iff)
  next
    case False
    with 1 show ?thesis by (simp add: digits_step)
  qed
qed

lemma ll2str_unsigned:
  assumes "2 \<le> sint radix" and "sint radix \<le> 36"
  shows "ma_ll2str v radix = Some (digits (nat (sint radix)) (unat v))"
proof (cases "v = 0")
  case True
  have "digit_char 0 = 0x30" by code_simp
  with True assms show ?thesis by (simp add: ma_ll2str_def digits_small)
next
  case False
  with both_loops [OF assms False] assms show ?thesis by (simp add: ma_ll2str_def split: prod.splits)
qed

lemma uint_u64: "uint (word_of_int k :: u64) = take_bit 64 k"
  by (simp add: unsigned_of_int)

lemma unat_abs: "unat (if sint v < 0 then - v else v) = nat \<bar>sint (v :: u64)\<bar>"
proof (cases "sint v < 0")
  case True
  have "- (2 ^ 63) \<le> sint v" using sint_ge [of v] by simp
  then have "take_bit 64 (- sint v) = - sint v" using True by (intro take_bit_int_eq_self) simp_all
  moreover note uint_u64 [of "- sint v"]
  moreover have "(word_of_int (- sint v) :: u64) = - v" by simp
  ultimately have "uint (- v) = - sint v" by simp
  then have "unat (- v) = nat (- sint v)" by (simp only: flip: nat_uint_eq)
  with True show ?thesis by simp
next
  case False
  then have "take_bit 64 (sint v) = sint v" using sint_less [of v] by (intro take_bit_int_eq_self) simp_all
  moreover note uint_u64 [of "sint v"]
  ultimately have "uint v = sint v" by simp
  then have "unat v = nat (sint v)" by (simp only: flip: nat_uint_eq)
  with False show ?thesis by simp
qed

lemma ll2str_signed:
  assumes "- 36 \<le> sint radix" and "sint radix \<le> - 2"
  shows "ma_ll2str v radix = Some ((if sint v < 0 then [0x2D] else []) @ digits (nat (- sint radix)) (nat \<bar>sint v\<bar>))"
proof -
  have m: "sint (- radix) = - sint radix"
  proof -
    have "sint (word_of_int k :: i32) = k" if "2 \<le> k" "k \<le> 36" for k
      using that by (simp add: signed_of_int signed_take_bit_int_eq_self)
    from this [of "- sint radix"] assms show ?thesis by simp
  qed
  define w where "w = (if sint v < 0 then - v else v)"
  have w: "unat w = nat \<bar>sint v\<bar>" unfolding w_def by (rule unat_abs)
  have z: "digit_char 0 = 0x30" by code_simp
  have r: "2 \<le> sint (- radix)" "sint (- radix) \<le> 36" using assms m by simp_all
  show ?thesis
  proof (cases "w = 0")
    case True
    then have "v = 0" by (simp add: w_def split: if_splits)
    with assms z show ?thesis by (simp add: ma_ll2str_def digits_small)
  next
    case False
    from both_loops [OF r this] show ?thesis
      using assms False w m by (auto simp: ma_ll2str_def w_def split: prod.splits if_splits)
  qed
qed

text \<open>
  C36. An integer printed by \<open>ma_ll2str\<close> reads back. For every 64-bit value and every radix from 2 to 36,
  positive (the value is unsigned) or negative (it is signed), the text denotes the value in that base,
  its digits do not start with a zero unless it is zero, and the digits and the final zero byte
  fit the buffer of 65 bytes the routine works in; for any other radix it returns the null pointer.
\<close>

theorem ll2str_reads_back:
  "case ma_ll2str v radix of
     None \<Rightarrow> \<not> (2 \<le> \<bar>sint radix\<bar> \<and> \<bar>sint radix\<bar> \<le> 36)
   | Some t \<Rightarrow> 2 \<le> \<bar>sint radix\<bar> \<and> \<bar>sint radix\<bar> \<le> 36 \<and>
       signed_value (nat \<bar>sint radix\<bar>) t = (if sint radix < 0 then sint v else uint v) \<and>
       (let ds = (if hd t = 0x2D then tl t else t) in
          (v \<noteq> 0 \<longrightarrow> char_val (hd ds) \<noteq> 0) \<and> length ds + 1 \<le> 65)"
proof (cases "2 \<le> \<bar>sint radix\<bar> \<and> \<bar>sint radix\<bar> \<le> 36")
  case False
  then show ?thesis by (auto simp: ma_ll2str_def split: if_splits)
next
  case True
  define r where "r = nat \<bar>sint radix\<bar>"
  have r: "2 \<le> r" "r \<le> 36" using True by (auto simp: r_def)
  define n where "n = (if sint radix < 0 then nat \<bar>sint v\<bar> else unat v)"
  have n: "n = unat (if sint radix < 0 \<and> sint v < 0 then - v else v)" using unat_abs [of v] by (auto simp: n_def)
  have "unat w < 2 ^ 64" for w :: u64 using unsigned_less [of w, where 'a = nat] by simp
  from this n have n64: "n < 2 ^ 64" by (simp only:)
  have n0: "0 < n" if "v \<noteq> 0" using n that by (auto simp: unat_gt_0)
  define neg where "neg \<longleftrightarrow> sint radix < 0 \<and> sint v < 0"
  have t: "ma_ll2str v radix = Some ((if neg then [0x2D] else []) @ digits r n)"
    using ll2str_unsigned [of radix v] ll2str_signed [of radix v] True by (auto simp: neg_def r_def n_def)
  note D = digits_no_sign [OF r, of n] digits_value [OF r, of n] length_digits [OF n64 _ r(1)] digits_head [OF r, of n]
  have "signed_value r ((if neg then [0x2D] else []) @ digits r n) = (if neg then - int n else int n)"
    using D(1,2) by (simp add: signed_value_def)
  also have "\<dots> = (if sint radix < 0 then sint v else uint v)" by (auto simp: neg_def n_def)
  finally have val: "signed_value r ((if neg then [0x2D] else []) @ digits r n) = (if sint radix < 0 then sint v else uint v)" .
  show ?thesis using True val D n0 by (simp add: t Let_def flip: r_def)
qed

lemma ll2str_reads_back_witness:
  "\<exists>t. ma_ll2str (- 255) (- 16) = Some t \<and> signed_value 16 t = - 255 \<and>
    char_val (hd (if hd t = 0x2D then tl t else t)) \<noteq> 0"
  using ll2str_reads_back [where v = "- 255" and radix = "- 16"]
  by (cases "ma_ll2str (- 255) (- 16)") (simp_all add: Let_def)

end
