(* ===== verification/Spec2Isabelle.thy ===== *)
theory Spec2Isabelle
  imports Main_Loop Bt_Init Gui_Toast Json_Parser Murmur Ma_Literal Ma_Net Ma_Hash_Update Db_Connect Db_Shape
    Ma_List Ma_Alloc Ma_Dynamic Ma_Ll2str
begin

text \<open>
  Verification library of the scouting application's main computer program.

  The program collects match data from tablets over Bluetooth, parses it as JSON, stores it in a
  MariaDB database and shows its state in a raylib window. Its own code is \<open>src/src/main.cpp\<close> and
  \<open>src/src/myincludes\<close>; the sources of the MariaDB client library it is built with are under
  \<open>src/src/include/mysql/libmariadb\<close>. The target is 64-bit Windows: \<open>char\<close> is signed, \<open>int\<close> and
  \<open>long\<close> have 32 bits, \<open>size_t\<close> has 64.

  Data flow and theories:
  \<^item> Prelude: bytes, strings, little-endian integers and decimal text shared by all parts.
  \<^item> Bt_Socket, Bt_Link: \<open>bluetooth/btTabObj.hpp\<close>. A socket is a script of answers of
    \<open>recv\<close> and \<open>send\<close> with the readings of the clock; the operations are the reads and writes with
    their time-out, the acknowledgements and the size-prefixed exchange. The lemmas show what is
    read is a prefix of the stream however it is cut, that writing and reading are inverse, and that
    a silent tablet cannot hang the program.
  \<^item> Murmur: \<open>murmurHash2Neutral.hpp\<close>, the hash the tablets compare, against a reference.
  \<^item> Json_Parser: \<open>jsonParser.hpp\<close> and the parts of \<open>json.hpp\<close> it uses.
  \<^item> Bt_Conductor, Bt_Manager, Bt_Frames: \<open>bluetooth/bluetoothConductor.hpp\<close>,
    \<open>bluetoothTransaction.hpp\<close> and \<open>bluetooth.hpp\<close>. Tablets are objects with an address, a
    transaction holds a future and a pointer to its tablet; moving an object gives it another
    identity, so a pointer that dangles is one that finds nothing. The lemmas show which runs are
    safe, what a match that is sent or a tablet that leaves comes to over the frames, and which
    failures escape as exceptions.
  \<^item> Bt_Init, Win_Error: the start of the server, and \<open>winsockErrorDesc.hpp\<close>, the table of error
    texts it uses; the theorem tells which failures of Windows stop the program.
  \<^item> Gui_Toast: the queue of messages of \<open>guiHandler/toastHandler.hpp\<close>, in order and none for ever
    waiting.
  \<^item> Gui_Input: \<open>button.hpp\<close>, \<open>toggle.hpp\<close> and \<open>textBox.hpp\<close>, the text box refining a line editor.
  \<^item> Ma_Charset, Ma_Charset_Table, Ma_Escape, Ma_Literal: \<open>libmariadb/ma_charset.c\<close>, the
    character sets, their tables, the escaping of values and what an SQL literal reads back as.
  \<^item> Ma_Net: \<open>ma_net.c\<close> and \<open>ma_pvio.c\<close>, packets over a byte stream with a read-ahead cache.
  \<^item> Ma_Result: \<open>mariadb_lib.c\<close>, statements, answers and unbuffered result sets.
  \<^item> Ma_Sha1, Ma_Auth, Ma_Login: \<open>ma_sha1.c\<close>, shown to be SHA-1; \<open>ma_password.c\<close>,
    \<open>plugins/auth/my_auth.c\<close> and \<open>mysql_real_connect\<close>, the login up to the connection the queries
    start from; and a server after the protocol, against which the login is shown to succeed with
    the right password, to fail cleanly otherwise, and never to write past its buffer.
  \<^item> Db_Query, Db_Statements: \<open>database.hpp\<close> and \<open>DatabaseMan.hpp\<close> over the two parts above, and
    what runs of statements that return no rows do.
  \<^item> Db_Connect: the constructor of \<open>Database\<close>, and what the parts that open a connection for
    themselves get from it; with Bt_Frames it gives the way of a match from the tablet's bytes through
    the parser and the login to the rows of the database.
  \<^item> Db_Shape: the calls of \<open>Database\<close> against a server that may send anything.
  \<^item> Rest_Requests: \<open>restReqHandler.hpp\<close>, the requests, the files written from their answers and
    that the tablets get them.
  \<^item> Main_Actions, Main_Loop: \<open>main.cpp\<close>, what each button does and one turn of the loop over the
    scenes; \<open>frame\<close> composes the parts above in the order of the code, and the states at the start of
    a frame are an inductive predicate with its invariant.
  \<^item> Ma_Hash, Ma_Hash_Chains, Ma_Hash_Insert, Ma_Hash_Delete, Ma_Hash_Bag, Ma_Hash_Update:
    \<open>ma_hash.c\<close>, the linear-hashing table of the client library. The array is described by the
    buckets of its homes; the lemmas follow a place through the splitting and joining of chains and
    end in a refinement: the table is a bag of records. The last theory tells when \<open>hash_update\<close>
    keeps it one.
  \<^item> Ma_List, Ma_Alloc, Ma_Dynamic, Ma_Ll2str: the containers of the client library and its integer
    printing. \<open>ma_list.c\<close> works on a store of elements with addresses, and any run of its operations
    is one on a list; \<open>ma_alloc.c\<close> cuts blocks into pieces that never overlap; \<open>ma_array.c\<close> and
    \<open>ma_string.c\<close> are buffers in which a write outside is \<open>None\<close>; \<open>ma_ll2str.c\<close> is positional notation.

  Undefined behaviour of the C++ code (a read outside an object, a null function pointer, an
  argument that was not passed) is the value \<open>None\<close> of an operation; failures the code reports are
  flags, \<open>Inl\<close> values or empty results as in the code. Environment: the answers of the sockets
  and the clock are scripts inside the state, and running out of script is \<open>None\<close>; memory
  allocation is a predicate where the code tests it and depends on an untrusted size, and succeeds
  elsewhere; the database server and \<open>json::parse\<close> are parameters.

  Bounds: loops over lists and buffers are total, by a measure. Loops along the links of the
  hash table have fuel, one more than the number of records, and \<open>None\<close> when it runs out; for
  well-formed tables it never does in a search, an insert or a delete, as the refinement shows.

  Not modelled: drawing and window handling (raylib calls and floating-point layout), the game,
  the QR code, libcurl (a parameter, as chunks of an answer and a result code), TLS, compression
  and the asynchronous interface of the client library, its prepared statements and dynamic
  columns, and third-party headers.
\<close>

end
